(* ===== verification/Prelude.thy ===== *)
theory Prelude
  imports Complex_Main "HOL-Library.Sublist"
begin

text \<open>
  Prelude of the development: the collections its automation is organised in, and the generic
  facts on functions, lists and sequences that several components use.

  \<^item> \<open>frame\<close>: equations saying which part of the state an operation leaves alone;
  \<^item> \<open>pres\<close>: introduction rules saying that an operation keeps an invariant.
\<close>

named_theorems frame "what an operation leaves unchanged"
named_theorems pres "operations that keep an invariant"

subsection \<open>Sums as results\<close>

text \<open>A result is an error on the left or a value on the right; \<open>is_ok\<close> tells them apart.\<close>

abbreviation is_ok :: "'e + 'a \<Rightarrow> bool" where
  "is_ok r \<equiv> (case r of Inl _ \<Rightarrow> False | Inr _ \<Rightarrow> True)"

lemma is_okE:
  assumes "is_ok r"
  obtains a where "r = Inr a"
  using assms by (cases r) auto

subsection \<open>Point updates of a total store\<close>

definition modify :: "('a \<Rightarrow> 'b) \<Rightarrow> 'a \<Rightarrow> ('b \<Rightarrow> 'b) \<Rightarrow> 'a \<Rightarrow> 'b" where
  "modify h a f = h(a := f (h a))"

lemma modify_same [simp]: "modify h a f a = f (h a)"
  by (simp add: modify_def)

lemma modify_other [simp]: "b \<noteq> a \<Longrightarrow> modify h a f b = h b"
  by (simp add: modify_def)

lemma modify_apply: "modify h a f b = (if b = a then f (h a) else h b)"
  by (simp add: modify_def)

lemma modify_modify [simp]: "modify (modify h a f) a g = modify h a (\<lambda>x. g (f x))"
  by (auto simp: modify_def)

lemma modify_id [simp]: "modify h a (\<lambda>x. x) = h"
  by (simp add: modify_def)

subsection \<open>Ascending sequences\<close>

text \<open>
  \<open>ascending xs\<close> is strict growth. Appending a new maximum keeps it, and so does dropping
  elements: the two facts behind every ordering theorem on deliveries.
\<close>

abbreviation ascending :: "'a::linorder list \<Rightarrow> bool" where
  "ascending xs \<equiv> sorted_wrt (<) xs"

lemma ascending_snoc:
  "ascending (xs @ [x]) \<longleftrightarrow> ascending xs \<and> (\<forall>y \<in> set xs. y < x)"
  by (simp add: sorted_wrt_append)

lemma subseq_set: "subseq xs ys \<Longrightarrow> set xs \<subseteq> set ys"
  by (induction rule: list_emb.induct) auto

lemma ascending_subseq: "subseq xs ys \<Longrightarrow> ascending ys \<Longrightarrow> ascending xs"
  by (induction rule: list_emb.induct) (auto dest: subseq_set)

lemma subseq_snoc_same: "subseq xs ys \<Longrightarrow> subseq (xs @ [x]) (ys @ [x])"
  by (rule list_emb_append_mono) auto

lemma subseq_snoc_drop: "subseq xs ys \<Longrightarrow> subseq xs (ys @ [y])"
  by (induction rule: list_emb.induct) auto

end
