(* ===== verification/Store_Types.thy ===== *)
theory Store_Types
  imports Prelude "HOL-Library.Finite_Map" "HOL-Library.Char_ord" "HOL-Library.List_Lexorder"
begin

text \<open>
  The data every layer exchanges: \<^verbatim>\<open>internal/store/store.go\<close> (scopes, rows, changefeed events, the
  store's sentinel errors), the key and definition types of \<^verbatim>\<open>internal/engine/registry.go\<close>, and the
  engine's own sentinel errors (\<^verbatim>\<open>internal/engine/errors.go\<close>).

  Conventions. A Go \<open>string\<close> and a \<open>[]byte\<close> are both byte lists (\<open>string\<close>). A revision is an
  \<open>int64\<close> the code only compares and copies, so it is an \<open>int\<close>. A \<open>time.Time\<close> is an \<open>int\<close> count of
  nanoseconds with 0 for the zero time.
\<close>

type_synonym bytes = string
type_synonym time = int

abbreviation zero_time :: time where
  "zero_time \<equiv> 0"

subsection \<open>Decoded values\<close>

text \<open>
  What \<open>json.Unmarshal\<close> into an \<open>any\<close> produces: nil, bool, float64, string, array, object. A
  decoded float64 is finite, so it is the rational it denotes (the two zeros are one value, as
  Go's \<open>==\<close> and \<open>reflect.DeepEqual\<close> have it). An object is a finite map, so equality of \<open>json\<close>
  is \<open>reflect.DeepEqual\<close> on decoded values. These values are not aliased, so the copies the
  engine makes of them with \<open>Clone\<close> are not written; \<^verbatim>\<open>Clone\<close> models that function on values that are.
\<close>

datatype json =
    JNull
  | JBool bool
  | JNum rat
  | JStr string
  | JArr "json list"
  | JObj "(string, json) fmap"

subsection \<open>Scopes, keys, rows and events\<close>

datatype scope = Scope (Tenant: string)

datatype nskey = NSKey (Namespace: string) (Key: string)

text \<open>
  Go orders strings by bytes, which is the lexicographic order on byte lists; a key is ordered by
  namespace and then by key, the order the catalog and every listing sort in.
\<close>

instantiation nskey :: linorder
begin

definition less_eq_nskey :: "nskey \<Rightarrow> nskey \<Rightarrow> bool" where
  "less_eq_nskey a b \<longleftrightarrow>
     Namespace a < Namespace b \<or> (Namespace a = Namespace b \<and> Key a \<le> Key b)"

definition less_nskey :: "nskey \<Rightarrow> nskey \<Rightarrow> bool" where
  "less_nskey a b \<longleftrightarrow>
     Namespace a < Namespace b \<or> (Namespace a = Namespace b \<and> Key a < Key b)"

instance
proof
  fix x y z :: nskey
  show "x < y \<longleftrightarrow> x \<le> y \<and> \<not> y \<le> x"
    by (auto simp: less_nskey_def less_eq_nskey_def)
  show "x \<le> x"
    by (simp add: less_eq_nskey_def)
  show "x \<le> y \<Longrightarrow> y \<le> z \<Longrightarrow> x \<le> z"
    by (auto simp: less_eq_nskey_def)
  show "x \<le> y \<Longrightarrow> y \<le> x \<Longrightarrow> x = y"
    by (cases x; cases y) (auto simp: less_eq_nskey_def)
  show "x \<le> y \<or> y \<le> x"
    by (auto simp: less_eq_nskey_def)
qed

end

record row =
  row_ns :: string
  row_key :: string
  row_value :: bytes
  row_rev :: int
  row_at :: time
  row_by :: string

definition row_nk :: "row \<Rightarrow> nskey" where
  "row_nk se = NSKey (row_ns se) (row_key se)"

definition OpUpsert :: string where "OpUpsert = ''upsert''"
definition OpDelete :: string where "OpDelete = ''delete''"
definition OpResync :: string where "OpResync = ''resync''"
definition OpDisconnect :: string where "OpDisconnect = ''disconnect''"

lemmas op_defs = OpUpsert_def OpDelete_def OpResync_def OpDisconnect_def

record event =
  ev_scope :: scope
  ev_ns :: string
  ev_key :: string
  ev_op :: string
  ev_rev :: int

subsection \<open>Errors\<close>

text \<open>
  \<open>fmt.Errorf\<close> with \<open>%w\<close> wraps one or more errors, and \<open>errors.Is\<close> searches the tree for a
  sentinel. An error is therefore a tree: a sentinel at the leaves, and at a node what the message
  names (a scope, a key, or nothing).
\<close>

datatype sentinel =
    Store_ErrNilBackend
  | Store_ErrClosed
  | ErrNotSupportedInMultiTenant
  | ErrTenantConnectionMissing
  | ErrTenantConnectorMissing
  | ErrValidation
  | ErrCloseTimeout
  | ErrNilRegistry
  | Engine_ErrClosed
  | ErrScopeNotTracked
  | ErrUnregisteredKey
  | ErrFirstReconcilePanicked
  | ContextCanceled
  | DeadlineExceeded
  | ErrDecode
  | Client_ErrClosed
  | ErrNotStarted
  | ErrRegisterAfterStart
  | ErrUnknownKey
  | ErrNilContext
  | ErrDuplicateKey
  | Foreign string

datatype err_note =
    NoNote
  | AtScope scope
  | AtKey string string
  | StillRunning "string list"   \<comment> \<open>the workers a timed-out Close names\<close>
  | InStoreCall

datatype err = Sentinel sentinel | Wrap err_note "err list"

fun err_is :: "err \<Rightarrow> sentinel \<Rightarrow> bool" where
  "err_is (Sentinel t) s \<longleftrightarrow> t = s"
| "err_is (Wrap n es) s \<longleftrightarrow> (\<exists>e \<in> set es. err_is e s)"

definition wrap_key :: "sentinel \<Rightarrow> nskey \<Rightarrow> err" where
  "wrap_key s nk = Wrap (AtKey (Namespace nk) (Key nk)) [Sentinel s]"

definition wrap_scope :: "sentinel \<Rightarrow> scope \<Rightarrow> err" where
  "wrap_scope s sco = Wrap (AtScope sco) [Sentinel s]"

lemma err_is_wrap [simp]:
  "err_is (wrap_key s nk) t \<longleftrightarrow> s = t"
  "err_is (wrap_scope s sco) t \<longleftrightarrow> s = t"
  by (simp_all add: wrap_key_def wrap_scope_def)

subsection \<open>The key registry the engine reads\<close>

text \<open>
  A context is what the engine and a validator can read of it: the tenant the tenant manager
  stores in it and the request values. The engine's own dispatch context carries neither.
\<close>

record ctx =
  ctx_tenant :: string
  ctx_value :: "string \<Rightarrow> string option"

definition background :: ctx where
  "background = \<lparr>ctx_tenant = [], ctx_value = Map.empty\<rparr>"

text \<open>What a consumer's validator does with a value: accept it, return an error, or panic.\<close>

datatype vres = VOk | VErr err | VPanic

type_synonym validator = "ctx \<Rightarrow> json \<Rightarrow> vres"

record keydef =
  kd_default :: json
  kd_validate :: "validator option"

record registry =
  reg_lookup :: "nskey \<Rightarrow> keydef option"
  reg_keys :: "nskey list"

text \<open>
  The contract of that port (\<open>Registry\<close> of \<^verbatim>\<open>registry.go\<close>): \<open>Keys\<close> lists exactly the keys
  \<open>Lookup\<close> knows, each once. The reconcile rests on it to announce every registered key; the
  client's registry provides it.
\<close>

locale registry_port =
  fixes reg :: registry
  assumes keys_lookup: "nk \<in> set (reg_keys reg) \<longleftrightarrow> reg_lookup reg nk \<noteq> None"
    and keys_distinct: "distinct (reg_keys reg)"

end
