(* ===== verification/Engine_State.thy ===== *)
theory Engine_State
  imports Store_Types
begin

text \<open>
  The engine's state: \<open>scopeState\<close> and its parts (\<^verbatim>\<open>internal/engine/scope.go\<close>), the delivery
  workers (\<^verbatim>\<open>dispatch.go\<close>), the reconcile windows (\<^verbatim>\<open>reconcile.go\<close>), the activation table
  (\<^verbatim>\<open>activate.go\<close>) and the \<open>Engine\<close> struct itself (\<^verbatim>\<open>engine.go\<close>).

  The code compares scope states and workers by pointer (a tenant dropped and brought back up is a
  NEW state under the same scope value), so both live in an explicit store: \<open>e_states\<close> and
  \<open>e_workers\<close> map an address to its contents, \<open>e_scopes\<close> and \<open>sc_workers\<close> hold addresses, and
  an allocation takes the next address. A mutex is not a field: every operation below is one
  critical section of the code, and the sections are interleaved in \<open>Engine_Steps\<close>. The
  counters are \<open>uint64\<close> values that only count up by one from zero, so they are \<open>nat\<close>.
\<close>

type_synonym sid = nat   \<comment> \<open>address of a scope state\<close>
type_synonym wid = nat   \<comment> \<open>address of a delivery worker\<close>

subsection \<open>Published entries and their fences\<close>

record entry =
  ent_value :: json
  ent_raw :: bytes
  ent_rev :: int
  ent_at :: time
  ent_by :: string

record key_fence =
  kf_deletes :: nat
  kf_publications :: nat

definition zero_fence :: key_fence where
  "zero_fence = \<lparr>kf_deletes = 0, kf_publications = 0\<rparr>"

text \<open>\<open>feedFence\<close>: what a re-read carries across its store call.\<close>

record feed_fence =
  ff_key :: key_fence
  ff_armed :: bool

definition unarmed :: feed_fence where
  "unarmed = \<lparr>ff_key = zero_fence, ff_armed = False\<rparr>"

subsection \<open>Reconcile windows\<close>

record window =
  touched :: "nskey set"
  unusable :: "nskey set"

definition empty_window :: window where
  "empty_window = \<lparr>touched = {}, unusable = {}\<rparr>"

text \<open>
  \<open>reconcileArming\<close>. Its window pointer is the window opened under the same generation, so the
  generation identifies it.
\<close>

record arming =
  arm_reconcile :: nat
  arm_disconnect :: nat

subsection \<open>A tracked scope\<close>

text \<open>
  \<open>windows\<close> is split in two: \<open>sc_win\<close> is the contents of the window a generation allocated, and
  \<open>sc_open\<close> the generations still in the map, which are the ones the feed writes into. An
  arming's window stays readable after it has left the map, as it does through the pointer.
  A channel that is only ever closed (\<open>firstReconcileDone\<close>, \<open>reconcileStop\<close>) is the boolean
  "closed"; a one-slot wake channel is the boolean "full".
\<close>

record scope_state =
  sc_scope :: scope
  sc_entries :: "nskey \<Rightarrow> entry option"
  sc_fences :: "nskey \<Rightarrow> key_fence"
  sc_stale :: bool
  sc_unconfirmed :: "nskey set"
  sc_retrying :: "(nskey \<times> bool) set"
  sc_inflight :: "nskey set"
  sc_again :: "nskey \<Rightarrow> bool option"
  sc_getSem :: nat
  sc_disconnectGen :: nat
  sc_firstDone :: bool
  sc_firstErr :: "err option"
  sc_pending :: "arming option"
  sc_signal :: bool
  sc_stop :: bool
  sc_workers :: "nskey \<Rightarrow> wid option"
  sc_workerStarted :: bool
  sc_workersDropped :: bool
  sc_reconcileGen :: nat
  sc_win :: "nat \<Rightarrow> window"
  sc_open :: "nat set"
  sc_unsubscribe :: "nat option"   \<comment> \<open>handle of the changefeed subscription\<close>

definition refreshGetLimit :: nat where "refreshGetLimit = 8"

definition newScopeState :: "scope \<Rightarrow> scope_state" where
  "newScopeState sco = \<lparr>
     sc_scope = sco,
     sc_entries = Map.empty,
     sc_fences = (\<lambda>_. zero_fence),
     sc_stale = True,
     sc_unconfirmed = {},
     sc_retrying = {},
     sc_inflight = {},
     sc_again = Map.empty,
     sc_getSem = 0,
     sc_disconnectGen = 0,
     sc_firstDone = False,
     sc_firstErr = None,
     sc_pending = None,
     sc_signal = False,
     sc_stop = False,
     sc_workers = Map.empty,
     sc_workerStarted = False,
     sc_workersDropped = False,
     sc_reconcileGen = 0,
     sc_win = (\<lambda>_. empty_window),
     sc_open = {},
     sc_unsubscribe = None\<rparr>"

subsection \<open>Changes, subscriptions and delivery workers\<close>

record change =
  ch_tenant :: string
  ch_ns :: string
  ch_key :: string
  ch_rev :: int
  ch_value :: json

text \<open>\<open>Change{}\<close>, which empties a mailbox slot.\<close>

definition zero_change :: change where
  "zero_change = \<lparr>ch_tenant = [], ch_ns = [], ch_key = [], ch_rev = 0, ch_value = JNull\<rparr>"

text \<open>A subscription is its identity: what the callback does is the consumer's.\<close>

type_synonym subscription = nat

record dispatch_worker =
  w_pending :: change
  w_hasPending :: bool
  w_signal :: bool
  w_done :: bool

definition new_worker :: dispatch_worker where
  "new_worker = \<lparr>w_pending = zero_change, w_hasPending = False, w_signal = False, w_done = False\<rparr>"

record worker_key =
  wk_scope :: scope
  wk_nk :: nskey

subsection \<open>The engine\<close>

text \<open>
  \<open>e_registry\<close> is \<open>None\<close> for a nil registry, \<open>e_hasStore\<close> is false for a nil store.
  \<open>e_unmarshal\<close> is the decoder the ingress calls on a row's bytes: the model is generic in it, so
  every theorem holds for whatever \<open>encoding/json\<close> accepts. \<open>e_feeds\<close> is the set of changefeed
  subscriptions the store still holds open for this engine, \<open>e_wg\<close> the count of the \<open>WaitGroup\<close>
  that Close drains.
\<close>

record engine =
  e_hasStore :: bool
  e_registry :: "registry option"
  e_unmarshal :: "bytes \<Rightarrow> json option"
  e_validatorContext :: "(ctx \<Rightarrow> scope \<Rightarrow> ctx) option"
  e_debounceAsync :: bool
  e_scopes :: "scope \<Rightarrow> sid option"
  e_states :: "sid \<Rightarrow> scope_state"
  e_nextSid :: sid
  e_activating :: "scope \<Rightarrow> bool option"
  e_blocked :: "scope set"
  e_failedAt :: "scope \<Rightarrow> time option"
  e_retryDelay :: time
  e_subscribers :: "nskey \<Rightarrow> subscription list"
  e_nextSub :: nat
  e_workersClosed :: bool
  e_workers :: "wid \<Rightarrow> dispatch_worker"
  e_nextWid :: wid
  e_running :: "wid \<Rightarrow> worker_key option"
  e_wg :: nat
  e_closed :: bool
  e_canceled :: bool
  e_feeds :: "nat set"
  e_nextFeed :: nat
  e_closeErr :: "err option option"   \<comment> \<open>what Close answered, once it has run\<close>

definition new_engine ::
  "bool \<Rightarrow> registry option \<Rightarrow> (bytes \<Rightarrow> json option) \<Rightarrow> (ctx \<Rightarrow> scope \<Rightarrow> ctx) option \<Rightarrow> bool \<Rightarrow> engine"
where
  "new_engine hs reg um vc async = \<lparr>
     e_hasStore = hs, e_registry = reg, e_unmarshal = um, e_validatorContext = vc,
     e_debounceAsync = async,
     e_scopes = Map.empty, e_states = (\<lambda>_. newScopeState (Scope [])), e_nextSid = 0,
     e_activating = Map.empty, e_blocked = {}, e_failedAt = Map.empty, e_retryDelay = 5000000000,
     e_subscribers = (\<lambda>_. []), e_nextSub = 0,
     e_workersClosed = False, e_workers = (\<lambda>_. new_worker), e_nextWid = 0,
     e_running = Map.empty, e_wg = 0, e_closed = False, e_canceled = False,
     e_feeds = {}, e_nextFeed = 0, e_closeErr = None\<rparr>"

text \<open>Every read and write of a scope state goes through these two.\<close>

abbreviation sc_of :: "engine \<Rightarrow> sid \<Rightarrow> scope_state" where
  "sc_of e s \<equiv> e_states e s"

definition upd_sc :: "sid \<Rightarrow> (scope_state \<Rightarrow> scope_state) \<Rightarrow> engine \<Rightarrow> engine" where
  "upd_sc s f e = e\<lparr>e_states := modify (e_states e) s f\<rparr>"

lemma sc_of_upd_sc [simp]:
  "sc_of (upd_sc s f e) s' = (if s' = s then f (sc_of e s) else sc_of e s')"
  by (simp add: upd_sc_def modify_apply)

lemma upd_sc_frame [simp]:
  "e_hasStore (upd_sc s f e) = e_hasStore e"
  "e_registry (upd_sc s f e) = e_registry e"
  "e_unmarshal (upd_sc s f e) = e_unmarshal e"
  "e_validatorContext (upd_sc s f e) = e_validatorContext e"
  "e_debounceAsync (upd_sc s f e) = e_debounceAsync e"
  "e_scopes (upd_sc s f e) = e_scopes e"
  "e_nextSid (upd_sc s f e) = e_nextSid e"
  "e_activating (upd_sc s f e) = e_activating e"
  "e_blocked (upd_sc s f e) = e_blocked e"
  "e_failedAt (upd_sc s f e) = e_failedAt e"
  "e_retryDelay (upd_sc s f e) = e_retryDelay e"
  "e_subscribers (upd_sc s f e) = e_subscribers e"
  "e_nextSub (upd_sc s f e) = e_nextSub e"
  "e_workersClosed (upd_sc s f e) = e_workersClosed e"
  "e_workers (upd_sc s f e) = e_workers e"
  "e_nextWid (upd_sc s f e) = e_nextWid e"
  "e_running (upd_sc s f e) = e_running e"
  "e_wg (upd_sc s f e) = e_wg e"
  "e_closed (upd_sc s f e) = e_closed e"
  "e_canceled (upd_sc s f e) = e_canceled e"
  "e_feeds (upd_sc s f e) = e_feeds e"
  "e_nextFeed (upd_sc s f e) = e_nextFeed e"
  "e_closeErr (upd_sc s f e) = e_closeErr e"
  by (simp_all add: upd_sc_def)

lemma upd_sc_upd_sc [simp]: "upd_sc s g (upd_sc s f e) = upd_sc s (\<lambda>x. g (f x)) e"
  by (simp add: upd_sc_def)

text \<open>
  What an ingress never touches. \<open>env_of\<close> is the engine less its scope states, workers and wait
  group; \<open>ctl_of\<close> is a scope state less its cache, fences, windows and worker table. An equation
  between two of them is the frame of an operation.
\<close>

definition env_of :: "engine \<Rightarrow> engine" where
  "env_of e = e\<lparr>e_states := (\<lambda>_. newScopeState (Scope [])), e_workers := (\<lambda>_. new_worker),
     e_nextWid := 0, e_wg := 0\<rparr>"

definition ctl_of :: "scope_state \<Rightarrow> scope_state" where
  "ctl_of sc = sc\<lparr>sc_entries := Map.empty, sc_fences := (\<lambda>_. zero_fence), sc_unconfirmed := {},
     sc_workers := Map.empty, sc_win := (\<lambda>_. empty_window)\<rparr>"

lemma env_of_eq:
  "env_of e' = env_of e \<longleftrightarrow>
     e_hasStore e' = e_hasStore e \<and> e_registry e' = e_registry e
     \<and> e_unmarshal e' = e_unmarshal e \<and> e_validatorContext e' = e_validatorContext e
     \<and> e_debounceAsync e' = e_debounceAsync e \<and> e_scopes e' = e_scopes e
     \<and> e_nextSid e' = e_nextSid e \<and> e_activating e' = e_activating e
     \<and> e_blocked e' = e_blocked e \<and> e_failedAt e' = e_failedAt e
     \<and> e_retryDelay e' = e_retryDelay e \<and> e_subscribers e' = e_subscribers e
     \<and> e_nextSub e' = e_nextSub e \<and> e_workersClosed e' = e_workersClosed e
     \<and> e_running e' = e_running e \<and> e_closed e' = e_closed e
     \<and> e_canceled e' = e_canceled e \<and> e_feeds e' = e_feeds e
     \<and> e_nextFeed e' = e_nextFeed e \<and> e_closeErr e' = e_closeErr e"
  unfolding env_of_def by (cases e; cases e') auto

lemma env_of_upd_sc [simp]: "env_of (upd_sc s f e) = env_of e"
  by (simp add: env_of_eq)

lemma ctl_of_eq:
  "ctl_of b = ctl_of a \<longleftrightarrow>
     sc_scope b = sc_scope a \<and> sc_stale b = sc_stale a \<and> sc_retrying b = sc_retrying a
     \<and> sc_inflight b = sc_inflight a \<and> sc_again b = sc_again a \<and> sc_getSem b = sc_getSem a
     \<and> sc_disconnectGen b = sc_disconnectGen a \<and> sc_firstDone b = sc_firstDone a
     \<and> sc_firstErr b = sc_firstErr a \<and> sc_pending b = sc_pending a
     \<and> sc_signal b = sc_signal a \<and> sc_stop b = sc_stop a
     \<and> sc_workerStarted b = sc_workerStarted a \<and> sc_workersDropped b = sc_workersDropped a
     \<and> sc_reconcileGen b = sc_reconcileGen a \<and> sc_open b = sc_open a
     \<and> sc_unsubscribe b = sc_unsubscribe a"
  unfolding ctl_of_def by (cases a; cases b) auto

lemma ctl_of_upd [simp]:
  "ctl_of (sc\<lparr>sc_entries := en\<rparr>) = ctl_of sc"
  "ctl_of (sc\<lparr>sc_fences := fe\<rparr>) = ctl_of sc"
  "ctl_of (sc\<lparr>sc_unconfirmed := un\<rparr>) = ctl_of sc"
  "ctl_of (sc\<lparr>sc_workers := wo\<rparr>) = ctl_of sc"
  "ctl_of (sc\<lparr>sc_win := wi\<rparr>) = ctl_of sc"
  by (simp_all add: ctl_of_def)

subsection \<open>Registry reads and scope resolution\<close>

text \<open>\<open>Engine.lookup\<close>: a nil registry reports nothing registered.\<close>

definition eng_lookup :: "engine \<Rightarrow> nskey \<Rightarrow> keydef option" where
  "eng_lookup e nk = (case e_registry e of None \<Rightarrow> None | Some r \<Rightarrow> reg_lookup r nk)"

definition registeredKeys :: "engine \<Rightarrow> nskey list" where
  "registeredKeys e = (case e_registry e of None \<Rightarrow> [] | Some r \<Rightarrow> reg_keys r)"

definition trackedScope :: "engine \<Rightarrow> scope \<Rightarrow> sid option" where
  "trackedScope e sco = e_scopes e sco"

text \<open>The identity test of the code: \<open>e.trackedScope(sc.scope) == sc\<close>.\<close>

definition tracks :: "engine \<Rightarrow> sid \<Rightarrow> bool" where
  "tracks e s \<longleftrightarrow> trackedScope e (sc_scope (sc_of e s)) = Some s"

text \<open>The context the engine's own goroutines run under.\<close>

definition dispatchContext :: ctx where
  "dispatchContext = background"

end
