(* ===== verification/Mailbox.thy ===== *)
theory Mailbox
  imports Prelude
begin

text \<open>
  The single-slot mailbox, the one mechanism behind the engine's coalescing: a delivery worker's
  slot (\<^verbatim>\<open>dispatch.go\<close>) and a scope's pending reconcile (\<^verbatim>\<open>scope.go\<close>) are both a slot that a
  newer item overwrites and that one goroutine empties. The locale states the three laws the rest
  of the engine relies on and derives what a subscriber is promised: it may miss items, it never
  sees them out of order, and it always ends on the newest.
\<close>

datatype 'a mail_op = Put 'a | Take

text \<open>What the takes of a run of operations hand out, and the mailbox left behind.\<close>

fun mail_run ::
  "('a \<Rightarrow> 'm \<Rightarrow> 'm) \<Rightarrow> ('m \<Rightarrow> 'm \<times> 'a option) \<Rightarrow> 'a mail_op list \<Rightarrow> 'm \<Rightarrow> 'a list \<times> 'm"
where
  "mail_run put tk [] m = ([], m)"
| "mail_run put tk (Put a # ops) m = mail_run put tk ops (put a m)"
| "mail_run put tk (Take # ops) m =
     (let (m', r) = tk m; (out, m'') = mail_run put tk ops m'
      in (case r of None \<Rightarrow> out | Some a \<Rightarrow> a # out, m''))"

fun puts :: "'a mail_op list \<Rightarrow> 'a list" where
  "puts [] = []"
| "puts (Put a # ops) = a # puts ops"
| "puts (Take # ops) = puts ops"

definition slot_list :: "'a option \<Rightarrow> 'a list" where
  "slot_list c = (case c of None \<Rightarrow> [] | Some a \<Rightarrow> [a])"

lemma slot_list_simps [simp]:
  "slot_list None = []" "slot_list (Some a) = [a]"
  by (simp_all add: slot_list_def)

locale mailbox =
  fixes put :: "'a \<Rightarrow> 'm \<Rightarrow> 'm"
    and tk :: "'m \<Rightarrow> 'm \<times> 'a option"
    and slot :: "'m \<Rightarrow> 'a option"
  assumes slot_put: "slot (put a m) = Some a"
    and tk_slot: "snd (tk m) = slot m"
    and slot_tk: "slot (fst (tk m)) = None"
begin

lemma slot_puts: "xs \<noteq> [] \<Longrightarrow> slot (fold put xs m) = Some (last xs)"
  by (induction xs rule: rev_induct) (auto simp: slot_put)

text \<open>A burst coalesces into its newest item, and one take empties the slot.\<close>

lemma take_burst:
  assumes "xs \<noteq> []"
  shows "snd (tk (fold put xs m)) = Some (last xs)"
    and "snd (tk (fst (tk (fold put xs m)))) = None"
  using assms by (simp_all add: tk_slot slot_puts slot_tk)

text \<open>
  Whatever the interleaving of puts and takes, what is handed out (and what is still in the slot)
  is a subsequence of what was in the slot and what was put, in that order.
\<close>

lemma run_subseq:
  "mail_run put tk ops m = (out, m') \<Longrightarrow>
     subseq (out @ slot_list (slot m')) (slot_list (slot m) @ puts ops)"
proof (induction ops arbitrary: m out m')
  case Nil
  then show ?case by simp
next
  case (Cons op ops)
  show ?case
  proof (cases op)
    case (Put a)
    with Cons.prems have "mail_run put tk ops (put a m) = (out, m')" by simp
    from Cons.IH [OF this] have "subseq (out @ slot_list (slot m')) (a # puts ops)"
      by (simp add: slot_put)
    then show ?thesis by (simp add: Put subseq_drop_many)
  next
    case Take
    obtain out1 where run: "mail_run put tk ops (fst (tk m)) = (out1, m')"
      and out: "out = slot_list (slot m) @ out1"
      using Cons.prems tk_slot [of m]
      by (auto simp: Take Let_def slot_list_def split: prod.splits option.splits)
    from Cons.IH [OF run] have "subseq (out1 @ slot_list (slot m')) (puts ops)"
      by (simp add: slot_tk)
    then show ?thesis by (simp add: Take out subseq_append')
  qed
qed

text \<open>The newest put of a run that ends in a take is the last thing that run hands out.\<close>

lemma run_append:
  "mail_run put tk (xs @ ys) m =
     (let (o1, m1) = mail_run put tk xs m; (o2, m2) = mail_run put tk ys m1 in (o1 @ o2, m2))"
proof (induction xs arbitrary: m)
  case (Cons op xs)
  then show ?case
    by (cases op) (auto simp: Let_def split: prod.splits option.splits)
qed simp

lemma run_put_take:
  "mail_run put tk [Put a, Take] m = ([a], fst (tk (put a m)))"
  using tk_slot [of "put a m"] by (cases "tk (put a m)") (simp add: slot_put)

lemma run_ends_on_newest:
  assumes "mail_run put tk (ops @ [Put a, Take]) m = (out, m')"
  shows "out \<noteq> [] \<and> last out = a \<and> slot m' = None"
proof -
  obtain o1 m1 where "mail_run put tk ops m = (o1, m1)" by fastforce
  with assms have "out = o1 @ [a]" and "m' = fst (tk (put a m1))"
    by (simp_all add: run_append run_put_take del: mail_run.simps)
  then show ?thesis by (simp add: slot_tk)
qed

end

end
