(* ===== verification/Scope_State.thy ===== *)
theory Scope_State
  imports Engine_State Mailbox
begin

text \<open>
  The operations a scope state offers on its own: the causal fences of a re-read, the retry and
  refresh slots, the unconfirmed keys, the reconcile windows and the reconcile mailbox
  (\<^verbatim>\<open>internal/engine/scope.go\<close> and the \<open>scopeState\<close> methods of \<^verbatim>\<open>reconcile.go\<close>). Each definition
  is one critical section of the code.
\<close>

subsection \<open>Fences of a re-read\<close>

definition fenceFor :: "scope_state \<Rightarrow> nskey \<Rightarrow> feed_fence" where
  "fenceFor sc nk = \<lparr>ff_key = sc_fences sc nk, ff_armed = True\<rparr>"

definition supersededByDelete :: "scope_state \<Rightarrow> nskey \<Rightarrow> feed_fence \<Rightarrow> bool" where
  "supersededByDelete sc nk f \<longleftrightarrow>
     (if \<not> ff_armed f then False
      else kf_deletes (sc_fences sc nk) \<noteq> kf_deletes (ff_key f))"

definition supersededByPublication :: "scope_state \<Rightarrow> nskey \<Rightarrow> feed_fence \<Rightarrow> bool" where
  "supersededByPublication sc nk f \<longleftrightarrow>
     (if \<not> ff_armed f then False else sc_fences sc nk \<noteq> ff_key f)"

definition bumpDeletes :: "nskey \<Rightarrow> scope_state \<Rightarrow> scope_state" where
  "bumpDeletes nk sc =
     sc\<lparr>sc_fences := modify (sc_fences sc) nk (\<lambda>f. f\<lparr>kf_deletes := kf_deletes f + 1\<rparr>)\<rparr>"

subsection \<open>Unconfirmed keys\<close>

definition markUnconfirmed :: "nskey \<Rightarrow> scope_state \<Rightarrow> scope_state" where
  "markUnconfirmed nk sc = sc\<lparr>sc_unconfirmed := insert nk (sc_unconfirmed sc)\<rparr>"

definition markConfirmed :: "nskey \<Rightarrow> scope_state \<Rightarrow> scope_state" where
  "markConfirmed nk sc = sc\<lparr>sc_unconfirmed := sc_unconfirmed sc - {nk}\<rparr>"

definition recordUnconfirmed :: "nskey \<Rightarrow> feed_fence \<Rightarrow> scope_state \<Rightarrow> scope_state" where
  "recordUnconfirmed nk f sc =
     (if supersededByPublication sc nk f then sc else markUnconfirmed nk sc)"

subsection \<open>Retry and refresh slots\<close>

definition beginRetry :: "nskey \<times> bool \<Rightarrow> scope_state \<Rightarrow> scope_state \<times> bool" where
  "beginRetry rk sc =
     (if rk \<in> sc_retrying sc then (sc, False)
      else (sc\<lparr>sc_retrying := insert rk (sc_retrying sc)\<rparr>, True))"

definition endRetry :: "nskey \<times> bool \<Rightarrow> scope_state \<Rightarrow> scope_state" where
  "endRetry rk sc = sc\<lparr>sc_retrying := sc_retrying sc - {rk}\<rparr>"

definition beginRefresh :: "nskey \<Rightarrow> bool \<Rightarrow> scope_state \<Rightarrow> scope_state \<times> bool" where
  "beginRefresh nk deleted sc =
     (if nk \<in> sc_inflight sc
      then (sc\<lparr>sc_again := (sc_again sc)(nk \<mapsto>
               (case sc_again sc nk of None \<Rightarrow> False | Some d \<Rightarrow> d) \<or> deleted)\<rparr>, False)
      else (sc\<lparr>sc_inflight := insert nk (sc_inflight sc)\<rparr>, True))"

definition endRefresh :: "nskey \<Rightarrow> scope_state \<Rightarrow> scope_state \<times> bool \<times> bool" where
  "endRefresh nk sc =
     (case sc_again sc nk of
        Some deleted \<Rightarrow> (sc\<lparr>sc_again := (sc_again sc)(nk := None)\<rparr>, True, deleted)
      | None \<Rightarrow> (sc\<lparr>sc_inflight := sc_inflight sc - {nk}\<rparr>, False, False))"

subsection \<open>Reconcile windows\<close>

text \<open>\<open>record\<close>: one outcome written into every open window.\<close>

definition record_window :: "nskey \<Rightarrow> bool \<Rightarrow> window \<Rightarrow> window" where
  "record_window nk usable w =
     (if usable then w\<lparr>touched := insert nk (touched w), unusable := unusable w - {nk}\<rparr>
      else w\<lparr>unusable := insert nk (unusable w)\<rparr>)"

definition record_outcome :: "nskey \<Rightarrow> bool \<Rightarrow> scope_state \<Rightarrow> scope_state" where
  "record_outcome nk usable sc =
     sc\<lparr>sc_win := (\<lambda>g. if g \<in> sc_open sc then record_window nk usable (sc_win sc g)
                      else sc_win sc g)\<rparr>"

definition superseded :: "scope_state \<Rightarrow> arming \<Rightarrow> bool" where
  "superseded sc arm \<longleftrightarrow> sc_reconcileGen sc \<noteq> arm_reconcile arm"

definition closeWindow :: "arming \<Rightarrow> scope_state \<Rightarrow> scope_state" where
  "closeWindow arm sc = sc\<lparr>sc_open := sc_open sc - {arm_reconcile arm}\<rparr>"

definition clearStale :: "arming \<Rightarrow> scope_state \<Rightarrow> scope_state" where
  "clearStale arm sc =
     (if sc_reconcileGen sc \<noteq> arm_reconcile arm then sc
      else if sc_disconnectGen sc = arm_disconnect arm then sc\<lparr>sc_stale := False\<rparr>
      else sc)"

text \<open>\<open>queueReconcile\<close> is the mailbox half of \<open>armReconcile\<close>: the slot and its wake.\<close>

definition queueReconcile :: "arming \<Rightarrow> scope_state \<Rightarrow> scope_state" where
  "queueReconcile arm sc = sc\<lparr>sc_pending := Some arm, sc_signal := True\<rparr>"

definition armReconcile :: "scope_state \<Rightarrow> scope_state \<times> arming option" where
  "armReconcile sc =
     (let gen = sc_reconcileGen sc + 1;
          arm = \<lparr>arm_reconcile = gen, arm_disconnect = sc_disconnectGen sc\<rparr>;
          sc1 = sc\<lparr>sc_stale := True,
                   sc_reconcileGen := gen,
                   sc_win := (sc_win sc)(gen := empty_window),
                   sc_open := insert gen (sc_open sc)\<rparr>
      in (queueReconcile arm sc1, sc_pending sc))"

definition takeReconcile :: "scope_state \<Rightarrow> scope_state \<times> arming option" where
  "takeReconcile sc =
     (case sc_pending sc of None \<Rightarrow> (sc, None)
      | Some arm \<Rightarrow> (sc\<lparr>sc_pending := None\<rparr>, Some arm))"

definition stopReconcileWorker :: "scope_state \<Rightarrow> scope_state" where
  "stopReconcileWorker sc = sc\<lparr>sc_stop := True\<rparr>"

definition finishFirstReconcile :: "err option \<Rightarrow> scope_state \<Rightarrow> scope_state" where
  "finishFirstReconcile e sc =
     (if sc_firstDone sc then sc else sc\<lparr>sc_firstErr := e, sc_firstDone := True\<rparr>)"

text \<open>\<open>markStale\<close> of \<^verbatim>\<open>feed.go\<close>, under the scope's lock.\<close>

definition markStale_sc :: "scope_state \<Rightarrow> scope_state" where
  "markStale_sc sc = sc\<lparr>sc_stale := True, sc_disconnectGen := sc_disconnectGen sc + 1\<rparr>"

lemmas scope_defs =
  bumpDeletes_def markUnconfirmed_def markConfirmed_def endRetry_def record_outcome_def
  closeWindow_def queueReconcile_def stopReconcileWorker_def markStale_sc_def

subsection \<open>The reconcile mailbox is a mailbox\<close>

interpretation reconcile_box: mailbox queueReconcile takeReconcile sc_pending
  by unfold_locales
    (auto simp: queueReconcile_def takeReconcile_def split: option.splits)

subsection \<open>Causality of the fences\<close>

text \<open>
  A fence armed at a state is blown by a delete, and only by a delete, whatever else happens to
  the key: the counter is compared, never a revision.
\<close>

lemma fence_armed_fresh [simp]:
  "\<not> supersededByDelete sc nk (fenceFor sc nk)"
  "\<not> supersededByPublication sc nk (fenceFor sc nk)"
  by (simp_all add: supersededByDelete_def supersededByPublication_def fenceFor_def)

lemma unarmed_never_superseded [simp]:
  "\<not> supersededByDelete sc nk unarmed" "\<not> supersededByPublication sc nk unarmed"
  by (simp_all add: supersededByDelete_def supersededByPublication_def unarmed_def)

lemma superseded_delete_publication:
  "supersededByDelete sc nk f \<Longrightarrow> supersededByPublication sc nk f"
  by (auto simp: supersededByDelete_def supersededByPublication_def split: if_splits)

lemma bumpDeletes_fences [simp]:
  "sc_fences (bumpDeletes nk sc) nk' =
     (if nk' = nk then (sc_fences sc nk)\<lparr>kf_deletes := kf_deletes (sc_fences sc nk) + 1\<rparr>
      else sc_fences sc nk')"
  by (simp add: bumpDeletes_def modify_apply)

subsection \<open>Frames\<close>

lemma record_outcome_frame [simp]:
  "sc_scope (record_outcome nk u sc) = sc_scope sc"
  "sc_entries (record_outcome nk u sc) = sc_entries sc"
  "sc_fences (record_outcome nk u sc) = sc_fences sc"
  "sc_stale (record_outcome nk u sc) = sc_stale sc"
  "sc_unconfirmed (record_outcome nk u sc) = sc_unconfirmed sc"
  "sc_disconnectGen (record_outcome nk u sc) = sc_disconnectGen sc"
  "sc_firstDone (record_outcome nk u sc) = sc_firstDone sc"
  "sc_firstErr (record_outcome nk u sc) = sc_firstErr sc"
  "sc_pending (record_outcome nk u sc) = sc_pending sc"
  "sc_signal (record_outcome nk u sc) = sc_signal sc"
  "sc_stop (record_outcome nk u sc) = sc_stop sc"
  "sc_workers (record_outcome nk u sc) = sc_workers sc"
  "sc_workersDropped (record_outcome nk u sc) = sc_workersDropped sc"
  "sc_workerStarted (record_outcome nk u sc) = sc_workerStarted sc"
  "sc_reconcileGen (record_outcome nk u sc) = sc_reconcileGen sc"
  "sc_open (record_outcome nk u sc) = sc_open sc"
  "sc_unsubscribe (record_outcome nk u sc) = sc_unsubscribe sc"
  by (simp_all add: record_outcome_def)

lemma record_outcome_ctl [simp]: "ctl_of (record_outcome nk u sc) = ctl_of sc"
  by (simp add: record_outcome_def)

lemma mark_ctl [simp]:
  "ctl_of (markUnconfirmed nk sc) = ctl_of sc"
  "ctl_of (markConfirmed nk sc) = ctl_of sc"
  "ctl_of (recordUnconfirmed nk f sc) = ctl_of sc"
  "ctl_of (bumpDeletes nk sc) = ctl_of sc"
  by (simp_all add: markUnconfirmed_def markConfirmed_def recordUnconfirmed_def bumpDeletes_def)

lemma mark_frame [simp]:
  "sc_entries (markUnconfirmed nk sc) = sc_entries sc"
  "sc_entries (markConfirmed nk sc) = sc_entries sc"
  "sc_fences (markUnconfirmed nk sc) = sc_fences sc"
  "sc_fences (markConfirmed nk sc) = sc_fences sc"
  "sc_unconfirmed (markUnconfirmed nk sc) = insert nk (sc_unconfirmed sc)"
  "sc_unconfirmed (markConfirmed nk sc) = sc_unconfirmed sc - {nk}"
  "sc_win (markUnconfirmed nk sc) = sc_win sc"
  "sc_win (markConfirmed nk sc) = sc_win sc"
  by (simp_all add: markUnconfirmed_def markConfirmed_def)

lemma bumpDeletes_frame [simp]:
  "sc_scope (bumpDeletes nk sc) = sc_scope sc"
  "sc_entries (bumpDeletes nk sc) = sc_entries sc"
  "sc_stale (bumpDeletes nk sc) = sc_stale sc"
  "sc_unconfirmed (bumpDeletes nk sc) = sc_unconfirmed sc"
  "sc_stop (bumpDeletes nk sc) = sc_stop sc"
  "sc_reconcileGen (bumpDeletes nk sc) = sc_reconcileGen sc"
  "sc_win (bumpDeletes nk sc) = sc_win sc"
  "sc_open (bumpDeletes nk sc) = sc_open sc"
  by (simp_all add: bumpDeletes_def)

lemma record_outcome_window:
  "g \<in> sc_open sc \<Longrightarrow> sc_win (record_outcome nk u sc) g = record_window nk u (sc_win sc g)"
  by (simp add: record_outcome_def)

lemma recordUnconfirmed_frame [simp]:
  "sc_entries (recordUnconfirmed nk f sc) = sc_entries sc"
  "sc_fences (recordUnconfirmed nk f sc) = sc_fences sc"
  "sc_scope (recordUnconfirmed nk f sc) = sc_scope sc"
  "sc_stale (recordUnconfirmed nk f sc) = sc_stale sc"
  by (simp_all add: recordUnconfirmed_def markUnconfirmed_def)

subsection \<open>Windows only learn\<close>

text \<open>What a window holds as touched it holds until it closes.\<close>

lemma record_window_keeps_touched:
  "touched w \<subseteq> touched (record_window nk u w)"
  by (auto simp: record_window_def)

subsection \<open>Clearing stale\<close>

lemma clearStale_entries [simp]:
  "sc_entries (clearStale arm sc) = sc_entries sc"
  "sc_fences (clearStale arm sc) = sc_fences sc"
  "sc_unconfirmed (clearStale arm sc) = sc_unconfirmed sc"
  "sc_reconcileGen (clearStale arm sc) = sc_reconcileGen sc"
  "sc_scope (clearStale arm sc) = sc_scope sc"
  by (simp_all add: clearStale_def)

lemma clearStale_iff:
  "sc_stale (clearStale arm sc) \<longleftrightarrow>
     sc_stale sc \<and> \<not> (sc_reconcileGen sc = arm_reconcile arm
                      \<and> sc_disconnectGen sc = arm_disconnect arm)"
  by (auto simp: clearStale_def)

subsection \<open>The refresh slot owes exactly one trailing read\<close>

text \<open>
  While a re-read of a key is running, every notification for it lands in \<open>beginRefresh\<close>. The
  running reader then owes one trailing read if there was any, and that read is a delete if any
  of them was.
\<close>

definition notify_running :: "nskey \<Rightarrow> bool \<Rightarrow> scope_state \<Rightarrow> scope_state" where
  "notify_running nk d sc = fst (beginRefresh nk d sc)"

lemma notify_running_inflight [simp]:
  "sc_inflight (notify_running nk d sc) = insert nk (sc_inflight sc)"
  by (auto simp: notify_running_def beginRefresh_def)

lemma notify_all_again:
  assumes "nk \<in> sc_inflight sc"
  shows "sc_again (fold (notify_running nk) ds sc) nk =
    (if ds = [] then sc_again sc nk
     else Some ((case sc_again sc nk of None \<Rightarrow> False | Some d \<Rightarrow> d) \<or> (\<exists>d \<in> set ds. d)))"
  using assms
proof (induction ds arbitrary: sc)
  case (Cons d ds)
  have "nk \<in> sc_inflight (notify_running nk d sc)" by simp
  from Cons.IH [OF this] Cons.prems show ?case
    by (auto simp: notify_running_def beginRefresh_def split: option.splits)
qed simp

lemma trailing_read:
  assumes "nk \<in> sc_inflight sc" and "sc_again sc nk = None"
  shows "snd (endRefresh nk (fold (notify_running nk) ds sc)) = (ds \<noteq> [], \<exists>d \<in> set ds. d)"
  using notify_all_again [OF assms(1), of ds] assms(2)
  by (auto simp: endRefresh_def)

subsection \<open>One retry per key and operation\<close>

lemma beginRetry_exclusive:
  "beginRetry rk sc = (sc', True) \<Longrightarrow> snd (beginRetry rk sc') = False"
  by (auto simp: beginRetry_def split: if_splits)

lemma beginRetry_independent:
  "beginRetry rk sc = (sc', b) \<Longrightarrow> rk' \<noteq> rk \<Longrightarrow>
     snd (beginRetry rk' sc') = snd (beginRetry rk' sc)"
  by (auto simp: beginRetry_def split: if_splits)

lemma endRetry_reopens: "snd (beginRetry rk (endRetry rk sc))"
  by (simp add: beginRetry_def endRetry_def)

end
