(* ===== verification/Dispatch.thy ===== *)
theory Dispatch
  imports Scope_State
begin

text \<open>
  Delivery (\<^verbatim>\<open>internal/engine/dispatch.go\<close>): subscriptions, the per-(scope, key) worker and its
  single-slot mailbox, and the pieces of the worker's loop. What a callback does is the
  consumer's; a delivery is the list of (subscription, change) calls it makes.
\<close>

subsection \<open>What a publication carries\<close>

record publication =
  pub_scope :: scope
  pub_nk :: nskey
  pub_rev :: int
  pub_value :: json
  pub_raw :: bytes
  pub_deleted :: bool
  pub_at :: time
  pub_by :: string

subsection \<open>The mailbox half of a worker\<close>

definition submit :: "change \<Rightarrow> dispatch_worker \<Rightarrow> dispatch_worker" where
  "submit ch w = w\<lparr>w_pending := ch, w_hasPending := True, w_signal := True\<rparr>"

definition take_pending :: "dispatch_worker \<Rightarrow> dispatch_worker \<times> change option" where
  "take_pending w =
     (if \<not> w_hasPending w then (w, None)
      else (w\<lparr>w_pending := zero_change, w_hasPending := False\<rparr>, Some (w_pending w)))"

definition stop_worker :: "dispatch_worker \<Rightarrow> dispatch_worker" where
  "stop_worker w = w\<lparr>w_done := True\<rparr>"

definition pending_change :: "dispatch_worker \<Rightarrow> change option" where
  "pending_change w = (if w_hasPending w then Some (w_pending w) else None)"

interpretation worker_box: mailbox submit take_pending pending_change
  by unfold_locales (auto simp: submit_def take_pending_def pending_change_def)

subsection \<open>Subscriptions\<close>

text \<open>\<open>OnChange\<close>; \<open>hasFn\<close> is false for a nil callback.\<close>

definition eng_OnChange :: "nskey \<Rightarrow> bool \<Rightarrow> engine \<Rightarrow> engine \<times> subscription option" where
  "eng_OnChange nk hasFn e =
     (if \<not> hasFn \<or> e_closed e then (e, None)
      else let i = e_nextSub e + 1 in
        (e\<lparr>e_nextSub := i, e_subscribers := modify (e_subscribers e) nk (\<lambda>subs. subs @ [i])\<rparr>,
         Some i))"

text \<open>The returned unsubscribe removes the first subscription with that identity.\<close>

definition unsubscribe_fn :: "nskey \<Rightarrow> subscription \<Rightarrow> engine \<Rightarrow> engine" where
  "unsubscribe_fn nk i e = e\<lparr>e_subscribers := modify (e_subscribers e) nk (remove1 i)\<rparr>"

subsection \<open>Workers\<close>

definition workerFor :: "sid \<Rightarrow> nskey \<Rightarrow> engine \<Rightarrow> engine \<times> wid option" where
  "workerFor s nk e =
     (if e_workersClosed e \<or> sc_workersDropped (sc_of e s) then (e, None)
      else case sc_workers (sc_of e s) nk of
        Some w \<Rightarrow> (e, Some w)
      | None \<Rightarrow>
          let w = e_nextWid e in
          (upd_sc s (\<lambda>sc. sc\<lparr>sc_workers := (sc_workers sc)(nk \<mapsto> w)\<rparr>)
             (e\<lparr>e_nextWid := w + 1, e_workers := (e_workers e)(w := new_worker),
                e_wg := e_wg e + 1\<rparr>),
           Some w))"

definition change_of :: "publication \<Rightarrow> change" where
  "change_of pub = \<lparr>ch_tenant = Tenant (pub_scope pub), ch_ns = Namespace (pub_nk pub),
     ch_key = Key (pub_nk pub), ch_rev = pub_rev pub, ch_value = pub_value pub\<rparr>"

definition dispatch :: "sid \<Rightarrow> publication \<Rightarrow> engine \<Rightarrow> engine" where
  "dispatch s pub e =
     (if e_subscribers e (pub_nk pub) = [] then e
      else case workerFor s (pub_nk pub) e of
        (e', None) \<Rightarrow> e'
      | (e', Some w) \<Rightarrow> e'\<lparr>e_workers := modify (e_workers e') w (submit (change_of pub))\<rparr>)"

text \<open>\<open>deliver\<close>: every subscriber of the key, in registration order, each with the change.\<close>

definition deliver :: "nskey \<Rightarrow> change \<Rightarrow> engine \<Rightarrow> (subscription \<times> change) list" where
  "deliver nk ch e = map (\<lambda>sub. (sub, ch)) (e_subscribers e nk)"

text \<open>
  The loop of \<open>runWorker\<close>, by its three observable points. \<open>worker_wake\<close> takes the signal and
  raises the mark; \<open>worker_serve\<close> re-checks the two stops and empties the slot (\<open>None\<close> ends the
  goroutine); \<open>worker_rest\<close> clears the mark and goes back to the select. \<open>worker_exit\<close> is the pair
  of defers: clear the mark, release the wait group.
\<close>

definition worker_stopped :: "wid \<Rightarrow> engine \<Rightarrow> bool" where
  "worker_stopped w e \<longleftrightarrow> e_canceled e \<or> w_done (e_workers e w)"

definition worker_wake :: "wid \<Rightarrow> worker_key \<Rightarrow> engine \<Rightarrow> engine" where
  "worker_wake w wk e =
     e\<lparr>e_workers := modify (e_workers e) w (\<lambda>x. x\<lparr>w_signal := False\<rparr>),
       e_running := (e_running e)(w \<mapsto> wk)\<rparr>"

definition worker_exit :: "wid \<Rightarrow> engine \<Rightarrow> engine" where
  "worker_exit w e = e\<lparr>e_running := (e_running e)(w := None), e_wg := e_wg e - 1\<rparr>"

definition worker_serve ::
  "wid \<Rightarrow> worker_key \<Rightarrow> engine \<Rightarrow> engine \<times> (subscription \<times> change) list option"
where
  "worker_serve w wk e =
     (if worker_stopped w e then (worker_exit w e, None)
      else case take_pending (e_workers e w) of
        (x, None) \<Rightarrow> (e\<lparr>e_workers := (e_workers e)(w := x)\<rparr>, Some [])
      | (x, Some ch) \<Rightarrow>
          (e\<lparr>e_workers := (e_workers e)(w := x)\<rparr>, Some (deliver (wk_nk wk) ch e)))"

definition worker_rest :: "wid \<Rightarrow> engine \<Rightarrow> engine" where
  "worker_rest w e = e\<lparr>e_running := (e_running e)(w := None)\<rparr>"

text \<open>\<open>stopScopeWorkers\<close> (\<^verbatim>\<open>engine.go\<close>) sweeps a state's workers and refuses every later one.\<close>

definition stopScopeWorkers :: "sid \<Rightarrow> engine \<Rightarrow> engine" where
  "stopScopeWorkers s e =
     (let ws = ran (sc_workers (sc_of e s)) in
      upd_sc s (\<lambda>sc. sc\<lparr>sc_workersDropped := True, sc_workers := Map.empty\<rparr>)
        (e\<lparr>e_workers := (\<lambda>w. if w \<in> ws then stop_worker (e_workers e w) else e_workers e w)\<rparr>))"

definition beginWork :: "engine \<Rightarrow> engine \<times> bool" where
  "beginWork e =
     (if e_workersClosed e then (e, False) else (e\<lparr>e_wg := e_wg e + 1\<rparr>, True))"

definition endWork :: "engine \<Rightarrow> engine" where
  "endWork e = e\<lparr>e_wg := e_wg e - 1\<rparr>"

subsection \<open>Frames\<close>

text \<open>Dispatching a publication touches workers, their slots and the wait group, nothing else.\<close>

lemma workerFor_env [frame]: "workerFor s nk e = (e', r) \<Longrightarrow> env_of e' = env_of e"
  by (auto simp: workerFor_def Let_def env_of_eq split: if_splits option.splits)

text \<open>Everything a scope state holds besides its worker table.\<close>

definition same_core :: "scope_state \<Rightarrow> scope_state \<Rightarrow> bool" where
  "same_core a b \<longleftrightarrow> (\<exists>f. b = a\<lparr>sc_workers := f\<rparr>)"

lemma same_core_refl [simp]: "same_core a a"
  unfolding same_core_def by (rule exI [of _ "sc_workers a"]) simp

lemma same_core_upd [simp]: "same_core a (a\<lparr>sc_workers := f\<rparr>)"
  unfolding same_core_def by blast

lemma same_core_ctl:
  "same_core a b \<Longrightarrow> ctl_of b = ctl_of a"
  by (auto simp: same_core_def)

lemma same_core_fields:
  assumes "same_core a b"
  shows "sc_entries b = sc_entries a" "sc_fences b = sc_fences a"
    "sc_unconfirmed b = sc_unconfirmed a" "sc_win b = sc_win a"
  using assms by (auto simp: same_core_def)

lemma workerFor_core:
  "workerFor s nk e = (e', r) \<Longrightarrow> same_core (sc_of e s') (sc_of e' s')"
  by (auto simp: workerFor_def Let_def split: if_splits option.splits)

lemma dispatch_core: "same_core (sc_of e s') (sc_of (dispatch s pub e) s')"
  using workerFor_core by (auto simp: dispatch_def split: prod.splits option.splits)

lemma dispatch_env [simp]: "env_of (dispatch s pub e) = env_of e"
  by (cases "workerFor s (pub_nk pub) e")
    (auto simp: dispatch_def env_of_eq dest: workerFor_env split: option.splits)

lemmas dispatch_sc [simp] =
  same_core_fields [OF dispatch_core] same_core_ctl [OF dispatch_core]

subsection \<open>A well-formed worker table\<close>

text \<open>
  Workers are allocated in order, no two (state, key) pairs share one, and a swept state has none.
\<close>

definition workers_wf :: "engine \<Rightarrow> bool" where
  "workers_wf e \<longleftrightarrow>
     (\<forall>s nk w. sc_workers (sc_of e s) nk = Some w \<longrightarrow> w < e_nextWid e) \<and>
     (\<forall>s nk s' nk' w. sc_workers (sc_of e s) nk = Some w \<longrightarrow>
        sc_workers (sc_of e s') nk' = Some w \<longrightarrow> s' = s \<and> nk' = nk) \<and>
     (\<forall>s. sc_workersDropped (sc_of e s) \<longrightarrow> sc_workers (sc_of e s) = Map.empty)"

lemma workers_wfD:
  assumes "workers_wf e" and "sc_workers (sc_of e s) nk = Some w"
  shows "w < e_nextWid e" and "\<not> sc_workersDropped (sc_of e s)"
    and "sc_workers (sc_of e s') nk' = Some w \<Longrightarrow> s' = s \<and> nk' = nk"
proof -
  show "w < e_nextWid e" using assms unfolding workers_wf_def by blast
  show "\<not> sc_workersDropped (sc_of e s)" using assms unfolding workers_wf_def by fastforce
  show "sc_workers (sc_of e s') nk' = Some w \<Longrightarrow> s' = s \<and> nk' = nk"
    using assms unfolding workers_wf_def by blast
qed

lemma workerFor_wf [pres]:
  assumes "workers_wf e" and "workerFor s nk e = (e', r)"
  shows "workers_wf e'"
proof (cases "e' = e")
  case False
  then have e': "e' = upd_sc s (\<lambda>sc. sc\<lparr>sc_workers := (sc_workers sc)(nk \<mapsto> e_nextWid e)\<rparr>)
             (e\<lparr>e_nextWid := e_nextWid e + 1, e_workers := (e_workers e)(e_nextWid e := new_worker),
                e_wg := e_wg e + 1\<rparr>)"
    and live: "\<not> sc_workersDropped (sc_of e s)"
    using assms(2) by (auto simp: workerFor_def Let_def split: if_splits option.splits)
  have "sc_workers (sc_of e t) k = Some w \<Longrightarrow> w \<noteq> e_nextWid e" for t k w
    using workers_wfD(1) [OF assms(1)] by blast
  then show ?thesis
    using assms(1) live unfolding workers_wf_def e'
    by (auto simp: less_Suc_eq split: if_splits)
qed (use assms in simp)

lemma dispatch_wf [pres]: "workers_wf e \<Longrightarrow> workers_wf (dispatch s pub e)"
  using workerFor_wf [of e s "pub_nk pub"]
  by (auto simp: dispatch_def workers_wf_def split: prod.splits option.splits)

text \<open>
  What an accepted publication of a subscribed key leaves in its worker: the slot holds exactly
  this change, whatever was pending before, and the worker is awake.
\<close>

lemma dispatch_fills_slot:
  assumes "e_subscribers e (pub_nk pub) \<noteq> []"
    and "\<not> e_workersClosed e" and "\<not> sc_workersDropped (sc_of e s)"
  shows "\<exists>w. sc_workers (sc_of (dispatch s pub e) s) (pub_nk pub) = Some w
          \<and> pending_change (e_workers (dispatch s pub e) w) = Some (change_of pub)
          \<and> w_signal (e_workers (dispatch s pub e) w)"
  using assms
  by (auto simp: dispatch_def workerFor_def Let_def pending_change_def submit_def
      split: option.splits)

text \<open>Every other worker is left exactly as it was.\<close>

lemma dispatch_other_worker:
  assumes "workers_wf e" and "w < e_nextWid e"
    and "sc_workers (sc_of e s) (pub_nk pub) \<noteq> Some w"
  shows "e_workers (dispatch s pub e) w = e_workers e w"
  using assms
  by (auto simp: dispatch_def workerFor_def Let_def split: option.splits if_splits)

text \<open>The worker tables after a dispatch: only the publication's own (state, key) pair can move.\<close>

lemma dispatch_tables:
  "t \<noteq> s \<or> nk \<noteq> pub_nk pub \<Longrightarrow>
     sc_workers (sc_of (dispatch s pub e) t) nk = sc_workers (sc_of e t) nk"
  by (cases "t = s") (auto simp: dispatch_def workerFor_def Let_def split: option.splits)

lemma dispatch_silent: "e_subscribers e (pub_nk pub) = [] \<Longrightarrow> dispatch s pub e = e"
  by (simp add: dispatch_def)

text \<open>A swept scope, and a closing engine, start no worker and wake none.\<close>

lemma dispatch_refused:
  "e_workersClosed e \<or> sc_workersDropped (sc_of e s) \<Longrightarrow> dispatch s pub e = e"
  by (auto simp: dispatch_def workerFor_def)

lemma stopScopeWorkers_wf [pres]: "workers_wf e \<Longrightarrow> workers_wf (stopScopeWorkers s e)"
  unfolding workers_wf_def stopScopeWorkers_def Let_def
  by (auto split: if_splits)

end
