(* ===== verification/Publish.thy ===== *)
theory Publish
  imports Dispatch
begin

text \<open>
  \<open>Engine.publish\<close> (\<^verbatim>\<open>internal/engine/publish.go\<close>), the only writer of a scope's cache: the two
  drops, the revision fence, the causal counters, and the hand-over to the key's delivery worker.
\<close>

subsection \<open>The revision fence\<close>

text \<open>
  The \<open>switch\<close> of \<open>publish\<close>, as a function from what is cached to what becomes of the
  publication: kept out, taken as a refresh of the cached entry's provenance (and spelling), or
  accepted. The branches are in the code's order.
\<close>

datatype verdict = Rejected | Refreshed entry | Accepted

definition fence :: "entry option \<Rightarrow> publication \<Rightarrow> verdict" where
  "fence cached pub =
     (case cached of
        None \<Rightarrow> Accepted
      | Some c \<Rightarrow>
          if pub_rev pub = 0 \<or> ent_rev c < pub_rev pub then Accepted
          else if pub_rev pub < ent_rev c then Rejected
          else if pub_raw pub \<noteq> [] \<and> pub_raw pub = ent_raw c
            then Refreshed (c\<lparr>ent_at := pub_at pub, ent_by := pub_by pub\<rparr>)
          else if pub_value pub = ent_value c
            then Refreshed (c\<lparr>ent_raw := (if pub_raw pub \<noteq> [] then pub_raw pub else ent_raw c),
                              ent_at := pub_at pub, ent_by := pub_by pub\<rparr>)
          else Accepted)"

definition entry_of :: "publication \<Rightarrow> entry" where
  "entry_of pub = \<lparr>ent_value = pub_value pub, ent_raw = pub_raw pub, ent_rev = pub_rev pub,
     ent_at = pub_at pub, ent_by = pub_by pub\<rparr>"

definition bump_fence :: "bool \<Rightarrow> key_fence \<Rightarrow> key_fence" where
  "bump_fence deleted f =
     \<lparr>kf_deletes = kf_deletes f + (if deleted then 1 else 0),
      kf_publications = kf_publications f + 1\<rparr>"

subsection \<open>publish\<close>

text \<open>
  \<open>publish_guard\<close> is the pair of refusals read without the scope's write lock; \<open>publish_commit\<close>
  is the body under it.
\<close>

definition publish_guard :: "sid \<Rightarrow> engine \<Rightarrow> err option" where
  "publish_guard s e =
     (if e_closed e then Some (Sentinel Engine_ErrClosed)
      else if sc_stop (sc_of e s) then Some (wrap_scope ErrScopeNotTracked (sc_scope (sc_of e s)))
      else None)"

definition publish_commit :: "sid \<Rightarrow> publication \<Rightarrow> engine \<Rightarrow> engine \<times> bool" where
  "publish_commit s pub e =
     (let nk = pub_nk pub;
          e1 = upd_sc s (\<lambda>sc. sc\<lparr>sc_unconfirmed := sc_unconfirmed sc - {nk}\<rparr>) e
      in case fence (sc_entries (sc_of e1 s) nk) pub of
           Rejected \<Rightarrow> (e1, False)
         | Refreshed c \<Rightarrow>
             (upd_sc s (\<lambda>sc. sc\<lparr>sc_entries := (sc_entries sc)(nk \<mapsto> c)\<rparr>) e1, False)
         | Accepted \<Rightarrow>
             (dispatch s pub
                (upd_sc s (\<lambda>sc. sc\<lparr>sc_entries := (sc_entries sc)(nk \<mapsto> entry_of pub),
                   sc_fences := modify (sc_fences sc) nk (bump_fence (pub_deleted pub))\<rparr>) e1),
              True))"

definition publish :: "sid \<Rightarrow> publication \<Rightarrow> engine \<Rightarrow> engine \<times> (err + bool)" where
  "publish s pub e =
     (case publish_guard s e of
        Some er \<Rightarrow> (e, Inl er)
      | None \<Rightarrow> let (e', notify) = publish_commit s pub e in (e', Inr notify))"

subsection \<open>The fence, branch by branch\<close>

text \<open>
  The four outcomes the code documents, as equivalences: the whole truth table of the fence.
\<close>

definition same_text :: "entry \<Rightarrow> publication \<Rightarrow> bool" where
  "same_text c pub \<longleftrightarrow>
     (pub_raw pub \<noteq> [] \<and> pub_raw pub = ent_raw c) \<or> pub_value pub = ent_value c"

lemma fence_accepted_iff:
  "fence cached pub = Accepted \<longleftrightarrow>
     cached = None \<or> pub_rev pub = 0 \<or>
     (\<exists>c. cached = Some c \<and>
        (ent_rev c < pub_rev pub \<or> (ent_rev c = pub_rev pub \<and> \<not> same_text c pub)))"
  by (auto simp: fence_def same_text_def split: option.splits)

lemma fence_rejected_iff:
  "fence cached pub = Rejected \<longleftrightarrow>
     (\<exists>c. cached = Some c \<and> pub_rev pub \<noteq> 0 \<and> pub_rev pub < ent_rev c)"
  by (auto simp: fence_def split: option.splits)

lemma fence_refreshed:
  assumes "fence cached pub = Refreshed c'"
  obtains c where "cached = Some c" "pub_rev pub \<noteq> 0" "ent_rev c = pub_rev pub" "same_text c pub"
    "ent_rev c' = ent_rev c" "ent_value c' = ent_value c"
    "ent_at c' = pub_at pub" "ent_by c' = pub_by pub"
    "ent_raw c' = (if pub_raw pub \<noteq> [] then pub_raw pub else ent_raw c)"
  using assms
  by (auto simp: fence_def same_text_def split: option.splits if_splits)

lemma fence_not_accepted:
  "fence cached pub \<noteq> Accepted \<Longrightarrow> \<exists>c. cached = Some c \<and> pub_rev pub \<le> ent_rev c"
  by (auto simp: fence_def split: option.splits if_splits)

subsection \<open>What publish leaves behind\<close>

lemma publish_dropped:
  "publish s pub e = (e', Inl er) \<Longrightarrow> e' = e \<and> publish_guard s e = Some er"
  by (auto simp: publish_def Let_def split: option.splits prod.splits)

lemma publish_done:
  "publish s pub e = (e', Inr n) \<Longrightarrow>
     publish_guard s e = None \<and> publish_commit s pub e = (e', n)"
  by (auto simp: publish_def Let_def split: option.splits prod.splits)

lemma publish_commit_env [frame]: "publish_commit s pub e = (e', n) \<Longrightarrow> env_of e' = env_of e"
  by (auto simp: publish_commit_def Let_def split: verdict.splits)

lemma publish_commit_ctl [frame]:
  "publish_commit s pub e = (e', n) \<Longrightarrow> ctl_of (sc_of e' t) = ctl_of (sc_of e t)"
  by (cases "t = s") (auto simp: publish_commit_def Let_def split: verdict.splits)

lemma publish_commit_win [frame]:
  "publish_commit s pub e = (e', n) \<Longrightarrow> sc_win (sc_of e' t) = sc_win (sc_of e t)"
  by (cases "t = s") (auto simp: publish_commit_def Let_def split: verdict.splits)

text \<open>The cache, the counters and the unconfirmed set after the body ran.\<close>

lemma publish_commit_entries:
  assumes "publish_commit s pub e = (e', n)"
  shows "sc_entries (sc_of e' t) nk =
    (if t = s \<and> nk = pub_nk pub
     then (case fence (sc_entries (sc_of e s) nk) pub of
             Rejected \<Rightarrow> sc_entries (sc_of e s) nk
           | Refreshed c \<Rightarrow> Some c
           | Accepted \<Rightarrow> Some (entry_of pub))
     else sc_entries (sc_of e t) nk)"
  using assms by (cases "t = s") (auto simp: publish_commit_def Let_def split: verdict.splits)

lemma publish_commit_notify:
  "publish_commit s pub e = (e', n) \<Longrightarrow>
     n \<longleftrightarrow> fence (sc_entries (sc_of e s) (pub_nk pub)) pub = Accepted"
  by (auto simp: publish_commit_def Let_def split: verdict.splits)

lemma publish_commit_fences:
  assumes "publish_commit s pub e = (e', n)"
  shows "sc_fences (sc_of e' t) nk =
    (if t = s \<and> nk = pub_nk pub \<and> n
     then bump_fence (pub_deleted pub) (sc_fences (sc_of e s) nk) else sc_fences (sc_of e t) nk)"
  using assms
  by (cases "t = s") (auto simp: publish_commit_def Let_def modify_apply split: verdict.splits)

lemma publish_commit_unconfirmed:
  assumes "publish_commit s pub e = (e', n)"
  shows "sc_unconfirmed (sc_of e' t) =
    (if t = s then sc_unconfirmed (sc_of e s) - {pub_nk pub} else sc_unconfirmed (sc_of e t))"
  using assms by (cases "t = s") (auto simp: publish_commit_def Let_def split: verdict.splits)

text \<open>A publication that was not dropped leaves the key cached, at its revision or a newer one.\<close>

lemma publish_commit_readable:
  assumes "publish_commit s pub e = (e', n)"
  shows "\<exists>c. sc_entries (sc_of e' s) (pub_nk pub) = Some c \<and> pub_rev pub \<le> ent_rev c
           \<and> (n \<longrightarrow> c = entry_of pub)"
proof (cases "fence (sc_entries (sc_of e s) (pub_nk pub)) pub")
  case Rejected
  with publish_commit_notify [OF assms] publish_commit_entries [OF assms, of s "pub_nk pub"]
    fence_not_accepted [of "sc_entries (sc_of e s) (pub_nk pub)" pub]
  show ?thesis by auto
next
  case (Refreshed c)
  with publish_commit_notify [OF assms] publish_commit_entries [OF assms, of s "pub_nk pub"]
  show ?thesis by (auto elim!: fence_refreshed)
next
  case Accepted
  with publish_commit_entries [OF assms, of s "pub_nk pub"] show ?thesis
    by (auto simp: entry_of_def)
qed

subsection \<open>The cache invariant\<close>

text \<open>
  Every cached entry belongs to a registered key, and is either a row whose bytes decode to the
  value in force (the spelling the echo test compares never drifts from the value), or the
  registered default with no row behind it.
\<close>

definition backed :: "engine \<Rightarrow> nskey \<Rightarrow> json \<Rightarrow> bytes \<Rightarrow> int \<Rightarrow> time \<Rightarrow> string \<Rightarrow> bool" where
  "backed e nk v raw r upd wr \<longleftrightarrow>
     (\<exists>d. eng_lookup e nk = Some d \<and>
        (if raw \<noteq> [] then e_unmarshal e raw = Some v
         else v = kd_default d \<and> r = 0 \<and> upd = zero_time \<and> wr = []))"

definition entry_ok :: "engine \<Rightarrow> nskey \<Rightarrow> entry \<Rightarrow> bool" where
  "entry_ok e nk c \<longleftrightarrow> backed e nk (ent_value c) (ent_raw c) (ent_rev c) (ent_at c) (ent_by c)"

definition pub_ok :: "engine \<Rightarrow> publication \<Rightarrow> bool" where
  "pub_ok e pub \<longleftrightarrow>
     backed e (pub_nk pub) (pub_value pub) (pub_raw pub) (pub_rev pub) (pub_at pub) (pub_by pub)"

definition cache_ok :: "engine \<Rightarrow> bool" where
  "cache_ok e \<longleftrightarrow> (\<forall>s nk c. sc_entries (sc_of e s) nk = Some c \<longrightarrow> entry_ok e nk c)"

lemma cache_okD: "cache_ok e \<Longrightarrow> sc_entries (sc_of e s) nk = Some c \<Longrightarrow> entry_ok e nk c"
  by (auto simp: cache_ok_def)

text \<open>The invariant reads the registry, the decoder and the caches, and nothing else.\<close>

lemma entry_ok_cong:
  "e_registry e' = e_registry e \<Longrightarrow> e_unmarshal e' = e_unmarshal e \<Longrightarrow>
     entry_ok e' nk c = entry_ok e nk c"
  by (simp add: entry_ok_def backed_def eng_lookup_def)

lemma cache_ok_cong:
  assumes "e_registry e' = e_registry e" and "e_unmarshal e' = e_unmarshal e"
    and "\<And>s nk c. sc_entries (sc_of e' s) nk = Some c \<Longrightarrow> sc_entries (sc_of e s) nk = Some c"
    and "cache_ok e"
  shows "cache_ok e'"
  using assms(3,4) entry_ok_cong [OF assms(1,2)] unfolding cache_ok_def by blast

lemma fence_keeps_entry_ok:
  assumes "fence (Some c) pub = Refreshed c'" and "entry_ok e (pub_nk pub) c" and "pub_ok e pub"
  shows "entry_ok e (pub_nk pub) c'"
  using assms(1)
proof (rule fence_refreshed)
  fix d
  assume d: "Some c = Some d" "pub_rev pub \<noteq> 0" "ent_rev d = pub_rev pub" "same_text d pub"
    "ent_rev c' = ent_rev d" "ent_value c' = ent_value d"
    "ent_at c' = pub_at pub" "ent_by c' = pub_by pub"
    "ent_raw c' = (if pub_raw pub \<noteq> [] then pub_raw pub else ent_raw d)"
  with assms(2,3) have raw: "pub_raw pub \<noteq> []"
    by (auto simp: pub_ok_def backed_def split: if_splits)
  with assms(3) obtain k where "eng_lookup e (pub_nk pub) = Some k"
    and pv: "e_unmarshal e (pub_raw pub) = Some (pub_value pub)"
    by (auto simp: pub_ok_def backed_def)
  moreover have "pub_value pub = ent_value d"
    using d(1,4) assms(2) raw pv
    by (auto simp: same_text_def entry_ok_def backed_def split: if_splits)
  ultimately show ?thesis
    using d raw by (auto simp: entry_ok_def backed_def)
qed

lemma publish_commit_cache_ok [pres]:
  assumes "publish_commit s pub e = (e', n)" and "cache_ok e" and "pub_ok e pub"
  shows "cache_ok e'"
  unfolding cache_ok_def
proof (intro allI impI)
  fix t nk c
  assume c: "sc_entries (sc_of e' t) nk = Some c"
  have same: "entry_ok e' nk c = entry_ok e nk c"
    using publish_commit_env [OF assms(1)] by (intro entry_ok_cong) (simp_all add: env_of_eq)
  have "entry_ok e nk c"
  proof (cases "t = s \<and> nk = pub_nk pub")
    case True
    note now = publish_commit_entries [OF assms(1), of t nk]
    show ?thesis
    proof (cases "fence (sc_entries (sc_of e s) nk) pub")
      case Rejected
      with True c now assms(2) show ?thesis by (simp add: cache_okD)
    next
      case (Refreshed c')
      with True c now have c': "c' = c" by simp
      from Refreshed obtain d where d: "sc_entries (sc_of e s) nk = Some d"
        by (auto elim: fence_refreshed)
      from Refreshed c' d have "fence (Some d) pub = Refreshed c" by simp
      moreover from d assms(2) True have "entry_ok e (pub_nk pub) d" by (simp add: cache_okD)
      ultimately have "entry_ok e (pub_nk pub) c"
        using assms(3) by (rule fence_keeps_entry_ok)
      with True show ?thesis by simp
    next
      case Accepted
      with True c now have "c = entry_of pub" by simp
      with True assms(3) show ?thesis by (simp add: entry_ok_def pub_ok_def entry_of_def)
    qed
  next
    case False
    with c publish_commit_entries [OF assms(1), of t nk] assms(2) show ?thesis
      by (auto simp: cache_okD)
  qed
  with same show "entry_ok e' nk c" by simp
qed

end
