(* ===== verification/Ingest.thy ===== *)
theory Ingest
  imports Publish
begin

text \<open>
  The engine's single ingress (\<^verbatim>\<open>internal/engine/ingest.go\<close>): decode, grade, publish, and record
  the outcome in every reconcile window. The code runs it as three pieces, two of them critical
  sections: the key is fenced as unusable (\<open>ingest_begin\<close>), the row is decoded and graded outside
  every lock (\<open>prepare\<close>), and the result is published and recorded (\<open>ingest_commit\<close>). Logging is
  not modelled.
\<close>

subsection \<open>Grading\<close>

text \<open>
  \<open>runValidator\<close>: a nil validator accepts, and a panic is a rejection that wraps the store's
  validation sentinel. \<open>None\<close> is a nil error.
\<close>

definition runValidator :: "ctx \<Rightarrow> validator option \<Rightarrow> json \<Rightarrow> err option" where
  "runValidator c v x =
     (case v of
        None \<Rightarrow> None
      | Some f \<Rightarrow> (case f c x of
            VOk \<Rightarrow> None
          | VErr er \<Rightarrow> Some er
          | VPanic \<Rightarrow> Some (Wrap NoNote [Sentinel ErrValidation])))"

text \<open>The context a read-back is graded under: the tenant's own for a tenant scope.\<close>

definition validatorCtx :: "engine \<Rightarrow> ctx \<Rightarrow> scope \<Rightarrow> ctx" where
  "validatorCtx e c sco =
     (case e_validatorContext e of
        None \<Rightarrow> c
      | Some f \<Rightarrow> if sco \<noteq> Scope [] then f c sco else c)"

definition prepare :: "ctx \<Rightarrow> scope \<Rightarrow> row \<Rightarrow> bool \<Rightarrow> engine \<Rightarrow> err + publication" where
  "prepare c sco se pregraded e =
     (case eng_lookup e (row_nk se) of
        None \<Rightarrow> Inl (if pregraded then wrap_key ErrUnregisteredKey (row_nk se)
                     else Sentinel ErrUnregisteredKey)
      | Some def \<Rightarrow>
          (case e_unmarshal e (row_value se) of
             None \<Rightarrow> Inl (wrap_key ErrDecode (row_nk se))
           | Some decoded \<Rightarrow>
               (case (if pregraded then None
                      else runValidator (validatorCtx e c sco) (kd_validate def) decoded) of
                  Some er \<Rightarrow> Inl er
                | None \<Rightarrow> Inr \<lparr>pub_scope = sco, pub_nk = row_nk se, pub_rev = row_rev se,
                    pub_value = decoded, pub_raw = row_value se, pub_deleted = False,
                    pub_at = row_at se, pub_by = row_by se\<rparr>)))"

subsection \<open>The ingress of a row\<close>

definition ingest_begin :: "sid \<Rightarrow> nskey \<Rightarrow> engine \<Rightarrow> engine" where
  "ingest_begin s nk e = upd_sc s (record_outcome nk False) e"

definition ingest_commit ::
  "sid \<Rightarrow> nskey \<Rightarrow> err + publication \<Rightarrow> feed_fence \<Rightarrow> bool \<Rightarrow> engine \<Rightarrow> engine \<times> err option"
where
  "ingest_commit s nk prep f pregraded e =
     (case prep of
        Inl er \<Rightarrow> (upd_sc s (record_outcome nk False) e, Some er)
      | Inr pub \<Rightarrow>
          if supersededByDelete (sc_of e s) nk f
          then (upd_sc s (record_outcome nk False) e, None)
          else case publish s pub e of
                 (e', Inl dropped) \<Rightarrow>
                   (upd_sc s (record_outcome nk False) e',
                    if pregraded then Some dropped else None)
               | (e', Inr notify) \<Rightarrow> (upd_sc s (record_outcome nk True) e', None))"

definition ingest ::
  "ctx \<Rightarrow> sid \<Rightarrow> row \<Rightarrow> feed_fence \<Rightarrow> bool \<Rightarrow> engine \<Rightarrow> engine \<times> err option"
where
  "ingest c s se f pregraded e =
     (let nk = row_nk se;
          e1 = ingest_begin s nk e;
          prep = prepare c (sc_scope (sc_of e1 s)) se pregraded e1
      in ingest_commit s nk prep f pregraded e1)"

subsection \<open>The ingress of a missing row\<close>

definition default_pub :: "scope \<Rightarrow> nskey \<Rightarrow> keydef \<Rightarrow> bool \<Rightarrow> publication" where
  "default_pub sco nk def deleted = \<lparr>pub_scope = sco, pub_nk = nk, pub_rev = 0,
     pub_value = kd_default def, pub_raw = [], pub_deleted = deleted,
     pub_at = zero_time, pub_by = []\<rparr>"

definition ingestDefault :: "sid \<Rightarrow> nskey \<Rightarrow> bool \<Rightarrow> engine \<Rightarrow> engine \<times> (err + bool)" where
  "ingestDefault s nk deleted e =
     (case eng_lookup e nk of
        None \<Rightarrow> (e, Inl (wrap_key ErrUnregisteredKey nk))
      | Some def \<Rightarrow> publish s (default_pub (sc_scope (sc_of e s)) nk def deleted) e)"

subsection \<open>Frames\<close>

lemma publish_env [frame]: "publish s pub e = (e', r) \<Longrightarrow> env_of e' = env_of e"
  by (auto simp: publish_def Let_def split: option.splits prod.splits dest: publish_commit_env)

lemma publish_ctl [frame]:
  "publish s pub e = (e', r) \<Longrightarrow> ctl_of (sc_of e' t) = ctl_of (sc_of e t)"
  by (auto simp: publish_def Let_def split: option.splits prod.splits
      dest: publish_commit_ctl [where t = t])

lemma publish_win [frame]:
  "publish s pub e = (e', r) \<Longrightarrow> sc_win (sc_of e' t) = sc_win (sc_of e t)"
  by (auto simp: publish_def Let_def split: option.splits prod.splits
      dest: publish_commit_win [where t = t])

lemma publish_other_key [frame]:
  "publish s pub e = (e', r) \<Longrightarrow> t \<noteq> s \<or> nk \<noteq> pub_nk pub \<Longrightarrow>
     sc_entries (sc_of e' t) nk = sc_entries (sc_of e t) nk
     \<and> sc_fences (sc_of e' t) nk = sc_fences (sc_of e t) nk"
  by (auto simp: publish_def Let_def publish_commit_entries publish_commit_fences
      split: option.splits prod.splits)

lemma ingest_begin_simps [simp]:
  "env_of (ingest_begin s nk e) = env_of e"
  "e_states (ingest_begin s nk e) t =
     (if t = s then record_outcome nk False (sc_of e s) else sc_of e t)"
  by (simp_all add: ingest_begin_def)

text \<open>\<open>prepare\<close> reads the registry, the decoder and the validator context, and no cache.\<close>

lemma prepare_cong:
  assumes "env_of e' = env_of e"
  shows "prepare c sco se pg e' = prepare c sco se pg e"
proof -
  have eqs: "e_registry e' = e_registry e" "e_unmarshal e' = e_unmarshal e"
    "e_validatorContext e' = e_validatorContext e"
    using assms by (simp_all add: env_of_eq)
  show ?thesis unfolding prepare_def eng_lookup_def validatorCtx_def eqs by (rule refl)
qed

lemma ingest_commit_env [frame]:
  "ingest_commit s nk prep f pg e = (e', r) \<Longrightarrow> env_of e' = env_of e"
  by (auto simp: ingest_commit_def dest: publish_env split: sum.splits if_splits prod.splits)

lemma ingest_env [frame]: "ingest c s se f pg e = (e', r) \<Longrightarrow> env_of e' = env_of e"
  by (auto simp: ingest_def Let_def dest: ingest_commit_env)

lemma ingestDefault_env [frame]: "ingestDefault s nk d e = (e', r) \<Longrightarrow> env_of e' = env_of e"
  by (auto simp: ingestDefault_def dest: publish_env split: option.splits)

lemma ingest_commit_ctl [frame]:
  "ingest_commit s nk prep f pg e = (e', r) \<Longrightarrow> ctl_of (sc_of e' t) = ctl_of (sc_of e t)"
  by (cases "t = s")
    (auto simp: ingest_commit_def dest: publish_ctl [where t = t]
      split: sum.splits if_splits prod.splits)

lemma ingest_ctl [frame]:
  "ingest c s se f pg e = (e', r) \<Longrightarrow> ctl_of (sc_of e' t) = ctl_of (sc_of e t)"
  by (cases "t = s") (auto simp: ingest_def Let_def dest!: ingest_commit_ctl [where t = t])

lemma ingestDefault_ctl [frame]:
  "ingestDefault s nk d e = (e', r) \<Longrightarrow> ctl_of (sc_of e' t) = ctl_of (sc_of e t)"
  by (auto simp: ingestDefault_def dest: publish_ctl [where t = t] split: option.splits)

subsection \<open>What prepare hands over\<close>

text \<open>
  \<open>encoding/json\<close> refuses empty input. It is the one fact on the decoder the cache invariant needs:
  a row with no bytes is never published as a value.
\<close>

definition decoder_ok :: "engine \<Rightarrow> bool" where
  "decoder_ok e \<longleftrightarrow> e_unmarshal e [] = None"

lemma prepare_pub:
  assumes "prepare c sco se pg e = Inr pub"
  shows "pub_nk pub = row_nk se" "pub_rev pub = row_rev se" "pub_raw pub = row_value se"
    "pub_scope pub = sco" "\<not> pub_deleted pub" "pub_at pub = row_at se" "pub_by pub = row_by se"
    "e_unmarshal e (row_value se) = Some (pub_value pub)"
    "eng_lookup e (row_nk se) \<noteq> None"
  using assms by (auto simp: prepare_def split: option.splits if_splits)

lemma prepare_pub_ok [pres]:
  "prepare c sco se pg e = Inr pub \<Longrightarrow> decoder_ok e \<Longrightarrow> pub_ok e pub"
  using prepare_pub [of c sco se pg e pub]
  by (auto simp: pub_ok_def backed_def decoder_ok_def)

lemma default_pub_ok [pres]:
  "eng_lookup e nk = Some def \<Longrightarrow> pub_ok e (default_pub sco nk def d)"
  by (simp add: pub_ok_def backed_def default_pub_def)

text \<open>A row that is not pregraded is published only if its validator accepts it.\<close>

lemma prepare_graded:
  assumes "prepare c sco se False e = Inr pub" and "eng_lookup e (row_nk se) = Some def"
  shows "runValidator (validatorCtx e c sco) (kd_validate def) (pub_value pub) = None"
  using assms by (auto simp: prepare_def split: option.splits)

subsection \<open>The ingress keeps the cache invariant\<close>

lemma upd_sc_cache_ok [pres]:
  assumes "cache_ok e" and "sc_entries (f (sc_of e s)) = sc_entries (sc_of e s)"
  shows "cache_ok (upd_sc s f e)"
  by (rule cache_ok_cong [OF _ _ _ assms(1)]) (auto simp: assms(2) split: if_splits)

lemma publish_cache_ok [pres]:
  "publish s pub e = (e', r) \<Longrightarrow> cache_ok e \<Longrightarrow> pub_ok e pub \<Longrightarrow> cache_ok e'"
  by (auto simp: publish_def Let_def split: option.splits prod.splits
      intro: publish_commit_cache_ok)

lemma ingest_commit_cache_ok [pres]:
  assumes "ingest_commit s nk prep f pg e = (e', r)" and "cache_ok e"
    and "\<And>pub. prep = Inr pub \<Longrightarrow> pub_ok e pub"
  shows "cache_ok e'"
  using assms
  by (auto simp: ingest_commit_def split: sum.splits if_splits prod.splits
      intro!: upd_sc_cache_ok dest: publish_cache_ok)

lemma decoder_ok_env: "env_of e' = env_of e \<Longrightarrow> decoder_ok e' = decoder_ok e"
  by (simp add: decoder_ok_def env_of_eq)

lemma pub_ok_env: "env_of e' = env_of e \<Longrightarrow> pub_ok e' pub = pub_ok e pub"
  by (simp add: pub_ok_def backed_def eng_lookup_def env_of_eq)

lemma ingest_cache_ok [pres]:
  assumes "ingest c s se f pg e = (e', r)" and "cache_ok e" and "decoder_ok e"
  shows "cache_ok e'"
proof -
  let ?e1 = "ingest_begin s (row_nk se) e"
  have e1: "cache_ok ?e1" "decoder_ok ?e1"
    using assms(2,3) by (simp_all add: ingest_begin_def upd_sc_cache_ok decoder_ok_def)
  from assms(1) have "ingest_commit s (row_nk se)
      (prepare c (sc_scope (sc_of ?e1 s)) se pg ?e1) f pg ?e1 = (e', r)"
    by (simp add: ingest_def Let_def)
  then show ?thesis
    using e1(1) by (rule ingest_commit_cache_ok) (rule prepare_pub_ok [OF _ e1(2)])
qed

lemma ingestDefault_cache_ok [pres]:
  "ingestDefault s nk d e = (e', r) \<Longrightarrow> cache_ok e \<Longrightarrow> cache_ok e'"
  by (auto simp: ingestDefault_def split: option.splits
      intro: publish_cache_ok [OF _ _ default_pub_ok])

subsection \<open>Outcomes\<close>

lemma ingestDefault_done:
  assumes "ingestDefault s nk d e = (e', Inr n)"
  obtains def where "eng_lookup e nk = Some def" and "n"
    and "publish_guard s e = None"
    and "publish_commit s (default_pub (sc_scope (sc_of e s)) nk def d) e = (e', True)"
    and "sc_entries (sc_of e' s) nk = Some (entry_of (default_pub (sc_scope (sc_of e s)) nk def d))"
proof -
  from assms obtain def where def: "eng_lookup e nk = Some def"
    and "publish s (default_pub (sc_scope (sc_of e s)) nk def d) e = (e', Inr n)"
    by (auto simp: ingestDefault_def split: option.splits)
  then have g: "publish_guard s e = None"
    and p: "publish_commit s (default_pub (sc_scope (sc_of e s)) nk def d) e = (e', n)"
    by (auto dest: publish_done)
  have acc: "fence (sc_entries (sc_of e s) nk) (default_pub (sc_scope (sc_of e s)) nk def d) = Accepted"
    by (simp add: fence_accepted_iff default_pub_def)
  with publish_commit_notify [OF p] have n: "n" by (simp add: default_pub_def)
  from publish_commit_entries [OF p, of s nk] acc
  have "sc_entries (sc_of e' s) nk = Some (entry_of (default_pub (sc_scope (sc_of e s)) nk def d))"
    by (simp add: default_pub_def)
  with that def n g p show ?thesis by simp
qed

text \<open>A refused row leaves every cache exactly as it was and is recorded as unusable.\<close>

lemma ingest_refused:
  assumes "prepare c (sc_scope (sc_of e s)) se pg e = Inl er"
  shows "ingest c s se f pg e =
    (upd_sc s (\<lambda>sc. record_outcome (row_nk se) False (record_outcome (row_nk se) False sc)) e,
     Some er)"
  using assms prepare_cong [of "ingest_begin s (row_nk se) e" e]
  by (simp add: ingest_def Let_def ingest_commit_def) (simp add: ingest_begin_def)

lemma record_outcome_superseded [simp]:
  "supersededByDelete (record_outcome nk' u sc) nk f = supersededByDelete sc nk f"
  "supersededByPublication (record_outcome nk' u sc) nk f = supersededByPublication sc nk f"
  by (simp_all add: supersededByDelete_def supersededByPublication_def)

lemma ingest_begin_guard [simp]: "publish_guard t (ingest_begin s nk e) = publish_guard t e"
  by (simp add: publish_guard_def ingest_begin_def)

lemma ingest_deleted:
  assumes "prepare c (sc_scope (sc_of e s)) se pg e = Inr pub"
    and "supersededByDelete (sc_of e s) (row_nk se) f"
  shows "ingest c s se f pg e =
    (upd_sc s (\<lambda>sc. record_outcome (row_nk se) False (record_outcome (row_nk se) False sc)) e,
     None)"
  using assms prepare_cong [of "ingest_begin s (row_nk se) e" e]
  by (simp add: ingest_def Let_def ingest_commit_def) (simp add: ingest_begin_def)

lemma ingest_published:
  assumes "prepare c (sc_scope (sc_of e s)) se pg e = Inr pub"
    and "\<not> supersededByDelete (sc_of e s) (row_nk se) f"
    and "publish_guard s e = None"
  shows "ingest c s se f pg e =
    (upd_sc s (record_outcome (row_nk se) True)
       (fst (publish_commit s pub (ingest_begin s (row_nk se) e))), None)"
  using assms prepare_cong [of "ingest_begin s (row_nk se) e" e]
  by (simp add: ingest_def Let_def ingest_commit_def publish_def split: prod.splits)

text \<open>A drop inside publish reaches the caller of a pregraded write, and nobody else.\<close>

lemma ingest_dropped:
  assumes "prepare c (sc_scope (sc_of e s)) se pg e = Inr pub"
    and "\<not> supersededByDelete (sc_of e s) (row_nk se) f"
    and "publish_guard s e = Some er"
  shows "ingest c s se f pg e =
    (upd_sc s (\<lambda>sc. record_outcome (row_nk se) False (record_outcome (row_nk se) False sc)) e,
     if pg then Some er else None)"
  using assms prepare_cong [of "ingest_begin s (row_nk se) e" e]
  by (simp add: ingest_def Let_def ingest_commit_def publish_def) (simp add: ingest_begin_def)

text \<open>The four ways an ingress ends, as one case rule.\<close>

lemma ingest_cases:
  obtains (refused) er where "prepare c (sc_scope (sc_of e s)) se pg e = Inl er"
    and "ingest c s se f pg e = (upd_sc s (\<lambda>sc. record_outcome (row_nk se) False
           (record_outcome (row_nk se) False sc)) e, Some er)"
  | (deleted) pub where "prepare c (sc_scope (sc_of e s)) se pg e = Inr pub"
    and "supersededByDelete (sc_of e s) (row_nk se) f"
    and "ingest c s se f pg e = (upd_sc s (\<lambda>sc. record_outcome (row_nk se) False
           (record_outcome (row_nk se) False sc)) e, None)"
  | (dropped) pub er where "prepare c (sc_scope (sc_of e s)) se pg e = Inr pub"
    and "\<not> supersededByDelete (sc_of e s) (row_nk se) f"
    and "publish_guard s e = Some er"
    and "ingest c s se f pg e = (upd_sc s (\<lambda>sc. record_outcome (row_nk se) False
           (record_outcome (row_nk se) False sc)) e, if pg then Some er else None)"
  | (published) pub where "prepare c (sc_scope (sc_of e s)) se pg e = Inr pub"
    and "\<not> supersededByDelete (sc_of e s) (row_nk se) f"
    and "publish_guard s e = None"
    and "ingest c s se f pg e = (upd_sc s (record_outcome (row_nk se) True)
           (fst (publish_commit s pub (ingest_begin s (row_nk se) e))), None)"
proof (cases "prepare c (sc_scope (sc_of e s)) se pg e")
  case (Inl er)
  then show ?thesis using refused ingest_refused by blast
next
  case (Inr pub)
  show ?thesis
  proof (cases "supersededByDelete (sc_of e s) (row_nk se) f")
    case True
    from deleted [OF Inr True ingest_deleted [OF Inr True]] show ?thesis .
  next
    case False
    show ?thesis
    proof (cases "publish_guard s e")
      case None
      from published [OF Inr False None ingest_published [OF Inr False None]] show ?thesis .
    next
      case (Some er)
      from dropped [OF Inr False Some ingest_dropped [OF Inr False Some]] show ?thesis .
    qed
  qed
qed

end
