(* ===== verification/Reconcile.thy ===== *)
theory Reconcile
  imports Ingest
begin

text \<open>
  The reconcile (\<^verbatim>\<open>internal/engine/reconcile.go\<close>): what an \<open>OpResync\<close> arms, and how the scope's
  one reconcile goroutine reloads the scope from a snapshot of the store. The store's answer to
  \<open>List\<close> is a parameter. Each row and each absent key is decided in one critical section, so the
  loops are recursions over those sections; a validator runs before the section, as in the code.
\<close>

subsection \<open>Arming\<close>

text \<open>\<open>scopeForEvent\<close> (\<^verbatim>\<open>feed.go\<close>) is the tracked state or nothing; it only logs besides.\<close>

definition scopeForEvent :: "scope \<Rightarrow> engine \<Rightarrow> sid option" where
  "scopeForEvent sco e = trackedScope e sco"

definition ensureReconcileWorker :: "sid \<Rightarrow> engine \<Rightarrow> engine \<times> bool" where
  "ensureReconcileWorker s e =
     (if e_workersClosed e then (e, False)
      else if sc_workerStarted (sc_of e s) then (e, True)
      else (upd_sc s (\<lambda>sc. sc\<lparr>sc_workerStarted := True\<rparr>) (e\<lparr>e_wg := e_wg e + 1\<rparr>), True))"

text \<open>\<open>onResync\<close> is three sections; \<open>arm_scope\<close> is the first, displaced window included.\<close>

definition arm_scope :: "scope_state \<Rightarrow> scope_state" where
  "arm_scope sc =
     (case armReconcile sc of
        (sc', None) \<Rightarrow> sc'
      | (sc', Some displaced) \<Rightarrow> closeWindow displaced sc')"

definition onResync :: "scope \<Rightarrow> engine \<Rightarrow> engine" where
  "onResync sco e =
     (case scopeForEvent sco e of
        None \<Rightarrow> e
      | Some s \<Rightarrow>
          (case ensureReconcileWorker s (upd_sc s arm_scope e) of
             (e', True) \<Rightarrow> e'
           | (e', False) \<Rightarrow>
               (case takeReconcile (sc_of e' s) of
                  (sc, None) \<Rightarrow> e'
                | (sc, Some pending) \<Rightarrow> upd_sc s (\<lambda>_. closeWindow pending sc) e')))"

subsection \<open>Deciding one key\<close>

definition snapshot_prepare :: "sid \<Rightarrow> row \<Rightarrow> engine \<Rightarrow> err + publication" where
  "snapshot_prepare s se e = prepare dispatchContext (sc_scope (sc_of e s)) se False e"

text \<open>The section of \<open>applySnapshotRow\<close>; the flag is "superseded".\<close>

definition snapshot_commit ::
  "sid \<Rightarrow> arming \<Rightarrow> nskey \<Rightarrow> err + publication \<Rightarrow> engine \<Rightarrow> engine \<times> bool"
where
  "snapshot_commit s arm nk prep e =
     (if sc_reconcileGen (sc_of e s) \<noteq> arm_reconcile arm then (e, True)
      else if nk \<in> touched (sc_win (sc_of e s) (arm_reconcile arm)) then (e, False)
      else case prep of
        Inr pub \<Rightarrow>
          (let e' = fst (publish s pub e) in
             (if nk \<in> unusable (sc_win (sc_of e' s) (arm_reconcile arm))
              then upd_sc s (markUnconfirmed nk) e' else e', False))
      | Inl er \<Rightarrow>
          if err_is er ErrUnregisteredKey then (e, False)
          else if sc_entries (sc_of e s) nk = None
            then (fst (ingestDefault s nk False e), False)
          else (e, False))"

definition applySnapshotRow :: "sid \<Rightarrow> arming \<Rightarrow> row \<Rightarrow> engine \<Rightarrow> engine \<times> bool" where
  "applySnapshotRow s arm se e = snapshot_commit s arm (row_nk se) (snapshot_prepare s se e) e"

definition keepsCachedValue :: "sid \<Rightarrow> arming \<Rightarrow> nskey \<Rightarrow> engine \<Rightarrow> bool \<times> bool" where
  "keepsCachedValue s arm nk e =
     (if nk \<in> touched (sc_win (sc_of e s) (arm_reconcile arm)) then (True, False)
      else case sc_entries (sc_of e s) nk of
        None \<Rightarrow> (False, False)
      | Some cached \<Rightarrow>
          if nk \<in> unusable (sc_win (sc_of e s) (arm_reconcile arm)) then (True, False)
          else let agreed = (case eng_lookup e nk of
                               None \<Rightarrow> False
                             | Some def \<Rightarrow> ent_rev cached = 0 \<and> ent_value cached = kd_default def)
            in (agreed, agreed))"

definition applyAbsentKey :: "sid \<Rightarrow> arming \<Rightarrow> nskey \<Rightarrow> engine \<Rightarrow> engine \<times> bool" where
  "applyAbsentKey s arm nk e =
     (if sc_reconcileGen (sc_of e s) \<noteq> arm_reconcile arm then (e, True)
      else case keepsCachedValue s arm nk e of
        (True, agreed) \<Rightarrow> (if agreed then upd_sc s (markConfirmed nk) e else e, False)
      | (False, _) \<Rightarrow> (fst (ingestDefault s nk False e), False))"

subsection \<open>Applying a snapshot\<close>

fun applySnapshotRows :: "sid \<Rightarrow> arming \<Rightarrow> row list \<Rightarrow> engine \<Rightarrow> engine \<times> bool" where
  "applySnapshotRows s arm [] e = (e, False)"
| "applySnapshotRows s arm (se # ses) e =
     (case applySnapshotRow s arm se e of
        (e', True) \<Rightarrow> (e', True)
      | (e', False) \<Rightarrow> applySnapshotRows s arm ses e')"

fun applyAbsentKeys :: "sid \<Rightarrow> arming \<Rightarrow> nskey set \<Rightarrow> nskey list \<Rightarrow> engine \<Rightarrow> engine \<times> bool" where
  "applyAbsentKeys s arm seen [] e = (e, False)"
| "applyAbsentKeys s arm seen (nk # nks) e =
     (if nk \<in> seen then applyAbsentKeys s arm seen nks e
      else case applyAbsentKey s arm nk e of
        (e', True) \<Rightarrow> (e', True)
      | (e', False) \<Rightarrow> applyAbsentKeys s arm seen nks e')"

text \<open>What \<open>Store.List\<close> does: rows, an error, or a panic under the call.\<close>

datatype list_answer = Listed "row list" | List_Failed err | List_Panicked

text \<open>
  \<open>applyScope\<close> returns (superseded, error); \<open>None\<close> stands for the panic unwinding through it.
\<close>

definition applyScope ::
  "sid \<Rightarrow> arming \<Rightarrow> list_answer \<Rightarrow> engine \<Rightarrow> engine \<times> (bool \<times> err option) option"
where
  "applyScope s arm ans e =
     (if \<not> tracks e s then (e, Some (True, None))
      else case ans of
        List_Panicked \<Rightarrow> (e, None)
      | List_Failed er \<Rightarrow> (e, Some (False, Some er))
      | Listed rows \<Rightarrow>
          if superseded (sc_of e s) arm then (e, Some (True, None))
          else case applySnapshotRows s arm rows e of
            (e1, True) \<Rightarrow> (e1, Some (True, None))
          | (e1, False) \<Rightarrow>
              (case applyAbsentKeys s arm (row_nk ` set rows) (registeredKeys e1) e1 of
                 (e2, True) \<Rightarrow> (e2, Some (True, None))
               | (e2, False) \<Rightarrow> (upd_sc s (clearStale arm) e2, Some (False, None))))"

text \<open>The flag of \<open>reconcileScope\<close> is \<open>runOneReconcile\<close>'s \<open>returned\<close>.\<close>

definition reconcileScope :: "sid \<Rightarrow> arming \<Rightarrow> list_answer \<Rightarrow> engine \<Rightarrow> engine \<times> bool" where
  "reconcileScope s arm ans e =
     (if superseded (sc_of e s) arm then (upd_sc s (closeWindow arm) e, True)
      else case applyScope s arm ans e of
        (e', None) \<Rightarrow> (upd_sc s (closeWindow arm) e', False)
      | (e', Some (True, _)) \<Rightarrow> (upd_sc s (closeWindow arm) e', True)
      | (e', Some (False, er)) \<Rightarrow>
          (upd_sc s (\<lambda>sc. closeWindow arm (finishFirstReconcile er sc)) e', True))"

definition runOneReconcile :: "sid \<Rightarrow> arming \<Rightarrow> list_answer \<Rightarrow> engine \<Rightarrow> engine" where
  "runOneReconcile s arm ans e =
     (case reconcileScope s arm ans e of
        (e', True) \<Rightarrow> e'
      | (e', False) \<Rightarrow>
          upd_sc s (finishFirstReconcile (Some (Sentinel ErrFirstReconcilePanicked))) e')"

text \<open>One turn of \<open>runReconcileWorker\<close> that took the wake: the slot may have been emptied since.\<close>

definition reconcile_turn :: "sid \<Rightarrow> list_answer \<Rightarrow> engine \<Rightarrow> engine" where
  "reconcile_turn s ans e =
     (case takeReconcile ((sc_of e s)\<lparr>sc_signal := False\<rparr>) of
        (sc, None) \<Rightarrow> upd_sc s (\<lambda>_. sc) e
      | (sc, Some arm) \<Rightarrow> runOneReconcile s arm ans (upd_sc s (\<lambda>_. sc) e))"

subsection \<open>The abstract reconcile\<close>

text \<open>
  What a snapshot decides, one key at a time and with no order: \<open>converge\<close> maps what a scope knows
  of a key (its entry, and whether it is unconfirmed) and what the photograph says of it to what
  the scope knows afterwards. It is the specification \<open>applyScope\<close> is proved to implement.
\<close>

definition merge :: "entry option \<Rightarrow> publication \<Rightarrow> entry option" where
  "merge cached pub =
     (case fence cached pub of Rejected \<Rightarrow> cached | Refreshed c \<Rightarrow> Some c
      | Accepted \<Rightarrow> Some (entry_of pub))"

definition default_entry :: "keydef \<Rightarrow> entry" where
  "default_entry def = \<lparr>ent_value = kd_default def, ent_raw = [], ent_rev = 0,
     ent_at = zero_time, ent_by = []\<rparr>"

type_synonym key_state = "entry option \<times> bool"

definition key_state :: "scope_state \<Rightarrow> nskey \<Rightarrow> key_state" where
  "key_state sc nk = (sc_entries sc nk, nk \<in> sc_unconfirmed sc)"

definition converge ::
  "engine \<Rightarrow> scope \<Rightarrow> window \<Rightarrow> nskey \<Rightarrow> row option \<Rightarrow> key_state \<Rightarrow> key_state"
where
  "converge e sco w nk snap st =
     (case eng_lookup e nk of
        None \<Rightarrow> st
      | Some def \<Rightarrow>
          if nk \<in> touched w then st
          else case snap of
            Some se \<Rightarrow>
              (case prepare dispatchContext sco se False e of
                 Inr pub \<Rightarrow> (merge (fst st) pub, nk \<in> unusable w)
               | Inl er \<Rightarrow>
                   if err_is er ErrUnregisteredKey \<or> fst st \<noteq> None then st
                   else (Some (default_entry def), False))
          | None \<Rightarrow>
              (case fst st of
                 None \<Rightarrow> (Some (default_entry def), False)
               | Some c \<Rightarrow>
                   if nk \<in> unusable w then st
                   else if ent_rev c = 0 \<and> ent_value c = kd_default def then (Some c, False)
                   else (Some (default_entry def), False)))"

definition snapshot_row :: "row list \<Rightarrow> nskey \<Rightarrow> row option" where
  "snapshot_row rows nk = find (\<lambda>se. row_nk se = nk) rows"

lemma snapshot_row_simps [simp]:
  "snapshot_row [] nk = None"
  "snapshot_row (se # rows) nk = (if row_nk se = nk then Some se else snapshot_row rows nk)"
  by (simp_all add: snapshot_row_def)

lemma snapshot_row_None: "snapshot_row rows nk = None \<longleftrightarrow> nk \<notin> row_nk ` set rows"
  by (auto simp: snapshot_row_def find_None_iff)

text \<open>
  \<open>steady e e'\<close>: nothing moved but caches, fences, unconfirmed records and delivery workers. Every
  section of a reconcile is steady, which is why no other scope and no generation can change
  under it except through another operation.
\<close>

definition steady :: "engine \<Rightarrow> engine \<Rightarrow> bool" where
  "steady e e' \<longleftrightarrow> env_of e' = env_of e \<and>
     (\<forall>t. ctl_of (sc_of e' t) = ctl_of (sc_of e t) \<and> sc_win (sc_of e' t) = sc_win (sc_of e t))"

lemma steady_refl [simp]: "steady e e"
  by (simp add: steady_def)

lemma steady_trans: "steady e e' \<Longrightarrow> steady e' e'' \<Longrightarrow> steady e e''"
  by (simp add: steady_def)

lemma steady_scD:
  assumes "steady e e'"
  shows "sc_scope (sc_of e' t) = sc_scope (sc_of e t)"
    "sc_reconcileGen (sc_of e' t) = sc_reconcileGen (sc_of e t)"
    "sc_disconnectGen (sc_of e' t) = sc_disconnectGen (sc_of e t)"
    "sc_stale (sc_of e' t) = sc_stale (sc_of e t)"
    "sc_stop (sc_of e' t) = sc_stop (sc_of e t)"
    "sc_open (sc_of e' t) = sc_open (sc_of e t)"
    "sc_pending (sc_of e' t) = sc_pending (sc_of e t)"
    "sc_firstDone (sc_of e' t) = sc_firstDone (sc_of e t)"
    "sc_firstErr (sc_of e' t) = sc_firstErr (sc_of e t)"
    "sc_win (sc_of e' t) = sc_win (sc_of e t)"
  using assms by (simp_all add: steady_def ctl_of_eq)

lemma steady_envD:
  assumes "steady e e'"
  shows "e_registry e' = e_registry e" "e_closed e' = e_closed e" "e_scopes e' = e_scopes e"
    "eng_lookup e' nk = eng_lookup e nk" "registeredKeys e' = registeredKeys e"
    "prepare c sco se pg e' = prepare c sco se pg e"
  using assms prepare_cong [of e' e]
  by (simp_all add: steady_def env_of_eq eng_lookup_def registeredKeys_def)

lemma steady_guard: "steady e e' \<Longrightarrow> publish_guard t e' = publish_guard t e"
  by (simp add: publish_guard_def steady_scD steady_envD)

lemma steady_tracks: "steady e e' \<Longrightarrow> tracks e' t = tracks e t"
  by (simp add: tracks_def trackedScope_def steady_scD steady_envD)

lemma steady_converge:
  assumes "steady e e'"
  shows "converge e' = converge e"
proof -
  have eqs: "eng_lookup e' = eng_lookup e" "\<And>sco se. prepare dispatchContext sco se False e' = prepare dispatchContext sco se False e"
    using assms by (auto simp: steady_envD)
  show ?thesis unfolding converge_def eqs by (rule refl)
qed

lemma steady_publish [frame]: "publish s pub e = (e', r) \<Longrightarrow> steady e e'"
  by (simp add: steady_def frame)

lemma steady_ingestDefault [frame]: "ingestDefault s nk d e = (e', r) \<Longrightarrow> steady e e'"
  by (auto simp: ingestDefault_def dest: steady_publish split: option.splits)

lemma steady_mark [simp]:
  "steady e (upd_sc s (markUnconfirmed nk) e)" "steady e (upd_sc s (markConfirmed nk) e)"
  by (simp_all add: steady_def)

subsection \<open>One section decides one key\<close>

lemma publish_key_state:
  assumes "publish_guard s e = None"
  shows "key_state (sc_of (fst (publish s pub e)) s) nk =
    (if nk = pub_nk pub then (merge (sc_entries (sc_of e s) nk) pub, False)
     else key_state (sc_of e s) nk)"
proof -
  obtain e' n where p: "publish_commit s pub e = (e', n)" by fastforce
  with assms have "fst (publish s pub e) = e'" by (simp add: publish_def)
  then show ?thesis
    using publish_commit_entries [OF p, of s nk] publish_commit_unconfirmed [OF p, of s]
    by (auto simp: key_state_def merge_def split: verdict.splits)
qed

text \<open>
  What \<open>merge\<close> leaves readable: the publication itself, or something strictly newer. The refreshed
  entry counts as the publication, because equal bytes decode to equal values.
\<close>

lemma merge_serves:
  assumes "\<And>c. cached = Some c \<Longrightarrow> entry_ok e (pub_nk pub) c" and "pub_ok e pub"
  shows "\<exists>c. merge cached pub = Some c \<and>
    (ent_rev c = pub_rev pub \<and> ent_value c = pub_value pub \<or> pub_rev pub < ent_rev c)"
proof (cases "fence cached pub")
  case Rejected
  then obtain c where "cached = Some c" "pub_rev pub < ent_rev c"
    by (auto simp: fence_rejected_iff)
  with Rejected show ?thesis by (simp add: merge_def)
next
  case (Refreshed c')
  then obtain c where c: "cached = Some c" "ent_rev c = pub_rev pub" "same_text c pub"
    "ent_rev c' = ent_rev c" "ent_value c' = ent_value c" by (rule fence_refreshed)
  have "ent_value c = pub_value pub"
    using c(3) assms(1) [OF c(1)] assms(2)
    by (auto simp: same_text_def entry_ok_def pub_ok_def backed_def split: if_splits)
  with Refreshed c show ?thesis by (simp add: merge_def)
next
  case Accepted
  then show ?thesis by (simp add: merge_def entry_of_def)
qed

lemma merge_default: "merge cached (default_pub sco nk def d) = Some (default_entry def)"
proof -
  have "fence cached (default_pub sco nk def d) = Accepted"
    by (simp add: fence_accepted_iff default_pub_def)
  then show ?thesis by (simp add: merge_def entry_of_def default_pub_def default_entry_def)
qed

lemma ingestDefault_key_state:
  assumes "publish_guard s e = None" and "eng_lookup e nk = Some def"
  shows "key_state (sc_of (fst (ingestDefault s nk d e)) s) nk' =
    (if nk' = nk then (Some (default_entry def), False) else key_state (sc_of e s) nk')"
  using assms publish_key_state [OF assms(1)]
  by (simp add: ingestDefault_def merge_default) (simp add: default_pub_def)

lemma key_state_mark [simp]:
  "key_state (markUnconfirmed nk sc) nk' = (sc_entries sc nk', nk' = nk \<or> nk' \<in> sc_unconfirmed sc)"
  "key_state (markConfirmed nk sc) nk' = (sc_entries sc nk', nk' \<noteq> nk \<and> nk' \<in> sc_unconfirmed sc)"
  by (auto simp: key_state_def markUnconfirmed_def markConfirmed_def)

lemma steady_fst [simp]:
  "steady e (fst (publish s pub e))" "steady e (fst (ingestDefault s nk d e))"
  using steady_publish steady_ingestDefault by (metis prod.collapse)+

lemma snapshot_commit_steady [frame]:
  "snapshot_commit s arm nk prep e = (e', b) \<Longrightarrow> steady e e'"
  by (auto simp: snapshot_commit_def Let_def split: if_splits sum.splits
      intro: steady_trans [OF steady_fst(1) steady_mark(1)])

lemma applySnapshotRow_steady [frame]:
  "applySnapshotRow s arm se e = (e', b) \<Longrightarrow> steady e e'"
  by (auto simp: applySnapshotRow_def dest: snapshot_commit_steady)

lemma applyAbsentKey_steady [frame]:
  "applyAbsentKey s arm nk e = (e', b) \<Longrightarrow> steady e e'"
  by (auto simp: applyAbsentKey_def split: if_splits prod.splits bool.splits)

lemma applySnapshotRows_steady [frame]:
  "applySnapshotRows s arm ses e = (e', b) \<Longrightarrow> steady e e'"
proof (induction ses arbitrary: e)
  case (Cons se ses)
  obtain e1 b where one: "applySnapshotRow s arm se e = (e1, b)" by fastforce
  with Cons.prems Cons.IH [of e1] show ?case
    by (cases b) (auto dest: applySnapshotRow_steady intro: steady_trans)
qed simp

lemma applyAbsentKeys_steady [frame]:
  "applyAbsentKeys s arm seen nks e = (e', b) \<Longrightarrow> steady e e'"
proof (induction nks arbitrary: e)
  case (Cons nk nks)
  obtain e1 b where one: "applyAbsentKey s arm nk e = (e1, b)" by fastforce
  with Cons.prems Cons.IH [of e1] Cons.IH [of e] show ?case
    by (cases b) (auto split: if_splits dest: applyAbsentKey_steady intro: steady_trans)
qed simp

text \<open>A section whose window has been taken changes nothing at all.\<close>

lemma superseded_section:
  assumes "sc_reconcileGen (sc_of e s) \<noteq> arm_reconcile arm"
  shows "applySnapshotRow s arm se e = (e, True)" and "applyAbsentKey s arm nk e = (e, True)"
  using assms by (simp_all add: applySnapshotRow_def snapshot_commit_def applyAbsentKey_def)

text \<open>A section that owns its window does to its key what \<open>converge\<close> says, and to no other key.\<close>

definition owns :: "sid \<Rightarrow> arming \<Rightarrow> engine \<Rightarrow> bool" where
  "owns s arm e \<longleftrightarrow>
     sc_reconcileGen (sc_of e s) = arm_reconcile arm \<and> publish_guard s e = None"

lemma steady_owns: "steady e e' \<Longrightarrow> owns s arm e' = owns s arm e"
  by (simp add: owns_def steady_scD steady_guard)

abbreviation window_of :: "engine \<Rightarrow> sid \<Rightarrow> arming \<Rightarrow> window" where
  "window_of e s arm \<equiv> sc_win (sc_of e s) (arm_reconcile arm)"

lemma key_state_upd [simp]:
  "key_state (sc_of (upd_sc s f e) s) nk = key_state (f (sc_of e s)) nk"
  by simp

lemma fst_key_state [simp]: "fst (key_state sc nk) = sc_entries sc nk"
  by (simp add: key_state_def)

lemma prepare_unregistered:
  "eng_lookup e (row_nk se) = None \<Longrightarrow>
     prepare c sco se False e = Inl (Sentinel ErrUnregisteredKey)"
  by (simp add: prepare_def)

lemma applySnapshotRow_converges:
  assumes "owns s arm e" and "applySnapshotRow s arm se e = (e', b)"
  shows "\<not> b" and "key_state (sc_of e' s) nk =
    (if nk = row_nk se
     then converge e (sc_scope (sc_of e s)) (window_of e s arm) nk (Some se) (key_state (sc_of e s) nk)
     else key_state (sc_of e s) nk)"
proof -
  let ?prep = "prepare dispatchContext (sc_scope (sc_of e s)) se False e"
  let ?w = "window_of e s arm"
  from assms have gen: "sc_reconcileGen (sc_of e s) = arm_reconcile arm"
    and guard: "publish_guard s e = None" by (simp_all add: owns_def)
  have step: "snapshot_commit s arm (row_nk se) ?prep e = (e', b)"
    using assms(2) by (simp add: applySnapshotRow_def snapshot_prepare_def)
  then show "\<not> b"
    using gen by (auto simp: snapshot_commit_def Let_def split: if_splits sum.splits)
  show "key_state (sc_of e' s) nk = (if nk = row_nk se
     then converge e (sc_scope (sc_of e s)) ?w nk (Some se) (key_state (sc_of e s) nk)
     else key_state (sc_of e s) nk)"
  proof (cases "eng_lookup e (row_nk se)")
    case None
    then have "e' = e"
      using step gen by (auto simp: snapshot_commit_def prepare_unregistered split: if_splits)
    with None show ?thesis by (simp add: converge_def)
  next
    case (Some def)
    show ?thesis
    proof (cases "row_nk se \<in> touched ?w")
      case True
      with step gen have "e' = e" by (simp add: snapshot_commit_def)
      with True Some show ?thesis by (simp add: converge_def)
    next
      case fresh: False
      show ?thesis
      proof (cases ?prep)
        case (Inr pub)
        have nk: "pub_nk pub = row_nk se" using prepare_pub(1) [OF Inr] .
        have w: "window_of (fst (publish s pub e)) s arm = ?w"
          using steady_scD(10) [OF steady_fst(1)] by simp
        show ?thesis
          using step gen fresh Inr Some publish_key_state [OF guard, of pub nk]
            publish_key_state [OF guard, of pub "row_nk se"]
          by (auto simp: snapshot_commit_def Let_def converge_def nk w key_state_def split: if_splits)
      next
        case (Inl er)
        show ?thesis
          using step gen fresh Inl Some ingestDefault_key_state [OF guard Some, of False nk]
          by (auto simp: snapshot_commit_def converge_def split: if_splits)
      qed
    qed
  qed
qed

lemma applyAbsentKey_converges:
  assumes "owns s arm e" and "applyAbsentKey s arm nk0 e = (e', b)"
    and "eng_lookup e nk0 = Some def"
  shows "\<not> b" and "key_state (sc_of e' s) nk =
    (if nk = nk0
     then converge e (sc_scope (sc_of e s)) (window_of e s arm) nk None (key_state (sc_of e s) nk)
     else key_state (sc_of e s) nk)"
proof -
  from assms(1) have gen: "sc_reconcileGen (sc_of e s) = arm_reconcile arm"
    and guard: "publish_guard s e = None" by (simp_all add: owns_def)
  show "\<not> b"
    using assms(2) gen by (auto simp: applyAbsentKey_def split: prod.splits bool.splits)
  show "key_state (sc_of e' s) nk = (if nk = nk0
     then converge e (sc_scope (sc_of e s)) (window_of e s arm) nk None (key_state (sc_of e s) nk)
     else key_state (sc_of e s) nk)"
    using assms(2,3) gen ingestDefault_key_state [OF guard assms(3), of False nk]
    by (auto simp: applyAbsentKey_def keepsCachedValue_def converge_def Let_def key_state_def
        split: if_splits option.splits)
qed

text \<open>The loops: each key is decided once, by the row or by the absence the photograph shows.\<close>

lemma applySnapshotRows_converges:
  assumes "owns s arm e" and "distinct (map row_nk rows)"
    and "applySnapshotRows s arm rows e = (e', b)"
  shows "\<not> b \<and> key_state (sc_of e' s) nk =
    (case snapshot_row rows nk of
       None \<Rightarrow> key_state (sc_of e s) nk
     | Some se \<Rightarrow> converge e (sc_scope (sc_of e s)) (window_of e s arm) nk (Some se)
                    (key_state (sc_of e s) nk))"
  using assms
proof (induction rows arbitrary: e)
  case (Cons se rows)
  obtain e1 b1 where one: "applySnapshotRow s arm se e = (e1, b1)" by fastforce
  note st = applySnapshotRow_steady [OF one]
  note dec = applySnapshotRow_converges [OF Cons.prems(1) one]
  from Cons.prems(3) one dec(1) have rest: "applySnapshotRows s arm rows e1 = (e', b)" by simp
  have "owns s arm e1" using Cons.prems(1) by (simp add: steady_owns [OF st])
  from Cons.IH [OF this _ rest] Cons.prems(2)
  have "\<not> b \<and> key_state (sc_of e' s) nk =
    (case snapshot_row rows nk of
       None \<Rightarrow> key_state (sc_of e1 s) nk
     | Some se \<Rightarrow> converge e (sc_scope (sc_of e s)) (window_of e s arm) nk (Some se)
                    (key_state (sc_of e1 s) nk))"
    unfolding steady_converge [OF st] steady_scD [OF st] by simp
  moreover have "row_nk se = nk \<Longrightarrow> snapshot_row rows nk = None"
    using Cons.prems(2) by (auto simp: snapshot_row_None)
  ultimately show ?case
    using dec(2) by (auto split: option.splits)
qed simp

lemma applyAbsentKeys_converges:
  assumes "owns s arm e" and "distinct nks" and "\<forall>k \<in> set nks. eng_lookup e k \<noteq> None"
    and "applyAbsentKeys s arm seen nks e = (e', b)"
  shows "\<not> b \<and> key_state (sc_of e' s) nk =
    (if nk \<in> set nks \<and> nk \<notin> seen
     then converge e (sc_scope (sc_of e s)) (window_of e s arm) nk None (key_state (sc_of e s) nk)
     else key_state (sc_of e s) nk)"
  using assms
proof (induction nks arbitrary: e)
  case (Cons k nks)
  show ?case
  proof (cases "k \<in> seen")
    case True
    with Cons.IH [of e] Cons.prems show ?thesis by auto
  next
    case False
    obtain e1 b1 where one: "applyAbsentKey s arm k e = (e1, b1)" by fastforce
    obtain def where def: "eng_lookup e k = Some def" using Cons.prems(3) by auto
    note st = applyAbsentKey_steady [OF one]
    note dec = applyAbsentKey_converges [OF Cons.prems(1) one def]
    from Cons.prems(4) one dec(1) False
    have rest: "applyAbsentKeys s arm seen nks e1 = (e', b)" by simp
    have own: "owns s arm e1" using Cons.prems(1) by (simp add: steady_owns [OF st])
    have reg: "\<forall>k \<in> set nks. eng_lookup e1 k \<noteq> None"
      using Cons.prems(3) by (simp add: steady_envD [OF st])
    from Cons.IH [OF own _ reg rest] Cons.prems(2) dec(2) False show ?thesis
      by (auto simp: steady_converge [OF st] steady_scD [OF st])
  qed
qed simp

subsection \<open>The whole reconcile\<close>

text \<open>What every exit of a reconcile does besides deciding keys.\<close>

lemma closeWindow_frame [simp]:
  "key_state (closeWindow arm sc) nk = key_state sc nk"
  "sc_stale (closeWindow arm sc) = sc_stale sc"
  "sc_firstDone (closeWindow arm sc) = sc_firstDone sc"
  "sc_firstErr (closeWindow arm sc) = sc_firstErr sc"
  "sc_reconcileGen (closeWindow arm sc) = sc_reconcileGen sc"
  "sc_open (closeWindow arm sc) = sc_open sc - {arm_reconcile arm}"
  by (simp_all add: closeWindow_def key_state_def)

lemma finishFirst_frame [simp]:
  "key_state (finishFirstReconcile er sc) nk = key_state sc nk"
  "sc_entries (finishFirstReconcile er sc) = sc_entries sc"
  "sc_stale (finishFirstReconcile er sc) = sc_stale sc"
  "sc_open (finishFirstReconcile er sc) = sc_open sc"
  "sc_firstDone (finishFirstReconcile er sc)"
  by (simp_all add: finishFirstReconcile_def key_state_def)

lemma clearStale_key_state [simp]: "key_state (clearStale arm sc) nk = key_state sc nk"
  by (simp add: clearStale_def key_state_def)

context registry_port
begin

lemma registered_iff:
  "e_registry e = Some reg \<Longrightarrow> nk \<in> set (registeredKeys e) \<longleftrightarrow> eng_lookup e nk \<noteq> None"
  by (simp add: registeredKeys_def eng_lookup_def keys_lookup)

lemma registered_distinct: "e_registry e = Some reg \<Longrightarrow> distinct (registeredKeys e)"
  by (simp add: registeredKeys_def keys_distinct)

text \<open>
  An uninterrupted application of a snapshot brings every key of the scope, registered or not, to
  exactly what \<open>converge\<close> prescribes, and clears stale unless the feed dropped since arming.
\<close>

lemma applyScope_converges:
  assumes "e_registry e = Some reg" and "tracks e s" and own: "owns s arm e"
    and "distinct (map row_nk rows)"
    and app: "applyScope s arm (Listed rows) e = (e', r)"
  shows "r = Some (False, None)"
    and "key_state (sc_of e' s) nk =
      converge e (sc_scope (sc_of e s)) (window_of e s arm) nk (snapshot_row rows nk)
        (key_state (sc_of e s) nk)"
    and "sc_stale (sc_of e' s) \<longleftrightarrow>
      sc_stale (sc_of e s) \<and> sc_disconnectGen (sc_of e s) \<noteq> arm_disconnect arm"
    and "env_of e' = env_of e"
proof -
  obtain e1 b1 where rows: "applySnapshotRows s arm rows e = (e1, b1)" by fastforce
  note st1 = applySnapshotRows_steady [OF rows]
  note d1 = applySnapshotRows_converges [OF own assms(4) rows]
  obtain e2 b2 where keys:
    "applyAbsentKeys s arm (row_nk ` set rows) (registeredKeys e1) e1 = (e2, b2)" by fastforce
  note st2 = applyAbsentKeys_steady [OF keys]
  have own1: "owns s arm e1" using own by (simp add: steady_owns [OF st1])
  have regs: "registeredKeys e1 = registeredKeys e" by (rule steady_envD(5) [OF st1])
  have all: "\<forall>k \<in> set (registeredKeys e1). eng_lookup e1 k \<noteq> None"
    using registered_iff [OF assms(1)] by (simp add: regs steady_envD(4) [OF st1])
  have "distinct (registeredKeys e1)" using registered_distinct [OF assms(1)] by (simp add: regs)
  note d2 = applyAbsentKeys_converges [OF own1 this all keys]
  have gen: "sc_reconcileGen (sc_of e s) = arm_reconcile arm" using own by (simp add: owns_def)
  have res: "(e', r) = (upd_sc s (clearStale arm) e2, Some (False, None))"
    using app assms(2) gen rows keys d1 d2
    by (auto simp: applyScope_def superseded_def)
  then show "r = Some (False, None)" by simp
  note st = steady_trans [OF st1 st2]
  from res show "env_of e' = env_of e" using st by (simp add: steady_def)
  show "sc_stale (sc_of e' s) \<longleftrightarrow>
      sc_stale (sc_of e s) \<and> sc_disconnectGen (sc_of e s) \<noteq> arm_disconnect arm"
    using res gen steady_scD [OF st] by (simp add: clearStale_iff)
  have abs: "key_state (sc_of e2 s) nk = (if nk \<in> set (registeredKeys e) \<and> nk \<notin> row_nk ` set rows
     then converge e (sc_scope (sc_of e s)) (window_of e s arm) nk None (key_state (sc_of e1 s) nk)
     else key_state (sc_of e1 s) nk)"
    using d2 [of nk] unfolding steady_converge [OF st1] steady_scD [OF st1] regs by simp
  show "key_state (sc_of e' s) nk =
      converge e (sc_scope (sc_of e s)) (window_of e s arm) nk (snapshot_row rows nk)
        (key_state (sc_of e s) nk)"
  proof (cases "snapshot_row rows nk")
    case None
    then have "nk \<notin> row_nk ` set rows" by (simp add: snapshot_row_None)
    moreover have "nk \<notin> set (registeredKeys e) \<Longrightarrow>
        converge e (sc_scope (sc_of e s)) (window_of e s arm) nk None st = st" for st
      by (simp add: converge_def registered_iff [OF assms(1)])
    ultimately show ?thesis using res abs d1 [of nk] None by auto
  next
    case (Some se)
    then have "nk \<in> row_nk ` set rows" using snapshot_row_None [of rows nk] by auto
    with res abs d1 [of nk] Some show ?thesis by simp
  qed
qed

lemma runOneReconcile_converges:
  assumes "e_registry e = Some reg" and "tracks e s" and own: "owns s arm e"
    and "distinct (map row_nk rows)"
  defines "e' \<equiv> runOneReconcile s arm (Listed rows) e"
  shows "key_state (sc_of e' s) nk =
      converge e (sc_scope (sc_of e s)) (window_of e s arm) nk (snapshot_row rows nk)
        (key_state (sc_of e s) nk)"
    and "sc_stale (sc_of e' s) \<longleftrightarrow>
      sc_stale (sc_of e s) \<and> sc_disconnectGen (sc_of e s) \<noteq> arm_disconnect arm"
    and "sc_firstDone (sc_of e' s)" and "arm_reconcile arm \<notin> sc_open (sc_of e' s)"
    and "env_of e' = env_of e"
proof -
  obtain e1 r where app: "applyScope s arm (Listed rows) e = (e1, r)" by fastforce
  note conv = applyScope_converges [OF assms(1-4) app]
  have "\<not> superseded (sc_of e s) arm" using own by (simp add: owns_def superseded_def)
  with app conv(1) have e': "e' = upd_sc s (\<lambda>sc. closeWindow arm (finishFirstReconcile None sc)) e1"
    by (simp add: e'_def runOneReconcile_def reconcileScope_def)
  from e' conv(2-4) show "key_state (sc_of e' s) nk =
      converge e (sc_scope (sc_of e s)) (window_of e s arm) nk (snapshot_row rows nk)
        (key_state (sc_of e s) nk)"
    and "sc_stale (sc_of e' s) \<longleftrightarrow>
      sc_stale (sc_of e s) \<and> sc_disconnectGen (sc_of e s) \<noteq> arm_disconnect arm"
    and "sc_firstDone (sc_of e' s)" and "arm_reconcile arm \<notin> sc_open (sc_of e' s)"
    and "env_of e' = env_of e"
    by simp_all
qed

end

text \<open>A reconcile whose window was taken, or whose scope was dropped, only closes its own window.\<close>

lemma reconcile_superseded:
  "superseded (sc_of e s) arm \<or> \<not> tracks e s \<Longrightarrow>
     runOneReconcile s arm ans e = upd_sc s (closeWindow arm) e"
  by (auto simp: runOneReconcile_def reconcileScope_def applyScope_def)

text \<open>A failed List keeps every cached value and every stale flag, and ends the first reconcile.\<close>

lemma reconcile_failed:
  assumes "\<not> superseded (sc_of e s) arm" and "tracks e s"
  shows "runOneReconcile s arm (List_Failed er) e =
      upd_sc s (\<lambda>sc. closeWindow arm (finishFirstReconcile (Some er) sc)) e"
    and "runOneReconcile s arm List_Panicked e =
      upd_sc s (\<lambda>sc. finishFirstReconcile (Some (Sentinel ErrFirstReconcilePanicked))
                       (closeWindow arm sc)) e"
  using assms by (simp_all add: runOneReconcile_def reconcileScope_def applyScope_def)

end
