(* ===== verification/Feed.thy ===== *)
theory Feed
  imports Reconcile
begin

text \<open>
  The changefeed (\<^verbatim>\<open>internal/engine/feed.go\<close>): what each event does on the feed's goroutine, the
  re-read it schedules, and how a re-read that could not answer is repaired. The store's answer to
  \<open>Get\<close> is a parameter, and so is \<open>during\<close>: whatever the rest of the process does to the engine
  while the store call runs outside every lock. Every theorem here holds for each \<open>during\<close>.
\<close>

subsection \<open>What an event does at once\<close>

definition markStale :: "scope \<Rightarrow> engine \<Rightarrow> engine" where
  "markStale sco e =
     (case scopeForEvent sco e of None \<Rightarrow> e | Some s \<Rightarrow> upd_sc s markStale_sc e)"

definition recordFeedDelete :: "scope \<Rightarrow> nskey \<Rightarrow> engine \<Rightarrow> engine" where
  "recordFeedDelete sco nk e =
     (case scopeForEvent sco e of
        None \<Rightarrow> e
      | Some s \<Rightarrow> upd_sc s (\<lambda>sc. bumpDeletes nk (record_outcome nk True sc)) e)"

text \<open>What an event hands to the debouncer: the tracked re-read, or the inline one.\<close>

datatype refresh_work =
    TrackedRefresh scope nskey bool
  | InlineRefresh scope nskey bool

definition submitRefresh :: "scope \<Rightarrow> nskey \<Rightarrow> bool \<Rightarrow> engine \<Rightarrow> refresh_work" where
  "submitRefresh sco nk deleted e =
     (if e_debounceAsync e then TrackedRefresh sco nk deleted else InlineRefresh sco nk deleted)"

definition onEvent :: "event \<Rightarrow> engine \<Rightarrow> engine \<times> refresh_work option" where
  "onEvent evt e =
     (if e_closed e then (e, None)
      else if ev_op evt = OpDisconnect then (markStale (ev_scope evt) e, None)
      else if ev_op evt = OpResync then (onResync (ev_scope evt) e, None)
      else
        let nk = NSKey (ev_ns evt) (ev_key evt) in
        if eng_lookup e nk = None then (e, None)
        else
          let deleted = (ev_op evt = OpDelete);
              e' = (if deleted then recordFeedDelete (ev_scope evt) nk e else e)
          in (e', Some (submitRefresh (ev_scope evt) nk deleted e')))"

subsection \<open>Local removal\<close>

definition writeScope :: "scope \<Rightarrow> engine \<Rightarrow> err + sid" where
  "writeScope sco e =
     (case trackedScope e sco of
        Some s \<Rightarrow> Inr s
      | None \<Rightarrow> Inl (wrap_scope ErrScopeNotTracked sco))"

text \<open>The answer is the Go error: \<open>None\<close> is nil.\<close>

definition PublishDelete :: "scope \<Rightarrow> nskey \<Rightarrow> engine \<Rightarrow> engine \<times> err option" where
  "PublishDelete sco nk e =
     (if e_closed e then (e, Some (Sentinel Engine_ErrClosed))
      else case writeScope sco e of
        Inl er \<Rightarrow> (e, Some er)
      | Inr s \<Rightarrow>
          (case ingestDefault s nk True e of
             (e', Inl er) \<Rightarrow> (e', Some er)
           | (e', Inr notify) \<Rightarrow>
               (if notify then upd_sc s (record_outcome nk True) e' else e', None)))"

subsection \<open>The repair of a re-read\<close>

text \<open>\<open>retryRefresh\<close>; the flag says a repair goroutine was launched.\<close>

definition retryRefresh ::
  "sid \<Rightarrow> nskey \<Rightarrow> feed_fence \<Rightarrow> bool \<Rightarrow> bool \<Rightarrow> engine \<Rightarrow> engine \<times> bool"
where
  "retryRefresh s nk f deleted retried e =
     (if \<not> tracks e s then (e, False)
      else if retried then (upd_sc s (recordUnconfirmed nk f) e, False)
      else case beginRetry (nk, deleted) (sc_of e s) of
        (sc, False) \<Rightarrow> (e, False)
      | (sc, True) \<Rightarrow>
          (case beginWork (upd_sc s (\<lambda>_. sc) e) of
             (e', False) \<Rightarrow> (upd_sc s (endRetry (nk, deleted)) e', False)
           | (e', True) \<Rightarrow> (e', True)))"

definition recordFeedOutcome :: "sid \<Rightarrow> nskey \<Rightarrow> bool \<Rightarrow> engine \<Rightarrow> engine" where
  "recordFeedOutcome s nk usable e =
     (if \<not> tracks e s then e else upd_sc s (record_outcome nk usable) e)"

definition canceledByShutdown :: "err \<Rightarrow> engine \<Rightarrow> bool" where
  "canceledByShutdown er e \<longleftrightarrow> err_is er ContextCanceled \<and> e_canceled e"

definition recoverRefresh ::
  "sid \<Rightarrow> nskey \<Rightarrow> feed_fence \<Rightarrow> bool \<Rightarrow> bool \<Rightarrow> engine \<Rightarrow> engine \<times> bool"
where
  "recoverRefresh s nk origin deleted retried e =
     retryRefresh s nk origin deleted retried (recordFeedOutcome s nk False e)"

subsection \<open>The re-read\<close>

text \<open>What \<open>Store.Get\<close>, under one of the scope's slots, came back with.\<close>

datatype get_answer = Got row | Absent | Get_Failed err | Get_Panicked

definition publishAbsentDelete :: "sid \<Rightarrow> nskey \<Rightarrow> feed_fence \<Rightarrow> engine \<Rightarrow> engine" where
  "publishAbsentDelete s nk f e =
     (if supersededByPublication (sc_of e s) nk f then e
      else case ingestDefault s nk False e of
        (e', Inr True) \<Rightarrow> upd_sc s (record_outcome nk True) e'
      | (e', _) \<Rightarrow> e')"

text \<open>\<open>refreshKey\<close> before its store call: resolve the scope, arm the fence, adopt the origin.\<close>

definition refresh_begin ::
  "scope \<Rightarrow> nskey \<Rightarrow> feed_fence \<Rightarrow> engine \<Rightarrow> (sid \<times> feed_fence \<times> feed_fence) option"
where
  "refresh_begin sco nk origin e =
     (case scopeForEvent sco e of
        None \<Rightarrow> None
      | Some s \<Rightarrow>
          let f = fenceFor (sc_of e s) nk
          in Some (s, f, if ff_armed origin then origin else f))"

text \<open>\<open>refreshKey\<close> after its store call; the flag says a repair was launched.\<close>

definition refresh_conclude ::
  "scope \<Rightarrow> sid \<Rightarrow> nskey \<Rightarrow> feed_fence \<Rightarrow> feed_fence \<Rightarrow> bool \<Rightarrow> bool \<Rightarrow> get_answer \<Rightarrow>
     engine \<Rightarrow> engine \<times> bool"
where
  "refresh_conclude sco s nk f origin deleted retried ans e =
     (case ans of
        Get_Panicked \<Rightarrow> recoverRefresh s nk origin deleted retried e
      | Get_Failed er \<Rightarrow>
          (let e1 = recordFeedOutcome s nk False e in
           if canceledByShutdown er e1 then (e1, False)
           else retryRefresh s nk origin deleted retried e1)
      | Absent \<Rightarrow>
          (if scopeForEvent sco e \<noteq> Some s then (e, False)
           else if deleted then (publishAbsentDelete s nk f e, False)
           else if retried then (upd_sc s (recordUnconfirmed nk origin) e, False)
           else (e, False))
      | Got se \<Rightarrow>
          (if scopeForEvent sco e \<noteq> Some s then (e, False)
           else (fst (ingest dispatchContext s se f False e), False)))"

definition refreshKey ::
  "scope \<Rightarrow> nskey \<Rightarrow> feed_fence \<Rightarrow> bool \<Rightarrow> bool \<Rightarrow> (engine \<Rightarrow> engine) \<Rightarrow> get_answer \<Rightarrow>
     engine \<Rightarrow> engine \<times> bool"
where
  "refreshKey sco nk origin deleted retried during ans e =
     (case refresh_begin sco nk origin e of
        None \<Rightarrow> (e, False)
      | Some (s, f, origin') \<Rightarrow>
          refresh_conclude sco s nk f origin' deleted retried ans (during e))"

text \<open>The body of the goroutine \<open>retryRefresh\<close> launched, once its pause is over.\<close>

definition retry_run ::
  "sid \<Rightarrow> nskey \<Rightarrow> feed_fence \<Rightarrow> bool \<Rightarrow> (engine \<Rightarrow> engine) \<Rightarrow> get_answer \<Rightarrow> engine \<Rightarrow> engine"
where
  "retry_run s nk f deleted during ans e =
     (let e1 = (if e_canceled e \<or> \<not> tracks e s then e
                else fst (refreshKey (sc_scope (sc_of e s)) nk f deleted True during ans e))
      in endWork (upd_sc s (endRetry (nk, deleted)) e1))"

text \<open>
  \<open>trackedRefresh\<close>: the loop consumes one store read per round, so its fuel is the list of reads;
  \<open>None\<close> says it still owes one. A notification arriving mid-read is part of that round's
  \<open>during\<close>.
\<close>

fun refresh_loop ::
  "sid \<Rightarrow> scope \<Rightarrow> nskey \<Rightarrow> bool \<Rightarrow> ((engine \<Rightarrow> engine) \<times> get_answer) list \<Rightarrow> engine \<Rightarrow>
     engine option"
where
  "refresh_loop s sco nk deleted [] e = None"
| "refresh_loop s sco nk deleted ((during, ans) # reads) e =
     (let e1 = fst (refreshKey sco nk unarmed deleted False during ans e);
          (sc, again, deleted') = endRefresh nk (sc_of e1 s);
          e2 = upd_sc s (\<lambda>_. sc) e1
      in if again then refresh_loop s sco nk deleted' reads e2 else Some e2)"

definition trackedRefresh ::
  "scope \<Rightarrow> nskey \<Rightarrow> bool \<Rightarrow> ((engine \<Rightarrow> engine) \<times> get_answer) list \<Rightarrow> engine \<Rightarrow> engine option"
where
  "trackedRefresh sco nk deleted reads e =
     (case beginWork e of
        (e1, False) \<Rightarrow> Some e1
      | (e1, True) \<Rightarrow>
          (case scopeForEvent sco e1 of
             None \<Rightarrow> Some (endWork e1)
           | Some s \<Rightarrow>
               (case beginRefresh nk deleted (sc_of e1 s) of
                  (sc, False) \<Rightarrow> Some (endWork (upd_sc s (\<lambda>_. sc) e1))
                | (sc, True) \<Rightarrow>
                    map_option endWork
                      (refresh_loop s sco nk deleted reads (upd_sc s (\<lambda>_. sc) e1)))))"

text \<open>\<open>getRow\<close>'s slot: taken before the call when one is free, given back after it.\<close>

definition getRow_enter :: "scope_state \<Rightarrow> scope_state option" where
  "getRow_enter sc =
     (if sc_getSem sc < refreshGetLimit then Some (sc\<lparr>sc_getSem := sc_getSem sc + 1\<rparr>) else None)"

definition getRow_leave :: "scope_state \<Rightarrow> scope_state" where
  "getRow_leave sc = sc\<lparr>sc_getSem := sc_getSem sc - 1\<rparr>"

subsection \<open>What the bookkeeping leaves alone\<close>

text \<open>\<open>quiet\<close>: every cache, every fence and the environment are as they were.\<close>

definition quiet :: "engine \<Rightarrow> engine \<Rightarrow> bool" where
  "quiet e e' \<longleftrightarrow> env_of e' = env_of e \<and>
     (\<forall>t. sc_entries (sc_of e' t) = sc_entries (sc_of e t)
        \<and> sc_fences (sc_of e' t) = sc_fences (sc_of e t)
        \<and> sc_scope (sc_of e' t) = sc_scope (sc_of e t)
        \<and> sc_open (sc_of e' t) = sc_open (sc_of e t))"

lemma quiet_refl [simp]: "quiet e e"
  by (simp add: quiet_def)

lemma quiet_trans: "quiet e e' \<Longrightarrow> quiet e' e'' \<Longrightarrow> quiet e e''"
  by (simp add: quiet_def)

lemma quiet_upd:
  assumes "sc_entries (f (sc_of e s)) = sc_entries (sc_of e s)"
    and "sc_fences (f (sc_of e s)) = sc_fences (sc_of e s)"
    and "sc_scope (f (sc_of e s)) = sc_scope (sc_of e s)"
    and "sc_open (f (sc_of e s)) = sc_open (sc_of e s)"
  shows "quiet e (upd_sc s f e)"
  using assms by (simp add: quiet_def)

lemma quiet_wg [simp]: "quiet e (e'\<lparr>e_wg := n\<rparr>) = quiet e e'"
  by (auto simp: quiet_def env_of_eq)

lemma quiet_tracks: "quiet e e' \<Longrightarrow> tracks e' t = tracks e t"
  by (simp add: quiet_def env_of_eq tracks_def trackedScope_def)

lemma retryRefresh_quiet [frame]:
  "retryRefresh s nk f d r e = (e', b) \<Longrightarrow> quiet e e'"
  by (auto simp: retryRefresh_def beginRetry_def beginWork_def endRetry_def recordUnconfirmed_def
      markUnconfirmed_def
      split: if_splits intro!: quiet_upd)

lemma recordFeedOutcome_quiet [simp]: "quiet e (recordFeedOutcome s nk u e)"
  by (auto simp: recordFeedOutcome_def intro!: quiet_upd)

text \<open>A delete the feed reports is counted once, and caches nothing.\<close>

lemma recordFeedDelete_tracked:
  assumes "trackedScope e sco = Some s"
  shows "recordFeedDelete sco nk e = upd_sc s (\<lambda>sc. bumpDeletes nk (record_outcome nk True sc)) e"
  using assms by (simp add: recordFeedDelete_def scopeForEvent_def)

lemma recordFeedDelete_entries [simp]:
  "sc_entries (sc_of (recordFeedDelete sco nk e) t) = sc_entries (sc_of e t)"
  "e_scopes (recordFeedDelete sco nk e) = e_scopes e"
  by (auto simp: recordFeedDelete_def split: option.splits)

text \<open>The delete counter of a key, and what never lets it run backwards.\<close>

definition deletes_of :: "engine \<Rightarrow> sid \<Rightarrow> nskey \<Rightarrow> nat" where
  "deletes_of e s nk = kf_deletes (sc_fences (sc_of e s) nk)"

lemma recordFeedDelete_counts:
  "trackedScope e sco = Some s \<Longrightarrow> deletes_of (recordFeedDelete sco nk e) s nk = deletes_of e s nk + 1"
  by (simp add: recordFeedDelete_tracked deletes_of_def)

lemma fence_deleted:
  "deletes_of e' s nk \<noteq> deletes_of e s nk \<Longrightarrow>
     supersededByDelete (sc_of e' s) nk (fenceFor (sc_of e s) nk)"
  by (simp add: supersededByDelete_def fenceFor_def deletes_of_def)

subsection \<open>Conclusions of a re-read\<close>

text \<open>A state the engine no longer tracks is entitled to no conclusion at all.\<close>

lemma conclude_untracked:
  assumes "\<not> tracks e s" and "sco = sc_scope (sc_of e s)"
  shows "refresh_conclude sco s nk f origin deleted retried ans e = (e, False)"
proof -
  have "scopeForEvent sco e \<noteq> Some s"
    using assms by (simp add: tracks_def scopeForEvent_def)
  with assms(1) show ?thesis
    by (cases ans) (auto simp: refresh_conclude_def recoverRefresh_def recordFeedOutcome_def
        retryRefresh_def Let_def)
qed

lemma ingest_superseded_entries:
  assumes "supersededByDelete (sc_of e s) (row_nk se) f"
  shows "sc_entries (sc_of (fst (ingest c s se f False e)) t) = sc_entries (sc_of e t)"
proof (cases "prepare c (sc_scope (sc_of e s)) se False e")
  case (Inl er)
  then show ?thesis by (simp add: ingest_refused)
next
  case (Inr pub)
  then show ?thesis using assms by (simp add: ingest_deleted)
qed

lemma conclude_deleted_entries:
  assumes "deletes_of e s nk \<noteq> deletes_of e0 s nk" and "row_nk se = nk"
  shows "sc_entries (sc_of (fst (refresh_conclude sco s nk (fenceFor (sc_of e0 s) nk) origin
           deleted retried (Got se) e)) t) = sc_entries (sc_of e t)"
  using fence_deleted [OF assms(1)] assms(2)
  by (auto simp: refresh_conclude_def ingest_superseded_entries)

text \<open>A read that failed, for a reason other than the engine's own shutdown. It leaves caches and fences
  alone, and claims the retry slot exactly when it launches the goroutine that gives it back.\<close>

definition read_failed :: "get_answer \<Rightarrow> engine \<Rightarrow> bool" where
  "read_failed ans e \<longleftrightarrow> ans = Get_Panicked \<or> (\<exists>er. ans = Get_Failed er \<and> \<not> canceledByShutdown er e)"

lemma retryRefresh_slots:
  assumes "tracks e s" and "retryRefresh s nk f deleted retried e = (e', launched)"
  shows "(launched \<longleftrightarrow> \<not> retried \<and> (nk, deleted) \<notin> sc_retrying (sc_of e s) \<and> \<not> e_workersClosed e)
    \<and> sc_retrying (sc_of e' s) = (if launched then insert (nk, deleted) (sc_retrying (sc_of e s)) else sc_retrying (sc_of e s))
    \<and> e_wg e' = (if launched then e_wg e + 1 else e_wg e)
    \<and> (retried \<longrightarrow> supersededByPublication (sc_of e' s) nk f \<or> nk \<in> sc_unconfirmed (sc_of e' s))"
proof (cases retried)
  case True
  with assms show ?thesis
    by (cases "supersededByPublication (sc_of e s) nk f")
      (auto simp: retryRefresh_def recordUnconfirmed_def markUnconfirmed_def)
next
  case False
  show ?thesis
  proof (cases "(nk, deleted) \<in> sc_retrying (sc_of e s)")
    case True
    with assms False show ?thesis by (auto simp: retryRefresh_def beginRetry_def)
  next
    case new: False
    with assms False show ?thesis
      by (cases "e_workersClosed e") (auto simp: retryRefresh_def beginRetry_def beginWork_def endRetry_def)
  qed
qed

lemma conclude_failed_retries:
  assumes "read_failed ans e"
  shows "refresh_conclude sco s nk f origin deleted retried ans e
    = retryRefresh s nk origin deleted retried (recordFeedOutcome s nk False e)"
proof -
  have "quiet e (recordFeedOutcome s nk False e)" by simp
  then have "canceledByShutdown er (recordFeedOutcome s nk False e) = canceledByShutdown er e" for er
    by (simp add: quiet_def env_of_eq canceledByShutdown_def)
  with assms show ?thesis by (auto simp: read_failed_def refresh_conclude_def recoverRefresh_def Let_def)
qed

lemma recordFeedOutcome_slots [simp]:
  "sc_retrying (sc_of (recordFeedOutcome s nk u e) s) = sc_retrying (sc_of e s)"
  "e_wg (recordFeedOutcome s nk u e) = e_wg e" "e_workersClosed (recordFeedOutcome s nk u e) = e_workersClosed e"
  by (simp_all add: recordFeedOutcome_def record_outcome_def)

lemma retry_run_releases: "(nk, deleted) \<notin> sc_retrying (sc_of (retry_run s nk f deleted during ans e) s)"
  by (simp add: retry_run_def Let_def endRetry_def endWork_def)

subsection \<open>The cache invariant\<close>

lemma quiet_cache_ok [pres]: "quiet e e' \<Longrightarrow> cache_ok e \<Longrightarrow> cache_ok e'"
  by (rule cache_ok_cong [where e = e]) (auto simp: quiet_def env_of_eq)

lemma publishAbsentDelete_cache_ok [pres]: "cache_ok e \<Longrightarrow> cache_ok (publishAbsentDelete s nk f e)"
  by (auto simp: publishAbsentDelete_def split: prod.splits sum.splits bool.splits
      intro!: upd_sc_cache_ok dest: ingestDefault_cache_ok)

lemma refresh_conclude_cache_ok [pres]:
  assumes "refresh_conclude sco s nk f origin deleted retried ans e = (e', b)"
    and "cache_ok e" and "decoder_ok e"
  shows "cache_ok e'"
proof (cases ans)
  case (Got se)
  obtain e1 r where i: "ingest dispatchContext s se f False e = (e1, r)" by fastforce
  with Got assms(1,2) ingest_cache_ok [OF i assms(2,3)] show ?thesis
    by (auto simp: refresh_conclude_def split: if_splits)
next
  case Absent
  with assms show ?thesis
    by (auto simp: refresh_conclude_def recordUnconfirmed_def split: if_splits
        intro: publishAbsentDelete_cache_ok upd_sc_cache_ok)
next
  case (Get_Failed er)
  with assms show ?thesis
    by (auto simp: refresh_conclude_def Let_def split: if_splits
        intro: quiet_cache_ok [OF recordFeedOutcome_quiet]
          quiet_cache_ok [OF quiet_trans [OF recordFeedOutcome_quiet retryRefresh_quiet]])
next
  case Get_Panicked
  with assms show ?thesis
    by (auto simp: refresh_conclude_def recoverRefresh_def
        intro: quiet_cache_ok [OF quiet_trans [OF recordFeedOutcome_quiet retryRefresh_quiet]])
qed

end
