(* ===== verification/Engine_Ops.thy ===== *)
theory Engine_Ops
  imports Feed
begin

text \<open>
  The engine's own entry points (\<^verbatim>\<open>internal/engine/engine.go\<close>): reads, local writes, bringing a
  scope up, dropping it, Start and Close. \<open>Store.Subscribe\<close> is a parameter: what it answers, and
  \<open>during\<close>, what the rest of the process does while it runs.
\<close>

subsection \<open>Reads\<close>

record Entry =
  pe_value :: json
  pe_rev :: int
  pe_at :: time
  pe_by :: string
  pe_stale :: bool

definition zero_Entry :: Entry where
  "zero_Entry = \<lparr>pe_value = JNull, pe_rev = 0, pe_at = zero_time, pe_by = [], pe_stale = False\<rparr>"

definition Lookup :: "scope \<Rightarrow> nskey \<Rightarrow> engine \<Rightarrow> Entry \<times> bool" where
  "Lookup sco nk e =
     (case trackedScope e sco of
        None \<Rightarrow> (zero_Entry, False)
      | Some s \<Rightarrow>
          let stale = sc_stale (sc_of e s) \<or> nk \<in> sc_unconfirmed (sc_of e s) in
          case sc_entries (sc_of e s) nk of
            None \<Rightarrow> (zero_Entry\<lparr>pe_stale := stale\<rparr>, False)
          | Some c \<Rightarrow>
              (\<lparr>pe_value = ent_value c, pe_rev = ent_rev c, pe_at = ent_at c, pe_by = ent_by c,
                 pe_stale = stale\<rparr>, True))"

subsection \<open>Local writes\<close>

definition Publish :: "ctx \<Rightarrow> scope \<Rightarrow> row \<Rightarrow> engine \<Rightarrow> engine \<times> err option" where
  "Publish c sco se e =
     (if e_closed e then (e, Some (Sentinel Engine_ErrClosed))
      else case writeScope sco e of
        Inl er \<Rightarrow> (e, Some er)
      | Inr s \<Rightarrow> ingest c s se unarmed True e)"

subsection \<open>Tracking and dropping a scope\<close>

definition scopeFor :: "scope \<Rightarrow> engine \<Rightarrow> engine \<times> sid option" where
  "scopeFor sco e =
     (case e_scopes e sco of
        Some s \<Rightarrow> (e, Some s)
      | None \<Rightarrow>
          if e_closed e then (e, None)
          else let s = e_nextSid e in
            (e\<lparr>e_scopes := (e_scopes e)(sco \<mapsto> s),
               e_states := (e_states e)(s := newScopeState sco),
               e_nextSid := s + 1\<rparr>,
             Some s))"

text \<open>Calling a subscription's handle: the store forgets the feed, whoever calls it again.\<close>

definition release_feed :: "nat option \<Rightarrow> engine \<Rightarrow> engine" where
  "release_feed h e = (case h of None \<Rightarrow> e | Some i \<Rightarrow> e\<lparr>e_feeds := e_feeds e - {i}\<rparr>)"

definition dropScope :: "scope \<Rightarrow> engine \<Rightarrow> engine" where
  "dropScope sco e =
     (let e1 = e\<lparr>e_scopes := (e_scopes e)(sco := None)\<rparr> in
      case e_scopes e sco of
        None \<Rightarrow> e1
      | Some s \<Rightarrow>
          let h = sc_unsubscribe (sc_of e1 s);
              e2 = upd_sc s (\<lambda>sc. sc\<lparr>sc_unsubscribe := None\<rparr>) e1;
              e3 = release_feed h e2;
              e4 = upd_sc s stopReconcileWorker e3
          in stopScopeWorkers s e4)"

subsection \<open>Bringing a scope up\<close>

datatype subscribe_answer = Subscribed | Subscribe_Failed err

text \<open>\<open>bringUpScope\<close> up to its call of Subscribe: done already, refused, or about to subscribe.\<close>

datatype bring_up = Refused err | Already sid | Subscribing sid

definition bring_up_begin :: "scope \<Rightarrow> engine \<Rightarrow> engine \<times> bring_up" where
  "bring_up_begin sco e =
     (case scopeFor sco e of
        (e1, None) \<Rightarrow> (e1, Refused (Sentinel Store_ErrClosed))
      | (e1, Some s) \<Rightarrow>
          if sc_unsubscribe (sc_of e1 s) \<noteq> None then (e1, Already s) else (e1, Subscribing s))"

definition open_feed :: "engine \<Rightarrow> engine \<times> nat" where
  "open_feed e = (let h = e_nextFeed e in (e\<lparr>e_feeds := insert h (e_feeds e), e_nextFeed := h + 1\<rparr>, h))"

text \<open>After Subscribe returned the handle \<open>h\<close>, or failed.\<close>

definition bring_up_conclude :: "scope \<Rightarrow> sid \<Rightarrow> err + nat \<Rightarrow> engine \<Rightarrow> engine \<times> (err + sid)" where
  "bring_up_conclude sco s ans e =
     (case ans of
        Inl er \<Rightarrow> (dropScope sco e, Inl (Wrap (AtScope sco) [er]))
      | Inr h \<Rightarrow>
          if e_closed e
          then (dropScope sco (release_feed (Some h) e), Inl (Sentinel Store_ErrClosed))
          else (upd_sc s (\<lambda>sc. sc\<lparr>sc_unsubscribe := Some h\<rparr>) e, Inr s))"

definition bringUpScope ::
  "scope \<Rightarrow> (engine \<Rightarrow> engine) \<Rightarrow> subscribe_answer \<Rightarrow> engine \<Rightarrow> engine \<times> (err + sid)"
where
  "bringUpScope sco during ans e =
     (case bring_up_begin sco e of
        (e1, Refused er) \<Rightarrow> (e1, Inl er)
      | (e1, Already s) \<Rightarrow> (e1, Inr s)
      | (e1, Subscribing s) \<Rightarrow>
          (case ans of
             Subscribe_Failed er \<Rightarrow> bring_up_conclude sco s (Inl er) (during e1)
           | Subscribed \<Rightarrow>
               let (e2, h) = open_feed e1 in bring_up_conclude sco s (Inr h) (during e2)))"

subsection \<open>Start\<close>

definition retryFailedScope :: "scope \<Rightarrow> engine \<Rightarrow> engine" where
  "retryFailedScope sco e =
     (case trackedScope e sco of
        None \<Rightarrow> e
      | Some s \<Rightarrow>
          if \<not> sc_firstDone (sc_of e s) then e
          else if sc_firstErr (sc_of e s) \<noteq> None then dropScope sco e
          else e)"

text \<open>What ends Start's wait: the select takes any of the three that is ready.\<close>

datatype start_wake = First_Reconciled | Engine_Canceled | Caller_Done err

definition wake_ready :: "sid \<Rightarrow> start_wake \<Rightarrow> engine \<Rightarrow> bool" where
  "wake_ready s w e =
     (case w of
        First_Reconciled \<Rightarrow> sc_firstDone (sc_of e s)
      | Engine_Canceled \<Rightarrow> e_canceled e
      | Caller_Done _ \<Rightarrow> True)"

definition start_result :: "sid \<Rightarrow> start_wake \<Rightarrow> engine \<Rightarrow> err option" where
  "start_result s w e =
     (case w of
        First_Reconciled \<Rightarrow> map_option (\<lambda>er. Wrap (AtScope (Scope [])) [er]) (sc_firstErr (sc_of e s))
      | Engine_Canceled \<Rightarrow> Some (Sentinel Store_ErrClosed)
      | Caller_Done er \<Rightarrow> Some er)"

definition start_refusal :: "engine \<Rightarrow> err option" where
  "start_refusal e =
     (if e_closed e then Some (Sentinel Store_ErrClosed)
      else if \<not> e_hasStore e then Some (Sentinel Store_ErrNilBackend)
      else if e_registry e = None then Some (Sentinel ErrNilRegistry)
      else None)"

text \<open>
  \<open>Start\<close> with the interference during Subscribe and during the wait, and the wake that ended it.
\<close>

definition eng_Start ::
  "(engine \<Rightarrow> engine) \<Rightarrow> subscribe_answer \<Rightarrow> (engine \<Rightarrow> engine) \<Rightarrow> start_wake \<Rightarrow> engine \<Rightarrow>
     engine \<times> err option"
where
  "eng_Start during ans waiting w e =
     (case start_refusal e of
        Some er \<Rightarrow> (e, Some er)
      | None \<Rightarrow>
          (case bringUpScope (Scope []) during ans (retryFailedScope (Scope []) e) of
             (e1, Inl er) \<Rightarrow> (e1, Some er)
           | (e1, Inr s) \<Rightarrow> let e2 = waiting e1 in (e2, start_result s w e2)))"

subsection \<open>Close\<close>

definition trackedScopes :: "engine \<Rightarrow> sid set" where
  "trackedScopes e = ran (e_scopes e)"

definition tracked_feeds :: "engine \<Rightarrow> nat set" where
  "tracked_feeds e = (\<Union>s \<in> trackedScopes e. set_option (sc_unsubscribe (sc_of e s)))"

definition closeWorkers :: "engine \<Rightarrow> engine" where
  "closeWorkers e = e\<lparr>e_workersClosed := True\<rparr>"

text \<open>Close up to its wait: closed, canceled, every tracked feed released, the door shut.\<close>

definition close_shut :: "engine \<Rightarrow> engine" where
  "close_shut e =
     (let e1 = e\<lparr>e_closed := True, e_canceled := True\<rparr>;
          e2 = e1\<lparr>e_feeds := e_feeds e1 - tracked_feeds e1\<rparr>
      in closeWorkers e2)"

definition worker_label :: "worker_key \<Rightarrow> string" where
  "worker_label wk =
     (if Tenant (wk_scope wk) = [] then ''single-tenant'' else Tenant (wk_scope wk))
       @ ''/'' @ Namespace (wk_nk wk) @ ''/'' @ Key (wk_nk wk)"

definition stuckError :: "engine \<Rightarrow> err" where
  "stuckError e =
     (let stuck = map (\<lambda>w. worker_label (the (e_running e w)))
                    (sorted_list_of_set (dom (e_running e)))
      in if stuck = [] then Wrap InStoreCall [Sentinel ErrCloseTimeout]
         else Wrap (StillRunning (sort stuck)) [Sentinel ErrCloseTimeout])"

text \<open>
  The bounded wait: \<open>drained\<close> says the WaitGroup reached zero before the timer. It can only have
  if nothing is registered any more.
\<close>

definition waitForWorkers :: "bool \<Rightarrow> engine \<Rightarrow> err option" where
  "waitForWorkers drained e = (if drained then None else Some (stuckError e))"

definition eng_Close :: "(engine \<Rightarrow> engine) \<Rightarrow> bool \<Rightarrow> engine \<Rightarrow> engine \<times> err option" where
  "eng_Close waiting drained e =
     (case e_closeErr e of
        Some r \<Rightarrow> (e, r)
      | None \<Rightarrow>
          let e1 = waiting (close_shut e);
              r = waitForWorkers drained e1
          in (e1\<lparr>e_closeErr := Some r\<rparr>, r))"

end
