(* ===== verification/Client_Registry.thy ===== *)
theory Client_Registry
  imports Reconcile
begin

text \<open>
  The client's key registry (\<^verbatim>\<open>internal/client/registry.go\<close>, \<^verbatim>\<open>register.go\<close>): the map Register
  fills, and the two methods through which the engine reads it. The map is a finite map; \<open>Keys\<close>
  walks it in an order Go leaves open, and the model fixes one (no theorem depends on which).
\<close>

record client_keydef =
  cd_default :: json
  cd_description :: string
  cd_validator :: "validator option"
  cd_writeValidator :: "validator option"

type_synonym client_registry = "(nskey, client_keydef) fmap"

definition readBackValidator :: "client_keydef \<Rightarrow> validator option" where
  "readBackValidator d = (if cd_writeValidator d \<noteq> None then None else cd_validator d)"

definition client_Lookup :: "client_registry \<Rightarrow> nskey \<Rightarrow> keydef option" where
  "client_Lookup reg nk =
     (case fmlookup reg nk of
        None \<Rightarrow> None
      | Some d \<Rightarrow> Some \<lparr>kd_default = cd_default d, kd_validate = readBackValidator d\<rparr>)"

definition client_Keys :: "client_registry \<Rightarrow> nskey list" where
  "client_Keys reg = sorted_list_of_fset (fmdom reg)"

text \<open>The registry the engine is configured with is the client itself.\<close>

definition engine_view :: "client_registry \<Rightarrow> registry" where
  "engine_view reg = \<lparr>reg_lookup = client_Lookup reg, reg_keys = client_Keys reg\<rparr>"

lemma engine_view_lookup [simp]: "reg_lookup (engine_view reg) = client_Lookup reg"
  by (simp add: engine_view_def)

lemma client_Lookup_iff: "client_Lookup reg nk \<noteq> None \<longleftrightarrow> nk |\<in>| fmdom reg"
  by (auto simp: client_Lookup_def fmlookup_dom_iff split: option.splits)

interpretation client_port: registry_port "engine_view reg" for reg
proof
  show "nk \<in> set (reg_keys (engine_view reg)) \<longleftrightarrow> reg_lookup (engine_view reg) nk \<noteq> None" for nk
    by (simp add: engine_view_def client_Keys_def client_Lookup_iff del: not_None_eq)
  show "distinct (reg_keys (engine_view reg))"
    by (simp add: engine_view_def client_Keys_def sorted_list_of_fset.rep_eq)
qed

end
