(* ===== verification/Sample.thy ===== *)
theory Sample
  imports Engine_Ops Client_Registry
begin

text \<open>
  A concrete engine on which the witnesses evaluate the properties: one registered key with a
  default, a validator that refuses the text \<open>bad\<close>, a decoder, and the single-tenant scope brought
  up with its first window armed. Every state is built by the model's own operations.
\<close>

definition sample_key :: nskey where
  "sample_key = NSKey ''app'' ''limit''"

definition sample_validator :: validator where
  "sample_validator c v = (if v = JStr ''bad'' then VErr (Sentinel (Foreign ''refused'')) else VOk)"

definition sample_registry :: client_registry where
  "sample_registry = fmupd sample_key
     \<lparr>cd_default = JNum 1, cd_description = ''a limit'',
      cd_validator = Some sample_validator, cd_writeValidator = None\<rparr> fmempty"

definition sample_decoder :: "bytes \<Rightarrow> json option" where
  "sample_decoder b = (if b = [] then None else Some (JStr b))"

definition sample_row :: "bytes \<Rightarrow> int \<Rightarrow> row" where
  "sample_row b r = \<lparr>row_ns = ''app'', row_key = ''limit'', row_value = b, row_rev = r,
     row_at = 7, row_by = ''op''\<rparr>"

definition sample_new :: engine where
  "sample_new = new_engine True (Some (engine_view sample_registry)) sample_decoder None True"

text \<open>The scope is up, its feed open, and an OpResync armed its first reconcile.\<close>

definition sample_up :: engine where
  "sample_up = onResync (Scope []) (fst (bringUpScope (Scope []) (\<lambda>e. e) Subscribed sample_new))"

definition sample_arm :: arming where
  "sample_arm = \<lparr>arm_reconcile = 1, arm_disconnect = 0\<rparr>"

text \<open>The first reconcile has run on a snapshot carrying the key at revision 3.\<close>

definition sample_engine :: engine where
  "sample_engine = runOneReconcile 0 sample_arm (Listed [sample_row ''5'' 3]) sample_up"

lemmas sample_defs = sample_key_def sample_registry_def sample_row_def sample_new_def
  sample_up_def sample_arm_def new_engine_def

lemma sample_lookup [simp]:
  "client_Lookup sample_registry nk = (if nk = sample_key
     then Some \<lparr>kd_default = JNum 1, kd_validate = Some sample_validator\<rparr> else None)"
  by (simp add: client_Lookup_def sample_registry_def readBackValidator_def)

lemma sample_keys [simp]: "client_Keys sample_registry = [sample_key]"
  by (simp add: client_Keys_def sample_registry_def sorted_list_of_fset.rep_eq)

subsection \<open>The sample states, evaluated\<close>

lemma sample_up_fields [simp]:
  "e_scopes sample_up = [Scope [] \<mapsto> 0]"
  "e_registry sample_up = Some (engine_view sample_registry)"
  "e_unmarshal sample_up = sample_decoder"
  "e_validatorContext sample_up = None"
  "\<not> e_closed sample_up" "\<not> e_workersClosed sample_up" "\<not> e_canceled sample_up"
  "e_subscribers sample_up = (\<lambda>_. [])"
  "e_feeds sample_up = {0}"
  by (simp_all add: sample_up_def sample_new_def new_engine_def bringUpScope_def bring_up_begin_def
      scopeFor_def open_feed_def bring_up_conclude_def onResync_def scopeForEvent_def
      trackedScope_def ensureReconcileWorker_def Let_def newScopeState_def arm_scope_def
      armReconcile_def queueReconcile_def)

lemma sample_up_scope:
  "sc_of sample_up 0 = (newScopeState (Scope []))\<lparr>sc_unsubscribe := Some 0, sc_reconcileGen := 1,
     sc_open := {1}, sc_pending := Some sample_arm, sc_signal := True, sc_workerStarted := True\<rparr>"
  by (simp add: sample_up_def sample_new_def new_engine_def bringUpScope_def bring_up_begin_def
      scopeFor_def open_feed_def bring_up_conclude_def onResync_def scopeForEvent_def
      trackedScope_def ensureReconcileWorker_def Let_def newScopeState_def arm_scope_def
      armReconcile_def queueReconcile_def sample_arm_def empty_window_def
      fun_upd_idem)

lemma sample_tracks [simp]: "tracks sample_up 0"
  by (simp add: tracks_def trackedScope_def sample_up_scope newScopeState_def)

lemma sample_owns [simp]: "owns 0 sample_arm sample_up"
  by (simp add: owns_def publish_guard_def sample_up_scope sample_arm_def newScopeState_def)

lemma sample_prepare:
  "prepare c sco (sample_row b r) pg sample_up =
     (if b = [] then Inl (wrap_key ErrDecode sample_key)
      else if \<not> pg \<and> b = ''bad'' then Inl (Sentinel (Foreign ''refused''))
      else Inr \<lparr>pub_scope = sco, pub_nk = sample_key, pub_rev = r, pub_value = JStr b, pub_raw = b,
             pub_deleted = False, pub_at = 7, pub_by = ''op''\<rparr>)"
  by (simp add: prepare_def eng_lookup_def sample_row_def row_nk_def sample_key_def
      sample_decoder_def runValidator_def sample_validator_def validatorCtx_def)

end
