(* ===== verification/Engine_Theorems.thy ===== *)
theory Engine_Theorems
  imports Sample
begin

text \<open>
  The engine's sequential contracts: the fence, the reconcile against its specification, read your
  writes, and what each refusal leaves behind. Each theorem is followed by a witness on the sample
  engine.
\<close>

subsection \<open>Shared steps\<close>

lemma Lookup_tracked:
  assumes "trackedScope e sco = Some s" and "sc_entries (sc_of e s) nk = Some c"
  shows "Lookup sco nk e =
    (\<lparr>pe_value = ent_value c, pe_rev = ent_rev c, pe_at = ent_at c, pe_by = ent_by c,
       pe_stale = (sc_stale (sc_of e s) \<or> nk \<in> sc_unconfirmed (sc_of e s))\<rparr>, True)"
  using assms by (simp add: Lookup_def)

lemma trackedScope_env: "env_of e' = env_of e \<Longrightarrow> trackedScope e' sco = trackedScope e sco"
  by (simp add: trackedScope_def env_of_eq)

text \<open>An ingress that published leaves \<open>merge\<close> of what was cached with the row.\<close>

lemma ingest_published_entry:
  assumes "prepare c (sc_scope (sc_of e s)) se pg e = Inr pub"
    and "\<not> supersededByDelete (sc_of e s) (row_nk se) f" and "publish_guard s e = None"
    and "ingest c s se f pg e = (e', r)"
  shows "sc_entries (sc_of e' s) (row_nk se) = merge (sc_entries (sc_of e s) (row_nk se)) pub"
proof -
  let ?b = "ingest_begin s (row_nk se) e"
  obtain e1 n where p: "publish_commit s pub ?b = (e1, n)" by fastforce
  with assms(4) ingest_published [OF assms(1-3)]
  have "e' = upd_sc s (record_outcome (row_nk se) True) e1" by simp
  with publish_commit_entries [OF p, of s "row_nk se"] prepare_pub(1) [OF assms(1)]
  show ?thesis by (auto simp: merge_def split: verdict.splits)
qed

text \<open>What a nil answer of the two local operations leaves readable.\<close>

lemma Publish_serves:
  assumes "cache_ok e" and "decoder_ok e" and pub: "Publish c sco se e = (e', None)"
  shows "\<exists>ent. Lookup sco (row_nk se) e' = (ent, True) \<and>
    (pe_rev ent = row_rev se \<and> e_unmarshal e (row_value se) = Some (pe_value ent)
     \<or> row_rev se < pe_rev ent)"
proof -
  from pub obtain s where live: "\<not> e_closed e" and s: "trackedScope e sco = Some s"
    and ing: "ingest c s se unarmed True e = (e', None)"
    by (auto simp: Publish_def writeScope_def split: if_splits option.splits)
  note env = ingest_env [OF ing]
  show ?thesis
  proof (cases rule: ingest_cases [of c e s se True unarmed])
    case (published p)
    note pp = prepare_pub [OF published(1)]
    have "sc_entries (sc_of e' s) (row_nk se) = merge (sc_entries (sc_of e s) (row_nk se)) p"
      by (rule ingest_published_entry [OF published(1-3) ing])
    moreover have "\<exists>x. merge (sc_entries (sc_of e s) (row_nk se)) p = Some x \<and>
        (ent_rev x = pub_rev p \<and> ent_value x = pub_value p \<or> pub_rev p < ent_rev x)"
      using assms(1) prepare_pub_ok [OF published(1) assms(2)]
      by (intro merge_serves) (simp_all add: cache_okD pp)
    moreover have "trackedScope e' sco = Some s" using s by (simp add: trackedScope_env [OF env])
    ultimately show ?thesis using pp by (auto simp: Lookup_tracked)
  qed (use ing in auto)
qed

lemma PublishDelete_serves:
  assumes "PublishDelete sco nk e = (e', None)"
  shows "\<exists>s d. trackedScope e sco = Some s \<and> eng_lookup e nk = Some d
    \<and> (\<exists>ent. Lookup sco nk e' = (ent, True) \<and> pe_value ent = kd_default d \<and> pe_rev ent = 0
          \<and> pe_at ent = zero_time \<and> pe_by ent = [])
    \<and> deletes_of e' s nk = deletes_of e s nk + 1
    \<and> (\<forall>g \<in> sc_open (sc_of e' s). nk \<in> touched (sc_win (sc_of e' s) g))"
proof -
  from assms obtain s n e1 where s: "trackedScope e sco = Some s"
    and ing: "ingestDefault s nk True e = (e1, Inr n)"
    and e': "e' = (if n then upd_sc s (record_outcome nk True) e1 else e1)"
    by (auto simp: PublishDelete_def writeScope_def
        split: if_splits option.splits prod.splits sum.splits)
  from ing show ?thesis
  proof (rule ingestDefault_done)
    fix def
    let ?p = "default_pub (sc_scope (sc_of e s)) nk def True"
    assume d: "eng_lookup e nk = Some def" "n" "publish_commit s ?p e = (e1, True)"
      "sc_entries (sc_of e1 s) nk = Some (entry_of ?p)"
    have tr: "trackedScope e' sco = Some s"
      using s e' trackedScope_env [OF ingestDefault_env [OF ing]] by (simp add: trackedScope_def)
    have ent: "sc_entries (sc_of e' s) nk = Some (entry_of ?p)" using d e' by simp
    have "deletes_of e' s nk = deletes_of e s nk + 1"
      using d(2) e' publish_commit_fences [OF d(3), of s nk]
      by (simp add: deletes_of_def default_pub_def bump_fence_def)
    moreover have "\<forall>g \<in> sc_open (sc_of e' s). nk \<in> touched (sc_win (sc_of e' s) g)"
      using d(2) e' by (auto simp: record_outcome_def record_window_def)
    ultimately show ?thesis
      using s d(1) Lookup_tracked [OF tr ent] by (auto simp: entry_of_def default_pub_def)
  qed
qed

lemma Publish_decides:
  assumes "Publish c sco se e = (e', r)"
  shows "(r = None \<longleftrightarrow>
      \<not> e_closed e \<and> eng_lookup e (row_nk se) \<noteq> None \<and> e_unmarshal e (row_value se) \<noteq> None
      \<and> (\<exists>s. trackedScope e sco = Some s \<and> \<not> sc_stop (sc_of e s)))
    \<and> (r \<noteq> None \<longrightarrow> (\<forall>t. sc_entries (sc_of e' t) = sc_entries (sc_of e t)))"
proof (cases "e_closed e \<or> trackedScope e sco = None")
  case True
  with assms show ?thesis
    by (auto simp: Publish_def writeScope_def split: if_splits option.splits)
next
  case False
  then obtain s where s: "trackedScope e sco = Some s" and live: "\<not> e_closed e" by auto
  with assms have ing: "ingest c s se unarmed True e = (e', r)"
    by (simp add: Publish_def writeScope_def)
  show ?thesis
  proof (cases rule: ingest_cases [of c e s se True unarmed])
    case (refused er)
    from refused(1) have "eng_lookup e (row_nk se) = None \<or> e_unmarshal e (row_value se) = None"
      by (auto simp: prepare_def split: option.splits)
    with refused(2) ing show ?thesis by auto
  next
    case (deleted p)
    then show ?thesis by simp
  next
    case (dropped p er)
    with ing s live show ?thesis by (auto simp: publish_guard_def split: if_splits)
  next
    case (published p)
    with ing s live prepare_pub [OF published(1)] show ?thesis
      by (auto simp: publish_guard_def split: if_splits)
  qed
qed

subsection \<open>The fence\<close>

text \<open>C4. The cached revision of a key never goes back, except by a publication at revision 0 (a
  delete or a default), which always takes effect; and an accepted publication is exactly what is
  cached afterwards.\<close>

theorem publish_fence:
  assumes "publish s pub e = (e', Inr n)"
  shows "\<exists>c'. sc_entries (sc_of e' s) (pub_nk pub) = Some c'
      \<and> (pub_rev pub \<noteq> 0 \<longrightarrow> pub_rev pub \<le> ent_rev c')
      \<and> (\<forall>c. sc_entries (sc_of e s) (pub_nk pub) = Some c \<longrightarrow>
           pub_rev pub \<noteq> 0 \<longrightarrow> ent_rev c \<le> ent_rev c')
      \<and> (n \<longrightarrow> c' = entry_of pub) \<and> (pub_rev pub = 0 \<longrightarrow> n)"
proof -
  from publish_done [OF assms] have p: "publish_commit s pub e = (e', n)" by simp
  from publish_commit_readable [OF p] obtain c' where
    c': "sc_entries (sc_of e' s) (pub_nk pub) = Some c'" "pub_rev pub \<le> ent_rev c'"
    "n \<longrightarrow> c' = entry_of pub" by blast
  have n: "n = (fence (sc_entries (sc_of e s) (pub_nk pub)) pub = Accepted)"
    by (rule publish_commit_notify [OF p])
  have "ent_rev c \<le> ent_rev c'"
    if c: "sc_entries (sc_of e s) (pub_nk pub) = Some c" and "pub_rev pub \<noteq> 0" for c
    using that c' publish_commit_entries [OF p, of s "pub_nk pub"]
    by (cases "fence (Some c) pub")
      (auto simp: fence_accepted_iff entry_of_def elim!: fence_refreshed)
  with c' n show ?thesis by (auto simp: fence_accepted_iff)
qed

text \<open>The witness publishes revision 3 of the sample key over an empty cache.\<close>

definition sample_pub :: "bytes \<Rightarrow> int \<Rightarrow> publication" where
  "sample_pub b r = \<lparr>pub_scope = Scope [], pub_nk = sample_key, pub_rev = r, pub_value = JStr b,
     pub_raw = b, pub_deleted = False, pub_at = 7, pub_by = ''op''\<rparr>"

lemma sample_guard [simp]: "publish_guard 0 sample_up = None"
  using sample_owns by (simp add: owns_def)

lemma sample_entries [simp]: "sc_entries (sc_of sample_up 0) = Map.empty"
  by (simp add: sample_up_scope newScopeState_def)

lemma sample_publish:
  "publish 0 (sample_pub ''5'' 3) sample_up =
     (fst (publish 0 (sample_pub ''5'' 3) sample_up), Inr True)"
  by (simp add: publish_def publish_commit_def Let_def fence_def split: prod.splits)

theorem publish_fence_witness:
  "\<exists>c'. sc_entries (sc_of (fst (publish 0 (sample_pub ''5'' 3) sample_up)) 0) sample_key = Some c'
     \<and> 3 \<le> ent_rev c' \<and> c' = entry_of (sample_pub ''5'' 3)"
  using publish_fence [OF sample_publish] by (auto simp: sample_pub_def)

text \<open>The echo of a publication (same non-zero revision, same bytes) changes no value and no
  revision, wakes no delivery worker and moves no causal counter; only the provenance is
  refreshed.\<close>

theorem publish_echo_silent:
  assumes "sc_entries (sc_of e s) (pub_nk pub) = Some c"
    and "pub_rev pub = ent_rev c" and "pub_rev pub \<noteq> 0"
    and "pub_raw pub = ent_raw c" and "pub_raw pub \<noteq> []"
    and "publish s pub e = (e', Inr n)"
  shows "\<not> n \<and> e_workers e' = e_workers e \<and> sc_fences (sc_of e' s) = sc_fences (sc_of e s)
    \<and> sc_entries (sc_of e' s) =
        (sc_entries (sc_of e s))(pub_nk pub \<mapsto> c\<lparr>ent_at := pub_at pub, ent_by := pub_by pub\<rparr>)"
proof -
  have "fence (Some c) pub = Refreshed (c\<lparr>ent_at := pub_at pub, ent_by := pub_by pub\<rparr>)"
    using assms(2-5) by (simp add: fence_def)
  with assms(1) publish_done [OF assms(6)] show ?thesis
    by (auto simp: publish_commit_def Let_def upd_sc_def)
qed

lemma sample_publish_twice:
  "publish 0 (sample_pub ''5'' 3) (fst (publish 0 (sample_pub ''5'' 3) sample_up)) =
     (fst (publish 0 (sample_pub ''5'' 3) (fst (publish 0 (sample_pub ''5'' 3) sample_up))),
      Inr False)"
  by (simp add: publish_def publish_commit_def Let_def fence_def sample_pub_def dispatch_def
      entry_of_def publish_guard_def sample_up_scope newScopeState_def)

theorem publish_echo_silent_witness:
  "e_workers (fst (publish 0 (sample_pub ''5'' 3) (fst (publish 0 (sample_pub ''5'' 3) sample_up))))
     = e_workers (fst (publish 0 (sample_pub ''5'' 3) sample_up))"
proof -
  have c: "sc_entries (sc_of (fst (publish 0 (sample_pub ''5'' 3) sample_up)) 0)
      (pub_nk (sample_pub ''5'' 3)) = Some (entry_of (sample_pub ''5'' 3))"
    by (simp add: publish_def publish_commit_def Let_def fence_def sample_pub_def)
  have "pub_rev (sample_pub ''5'' 3) = ent_rev (entry_of (sample_pub ''5'' 3))"
    and "pub_rev (sample_pub ''5'' 3) \<noteq> 0"
    and "pub_raw (sample_pub ''5'' 3) = ent_raw (entry_of (sample_pub ''5'' 3))"
    and "pub_raw (sample_pub ''5'' 3) \<noteq> []"
    by (simp_all add: entry_of_def sample_pub_def)
  from publish_echo_silent [OF c this sample_publish_twice] show ?thesis by blast
qed

subsection \<open>Local writes and removals\<close>

text \<open>C1. Read your writes: when Publish answers nil, the next Lookup of that key in that scope is
  a hit that serves the written row (its revision and its decoded value) or a strictly newer
  revision.\<close>

theorem read_your_writes:
  assumes "cache_ok e" and "decoder_ok e" and pub: "Publish c sco se e = (e', None)"
  shows "\<exists>ent. Lookup sco (row_nk se) e' = (ent, True) \<and>
    (pe_rev ent = row_rev se \<and> e_unmarshal e (row_value se) = Some (pe_value ent)
     \<or> row_rev se < pe_rev ent)"
  by (rule Publish_serves [OF assms])

text \<open>What Publish refuses: it answers nil exactly when the engine is open, the scope is tracked
  and not torn down, the key is registered and the bytes decode; and a refused write leaves every
  cache as it was.\<close>

theorem publish_outcome:
  assumes "Publish c sco se e = (e', r)"
  shows "(r = None \<longleftrightarrow>
      \<not> e_closed e \<and> eng_lookup e (row_nk se) \<noteq> None \<and> e_unmarshal e (row_value se) \<noteq> None
      \<and> (\<exists>s. trackedScope e sco = Some s \<and> \<not> sc_stop (sc_of e s)))
    \<and> (r \<noteq> None \<longrightarrow> (\<forall>t. sc_entries (sc_of e' t) = sc_entries (sc_of e t)))"
  by (rule Publish_decides [OF assms])

text \<open>The writes of the sample: revision 4 lands; bytes that do not decode do not.\<close>

lemma sample_Publish:
  "Publish background (Scope []) (sample_row ''6'' 4) sample_up =
     (fst (Publish background (Scope []) (sample_row ''6'' 4) sample_up), None)"
  using Publish_decides [OF surjective_pairing, of background "Scope []" "sample_row ''6'' 4" sample_up]
  by (intro prod_eqI)
    (simp_all add: trackedScope_def eng_lookup_def sample_decoder_def sample_row_def row_nk_def
      sample_key_def sample_up_scope newScopeState_def)

lemma sample_ok [simp]: "cache_ok sample_up" "decoder_ok sample_up"
proof -
  have "sc_entries (sc_of sample_up t) = Map.empty" for t
    by (simp add: sample_up_def sample_new_def new_engine_def bringUpScope_def bring_up_begin_def
        scopeFor_def open_feed_def bring_up_conclude_def onResync_def scopeForEvent_def
        trackedScope_def ensureReconcileWorker_def Let_def newScopeState_def arm_scope_def
        armReconcile_def queueReconcile_def)
  then show "cache_ok sample_up" by (simp add: cache_ok_def)
  show "decoder_ok sample_up" by (simp add: decoder_ok_def sample_decoder_def)
qed

lemma sample_row_simps [simp]:
  "row_nk (sample_row b r) = sample_key" "row_rev (sample_row b r) = r"
  "row_value (sample_row b r) = b"
  by (simp_all add: sample_row_def row_nk_def sample_key_def)

theorem read_your_writes_witness:
  "\<exists>ent. Lookup (Scope []) sample_key
      (fst (Publish background (Scope []) (sample_row ''6'' 4) sample_up)) = (ent, True)
    \<and> (pe_rev ent = 4 \<and> pe_value ent = JStr ''6'' \<or> 4 < pe_rev ent)"
  using read_your_writes [OF sample_ok sample_Publish] by (auto simp: sample_decoder_def)

theorem publish_outcome_witness:
  "snd (Publish background (Scope []) (sample_row [] 4) sample_up) \<noteq> None \<and>
   sc_entries (sc_of (fst (Publish background (Scope []) (sample_row [] 4) sample_up)) 0) = Map.empty"
  using publish_outcome [OF surjective_pairing, of background "Scope []" "sample_row [] 4" sample_up]
  by (auto simp: sample_decoder_def)

text \<open>A removal is readable at once and cannot be undone by what was already in flight: when
  PublishDelete answers nil, the next Lookup serves the registered default at revision 0, the key's
  delete counter has moved, and every open reconcile window holds the key as touched.\<close>

theorem delete_serves_default:
  assumes "PublishDelete sco nk e = (e', None)"
  shows "\<exists>s d. trackedScope e sco = Some s \<and> eng_lookup e nk = Some d
    \<and> (\<exists>ent. Lookup sco nk e' = (ent, True) \<and> pe_value ent = kd_default d \<and> pe_rev ent = 0
          \<and> pe_at ent = zero_time \<and> pe_by ent = [])
    \<and> deletes_of e' s nk = deletes_of e s nk + 1
    \<and> (\<forall>g \<in> sc_open (sc_of e' s). nk \<in> touched (sc_win (sc_of e' s) g))"
  by (rule PublishDelete_serves [OF assms])

lemma sample_PublishDelete:
  "PublishDelete (Scope []) sample_key sample_up =
     (fst (PublishDelete (Scope []) sample_key sample_up), None)"
  by (simp add: PublishDelete_def writeScope_def trackedScope_def ingestDefault_def eng_lookup_def
      publish_def split: prod.splits)

theorem delete_serves_default_witness:
  "\<exists>ent. Lookup (Scope []) sample_key (fst (PublishDelete (Scope []) sample_key sample_up))
      = (ent, True) \<and> pe_value ent = JNum 1 \<and> pe_rev ent = 0"
  using delete_serves_default [OF sample_PublishDelete] by (auto simp: eng_lookup_def)

subsection \<open>The reconcile\<close>

text \<open>C2. An uninterrupted reconcile implements its specification: it brings every key to exactly
  what \<open>converge\<close> prescribes for the snapshot, clears the scope's stale flag if and only if the feed
  has not dropped since the arming, finishes the first reconcile and closes its own window.\<close>

theorem reconcile_converges:
  assumes "e_registry e = Some (engine_view reg)" and "tracks e s" and "owns s arm e"
    and "distinct (map row_nk rows)"
  shows "key_state (sc_of (runOneReconcile s arm (Listed rows) e) s) nk =
      converge e (sc_scope (sc_of e s)) (window_of e s arm) nk (snapshot_row rows nk)
        (key_state (sc_of e s) nk)
    \<and> (sc_stale (sc_of (runOneReconcile s arm (Listed rows) e) s) \<longleftrightarrow>
        sc_stale (sc_of e s) \<and> sc_disconnectGen (sc_of e s) \<noteq> arm_disconnect arm)
    \<and> sc_firstDone (sc_of (runOneReconcile s arm (Listed rows) e) s)
    \<and> arm_reconcile arm \<notin> sc_open (sc_of (runOneReconcile s arm (Listed rows) e) s)"
  using client_port.runOneReconcile_converges [OF assms] by blast

theorem reconcile_converges_witness:
  "key_state (sc_of sample_engine 0) sample_key =
     (Some \<lparr>ent_value = JStr ''5'', ent_raw = ''5'', ent_rev = 3, ent_at = 7, ent_by = ''op''\<rparr>, False)
   \<and> \<not> sc_stale (sc_of sample_engine 0)"
proof -
  have "distinct (map row_nk [sample_row ''5'' 3])" by simp
  from reconcile_converges [OF _ sample_tracks sample_owns this, of sample_registry sample_key]
  show ?thesis
    by (simp add: sample_engine_def converge_def eng_lookup_def sample_prepare merge_def fence_def
        entry_of_def sample_up_scope newScopeState_def sample_arm_def empty_window_def
        key_state_def del: sample_owns)
qed

text \<open>After an uninterrupted reconcile on a connected feed, every registered key the feed said
  nothing about reads as confirmed: a key in the snapshot, with a row the ingress accepts, reads at
  the row (or something strictly newer), and a key absent from it reads its registered default.\<close>

theorem reconcile_reads:
  assumes "e_registry e = Some (engine_view reg)" and "trackedScope e sco = Some s"
    and "sc_scope (sc_of e s) = sco" and "owns s arm e" and "distinct (map row_nk rows)"
    and "sc_disconnectGen (sc_of e s) = arm_disconnect arm"
    and "cache_ok e" and "decoder_ok e" and "eng_lookup e nk = Some d"
    and "nk \<notin> touched (window_of e s arm)" and "nk \<notin> unusable (window_of e s arm)"
    and "\<And>se. snapshot_row rows nk = Some se \<Longrightarrow> is_ok (prepare dispatchContext sco se False e)"
  shows "\<exists>ent. Lookup sco nk (runOneReconcile s arm (Listed rows) e) = (ent, True)
    \<and> \<not> pe_stale ent
    \<and> (case snapshot_row rows nk of
         None \<Rightarrow> pe_rev ent = 0 \<and> pe_value ent = kd_default d
       | Some se \<Rightarrow> pe_rev ent = row_rev se \<and> e_unmarshal e (row_value se) = Some (pe_value ent)
                    \<or> row_rev se < pe_rev ent)"
proof -
  let ?e' = "runOneReconcile s arm (Listed rows) e"
  have tr: "tracks e s" using assms(2,3) by (simp add: tracks_def)
  note conv = client_port.runOneReconcile_converges [OF assms(1) tr assms(4,5)]
  have fresh: "\<not> sc_stale (sc_of ?e' s)" using conv(2) assms(6) by simp
  have tr': "trackedScope ?e' sco = Some s" using assms(2) trackedScope_env [OF conv(5)] by simp
  note st = conv(1) [of nk]
  have "\<exists>x. sc_entries (sc_of ?e' s) nk = Some x \<and> nk \<notin> sc_unconfirmed (sc_of ?e' s)
    \<and> (case snapshot_row rows nk of
         None \<Rightarrow> ent_rev x = 0 \<and> ent_value x = kd_default d
       | Some se \<Rightarrow> ent_rev x = row_rev se \<and> e_unmarshal e (row_value se) = Some (ent_value x)
                    \<or> row_rev se < ent_rev x)"
  proof (cases "snapshot_row rows nk")
    case None
    then show ?thesis
      using st assms(3,9-11)
      by (auto simp: converge_def key_state_def default_entry_def split: option.splits if_splits)
  next
    case (Some se)
    with assms(12) obtain p where p: "prepare dispatchContext sco se False e = Inr p"
      by (auto split: sum.splits)
    have nk: "row_nk se = nk"
      using Some by (auto simp: snapshot_row_def find_Some_iff)
    have "\<exists>x. merge (sc_entries (sc_of e s) nk) p = Some x \<and>
        (ent_rev x = pub_rev p \<and> ent_value x = pub_value p \<or> pub_rev p < ent_rev x)"
      using prepare_pub_ok [OF p assms(8)]
      by (intro merge_serves) (simp_all add: cache_okD [OF assms(7)] prepare_pub [OF p] nk)
    moreover have "key_state (sc_of ?e' s) nk = (merge (sc_entries (sc_of e s) nk) p, False)"
      using st Some p assms(3,9-11) by (simp add: converge_def)
    ultimately show ?thesis
      using Some prepare_pub [OF p] by (auto simp: key_state_def)
  qed
  then show ?thesis using fresh by (auto simp: Lookup_tracked [OF tr'] split: option.splits)
qed

theorem reconcile_reads_witness:
  "\<exists>ent. Lookup (Scope []) sample_key sample_engine = (ent, True) \<and> \<not> pe_stale ent
     \<and> (pe_rev ent = 3 \<and> Some (JStr ''5'') = Some (pe_value ent) \<or> 3 < pe_rev ent)"
proof -
  have "distinct (map row_nk [sample_row ''5'' 3])" by simp
  from reconcile_reads [OF _ _ _ sample_owns this, of sample_registry "Scope []" sample_key]
  show ?thesis
    by (simp add: sample_engine_def eng_lookup_def sample_prepare trackedScope_def sample_up_scope
        newScopeState_def sample_arm_def empty_window_def sample_decoder_def del: sample_owns)
qed

text \<open>A reconcile that cannot complete publishes nothing: a failed or panicking List keeps every
  entry, every unconfirmed record and the stale flag of every scope, and still ends the first
  reconcile, so nobody waits on it forever; a superseded reconcile, or one of a dropped scope, does
  no more than close its own window.\<close>

theorem reconcile_publishes_nothing:
  assumes "superseded (sc_of e s) arm \<or> \<not> tracks e s \<or> ans = List_Panicked
     \<or> (\<exists>er. ans = List_Failed er)"
  defines "e' \<equiv> runOneReconcile s arm ans e"
  shows "(\<forall>t nk. key_state (sc_of e' t) nk = key_state (sc_of e t) nk)
    \<and> (\<forall>t. sc_stale (sc_of e' t) = sc_stale (sc_of e t))
    \<and> e_workers e' = e_workers e
    \<and> sc_open (sc_of e' s) = sc_open (sc_of e s) - {arm_reconcile arm}
    \<and> (sc_firstDone (sc_of e' s) \<longleftrightarrow> sc_firstDone (sc_of e s)
         \<or> (\<not> superseded (sc_of e s) arm \<and> tracks e s))"
proof (cases "superseded (sc_of e s) arm \<or> \<not> tracks e s")
  case True
  then have "e' = upd_sc s (closeWindow arm) e" by (simp add: e'_def reconcile_superseded)
  with True show ?thesis by auto
next
  case False
  then have "ans = List_Panicked \<or> (\<exists>er. ans = List_Failed er)" using assms(1) by blast
  with False reconcile_failed [of e s arm] show ?thesis
    by (auto simp: e'_def split: if_splits)
qed

theorem reconcile_publishes_nothing_witness:
  "sc_stale (sc_of (runOneReconcile 0 sample_arm List_Panicked sample_up) 0)
   \<and> sc_firstDone (sc_of (runOneReconcile 0 sample_arm List_Panicked sample_up) 0)"
proof -
  have "superseded (sc_of sample_up 0) sample_arm \<or> \<not> tracks sample_up 0
     \<or> List_Panicked = List_Panicked \<or> (\<exists>er. List_Panicked = List_Failed er)" by simp
  from reconcile_publishes_nothing [OF this] show ?thesis
    by (simp add: superseded_def sample_up_scope sample_arm_def newScopeState_def)
qed

subsection \<open>The changefeed\<close>

text \<open>C3. A delete beats every re-read already in flight: when the feed reports a key deleted while
  a re-read of that key is inside its store call, and nothing around it runs the key's delete
  counter backwards (no operation does), the row the read comes back with is not published, however
  high its revision.\<close>

theorem delete_beats_reader:
  assumes "trackedScope e sco = Some s" and "row_nk se = nk"
    and "trackedScope (early e) sco = Some s"
    and "deletes_of e s nk \<le> deletes_of (early e) s nk"
    and evt: "ev_op evt = OpDelete" "ev_scope evt = sco" "NSKey (ev_ns evt) (ev_key evt) = nk"
    and live: "\<not> e_closed (early e)" "eng_lookup (early e) nk \<noteq> None"
    and "deletes_of (fst (onEvent evt (early e))) s nk \<le> deletes_of (during e) s nk"
  shows "sc_entries (sc_of (fst (refreshKey sco nk unarmed deleted retried during (Got se) e)) t)
       = sc_entries (sc_of (during e) t)"
proof -
  have "fst (onEvent evt (early e)) = recordFeedDelete sco nk (early e)"
    using evt live by (auto simp: onEvent_def op_defs Let_def)
  then have "deletes_of (fst (onEvent evt (early e))) s nk = deletes_of (early e) s nk + 1"
    using recordFeedDelete_counts [OF assms(3)] by simp
  with assms(4,10) have "deletes_of (during e) s nk \<noteq> deletes_of e s nk" by simp
  from conclude_deleted_entries [OF this assms(2)] show ?thesis
    by (simp add: refreshKey_def refresh_begin_def scopeForEvent_def assms(1) Let_def)
qed

definition sample_delete :: event where
  "sample_delete = \<lparr>ev_scope = Scope [], ev_ns = ''app'', ev_key = ''limit'', ev_op = OpDelete,
     ev_rev = 0\<rparr>"

theorem delete_beats_reader_witness:
  "sc_entries (sc_of (fst (refreshKey (Scope []) sample_key unarmed False False
       (\<lambda>x. fst (onEvent sample_delete x)) (Got (sample_row ''9'' 9)) sample_up)) 0) = Map.empty"
proof -
  from delete_beats_reader [where e = sample_up and sco = "Scope []" and s = 0 and nk = sample_key
      and se = "sample_row ''9'' 9" and evt = sample_delete and early = "\<lambda>x. x"
      and during = "\<lambda>x. fst (onEvent sample_delete x)" and t = 0]
  have "sc_entries (sc_of (fst (refreshKey (Scope []) sample_key unarmed False False
       (\<lambda>x. fst (onEvent sample_delete x)) (Got (sample_row ''9'' 9)) sample_up)) 0)
     = sc_entries (sc_of (fst (onEvent sample_delete sample_up)) 0)"
    by (simp add: trackedScope_def sample_delete_def sample_key_def eng_lookup_def)
  then show ?thesis
    by (simp add: onEvent_def sample_delete_def op_defs Let_def sample_key_def eng_lookup_def)
qed

text \<open>A dead state concludes nothing: if the scope was dropped (and perhaps brought back up as a
  new state) during the store call, a re-read changes nothing at all, whatever it came back with:
  no cache, no fence, no repair, in no scope.\<close>

theorem dropped_reader_inert:
  assumes "refresh_begin sco nk origin e = Some (s, f, origin')"
    and "sc_scope (sc_of (during e) s) = sco" and "trackedScope (during e) sco \<noteq> Some s"
  shows "refreshKey sco nk origin deleted retried during ans e = (during e, False)"
proof -
  have "\<not> tracks (during e) s" using assms(2,3) by (simp add: tracks_def)
  from conclude_untracked [OF this assms(2) [symmetric]] assms(1) show ?thesis
    by (simp add: refreshKey_def)
qed

theorem dropped_reader_inert_witness:
  "refreshKey (Scope []) sample_key unarmed False False (dropScope (Scope [])) (Got (sample_row ''9'' 9))
     sample_up = (dropScope (Scope []) sample_up, False)"
proof -
  have "refresh_begin (Scope []) sample_key unarmed sample_up =
      Some (0, fenceFor (sc_of sample_up 0) sample_key, fenceFor (sc_of sample_up 0) sample_key)"
    by (simp add: refresh_begin_def scopeForEvent_def trackedScope_def unarmed_def Let_def)
  moreover have "sc_scope (sc_of (dropScope (Scope []) sample_up) 0) = Scope []"
    and "trackedScope (dropScope (Scope []) sample_up) (Scope []) \<noteq> Some 0"
    by (simp_all add: dropScope_def Let_def stopScopeWorkers_def release_feed_def trackedScope_def
        stopReconcileWorker_def sample_up_scope newScopeState_def)
  ultimately show ?thesis by (rule dropped_reader_inert)
qed

lemma tracks_scopeForEvent: "tracks e s \<Longrightarrow> scopeForEvent (sc_scope (sc_of e s)) e = Some s"
  by (simp add: tracks_def scopeForEvent_def)

lemma tracks_Lookup: "tracks e s \<Longrightarrow> nk \<in> sc_unconfirmed (sc_of e s) \<Longrightarrow>
    pe_stale (fst (Lookup (sc_scope (sc_of e s)) nk e))"
  by (simp add: tracks_def Lookup_def Let_def split: option.splits)

text \<open>A repair that fails as well leaves the key reading stale, unless a publication has decided it.\<close>

lemma failed_repair_reported:
  assumes "tracks e s" and "\<not> e_canceled e" and "ff_armed f" and "tracks (during e) s" and "read_failed ans (during e)"
    and r_def: "r = retry_run s nk f deleted during ans e"
  shows "supersededByPublication (sc_of r s) nk f \<or> pe_stale (fst (Lookup (sc_scope (sc_of r s)) nk r))"
proof -
  let ?sco = "sc_scope (sc_of e s)" and ?q = "recordFeedOutcome s nk False (during e)"
  obtain e1 b where c: "retryRefresh s nk f deleted True ?q = (e1, b)" by fastforce
  have t: "tracks ?q s" using assms(4) quiet_tracks [of "during e" ?q s] by simp
  have b: "refresh_begin ?sco nk f e = Some (s, fenceFor (sc_of e s) nk, f)"
    using assms(3) by (simp add: refresh_begin_def tracks_scopeForEvent [OF assms(1)] Let_def)
  have r: "r = endWork (upd_sc s (endRetry (nk, deleted)) e1)"
    using assms(1,2,5) c by (simp add: r_def retry_run_def refreshKey_def b conclude_failed_retries)
  have "quiet ?q e1" by (rule retryRefresh_quiet [OF c])
  then have "tracks e1 s" using t by (simp add: quiet_tracks)
  then have tr: "tracks r s" by (simp add: r tracks_def endRetry_def endWork_def trackedScope_def)
  have "supersededByPublication (sc_of e1 s) nk f \<or> nk \<in> sc_unconfirmed (sc_of e1 s)"
    using retryRefresh_slots [OF t c] by simp
  then have "supersededByPublication (sc_of r s) nk f \<or> nk \<in> sc_unconfirmed (sc_of r s)"
    by (auto simp: r endRetry_def endWork_def supersededByPublication_def split: if_splits)
  with tracks_Lookup [OF tr] show ?thesis by blast
qed

text \<open>C5. A read that failed is never lost. A store error (other than the engine's own shutdown) or a panic, on
  a scope still tracked, changes no cache and no fence. The first failure launches one repair goroutine, and
  claims the slot of that key and operation for it, unless the slot is already held or the engine has closed
  its workers; a failed read launches nothing otherwise and leaves the slots as they were. A failed read that
  was itself the repair leaves the key reading stale unless a publication has decided it since the first
  attempt; so does the launched goroutine's own run when it still finds the scope and fails too, and however
  its run ends, it gives the slot back.\<close>

theorem failed_read_owed:
  assumes "refresh_begin sco nk origin e = Some (s, f, origin')" and "tracks (during e) s"
    and "read_failed ans (during e)"
    and "refreshKey sco nk origin deleted retried during ans e = (e', launched)"
  shows "quiet (during e) e'
    \<and> (launched \<longleftrightarrow> \<not> retried \<and> (nk, deleted) \<notin> sc_retrying (sc_of (during e) s) \<and> \<not> e_workersClosed (during e))
    \<and> (launched \<longrightarrow> e_wg e' = e_wg (during e) + 1
         \<and> sc_retrying (sc_of e' s) = insert (nk, deleted) (sc_retrying (sc_of (during e) s)))
    \<and> (\<not> launched \<longrightarrow> e_wg e' = e_wg (during e) \<and> sc_retrying (sc_of e' s) = sc_retrying (sc_of (during e) s))
    \<and> (retried \<longrightarrow> supersededByPublication (sc_of e' s) nk origin'
         \<or> pe_stale (fst (Lookup (sc_scope (sc_of e' s)) nk e')))
    \<and> (\<forall>e2 during2 ans2 r. r = retry_run s nk origin' deleted during2 ans2 e2 \<longrightarrow>
         (nk, deleted) \<notin> sc_retrying (sc_of r s)
         \<and> (tracks e2 s \<and> \<not> e_canceled e2 \<and> tracks (during2 e2) s \<and> read_failed ans2 (during2 e2) \<longrightarrow>
              supersededByPublication (sc_of r s) nk origin'
              \<or> pe_stale (fst (Lookup (sc_scope (sc_of r s)) nk r))))"
proof -
  let ?q = "recordFeedOutcome s nk False (during e)"
  have armed: "ff_armed origin'"
    using assms(1) by (auto simp: refresh_begin_def fenceFor_def Let_def split: option.splits if_splits)
  have q: "quiet (during e) ?q" by simp
  have t: "tracks ?q s" using assms(2) by (simp add: quiet_tracks [OF q])
  have r: "retryRefresh s nk origin' deleted retried ?q = (e', launched)"
    using assms(1,3,4) by (simp add: refreshKey_def conclude_failed_retries)
  have q': "quiet ?q e'" by (rule retryRefresh_quiet [OF r])
  have "tracks e' s" using t by (simp add: quiet_tracks [OF q'])
  from tracks_Lookup [OF this] retryRefresh_slots [OF t r] quiet_trans [OF q q']
    failed_repair_reported [OF _ _ armed] retry_run_releases
  show ?thesis by auto
qed

theorem failed_read_owed_witness:
  "(sample_key, True) \<in> sc_retrying (sc_of (fst (refreshKey (Scope []) sample_key unarmed True False
      (\<lambda>e. e) Get_Panicked sample_up)) 0)
    \<and> snd (refreshKey (Scope []) sample_key unarmed True False (\<lambda>e. e) Get_Panicked sample_up)"
proof -
  let ?f = "fenceFor (sc_of sample_up 0) sample_key"
  obtain e' launched where r: "refreshKey (Scope []) sample_key unarmed True False (\<lambda>e. e) Get_Panicked sample_up
      = (e', launched)" by fastforce
  have b: "refresh_begin (Scope []) sample_key unarmed sample_up = Some (0, ?f, ?f)"
    by (simp add: refresh_begin_def scopeForEvent_def trackedScope_def unarmed_def Let_def)
  have "tracks sample_up 0" "read_failed Get_Panicked sample_up" by (simp_all add: read_failed_def)
  from failed_read_owed [where during = "\<lambda>e. e", OF b this r] show ?thesis
    by (simp add: r sample_up_scope newScopeState_def)
qed

text \<open>An empty read concludes a removal only for a delete nothing has overtaken: for a delete,
  with no publication of the key since the read began, it puts the registered default in force at
  revision 0; if anything was published meanwhile, it changes nothing.\<close>

theorem absent_delete:
  fixes retried :: bool
  assumes "refresh_begin sco nk origin e = Some (s, f, origin')"
    and "trackedScope (during e) sco = Some s" and "eng_lookup (during e) nk = Some d"
    and "publish_guard s (during e) = None"
  defines "e' \<equiv> fst (refreshKey sco nk origin True retried during Absent e)"
  shows "(sc_fences (sc_of (during e) s) nk \<noteq> sc_fences (sc_of e s) nk \<longrightarrow> e' = during e)
    \<and> (sc_fences (sc_of (during e) s) nk = sc_fences (sc_of e s) nk \<longrightarrow>
         sc_entries (sc_of e' s) nk = Some (default_entry d)
         \<and> (\<forall>g \<in> sc_open (sc_of e' s). nk \<in> touched (sc_win (sc_of e' s) g))
         \<and> deletes_of e' s nk = deletes_of (during e) s nk)"
proof -
  have f: "f = fenceFor (sc_of e s) nk"
    using assms(1) by (auto simp: refresh_begin_def Let_def split: option.splits)
  have e': "e' = publishAbsentDelete s nk f (during e)"
    using assms(1,2) by (simp add: e'_def refreshKey_def refresh_conclude_def scopeForEvent_def)
  obtain e1 r where ing: "ingestDefault s nk False (during e) = (e1, r)" by fastforce
  have "r = Inr True"
  proof -
    have "fence (sc_entries (sc_of (during e) s) nk)
        (default_pub (sc_scope (sc_of (during e) s)) nk d False) = Accepted"
      by (simp add: fence_accepted_iff default_pub_def)
    with ing assms(3,4) show ?thesis
      by (auto simp: ingestDefault_def publish_def Let_def default_pub_def
          dest!: publish_commit_notify split: prod.splits)
  qed
  with ing have ing: "ingestDefault s nk False (during e) = (e1, Inr True)" by simp
  have ent: "sc_entries (sc_of e1 s) nk = Some (default_entry d)"
    using ingestDefault_key_state [OF assms(4,3), of False nk] ing by (simp add: key_state_def)
  have cnt: "deletes_of e1 s nk = deletes_of (during e) s nk"
    using ing
  proof (rule ingestDefault_done)
    fix def
    assume "publish_commit s (default_pub (sc_scope (sc_of (during e) s)) nk def False) (during e)
      = (e1, True)"
    from publish_commit_fences [OF this, of s nk] show ?thesis
      by (simp add: deletes_of_def default_pub_def bump_fence_def)
  qed
  show ?thesis
    using ent cnt by (auto simp: e' f publishAbsentDelete_def supersededByPublication_def
        fenceFor_def ing deletes_of_def record_outcome_def record_window_def)
qed

theorem absent_delete_witness:
  "sc_entries (sc_of (fst (refreshKey (Scope []) sample_key unarmed True False (\<lambda>e. e) Absent
     sample_up)) 0) sample_key
   = Some (default_entry \<lparr>kd_default = JNum 1, kd_validate = Some sample_validator\<rparr>)"
proof -
  let ?f = "fenceFor (sc_of sample_up 0) sample_key"
  have b: "refresh_begin (Scope []) sample_key unarmed sample_up = Some (0, ?f, ?f)"
    by (simp add: refresh_begin_def scopeForEvent_def trackedScope_def unarmed_def Let_def)
  show ?thesis
    using absent_delete [where during = "\<lambda>e. e", OF b, of _ False]
    by (simp add: trackedScope_def eng_lookup_def)
qed

text \<open>What an event does on the feed's goroutine: it touches no cache; on a closed engine, and for
  a key this process never registered, it does nothing and schedules nothing; a delete of a
  registered key in a tracked scope is counted at once, before its re-read is scheduled, and an
  OpResync of a tracked scope leaves it stale with a newer window open.\<close>

theorem onEvent_contract:
  assumes "onEvent evt e = (e', w)"
  shows "(\<forall>t. sc_entries (sc_of e' t) = sc_entries (sc_of e t))
    \<and> (e_closed e \<longrightarrow> e' = e \<and> w = None)
    \<and> (ev_op evt \<notin> {OpDisconnect, OpResync} \<and> \<not> e_closed e \<longrightarrow>
         (w = None \<longleftrightarrow> eng_lookup e (NSKey (ev_ns evt) (ev_key evt)) = None) \<and> (w = None \<longrightarrow> e' = e))
    \<and> (\<forall>s. trackedScope e (ev_scope evt) = Some s \<and> \<not> e_closed e \<longrightarrow>
         (ev_op evt = OpDelete \<and> w \<noteq> None \<longrightarrow>
            deletes_of e' s (NSKey (ev_ns evt) (ev_key evt))
              = deletes_of e s (NSKey (ev_ns evt) (ev_key evt)) + 1)
         \<and> (ev_op evt \<in> {OpDisconnect, OpResync} \<longrightarrow> sc_stale (sc_of e' s) \<and> w = None)
         \<and> (ev_op evt = OpResync \<longrightarrow> sc_reconcileGen (sc_of e' s) = sc_reconcileGen (sc_of e s) + 1))"
proof -
  have res: "sc_entries (sc_of (onResync sco e) t) = sc_entries (sc_of e t)
      \<and> (trackedScope e sco = Some s \<longrightarrow> sc_stale (sc_of (onResync sco e) s)
           \<and> sc_reconcileGen (sc_of (onResync sco e) s) = sc_reconcileGen (sc_of e s) + 1)"
    for sco s t
    by (auto simp: onResync_def scopeForEvent_def ensureReconcileWorker_def arm_scope_def
        armReconcile_def queueReconcile_def takeReconcile_def closeWindow_def Let_def
        split: option.splits prod.splits if_splits)
  have stale: "sc_entries (sc_of (markStale sco e) t) = sc_entries (sc_of e t)
      \<and> (trackedScope e sco = Some s \<longrightarrow> sc_stale (sc_of (markStale sco e) s))" for sco s t
    by (auto simp: markStale_def scopeForEvent_def markStale_sc_def split: option.splits)
  show ?thesis
    using assms res stale recordFeedDelete_counts
    by (auto simp: onEvent_def op_defs Let_def split: if_splits)
qed

theorem onEvent_contract_witness:
  "deletes_of (fst (onEvent sample_delete sample_up)) 0 sample_key = 1"
proof -
  have "snd (onEvent sample_delete sample_up) \<noteq> None"
    by (simp add: onEvent_def sample_delete_def op_defs Let_def sample_key_def eng_lookup_def)
  moreover have "deletes_of sample_up 0 sample_key = 0"
    by (simp add: deletes_of_def sample_up_scope newScopeState_def zero_fence_def)
  ultimately show ?thesis
    using onEvent_contract [OF surjective_pairing, of sample_delete sample_up]
    by (simp add: sample_delete_def trackedScope_def sample_key_def)
qed

subsection \<open>Tracking, dropping, closing\<close>

lemma release_feed_simps [simp]:
  "env_of (release_feed h e) = env_of (e\<lparr>e_feeds := e_feeds e - set_option h\<rparr>)"
  "e_states (release_feed h e) = e_states e"
  "e_workers (release_feed h e) = e_workers e"
  "e_scopes (release_feed h e) = e_scopes e"
  "e_closed (release_feed h e) = e_closed e"
  "e_workersClosed (release_feed h e) = e_workersClosed e"
  "e_feeds (release_feed h e) = e_feeds e - set_option h"
  by (cases h; simp add: release_feed_def)+

lemma stopScopeWorkers_simps [simp]:
  "e_scopes (stopScopeWorkers s e) = e_scopes e"
  "e_feeds (stopScopeWorkers s e) = e_feeds e"
  "e_closed (stopScopeWorkers s e) = e_closed e"
  "sc_of (stopScopeWorkers s e) t = (if t = s
     then (sc_of e s)\<lparr>sc_workersDropped := True, sc_workers := Map.empty\<rparr> else sc_of e t)"
  "e_workers (stopScopeWorkers s e) w = (if w \<in> ran (sc_workers (sc_of e s))
     then stop_worker (e_workers e w) else e_workers e w)"
  by (simp_all add: stopScopeWorkers_def Let_def)

text \<open>A drop is final and reaches nobody else: the scope is no longer tracked and reads as a
  miss, its changefeed is released, every delivery worker of that state is stopped and no later one
  can start, every later publication into that state is refused; and no other scope's tracking,
  cache or (with a well-formed worker table) delivery worker changes.\<close>

theorem dropScope_final:
  assumes "trackedScope e sco = Some s" and "workers_wf e"
  defines "e' \<equiv> dropScope sco e"
  shows "trackedScope e' sco = None \<and> Lookup sco nk e' = (zero_Entry, False)
    \<and> (\<forall>h. sc_unsubscribe (sc_of e s) = Some h \<longrightarrow> h \<notin> e_feeds e')
    \<and> (\<forall>k w. sc_workers (sc_of e s) k = Some w \<longrightarrow> w_done (e_workers e' w))
    \<and> workerFor s nk e' = (e', None)
    \<and> (\<exists>er. publish s pub e' = (e', Inl er))
    \<and> (\<forall>sco'. sco' \<noteq> sco \<longrightarrow> trackedScope e' sco' = trackedScope e sco')
    \<and> (\<forall>t. t \<noteq> s \<longrightarrow> sc_of e' t = sc_of e t
         \<and> (\<forall>k w. sc_workers (sc_of e t) k = Some w \<longrightarrow> e_workers e' w = e_workers e w))"
proof -
  have e': "e' = stopScopeWorkers s (upd_sc s stopReconcileWorker
      (release_feed (sc_unsubscribe (sc_of e s))
        (upd_sc s (\<lambda>sc. sc\<lparr>sc_unsubscribe := None\<rparr>) (e\<lparr>e_scopes := (e_scopes e)(sco := None)\<rparr>))))"
    using assms(1) by (simp add: e'_def dropScope_def trackedScope_def Let_def)
  have gone: "trackedScope e' sco = None" by (simp add: e' trackedScope_def)
  have stop: "sc_stop (sc_of e' s)" and dropped: "sc_workersDropped (sc_of e' s)"
    by (simp_all add: e' stopReconcileWorker_def)
  have mine: "w \<notin> ran (sc_workers (sc_of e s))"
    if "t \<noteq> s" "sc_workers (sc_of e t) k = Some w" for t k w
    using workers_wfD(3) [OF assms(2) that(2)] that(1) by (auto simp: ran_def)
  have "\<exists>er. publish s pub e' = (e', Inl er)"
    using stop by (simp add: publish_def publish_guard_def)
  with gone dropped mine show ?thesis
    by (auto simp: Lookup_def workerFor_def e' trackedScope_def stopReconcileWorker_def stop_worker_def
        ran_def)
qed

lemma sample_up_workers [simp]: "workers_wf sample_up"
proof -
  have "sc_workers (sc_of sample_up t) = Map.empty" for t
    by (simp add: sample_up_def sample_new_def new_engine_def bringUpScope_def bring_up_begin_def
        scopeFor_def open_feed_def bring_up_conclude_def onResync_def scopeForEvent_def
        trackedScope_def ensureReconcileWorker_def Let_def newScopeState_def arm_scope_def
        armReconcile_def queueReconcile_def)
  then show ?thesis by (simp add: workers_wf_def)
qed

theorem dropScope_final_witness:
  "Lookup (Scope []) sample_key (dropScope (Scope []) sample_up) = (zero_Entry, False)
   \<and> e_feeds (dropScope (Scope []) sample_up) = {}"
proof -
  have tr: "trackedScope sample_up (Scope []) = Some 0" by (simp add: trackedScope_def)
  have "0 \<notin> e_feeds (dropScope (Scope []) sample_up)"
    using dropScope_final [OF tr sample_up_workers] by (simp add: sample_up_scope)
  moreover have "e_feeds (dropScope (Scope []) sample_up) \<subseteq> {0}"
    by (simp add: dropScope_def Let_def)
  moreover have "Lookup (Scope []) sample_key (dropScope (Scope []) sample_up) = (zero_Entry, False)"
    using dropScope_final [OF tr sample_up_workers] by blast
  ultimately show ?thesis by blast
qed

text \<open>A bring-up never leaks a changefeed: when the Subscribe it issued succeeds, either the
  handle is stored in the scope's state and the engine was open at that moment, or the engine had
  closed meanwhile, the handle has been released, and the scope is not tracked.\<close>

theorem bring_up_keeps_or_releases:
  assumes "bring_up_begin sco e = (e1, Subscribing s)"
    and "bringUpScope sco during Subscribed e = (e', r)"
  shows "(r = Inr s \<and> sc_unsubscribe (sc_of e' s) = Some (e_nextFeed e1) \<and> \<not> e_closed e')
    \<or> (r = Inl (Sentinel Store_ErrClosed) \<and> e_closed e' \<and> e_nextFeed e1 \<notin> e_feeds e'
        \<and> trackedScope e' sco = None)"
  using assms
  by (auto simp: bringUpScope_def open_feed_def bring_up_conclude_def Let_def dropScope_def
      trackedScope_def split: if_splits option.splits)

lemma bring_up_closed:
  assumes "bring_up_begin sco e = (e1, Subscribing s)" and "\<And>x. e_closed (during x)"
  shows "snd (bringUpScope sco during Subscribed e) \<noteq> Inr t"
  using assms by (simp add: bringUpScope_def open_feed_def bring_up_conclude_def Let_def)

theorem bring_up_keeps_or_releases_witness:
  "0 \<notin> e_feeds (fst (bringUpScope (Scope []) close_shut Subscribed sample_new))
   \<and> trackedScope (fst (bringUpScope (Scope []) close_shut Subscribed sample_new)) (Scope []) = None"
proof -
  let ?e1 = "fst (bring_up_begin (Scope []) sample_new)"
  have b: "bring_up_begin (Scope []) sample_new = (?e1, Subscribing 0)"
    by (simp add: bring_up_begin_def scopeFor_def sample_new_def new_engine_def newScopeState_def
        Let_def)
  have n: "e_nextFeed ?e1 = 0"
    by (simp add: bring_up_begin_def scopeFor_def sample_new_def new_engine_def newScopeState_def
        Let_def)
  have "snd (bringUpScope (Scope []) close_shut Subscribed sample_new) \<noteq> Inr 0"
    by (rule bring_up_closed [OF b]) (simp add: close_shut_def closeWorkers_def Let_def)
  with bring_up_keeps_or_releases [OF b surjective_pairing, of close_shut] n
  show ?thesis by auto
qed

text \<open>Close shuts every door at once: every changefeed a tracked scope holds is released before
  Close waits, and from then on the engine refuses writes and removals, subscriptions, changefeed
  events, new scopes, new work and new delivery workers, each leaving the engine as it is.\<close>

theorem close_refuses_everything:
  assumes "e' = close_shut e"
  shows "(\<forall>s h. s \<in> trackedScopes e' \<and> sc_unsubscribe (sc_of e' s) = Some h \<longrightarrow> h \<notin> e_feeds e')
    \<and> Publish c sco se e' = (e', Some (Sentinel Engine_ErrClosed))
    \<and> PublishDelete sco nk e' = (e', Some (Sentinel Engine_ErrClosed))
    \<and> eng_OnChange nk hasFn e' = (e', None)
    \<and> onEvent evt e' = (e', None)
    \<and> (trackedScope e' sco = None \<longrightarrow> scopeFor sco e' = (e', None))
    \<and> beginWork e' = (e', False) \<and> workerFor s nk e' = (e', None)
    \<and> publish s pub e' = (e', Inl (Sentinel Engine_ErrClosed))
    \<and> start_refusal e' = Some (Sentinel Store_ErrClosed)"
  unfolding assms
  by (auto simp: close_shut_def closeWorkers_def Let_def Publish_def PublishDelete_def eng_OnChange_def
      onEvent_def scopeFor_def trackedScope_def beginWork_def workerFor_def publish_def
      publish_guard_def start_refusal_def tracked_feeds_def trackedScopes_def)

theorem close_refuses_everything_witness:
  "Publish background (Scope []) (sample_row ''6'' 4) (close_shut sample_up)
     = (close_shut sample_up, Some (Sentinel Engine_ErrClosed))"
  using close_refuses_everything [where e = sample_up, OF refl] by blast

text \<open>Close is idempotent and honest: every later call answers what the first one did and changes
  nothing; it answers nil only if the workers drained, and a timed-out Close names exactly the
  (tenant, namespace, key) of every worker inside a callback, sorted, or says that none is.\<close>

theorem close_outcome:
  assumes "eng_Close waiting drained e = (e', r)" and "e_closeErr e = None"
  shows "eng_Close waiting' drained' e' = (e', r)
    \<and> (r = None \<longleftrightarrow> drained)
    \<and> (\<not> drained \<longrightarrow> err_is (the r) ErrCloseTimeout
         \<and> (e_running e' = Map.empty \<longrightarrow> the r = Wrap InStoreCall [Sentinel ErrCloseTimeout])
         \<and> (e_running e' \<noteq> Map.empty \<and> finite (dom (e_running e')) \<longrightarrow>
              (\<exists>names. the r = Wrap (StillRunning names) [Sentinel ErrCloseTimeout] \<and> sorted names
                 \<and> set names = worker_label ` ran (e_running e'))))"
proof -
  let ?e1 = "waiting (close_shut e)"
  let ?ws = "sorted_list_of_set (dom (e_running ?e1))"
  let ?names = "map (\<lambda>w. worker_label (the (e_running ?e1 w))) ?ws"
  from assms have e': "e' = ?e1\<lparr>e_closeErr := Some r\<rparr>" and r: "r = waitForWorkers drained ?e1"
    by (auto simp: eng_Close_def Let_def)
  have run: "e_running e' = e_running ?e1" by (simp add: e')
  have names: "set ?names = worker_label ` ran (e_running ?e1) \<and> ?names \<noteq> []"
    if "finite (dom (e_running ?e1))" "e_running ?e1 \<noteq> Map.empty"
  proof
    show "set ?names = worker_label ` ran (e_running ?e1)"
      using that(1) by (force simp: ran_def dom_def image_iff)
    show "?names \<noteq> []" using that by (simp add: sorted_list_of_set_eq_Nil_iff)
  qed
  show ?thesis
    using names by (auto simp: eng_Close_def e' r waitForWorkers_def stuckError_def Let_def run)
qed

theorem close_outcome_witness:
  "eng_Close (\<lambda>e. e) False (fst (eng_Close (\<lambda>e. e) True sample_up))
     = (fst (eng_Close (\<lambda>e. e) True sample_up), None)"
proof -
  have none: "e_closeErr sample_up = None"
    by (simp add: sample_up_def sample_new_def new_engine_def bringUpScope_def bring_up_begin_def
        scopeFor_def open_feed_def bring_up_conclude_def onResync_def scopeForEvent_def
        trackedScope_def ensureReconcileWorker_def Let_def newScopeState_def arm_scope_def
        armReconcile_def queueReconcile_def)
  have "eng_Close (\<lambda>e. e) True sample_up = (fst (eng_Close (\<lambda>e. e) True sample_up), None)"
    by (simp add: eng_Close_def none Let_def waitForWorkers_def)
  from close_outcome [OF this none] show ?thesis by blast
qed

end
