(* ===== verification/Engine_Moves.thy ===== *)
theory Engine_Moves
  imports Engine_Ops
begin

text \<open>
  What a critical section can do to the engine. \<open>ingress\<close> closes the publishing family; \<open>emove\<close>
  classifies every section of the engine, and each engine-wide invariant is proved once over its
  eight kinds.
\<close>

subsection \<open>The ingress family\<close>

text \<open>
  Most sections are compositions of three things: a commit of a well-formed publication into a
  state that still takes one, an adjustment of bookkeeping no invariant reads, and the wait group.
  \<open>ingress s\<close> is that closure, so each invariant is proved once for it.
\<close>

definition mid_of :: "scope_state \<Rightarrow> scope_state" where
  "mid_of sc = (ctl_of sc)\<lparr>sc_retrying := {}, sc_inflight := {}, sc_again := Map.empty,
     sc_getSem := 0\<rparr>"

lemma mid_of_eq:
  "mid_of b = mid_of a \<longleftrightarrow>
     sc_scope b = sc_scope a \<and> sc_stale b = sc_stale a
     \<and> sc_disconnectGen b = sc_disconnectGen a \<and> sc_firstDone b = sc_firstDone a
     \<and> sc_firstErr b = sc_firstErr a \<and> sc_pending b = sc_pending a
     \<and> sc_signal b = sc_signal a \<and> sc_stop b = sc_stop a
     \<and> sc_workerStarted b = sc_workerStarted a \<and> sc_workersDropped b = sc_workersDropped a
     \<and> sc_reconcileGen b = sc_reconcileGen a \<and> sc_open b = sc_open a
     \<and> sc_unsubscribe b = sc_unsubscribe a"
  unfolding mid_of_def ctl_of_def by (cases a; cases b) auto

lemma ctl_mid: "ctl_of b = ctl_of a \<Longrightarrow> mid_of b = mid_of a"
  by (simp add: mid_of_def)

definition adjusts :: "(scope_state \<Rightarrow> scope_state) \<Rightarrow> scope_state \<Rightarrow> bool" where
  "adjusts f sc \<longleftrightarrow> mid_of (f sc) = mid_of sc \<and> sc_entries (f sc) = sc_entries sc
     \<and> sc_workers (f sc) = sc_workers sc
     \<and> (\<forall>nk. kf_deletes (sc_fences sc nk) \<le> kf_deletes (sc_fences (f sc) nk))"

inductive ingress :: "sid \<Rightarrow> engine \<Rightarrow> engine \<Rightarrow> bool" for s where
  same [simp, intro]: "ingress s e e"
| commit: "publish_guard s e = None \<Longrightarrow> pub_ok e pub \<Longrightarrow> pub_scope pub = sc_scope (sc_of e s) \<Longrightarrow>
     publish_commit s pub e = (e', n) \<Longrightarrow> ingress s e e'"
| adjust: "adjusts f (sc_of e s) \<Longrightarrow> ingress s e (upd_sc s f e)"
| wg: "ingress s e (e\<lparr>e_wg := k\<rparr>)"
| chain [trans]: "ingress s e e' \<Longrightarrow> ingress s e' e'' \<Longrightarrow> ingress s e e''"

lemma adjusts_simps [simp]:
  "adjusts (record_outcome nk u) sc" "adjusts (markUnconfirmed nk) sc"
  "adjusts (markConfirmed nk) sc" "adjusts (recordUnconfirmed nk f) sc"
  "adjusts (bumpDeletes nk) sc" "adjusts (endRetry rk) sc"
  "adjusts (\<lambda>sc. fst (beginRefresh nk d sc)) sc" "adjusts (\<lambda>sc. fst (endRefresh nk sc)) sc"
  "adjusts (\<lambda>sc. bumpDeletes nk (record_outcome nk' u sc)) sc"
  by (auto simp: adjusts_def mid_of_def markUnconfirmed_def markConfirmed_def recordUnconfirmed_def
      bumpDeletes_def endRetry_def beginRefresh_def endRefresh_def record_outcome_def ctl_of_def
      modify_apply split: option.splits)

lemma ingress_publish:
  assumes "publish s pub e = (e', r)" and "pub_ok e pub" and "pub_scope pub = sc_scope (sc_of e s)"
  shows "ingress s e e'"
  using assms by (auto simp: publish_def Let_def split: option.splits prod.splits intro: ingress.commit)

lemma ingress_ingestDefault:
  assumes "ingestDefault s nk d e = (e', r)"
  shows "ingress s e e'"
proof (cases "eng_lookup e nk")
  case None
  with assms show ?thesis by (simp add: ingestDefault_def)
next
  case (Some def)
  with assms have "publish s (default_pub (sc_scope (sc_of e s)) nk def d) e = (e', r)"
    by (simp add: ingestDefault_def)
  then show ?thesis
    by (rule ingress_publish) (simp_all add: default_pub_ok [OF Some], simp add: default_pub_def)
qed

text \<open>What a prepared row must be for its commit: well formed, of the state's own scope.\<close>

definition prep_ok :: "engine \<Rightarrow> sid \<Rightarrow> nskey \<Rightarrow> err + publication \<Rightarrow> bool" where
  "prep_ok e s nk prep \<longleftrightarrow>
     (\<forall>pub. prep = Inr pub \<longrightarrow> pub_ok e pub \<and> pub_scope pub = sc_scope (sc_of e s) \<and> pub_nk pub = nk)"

lemma prepare_prep_ok:
  "decoder_ok e \<Longrightarrow> prep_ok e s (row_nk se) (prepare c (sc_scope (sc_of e s)) se pg e)"
  by (auto simp: prep_ok_def prepare_pub prepare_pub_ok)

lemma ingress_record: "ingress s e e' \<Longrightarrow> ingress s e (upd_sc s (record_outcome nk u) e')"
  by (rule ingress.chain, assumption, rule ingress.adjust) simp

lemma ingress_ingest_commit:
  assumes "ingest_commit s nk prep f pg e = (e', r)" and "prep_ok e s nk prep"
  shows "ingress s e e'"
proof (cases prep)
  case (Inl er)
  with assms(1) show ?thesis by (auto simp: ingest_commit_def intro: ingress_record)
next
  case (Inr pub)
  obtain e1 q where p: "publish s pub e = (e1, q)" by fastforce
  have "ingress s e e1"
    using ingress_publish [OF p] assms(2) Inr by (simp add: prep_ok_def)
  with Inr p assms(1) show ?thesis
    by (auto simp: ingest_commit_def split: if_splits sum.splits intro: ingress_record)
qed

lemma ingress_ingest:
  assumes "ingest c s se f pg e = (e', r)" and "decoder_ok e"
  shows "ingress s e e'"
proof -
  let ?e1 = "ingest_begin s (row_nk se) e"
  have "ingress s e ?e1" unfolding ingest_begin_def by (rule ingress.adjust) simp
  moreover have "ingress s ?e1 e'"
    using assms(1) unfolding ingest_def Let_def
    by (rule ingress_ingest_commit) (rule prepare_prep_ok, simp add: decoder_ok_env assms(2))
  ultimately show ?thesis by (rule ingress.chain)
qed

lemma ingress_snapshot_commit:
  assumes "snapshot_commit s arm nk prep e = (e', b)" and "prep_ok e s nk prep"
  shows "ingress s e e'"
proof (cases prep)
  case (Inl er)
  with assms(1) show ?thesis
    by (auto simp: snapshot_commit_def split: if_splits
        intro: ingress_ingestDefault [OF surjective_pairing])
next
  case (Inr pub)
  obtain e1 q where p: "publish s pub e = (e1, q)" by fastforce
  have "ingress s e e1"
    using ingress_publish [OF p] assms(2) Inr by (simp add: prep_ok_def)
  with Inr p assms(1) show ?thesis
    by (auto simp: snapshot_commit_def Let_def split: if_splits
        intro: ingress.chain [OF _ ingress.adjust])
qed

lemma ingress_applySnapshotRow:
  assumes "applySnapshotRow s arm se e = (e', b)" and "decoder_ok e"
  shows "ingress s e e'"
  using assms(1) unfolding applySnapshotRow_def snapshot_prepare_def
  by (rule ingress_snapshot_commit) (rule prepare_prep_ok [OF assms(2)])

lemma ingress_applyAbsentKey:
  "applyAbsentKey s arm nk e = (e', b) \<Longrightarrow> ingress s e e'"
  by (auto simp: applyAbsentKey_def split: if_splits prod.splits bool.splits
      intro: ingress.adjust ingress_ingestDefault [OF surjective_pairing])

lemma ingress_publishAbsentDelete: "ingress s e (publishAbsentDelete s nk f e)"
  by (auto simp: publishAbsentDelete_def split: prod.splits sum.splits bool.splits
      intro: ingress_record ingress_ingestDefault)

lemma ingress_recordFeedOutcome: "ingress s e (recordFeedOutcome s nk u e)"
  by (auto simp: recordFeedOutcome_def intro: ingress.adjust)

lemma ingress_recordFeedDelete:
  "trackedScope e sco = Some s \<Longrightarrow> ingress s e (recordFeedDelete sco nk e)"
  by (auto simp: recordFeedDelete_tracked intro: ingress.adjust)

lemma ingress_retryRefresh:
  assumes "retryRefresh s nk f d r e = (e', b)"
  shows "ingress s e e'"
proof -
  have "adjusts (\<lambda>sc. sc\<lparr>sc_retrying := insert rk (sc_retrying sc)\<rparr>) sc" for rk and sc :: scope_state
    by (simp add: adjusts_def mid_of_def ctl_of_def)
  from ingress.adjust [OF this]
  have ins: "ingress s e (upd_sc s (\<lambda>sc. sc\<lparr>sc_retrying := insert rk (sc_retrying sc)\<rparr>) e)" for rk .
  have same: "upd_sc s (\<lambda>_. (sc_of e s)\<lparr>sc_retrying := insert rk (sc_retrying (sc_of e s))\<rparr>) e
      = upd_sc s (\<lambda>sc. sc\<lparr>sc_retrying := insert rk (sc_retrying sc)\<rparr>) e" for rk
    by (simp add: upd_sc_def modify_def)
  from assms show ?thesis
    using ins ingress.chain [OF ins ingress.wg] ingress.chain [OF ins ingress.adjust]
    by (auto simp: retryRefresh_def beginRetry_def beginWork_def same
        split: if_splits intro: ingress.adjust simp del: upd_sc_upd_sc)
qed

lemma ingress_refresh_conclude:
  assumes "refresh_conclude sco s nk f origin d r ans e = (e', b)" and "\<forall>se. ans \<noteq> Got se"
  shows "ingress s e e'"
  using assms
  by (auto simp: refresh_conclude_def recoverRefresh_def Let_def split: get_answer.splits if_splits
      intro: ingress_publishAbsentDelete ingress_recordFeedOutcome ingress.adjust
        ingress.chain [OF ingress_recordFeedOutcome ingress_retryRefresh])

subsection \<open>What the ingress family keeps\<close>

lemma env_of_wg [simp]: "env_of (e\<lparr>e_wg := k\<rparr>) = env_of e"
  by (simp add: env_of_def)

lemma ingress_env: "ingress s e e' \<Longrightarrow> env_of e' = env_of e"
  by (induction rule: ingress.induct) (simp_all add: publish_commit_env)

lemma ingress_mid: "ingress s e e' \<Longrightarrow> mid_of (sc_of e' t) = mid_of (sc_of e t)"
proof (induction rule: ingress.induct)
  case (commit e pub e' n)
  show ?case by (rule ctl_mid [OF publish_commit_ctl [OF commit(4)]])
qed (simp_all add: adjusts_def)

lemma ingress_scope: "ingress s e e' \<Longrightarrow> sc_scope (sc_of e' t) = sc_scope (sc_of e t)"
  using ingress_mid [of s e e' t] by (simp add: mid_of_eq)

lemma ingress_cache_ok [pres]: "ingress s e e' \<Longrightarrow> cache_ok e \<Longrightarrow> cache_ok e'"
proof (induction rule: ingress.induct)
  case (wg e k)
  then show ?case by (rule cache_ok_cong [rotated 3]) simp_all
next
  case (commit e pub e' n)
  then show ?case by (simp add: publish_commit_cache_ok)
next
  case (adjust f e)
  then show ?case by (simp add: adjusts_def upd_sc_cache_ok)
qed simp_all

lemma publish_commit_deletes:
  "publish_commit s pub e = (e', n) \<Longrightarrow> deletes_of e t nk \<le> deletes_of e' t nk"
  using publish_commit_fences [of s pub e e' n t nk] by (auto simp: deletes_of_def bump_fence_def)

lemma ingress_deletes: "ingress s e e' \<Longrightarrow> deletes_of e t nk \<le> deletes_of e' t nk"
proof (induction rule: ingress.induct)
  case (commit e pub e' n)
  then show ?case by (simp add: publish_commit_deletes)
next
  case (adjust f e)
  then show ?case by (simp add: adjusts_def deletes_of_def)
next
  case (wg e k)
  then show ?case by (simp add: deletes_of_def)
next
  case (chain e e' e'')
  then show ?case by (simp add: order_trans)
qed simp

lemma publish_commit_wf [pres]:
  assumes "publish_commit s pub e = (e', n)" and "workers_wf e"
  shows "workers_wf e'"
proof -
  have upd: "workers_wf (upd_sc s f x)" if "workers_wf x"
    "sc_workers (f (sc_of x s)) = sc_workers (sc_of x s)"
    "sc_workersDropped (f (sc_of x s)) = sc_workersDropped (sc_of x s)" for f x
    using that by (auto simp: workers_wf_def split: if_splits)
  show ?thesis
    using assms by (auto simp: publish_commit_def Let_def split: verdict.splits intro!: dispatch_wf upd)
qed

lemma ingress_wf [pres]: "ingress s e e' \<Longrightarrow> workers_wf e \<Longrightarrow> workers_wf e'"
proof (induction rule: ingress.induct)
  case (commit e pub e' n)
  then show ?case by (auto intro: publish_commit_wf)
next
  case (adjust f e)
  then have "sc_workers (f (sc_of e s)) = sc_workers (sc_of e s)"
    "sc_workersDropped (f (sc_of e s)) = sc_workersDropped (sc_of e s)"
    by (simp_all add: adjusts_def mid_of_eq)
  with adjust(2) show ?case by (auto simp: workers_wf_def split: if_splits)
next
  case (wg e k)
  then show ?case by (simp add: workers_wf_def)
qed simp_all

subsection \<open>Every mailbox agrees with the cache\<close>

text \<open>
  \<open>slots_ok\<close>: what a live delivery worker has for its subscribers (the change waiting in its slot,
  or else the last one it handed out) is exactly the entry its scope's cache holds.
\<close>

definition change_of_entry :: "scope \<Rightarrow> nskey \<Rightarrow> entry \<Rightarrow> change" where
  "change_of_entry sco nk c = \<lparr>ch_tenant = Tenant sco, ch_ns = Namespace nk, ch_key = Key nk,
     ch_rev = ent_rev c, ch_value = ent_value c\<rparr>"

definition handed :: "engine \<Rightarrow> (wid \<Rightarrow> change option) \<Rightarrow> wid \<Rightarrow> change option" where
  "handed e lst i =
     (case pending_change (e_workers e i) of Some ch \<Rightarrow> Some ch | None \<Rightarrow> lst i)"

definition slots_ok :: "engine \<Rightarrow> (wid \<Rightarrow> change option) \<Rightarrow> nskey set \<Rightarrow> bool" where
  "slots_ok e lst muted \<longleftrightarrow>
     (\<forall>s nk i. sc_workers (sc_of e s) nk = Some i \<longrightarrow> nk \<notin> muted \<longrightarrow>
        e_subscribers e nk \<noteq> []
        \<and> (\<exists>c. sc_entries (sc_of e s) nk = Some c
             \<and> handed e lst i = Some (change_of_entry (sc_scope (sc_of e s)) nk c)))"

lemma slots_okI:
  assumes "\<And>s nk i. sc_workers (sc_of e s) nk = Some i \<Longrightarrow> nk \<notin> muted \<Longrightarrow>
      e_subscribers e nk \<noteq> [] \<and> (\<exists>c. sc_entries (sc_of e s) nk = Some c
        \<and> handed e lst i = Some (change_of_entry (sc_scope (sc_of e s)) nk c))"
  shows "slots_ok e lst muted"
  using assms by (simp add: slots_ok_def)

lemma slots_okD:
  assumes "slots_ok e lst muted" and "sc_workers (sc_of e s) nk = Some i" and "nk \<notin> muted"
  shows "e_subscribers e nk \<noteq> []"
    and "\<exists>c. sc_entries (sc_of e s) nk = Some c
           \<and> handed e lst i = Some (change_of_entry (sc_scope (sc_of e s)) nk c)"
  using assms by (auto simp: slots_ok_def)

text \<open>A step that moves none of the fields it reads keeps it.\<close>

lemma slots_ok_frame:
  assumes "slots_ok e lst muted" and "muted \<subseteq> muted'"
    and "\<And>nk. nk \<notin> muted' \<Longrightarrow> e_subscribers e nk \<noteq> [] \<Longrightarrow> e_subscribers e' nk \<noteq> []"
    and "\<And>t nk i. sc_workers (sc_of e' t) nk = Some i \<Longrightarrow>
       sc_workers (sc_of e t) nk = Some i \<and> sc_entries (sc_of e' t) = sc_entries (sc_of e t)
       \<and> sc_scope (sc_of e' t) = sc_scope (sc_of e t)
       \<and> pending_change (e_workers e' i) = pending_change (e_workers e i)"
  shows "slots_ok e' lst muted'"
proof (rule slots_okI)
  fix s nk i
  assume i: "sc_workers (sc_of e' s) nk = Some i" and nk: "nk \<notin> muted'"
  from nk assms(2) have old: "nk \<notin> muted" by blast
  from assms(4) [OF i] have "sc_workers (sc_of e s) nk = Some i" by blast
  from slots_okD [OF assms(1) this old] assms(4) [OF i] assms(3) [OF nk]
  show "e_subscribers e' nk \<noteq> [] \<and> (\<exists>c. sc_entries (sc_of e' s) nk = Some c
        \<and> handed e' lst i = Some (change_of_entry (sc_scope (sc_of e' s)) nk c))"
    by (simp add: handed_def)
qed

lemma handed_pending:
  "pending_change (e_workers e i) = Some ch \<Longrightarrow> handed e lst i = Some ch"
  by (simp add: handed_def)

definition doors_ok :: "engine \<Rightarrow> bool" where
  "doors_ok e \<longleftrightarrow> (e_workersClosed e \<longrightarrow> e_closed e)
     \<and> (\<forall>s. sc_workersDropped (sc_of e s) \<longrightarrow> sc_stop (sc_of e s))"

lemma guard_doors:
  "publish_guard s e = None \<Longrightarrow> doors_ok e \<Longrightarrow>
     \<not> e_workersClosed e \<and> \<not> sc_workersDropped (sc_of e s)"
  by (auto simp: publish_guard_def doors_ok_def split: if_splits)

lemma change_of_entry_pub:
  "pub_scope pub = sco \<Longrightarrow> change_of_entry sco (pub_nk pub) (entry_of pub) = change_of pub"
  by (simp add: change_of_entry_def change_of_def entry_of_def)

lemma dispatch_slots:
  assumes "slots_ok e lst muted" and "workers_wf e"
    and "\<not> e_workersClosed e" and "\<not> sc_workersDropped (sc_of e s)"
    and "pub_scope pub = sc_scope (sc_of e s)"
  defines "e0 \<equiv> upd_sc s (\<lambda>sc. sc\<lparr>sc_entries := (sc_entries sc)(pub_nk pub \<mapsto> entry_of pub)\<rparr>) e"
  shows "slots_ok (dispatch s pub e0) lst muted"
proof (rule slots_okI)
  let ?nk = "pub_nk pub" and ?e' = "dispatch s pub e0"
  have wf: "workers_wf e0"
    using assms(2) by (auto simp: workers_wf_def e0_def split: if_splits)
  have subs: "e_subscribers ?e' k = e_subscribers e k" for k
    using dispatch_env [of s pub e0] unfolding env_of_eq by (simp add: e0_def)
  have sco: "sc_scope (sc_of ?e' t) = sc_scope (sc_of e t)" for t
    using dispatch_sc(5) [of s pub e0 t] unfolding ctl_of_eq by (simp add: e0_def)
  fix t k i
  assume i: "sc_workers (sc_of ?e' t) k = Some i" and k: "k \<notin> muted"
  show "e_subscribers ?e' k \<noteq> [] \<and> (\<exists>c. sc_entries (sc_of ?e' t) k = Some c
        \<and> handed ?e' lst i = Some (change_of_entry (sc_scope (sc_of ?e' t)) k c))"
  proof (cases "t = s \<and> k = ?nk")
    case True
    have ne: "e_subscribers e ?nk \<noteq> []"
    proof
      assume "e_subscribers e ?nk = []"
      with i True slots_okD(1) [OF assms(1), of s ?nk i] k show False
        by (simp add: dispatch_silent e0_def)
    qed
    with dispatch_fills_slot [of e0 pub s] assms(3,4) i True
    have "pending_change (e_workers ?e' i) = Some (change_of pub)" by (auto simp: e0_def)
    with ne True show ?thesis
      by (simp add: subs sco handed_pending change_of_entry_pub [OF assms(5)])
        (simp add: e0_def change_of_entry_pub [OF assms(5)])
  next
    case False
    then have old: "sc_workers (sc_of e t) k = Some i"
      using i dispatch_tables [of t s k pub e0] by (auto simp: e0_def)
    have "sc_workers (sc_of e s) ?nk \<noteq> Some i"
      using workers_wfD(3) [OF assms(2) old, of s ?nk] False by blast
    then have "e_workers ?e' i = e_workers e i"
      using dispatch_other_worker [OF wf, of i s pub] workers_wfD(1) [OF assms(2) old]
      by (simp add: e0_def)
    moreover have "sc_entries (sc_of ?e' t) k = sc_entries (sc_of e t) k"
      using False by (auto simp: e0_def)
    ultimately show ?thesis
      using slots_okD [OF assms(1) old k] by (simp add: subs sco handed_def)
  qed
qed

lemma publish_commit_slots:
  assumes p: "publish_commit s pub e = (e', n)" and "publish_guard s e = None"
    and "pub_scope pub = sc_scope (sc_of e s)"
    and "slots_ok e lst muted" and "workers_wf e" and "doors_ok e"
  shows "slots_ok e' lst muted"
proof -
  let ?nk = "pub_nk pub"
  let ?e1 = "upd_sc s (\<lambda>sc. sc\<lparr>sc_unconfirmed := sc_unconfirmed sc - {?nk}\<rparr>) e"
  have s1: "slots_ok ?e1 lst muted"
    using assms(4) by (rule slots_ok_frame) (auto split: if_splits)
  show ?thesis
  proof (cases "fence (sc_entries (sc_of e s) ?nk) pub")
    case Rejected
    with p s1 show ?thesis by (auto simp: publish_commit_def Let_def)
  next
    case (Refreshed c')
    then obtain c where c: "sc_entries (sc_of e s) ?nk = Some c"
      "ent_rev c' = ent_rev c" "ent_value c' = ent_value c" by (rule fence_refreshed)
    from Refreshed p have e': "e' = upd_sc s (\<lambda>sc. sc\<lparr>sc_entries := (sc_entries sc)(?nk \<mapsto> c')\<rparr>) ?e1"
      by (simp add: publish_commit_def Let_def)
    show ?thesis
    proof (rule slots_okI)
      fix t k i
      assume i: "sc_workers (sc_of e' t) k = Some i" and k: "k \<notin> muted"
      then have "sc_workers (sc_of ?e1 t) k = Some i" by (auto simp: e' split: if_splits)
      from slots_okD [OF s1 this k] c
      show "e_subscribers e' k \<noteq> [] \<and> (\<exists>c. sc_entries (sc_of e' t) k = Some c
        \<and> handed e' lst i = Some (change_of_entry (sc_scope (sc_of e' t)) k c))"
        by (cases "t = s \<and> k = ?nk") (auto simp: e' handed_def change_of_entry_def)
    qed
  next
    case Accepted
    let ?f = "\<lambda>sc. sc\<lparr>sc_fences := modify (sc_fences sc) ?nk (bump_fence (pub_deleted pub))\<rparr>"
    let ?e2 = "upd_sc s ?f ?e1"
    have s2: "slots_ok ?e2 lst muted"
      using s1 by (rule slots_ok_frame) (auto split: if_splits)
    have wf: "workers_wf ?e2" using assms(5) by (auto simp: workers_wf_def split: if_splits)
    from guard_doors [OF assms(2,6)]
    have "\<not> e_workersClosed ?e2" "\<not> sc_workersDropped (sc_of ?e2 s)" by simp_all
    note d = dispatch_slots [OF s2 wf this]
    have ord: "sc\<lparr>sc_unconfirmed := a, sc_fences := b, sc_entries := c\<rparr>
        = sc\<lparr>sc_unconfirmed := a, sc_entries := c, sc_fences := b\<rparr>"
      for sc :: scope_state and a b c by (cases sc) simp
    from d [of pub] assms(3) Accepted p show ?thesis
      by (simp add: publish_commit_def Let_def ord)
  qed
qed

text \<open>The environment and the control part, so the doors, are as they were after an ingress.\<close>

lemma ingress_doors: "ingress s e e' \<Longrightarrow> doors_ok e' = doors_ok e"
  using ingress_env [of s e e'] ingress_mid [of s e e'] by (simp add: doors_ok_def env_of_eq mid_of_eq)

lemma ingress_slots:
  "ingress s e e' \<Longrightarrow> slots_ok e lst muted \<Longrightarrow> workers_wf e \<Longrightarrow> doors_ok e \<Longrightarrow> slots_ok e' lst muted"
proof (induction rule: ingress.induct)
  case (commit e pub e' n)
  show ?case by (rule publish_commit_slots [OF commit(4,1,3,5-7)])
next
  case (adjust f e)
  from adjust(2) show ?case
    using adjust(1) by (elim slots_ok_frame) (auto simp: adjusts_def mid_of_eq split: if_splits)
next
  case (wg e k)
  from wg(1) show ?case by (rule slots_ok_frame) auto
next
  case (chain e e' e'')
  then show ?case by (simp add: ingress_wf ingress_doors)
qed simp

subsection \<open>What a step does to the engine\<close>

text \<open>
  \<open>emove\<close> classifies the engine's part of every step; a section of several writes is a few moves in
  a row. \<open>controls\<close> is a write to a state's reconcile and staleness fields.
\<close>

definition controls :: "(scope_state \<Rightarrow> scope_state) \<Rightarrow> scope_state \<Rightarrow> bool" where
  "controls f sc \<longleftrightarrow> sc_entries (f sc) = sc_entries sc \<and> sc_workers (f sc) = sc_workers sc
     \<and> sc_fences (f sc) = sc_fences sc \<and> sc_scope (f sc) = sc_scope sc
     \<and> sc_workersDropped (f sc) = sc_workersDropped sc \<and> sc_stop (f sc) = sc_stop sc
     \<and> sc_unsubscribe (f sc) = sc_unsubscribe sc"

text \<open>
  The index says what the section may do to scopes: nothing for \<open>None\<close>; for \<open>Some A\<close> the changefeed
  handles and the tracking of the scopes in \<open>A\<close>, besides opening and closing feeds.
\<close>

definition held :: "scope set option \<Rightarrow> scope set" where
  "held X = (case X of None \<Rightarrow> {} | Some A \<Rightarrow> A)"

lemma held_simps [simp]: "held None = {}" "held (Some A) = A"
  by (simp_all add: held_def)

inductive emove :: "scope set option \<Rightarrow> engine \<Rightarrow> engine \<Rightarrow> bool" for X where
  ing: "s < e_nextSid e \<Longrightarrow> ingress s e e' \<Longrightarrow> emove X e e'"
| ctl: "s < e_nextSid e \<Longrightarrow> controls f (sc_of e s) \<Longrightarrow> emove X e (upd_sc s f (e\<lparr>e_wg := k\<rparr>))"
| slots: "\<forall>i. pending_change (ws i) = pending_change (e_workers e i) \<Longrightarrow>
     emove X e (e\<lparr>e_workers := ws, e_running := r, e_wg := k\<rparr>)"
| shut: "X \<noteq> None \<Longrightarrow> emove X e (close_shut e)"
| alloc: "X \<noteq> None \<Longrightarrow> scopeFor sco e = (e', r) \<Longrightarrow> emove X e e'"
| verbs: "X \<noteq> None \<Longrightarrow>
     emove X e (e\<lparr>e_activating := a, e_blocked := b, e_failedAt := d, e_wg := k\<rparr>)"
| feeds: "X \<noteq> None \<Longrightarrow> emove X e (e\<lparr>e_feeds := h, e_nextFeed := k\<rparr>)"
| handle: "s < e_nextSid e \<Longrightarrow> sc_scope (sc_of e s) \<in> held X \<Longrightarrow>
     emove X e (upd_sc s (\<lambda>sc. sc\<lparr>sc_unsubscribe := h\<rparr>) e)"
| dropped: "sco \<in> held X \<Longrightarrow> emove X e (dropScope sco e)"

inductive_cases emoveE: "emove X e e'"

text \<open>The two remaining kinds: a delivery, and a change of the subscriber lists.\<close>

definition touches :: "engine \<Rightarrow> engine \<Rightarrow> bool" where
  "touches e e' \<longleftrightarrow>
     (\<exists>ws f k. e' = e\<lparr>e_workers := ws, e_subscribers := f, e_nextSub := k\<rparr>)"

definition scopes_ok :: "engine \<Rightarrow> bool" where
  "scopes_ok e \<longleftrightarrow>
     (\<forall>sco s. trackedScope e sco = Some s \<longrightarrow> s < e_nextSid e \<and> sc_scope (sc_of e s) = sco)
     \<and> (\<forall>s \<ge> e_nextSid e. sc_of e s = newScopeState (Scope []))"

lemma scopes_okD:
  assumes "scopes_ok e" and "trackedScope e sco = Some s"
  shows "s < e_nextSid e" and "sc_scope (sc_of e s) = sco"
  using assms by (auto simp: scopes_ok_def)

lemma scopes_ok_fresh:
  "scopes_ok e \<Longrightarrow> e_nextSid e \<le> s \<Longrightarrow> sc_of e s = newScopeState (Scope [])"
  unfolding scopes_ok_def by blast

lemma publish_commit_other:
  "publish_commit s pub e = (e', n) \<Longrightarrow> t \<noteq> s \<Longrightarrow> sc_of e' t = sc_of e t"
  by (auto simp: publish_commit_def dispatch_def workerFor_def Let_def
      split: verdict.splits if_splits option.splits)

lemma ingress_other: "ingress s e e' \<Longrightarrow> t \<noteq> s \<Longrightarrow> sc_of e' t = sc_of e t"
  by (induction rule: ingress.induct) (simp_all add: publish_commit_other)

lemma ingress_scopes_ok:
  assumes "ingress s e e'" and "s < e_nextSid e" and "scopes_ok e"
  shows "scopes_ok e'"
  using ingress_env [OF assms(1)] ingress_scope [OF assms(1)] ingress_other [OF assms(1)] assms(2,3)
  by (auto simp: scopes_ok_def env_of_eq trackedScope_def)

lemma dropScope_sc [simp]:
  "trackedScope e sco = Some s \<Longrightarrow> sc_of (dropScope sco e) t = (if t = s
     then (sc_of e s)\<lparr>sc_unsubscribe := None, sc_stop := True, sc_workersDropped := True,
            sc_workers := Map.empty\<rparr> else sc_of e t)"
  "trackedScope e sco = None \<Longrightarrow> dropScope sco e = e"
  by (auto simp: dropScope_def trackedScope_def Let_def stopReconcileWorker_def stopScopeWorkers_def
      release_feed_def fun_upd_idem split: option.splits)

lemma dropScope_env [simp]:
  "e_scopes (dropScope sco e) = (e_scopes e)(sco := None)"
  "e_nextSid (dropScope sco e) = e_nextSid e" "e_nextWid (dropScope sco e) = e_nextWid e"
  "e_closed (dropScope sco e) = e_closed e"
  "e_workersClosed (dropScope sco e) = e_workersClosed e"
  "e_subscribers (dropScope sco e) = e_subscribers e"
  "e_registry (dropScope sco e) = e_registry e" "e_unmarshal (dropScope sco e) = e_unmarshal e"
  "e_nextFeed (dropScope sco e) = e_nextFeed e"
  by (auto simp: dropScope_def Let_def stopScopeWorkers_def release_feed_def split: option.splits)

lemma dropScope_pending [simp]:
  "pending_change (e_workers (dropScope sco e) i) = pending_change (e_workers e i)"
  by (auto simp: dropScope_def Let_def stopScopeWorkers_def release_feed_def stop_worker_def
      pending_change_def split: option.splits)

lemma scopeFor_cases:
  assumes "scopeFor sco e = (e', r)"
  obtains "e' = e" | "trackedScope e sco = None" "\<not> e_closed e" "r = Some (e_nextSid e)"
    "e' = e\<lparr>e_scopes := (e_scopes e)(sco \<mapsto> e_nextSid e),
       e_states := (e_states e)(e_nextSid e := newScopeState sco), e_nextSid := e_nextSid e + 1\<rparr>"
  using assms by (auto simp: scopeFor_def trackedScope_def Let_def split: option.splits if_splits)

lemma newScopeState_simps [simp]:
  "sc_scope (newScopeState sco) = sco" "sc_entries (newScopeState sco) = Map.empty"
  "sc_workers (newScopeState sco) = Map.empty" "\<not> sc_workersDropped (newScopeState sco)"
  "\<not> sc_stop (newScopeState sco)" "sc_unsubscribe (newScopeState sco) = None"
  "sc_pending (newScopeState sco) = None" "sc_open (newScopeState sco) = {}"
  "sc_stale (newScopeState sco)" "\<not> sc_workerStarted (newScopeState sco)"
  "kf_deletes (sc_fences (newScopeState sco) nk) = 0"
  by (simp_all add: newScopeState_def zero_fence_def)

lemma close_shut_simps [simp]:
  "e_states (close_shut e) = e_states e" "e_workers (close_shut e) = e_workers e"
  "e_scopes (close_shut e) = e_scopes e" "e_nextSid (close_shut e) = e_nextSid e"
  "e_subscribers (close_shut e) = e_subscribers e" "e_nextWid (close_shut e) = e_nextWid e"
  "e_registry (close_shut e) = e_registry e" "e_unmarshal (close_shut e) = e_unmarshal e"
  "e_closed (close_shut e)" "e_workersClosed (close_shut e)"
  "e_nextFeed (close_shut e) = e_nextFeed e"
  "e_feeds (close_shut e) = e_feeds e - tracked_feeds e"
  by (simp_all add: close_shut_def closeWorkers_def Let_def tracked_feeds_def trackedScopes_def)

lemma emove_const:
  "emove X e e' \<Longrightarrow> e_registry e' = e_registry e \<and> e_unmarshal e' = e_unmarshal e
     \<and> e_subscribers e' = e_subscribers e \<and> e_nextSid e \<le> e_nextSid e'"
  by (induction rule: emove.induct)
    (auto dest!: ingress_env simp: env_of_eq elim: scopeFor_cases)

lemma emove_cache_ok [pres]:
  assumes "emove X e e'" and "cache_ok e"
  shows "cache_ok e'"
  using assms
proof (induction rule: emove.induct)
  case (ing s e e')
  then show ?case by (simp add: ingress_cache_ok)
next
  case (alloc sco e e' r)
  from alloc(2) show ?case
    by (rule scopeFor_cases) (use alloc(3) in \<open>auto elim!: cache_ok_cong [rotated 3] split: if_splits\<close>)
next
  case (dropped sco e)
  then show ?case
    by (cases "trackedScope e sco") (auto elim!: cache_ok_cong [rotated 3] split: if_splits)
qed (auto elim!: cache_ok_cong [rotated 3] simp: controls_def split: if_splits)

lemma emove_doors [pres]: "emove X e e' \<Longrightarrow> doors_ok e \<Longrightarrow> doors_ok e'"
proof (induction rule: emove.induct)
  case (ing s e e')
  then show ?case by (simp add: ingress_doors)
next
  case (alloc sco e e' r)
  from alloc(2) show ?case
    by (rule scopeFor_cases) (use alloc(3) in \<open>auto simp: doors_ok_def\<close>)
next
  case (dropped sco e)
  then show ?case by (cases "trackedScope e sco") (auto simp: doors_ok_def)
qed (auto simp: doors_ok_def controls_def)

lemma emove_scopes_ok [pres]: "emove X e e' \<Longrightarrow> scopes_ok e \<Longrightarrow> scopes_ok e'"
proof (induction rule: emove.induct)
  case (ing s e e')
  then show ?case by (simp add: ingress_scopes_ok)
next
  case (alloc sco e e' r)
  from alloc(2) show ?case
    by (rule scopeFor_cases)
      (use alloc(3) in \<open>auto simp: scopes_ok_def trackedScope_def less_Suc_eq split: if_splits\<close>)
next
  case (dropped sco e)
  show ?case
  proof (cases "trackedScope e sco")
    case (Some s)
    have low: "s < e_nextSid e" using dropped(2) Some by (rule scopes_okD)
    have tr: "trackedScope (dropScope sco e) sco' = Some t \<Longrightarrow> trackedScope e sco' = Some t" for sco' t
      by (simp add: trackedScope_def split: if_splits)
    show ?thesis
      unfolding scopes_ok_def
    proof (intro conjI allI impI)
      fix sco' t
      assume "trackedScope (dropScope sco e) sco' = Some t"
      from scopes_okD [OF dropped(2) tr [OF this]]
      show "t < e_nextSid (dropScope sco e)" "sc_scope (sc_of (dropScope sco e) t) = sco'"
        by (auto simp: Some)
    next
      fix t
      assume "e_nextSid (dropScope sco e) \<le> t"
      then show "sc_of (dropScope sco e) t = newScopeState (Scope [])"
        using scopes_ok_fresh [OF dropped(2), of t] low Some by auto
    qed
  qed (use dropped in simp)
qed (auto simp: scopes_ok_def trackedScope_def controls_def)

lemma emove_wf [pres]: "emove X e e' \<Longrightarrow> workers_wf e \<Longrightarrow> workers_wf e'"
proof (induction rule: emove.induct)
  case (ing s e e')
  then show ?case by (simp add: ingress_wf)
next
  case (alloc sco e e' r)
  from alloc(2) show ?case
    by (rule scopeFor_cases) (use alloc(3) in \<open>auto simp: workers_wf_def split: if_splits\<close>)
next
  case (dropped sco e)
  then show ?case
    by (cases "trackedScope e sco") (auto simp: workers_wf_def split: if_splits)
qed (auto simp: workers_wf_def controls_def split: if_splits)

text \<open>Delete counters never run backwards: what the re-read's fence rests on.\<close>

lemma emove_deletes:
  "emove X e e' \<Longrightarrow> s < e_nextSid e \<Longrightarrow> deletes_of e s nk \<le> deletes_of e' s nk"
proof (induction rule: emove.induct)
  case (ing s' e e')
  then show ?case by (simp add: ingress_deletes)
next
  case (alloc sco e e' r)
  from alloc(2) show ?case by (rule scopeFor_cases) (use alloc(3) in \<open>auto simp: deletes_of_def\<close>)
next
  case (dropped sco e)
  then show ?case by (cases "trackedScope e sco") (auto simp: deletes_of_def)
qed (auto simp: deletes_of_def controls_def)

lemma emove_slots:
  "emove X e e' \<Longrightarrow> slots_ok e lst muted \<Longrightarrow> workers_wf e \<Longrightarrow> doors_ok e \<Longrightarrow>
     slots_ok e' lst muted"
proof (induction rule: emove.induct)
  case (ing s e e')
  then show ?case by (simp add: ingress_slots)
next
  case (alloc sco e e' r)
  from alloc(2) show ?case
    by (rule scopeFor_cases)
      (use alloc(3) in \<open>auto elim!: slots_ok_frame split: if_splits\<close>)
next
  case (dropped sco e)
  then show ?case
    by (cases "trackedScope e sco") (auto elim!: slots_ok_frame split: if_splits)
qed (auto elim!: slots_ok_frame simp: controls_def split: if_splits)

abbreviation emoves :: "scope set option \<Rightarrow> engine \<Rightarrow> engine \<Rightarrow> bool" where
  "emoves X \<equiv> (emove X)\<^sup>*\<^sup>*"

lemma emoves_induct_pres:
  assumes "emoves X e e'" and "P e" and "\<And>x y. emove X x y \<Longrightarrow> P x \<Longrightarrow> P y"
  shows "P e'"
  using assms(1,2) by (induction rule: rtranclp_induct) (use assms(3) in blast)+

lemma controls_simps [simp]:
  "controls arm_scope sc" "controls (closeWindow arm) sc" "controls markStale_sc sc"
  "controls (clearStale arm) sc" "controls (finishFirstReconcile er) sc"
  "controls (\<lambda>sc. closeWindow arm (finishFirstReconcile er sc)) sc"
  "controls (\<lambda>sc. sc\<lparr>sc_workerStarted := True\<rparr>) sc"
  by (auto simp: controls_def arm_scope_def armReconcile_def queueReconcile_def closeWindow_def
      markStale_sc_def clearStale_def finishFirstReconcile_def Let_def split: option.splits)

lemma emove_ctl: "s < e_nextSid e \<Longrightarrow> controls f (sc_of e s) \<Longrightarrow> emove X e (upd_sc s f e)"
  using emove.ctl [of s e f X "e_wg e"] by simp

lemma emoves_ctl: "s < e_nextSid e \<Longrightarrow> controls f (sc_of e s) \<Longrightarrow> emoves X e (upd_sc s f e)"
  by (simp add: emove_ctl r_into_rtranclp)

lemma emoves_ensure:
  assumes "s < e_nextSid e"
  shows "emoves X e (fst (ensureReconcileWorker s e))"
proof -
  let ?f = "\<lambda>sc. sc\<lparr>sc_workerStarted := True\<rparr>"
  have "emove X e (upd_sc s ?f (e\<lparr>e_wg := e_wg e + 1\<rparr>))"
    using assms by (rule emove.ctl) simp
  then show ?thesis by (auto simp: ensureReconcileWorker_def)
qed

lemma emoves_onResync:
  assumes "scopes_ok e"
  shows "emoves X e (onResync sco e)"
proof (cases "trackedScope e sco")
  case None
  then show ?thesis by (simp add: onResync_def scopeForEvent_def)
next
  case (Some s)
  have s: "s < e_nextSid e" using assms Some by (rule scopes_okD)
  let ?e1 = "upd_sc s arm_scope e"
  obtain e2 b where en: "ensureReconcileWorker s ?e1 = (e2, b)" by fastforce
  have m2: "emoves X e e2"
    using rtranclp_trans [OF emoves_ctl [OF s, of arm_scope] emoves_ensure [of s ?e1]] s en by simp
  have s2: "s < e_nextSid e2"
    using s en by (auto simp: ensureReconcileWorker_def split: if_splits)
  have "emoves X e2 (upd_sc s (\<lambda>_. closeWindow a (fst (takeReconcile (sc_of e2 s)))) e2)" for a
    using s2 by (rule emoves_ctl) (auto simp: controls_def takeReconcile_def closeWindow_def split: option.splits)
  with m2 Some en show ?thesis
    by (auto simp: onResync_def scopeForEvent_def split: prod.splits option.splits bool.splits
        intro: rtranclp_trans)
qed

lemma emoves_onEvent:
  assumes "scopes_ok e"
  shows "emoves X e (fst (onEvent evt e))"
proof -
  have "emoves X e (markStale sco e)" for sco
    using scopes_okD(1) [OF assms]
    by (auto simp: markStale_def scopeForEvent_def split: option.splits intro!: emoves_ctl)
  moreover have "emoves X e (recordFeedDelete sco nk e)" for sco nk
  proof (cases "trackedScope e sco")
    case None
    then show ?thesis by (simp add: recordFeedDelete_def scopeForEvent_def)
  next
    case (Some s)
    from emove.ing [OF scopes_okD(1) [OF assms Some] ingress_recordFeedDelete [OF Some]]
    show ?thesis by blast
  qed
  ultimately show ?thesis
    using emoves_onResync [OF assms] by (auto simp: onEvent_def Let_def)
qed

text \<open>Most sections are an ingress of a tracked state, or a change of the wait group.\<close>

definition ingests :: "engine \<Rightarrow> engine \<Rightarrow> bool" where
  "ingests e e' \<longleftrightarrow> (\<exists>s < e_nextSid e. ingress s e e') \<or> (\<exists>k. e' = e\<lparr>e_wg := k\<rparr>)"

lemma ingests_same [simp]: "ingests e e"
proof -
  have "e = e\<lparr>e_wg := e_wg e\<rparr>" by simp
  then show ?thesis unfolding ingests_def by blast
qed

lemma ingests_wg: "ingests e (e\<lparr>e_wg := k\<rparr>)"
  by (auto simp: ingests_def)

lemma ingestsI: "s < e_nextSid e \<Longrightarrow> ingress s e e' \<Longrightarrow> ingests e e'"
  by (auto simp: ingests_def)

lemma ingests_PublishDelete:
  assumes "scopes_ok e"
  shows "ingests e (fst (PublishDelete sco nk e))"
proof (cases "\<not> e_closed e \<and> trackedScope e sco \<noteq> None")
  case True
  then obtain s where s: "trackedScope e sco = Some s" and o: "\<not> e_closed e" by auto
  obtain e1 r where i: "ingestDefault s nk True e = (e1, r)" by fastforce
  from ingress_ingestDefault [OF i] have "ingress s e (fst (PublishDelete sco nk e))"
    using s o i by (auto simp: PublishDelete_def writeScope_def split: sum.splits intro: ingress_record)
  with scopes_okD(1) [OF assms s] show ?thesis by (rule ingestsI)
next
  case False
  then show ?thesis by (auto simp: PublishDelete_def writeScope_def)
qed

lemma emoves_ingests: "ingests e e' \<Longrightarrow> emoves X e e'"
  using emove.slots [where e = e and ws = "e_workers e" and r = "e_running e" and X = X]
  by (auto simp: ingests_def intro: emove.ing)

lemma emove_scopeFor: "X \<noteq> None \<Longrightarrow> emove X e (fst (scopeFor sco e))"
  by (rule emove.alloc) (assumption, rule surjective_pairing)

lemma bring_up_begin_fst: "fst (bring_up_begin sco e) = fst (scopeFor sco e)"
  by (auto simp: bring_up_begin_def split: prod.splits option.splits)

lemma emove_open_feed: "X \<noteq> None \<Longrightarrow> emove X e (fst (open_feed e))"
  by (simp add: open_feed_def Let_def emove.feeds)

lemma emove_release: "X \<noteq> None \<Longrightarrow> emove X e (release_feed h e)"
  using emove.feeds [where X = X and e = e and k = "e_nextFeed e"]
    emove.feeds [where X = X and e = e and h = "e_feeds e" and k = "e_nextFeed e"]
  by (cases h) (simp_all add: release_feed_def)

lemma emoves_bring_up_conclude:
  assumes "s < e_nextSid e" and "sc_scope (sc_of e s) = sco"
  shows "emoves (Some {sco}) e (fst (bring_up_conclude sco s ans e))"
proof (cases ans)
  case (Inl er)
  then show ?thesis by (simp add: bring_up_conclude_def r_into_rtranclp emove.dropped)
next
  case (Inr h)
  let ?X = "Some {sco}"
  have "emove ?X e (release_feed (Some h) e)" by (rule emove_release) simp
  moreover have "emove ?X x (dropScope sco x)" for x by (rule emove.dropped) simp
  moreover have "emove ?X e (upd_sc s (\<lambda>sc. sc\<lparr>sc_unsubscribe := Some h\<rparr>) e)"
    using assms by (intro emove.handle) simp_all
  ultimately show ?thesis using Inr
    by (auto simp: bring_up_conclude_def intro: converse_rtranclp_into_rtranclp)
qed

subsection \<open>The invariant of the engine alone\<close>

definition base_ok :: "engine \<Rightarrow> bool" where
  "base_ok e \<longleftrightarrow> cache_ok e \<and> decoder_ok e \<and> workers_wf e \<and> doors_ok e \<and> scopes_ok e"

lemma base_okD:
  assumes "base_ok e"
  shows "cache_ok e" "decoder_ok e" "workers_wf e" "doors_ok e" "scopes_ok e"
  using assms by (auto simp: base_ok_def)

lemma emove_base [pres]: "emove X e e' \<Longrightarrow> base_ok e \<Longrightarrow> base_ok e'"
  using emove_const [of X e e']
  by (auto simp: base_ok_def decoder_ok_def
      intro: emove_cache_ok emove_wf emove_doors emove_scopes_ok)

lemma emoves_base: "emoves X e e' \<Longrightarrow> base_ok e \<Longrightarrow> base_ok e'"
  by (rule emoves_induct_pres) (auto intro: emove_base)

lemma emoves_const:
  "emoves X e e' \<Longrightarrow> e_registry e' = e_registry e \<and> e_unmarshal e' = e_unmarshal e
     \<and> e_subscribers e' = e_subscribers e \<and> e_nextSid e \<le> e_nextSid e'"
  by (induction rule: rtranclp_induct) (auto dest: emove_const)

lemma emoves_slots:
  assumes "emoves X e e'" and "base_ok e" and "slots_ok e lst muted"
  shows "slots_ok e' lst muted"
proof -
  have "base_ok e' \<and> slots_ok e' lst muted"
    using assms by (rule_tac P = "\<lambda>e. base_ok e \<and> slots_ok e lst muted" in emoves_induct_pres)
      (auto intro: emove_base emove_slots simp: base_okD)
  then show ?thesis by simp
qed

lemma emoves_deletes:
  assumes "emoves X e e'" and "s < e_nextSid e"
  shows "deletes_of e s nk \<le> deletes_of e' s nk"
proof -
  have "s < e_nextSid e' \<and> deletes_of e s nk \<le> deletes_of e' s nk"
    using assms
  proof (induction rule: rtranclp_induct)
    case (step y z)
    then show ?case using emove_deletes [of X y z s nk] emove_const [of X y z] by auto
  qed simp
  then show ?thesis by simp
qed

lemma touches_base: "touches e e' \<Longrightarrow> base_ok e \<Longrightarrow> base_ok e'"
proof -
  assume "touches e e'" and b: "base_ok e"
  then obtain ws f k where e': "e' = e\<lparr>e_workers := ws, e_subscribers := f, e_nextSub := k\<rparr>"
    by (auto simp: touches_def)
  have "cache_ok e'"
    by (rule cache_ok_cong [OF _ _ _ base_okD(1) [OF b]]) (simp_all add: e')
  with b show "base_ok e'"
    by (simp add: base_ok_def e' decoder_ok_def workers_wf_def doors_ok_def scopes_ok_def
        trackedScope_def)
qed

end
