(* ===== verification/Engine_Steps.thy ===== *)
theory Engine_Steps
  imports Engine_Moves "HOL-Library.Multiset"
begin

text \<open>
  The engine under concurrency. A world is the engine plus what its goroutines are in the middle of:
  re-reads inside their store call, ingresses between their two critical sections, bring-ups inside
  Subscribe, and where each scope's one reconcile goroutine stands. A step is one critical section
  of one goroutine, so a reachable world is any interleaving of them, with these exceptions, where a step
  takes several sections the code runs in a row: a publication's checks of the closed flag and of the scope's
  stop, made outside the scope's mutex, with the commit under it; \<open>dropScope\<close>, which removes the scope from
  the map, unsubscribes and stops its workers; and Close, up to its wait for the workers. The store's answers,
  the order of everything and the moment of every call are arbitrary.

  Two ghost fields record what the code keeps nowhere: the last change each delivery worker handed
  to its subscribers, and the keys whose subscriber list has been emptied by an unsubscription.
\<close>

subsection \<open>Worlds\<close>

datatype task =
    Rereading scope sid nskey feed_fence feed_fence bool bool
  | Ingesting sid nskey "err + publication" feed_fence bool
  | BringingUp scope sid nat

text \<open>The program counter of a scope's reconcile goroutine.\<close>

datatype rec_pc =
    Idle
  | Taken arming
  | Listing arming
  | Rows arming "row list" "nskey set"
  | Absences arming "nskey list"
  | Finishing arming

record world =
  w_eng :: engine
  w_tasks :: "task multiset"
  w_rec :: "sid \<Rightarrow> rec_pc"
  w_last :: "wid \<Rightarrow> change option"
  w_muted :: "nskey set"

definition init_world :: "engine \<Rightarrow> world" where
  "init_world e = \<lparr>w_eng = e, w_tasks = {#}, w_rec = (\<lambda>_. Idle), w_last = (\<lambda>_. None), w_muted = {}\<rparr>"

definition set_eng :: "engine \<Rightarrow> world \<Rightarrow> world" where
  "set_eng e w = w\<lparr>w_eng := e\<rparr>"

definition set_rec :: "sid \<Rightarrow> rec_pc \<Rightarrow> world \<Rightarrow> world" where
  "set_rec s pc w = w\<lparr>w_rec := (w_rec w)(s := pc)\<rparr>"

definition put_task :: "task \<Rightarrow> world \<Rightarrow> world" where
  "put_task t w = w\<lparr>w_tasks := add_mset t (w_tasks w)\<rparr>"

definition end_task :: "task \<Rightarrow> world \<Rightarrow> world" where
  "end_task t w = w\<lparr>w_tasks := w_tasks w - {#t#}\<rparr>"

lemma world_simps [simp]:
  "w_eng (set_eng e w) = e" "w_tasks (set_eng e w) = w_tasks w" "w_rec (set_eng e w) = w_rec w"
  "w_last (set_eng e w) = w_last w" "w_muted (set_eng e w) = w_muted w"
  "w_eng (set_rec s pc w) = w_eng w" "w_tasks (set_rec s pc w) = w_tasks w"
  "w_rec (set_rec s pc w) = (w_rec w)(s := pc)"
  "w_last (set_rec s pc w) = w_last w" "w_muted (set_rec s pc w) = w_muted w"
  "w_eng (put_task t w) = w_eng w" "w_tasks (put_task t w) = add_mset t (w_tasks w)"
  "w_rec (put_task t w) = w_rec w" "w_last (put_task t w) = w_last w"
  "w_muted (put_task t w) = w_muted w"
  "w_eng (end_task t w) = w_eng w" "w_tasks (end_task t w) = w_tasks w - {#t#}"
  "w_rec (end_task t w) = w_rec w" "w_last (end_task t w) = w_last w"
  "w_muted (end_task t w) = w_muted w"
  by (simp_all add: set_eng_def set_rec_def put_task_def end_task_def)

subsection \<open>Steps\<close>

text \<open>
  One constructor per kind of step, in four families.
\<close>

text \<open>Feed events, re-reads, local writes and deletes; the bookkeeping of the slots that admit them.\<close>

inductive ingest_step :: "world \<Rightarrow> world \<Rightarrow> bool" where
  event:
  "ingest_step w (set_eng (fst (onEvent evt (w_eng w))) w)"
| reread:
  "refresh_begin sco nk origin (w_eng w) = Some (s, f, origin') \<Longrightarrow>
     ingest_step w (put_task (Rereading sco s nk f origin' deleted retried) w)"
| answer:
  "Rereading sco s nk f origin deleted retried \<in># w_tasks w \<Longrightarrow> \<forall>se. ans \<noteq> Got se \<Longrightarrow>
     ingest_step w (set_eng (fst (refresh_conclude sco s nk f origin deleted retried ans (w_eng w)))
       (end_task (Rereading sco s nk f origin deleted retried) w))"
| answer_row_dropped:
  "Rereading sco s nk f origin deleted retried \<in># w_tasks w \<Longrightarrow>
     scopeForEvent sco (w_eng w) \<noteq> Some s \<Longrightarrow>
     ingest_step w (end_task (Rereading sco s nk f origin deleted retried) w)"
| answer_row:
  "Rereading sco s nk f origin deleted retried \<in># w_tasks w \<Longrightarrow>
     scopeForEvent sco (w_eng w) = Some s \<Longrightarrow> e = ingest_begin s (row_nk se) (w_eng w) \<Longrightarrow>
     ingest_step w (put_task (Ingesting s (row_nk se)
         (prepare dispatchContext (sc_scope (sc_of e s)) se False e) f False)
       (set_eng e (end_task (Rereading sco s nk f origin deleted retried) w)))"
| local_write:
  "\<not> e_closed (w_eng w) \<Longrightarrow> writeScope sco (w_eng w) = Inr s \<Longrightarrow>
     e = ingest_begin s (row_nk se) (w_eng w) \<Longrightarrow>
     ingest_step w (put_task (Ingesting s (row_nk se)
         (prepare c (sc_scope (sc_of e s)) se True e) unarmed True) (set_eng e w))"
| commit:
  "Ingesting s nk prep f pg \<in># w_tasks w \<Longrightarrow>
     ingest_step w (set_eng (fst (ingest_commit s nk prep f pg (w_eng w)))
       (end_task (Ingesting s nk prep f pg) w))"
| remove:
  "ingest_step w (set_eng (fst (PublishDelete sco nk (w_eng w))) w)"
| begin_refresh:
  "s < e_nextSid (w_eng w) \<Longrightarrow>
     ingest_step w (set_eng (upd_sc s (\<lambda>sc. fst (beginRefresh nk deleted sc)) (w_eng w)) w)"
| end_refresh:
  "s < e_nextSid (w_eng w) \<Longrightarrow>
     ingest_step w (set_eng (upd_sc s (\<lambda>sc. fst (endRefresh nk sc)) (w_eng w)) w)"
| end_retry:
  "s < e_nextSid (w_eng w) \<Longrightarrow>
     ingest_step w (set_eng (upd_sc s (endRetry rk) (w_eng w)) w)"
| work:
  "ingest_step w (set_eng (fst (beginWork (w_eng w))) w)"
| work_done:
  "ingest_step w (set_eng (endWork (w_eng w)) w)"

text \<open>The reconcile goroutine of a scope. Exits that follow one another with nothing read in between
  (finishing the first reconcile, closing the window) are one step.\<close>

inductive rec_step :: "world \<Rightarrow> world \<Rightarrow> bool" where
  rec_take:
  "w_rec w s = Idle \<Longrightarrow> sc_workerStarted (sc_of (w_eng w) s) \<Longrightarrow> sc_signal (sc_of (w_eng w) s) \<Longrightarrow>
     takeReconcile ((sc_of (w_eng w) s)\<lparr>sc_signal := False\<rparr>) = (sc, r) \<Longrightarrow>
     rec_step w (set_rec s (case r of None \<Rightarrow> Idle | Some arm \<Rightarrow> Taken arm)
       (set_eng (upd_sc s (\<lambda>_. sc) (w_eng w)) w))"
| rec_abandon:
  "w_rec w s = Taken arm \<Longrightarrow>
     superseded (sc_of (w_eng w) s) arm \<or> \<not> tracks (w_eng w) s \<Longrightarrow>
     rec_step w (set_rec s Idle (set_eng (upd_sc s (closeWindow arm) (w_eng w)) w))"
| rec_list:
  "w_rec w s = Taken arm \<Longrightarrow> \<not> superseded (sc_of (w_eng w) s) arm \<Longrightarrow> tracks (w_eng w) s \<Longrightarrow>
     rec_step w (set_rec s (Listing arm) w)"
| rec_failed:
  "w_rec w s = Listing arm \<Longrightarrow>
     rec_step w (set_rec s Idle (set_eng (upd_sc s
       (\<lambda>sc. closeWindow arm (finishFirstReconcile (Some er) sc)) (w_eng w)) w))"
| rec_listed:
  "w_rec w s = Listing arm \<Longrightarrow> \<not> superseded (sc_of (w_eng w) s) arm \<Longrightarrow>
     rec_step w (set_rec s (Rows arm rows (row_nk ` set rows)) w)"
| rec_stale_list:
  "w_rec w s = Listing arm \<Longrightarrow> superseded (sc_of (w_eng w) s) arm \<Longrightarrow>
     rec_step w (set_rec s Idle (set_eng (upd_sc s (closeWindow arm) (w_eng w)) w))"
| rec_row:
  "w_rec w s = Rows arm (se # rows) seen \<Longrightarrow> applySnapshotRow s arm se (w_eng w) = (e, False) \<Longrightarrow>
     rec_step w (set_rec s (Rows arm rows seen) (set_eng e w))"
| rec_row_superseded:
  "w_rec w s = Rows arm (se # rows) seen \<Longrightarrow> applySnapshotRow s arm se (w_eng w) = (e, True) \<Longrightarrow>
     rec_step w (set_rec s Idle (set_eng (upd_sc s (closeWindow arm) e) w))"
| rec_rows_done:
  "w_rec w s = Rows arm [] seen \<Longrightarrow>
     rec_step w (set_rec s (Absences arm (filter (\<lambda>nk. nk \<notin> seen) (registeredKeys (w_eng w)))) w)"
| rec_absent:
  "w_rec w s = Absences arm (nk # nks) \<Longrightarrow> applyAbsentKey s arm nk (w_eng w) = (e, False) \<Longrightarrow>
     rec_step w (set_rec s (Absences arm nks) (set_eng e w))"
| rec_absent_superseded:
  "w_rec w s = Absences arm (nk # nks) \<Longrightarrow> applyAbsentKey s arm nk (w_eng w) = (e, True) \<Longrightarrow>
     rec_step w (set_rec s Idle (set_eng (upd_sc s (closeWindow arm) e) w))"
| rec_clear:
  "w_rec w s = Absences arm [] \<Longrightarrow>
     rec_step w (set_rec s (Finishing arm) (set_eng (upd_sc s (clearStale arm) (w_eng w)) w))"
| rec_finish:
  "w_rec w s = Finishing arm \<Longrightarrow>
     rec_step w (set_rec s Idle (set_eng (upd_sc s
       (\<lambda>sc. closeWindow arm (finishFirstReconcile None sc)) (w_eng w)) w))"

text \<open>Delivery workers and subscriptions.\<close>

inductive delivery_step :: "world \<Rightarrow> world \<Rightarrow> bool" where
  worker_wakes:
  "w_signal (e_workers (w_eng w) i) \<Longrightarrow> delivery_step w (set_eng (worker_wake i wk (w_eng w)) w)"
| worker_delivers:
  "sc_workers (sc_of (w_eng w) s) nk = Some i \<Longrightarrow> \<not> worker_stopped i (w_eng w) \<Longrightarrow>
     e_running (w_eng w) i \<noteq> None \<Longrightarrow>
     take_pending (e_workers (w_eng w) i) = (x, r) \<Longrightarrow>
     delivery_step w ((set_eng ((w_eng w)\<lparr>e_workers := (e_workers (w_eng w))(i := x)\<rparr>) w)
       \<lparr>w_last := (case r of None \<Rightarrow> w_last w | Some ch \<Rightarrow> (w_last w)(i \<mapsto> ch))\<rparr>)"
| worker_rests:
  "delivery_step w (set_eng (worker_rest i (w_eng w)) w)"
| worker_exits:
  "worker_stopped i (w_eng w) \<Longrightarrow> delivery_step w (set_eng (worker_exit i (w_eng w)) w)"
| subscribe:
  "delivery_step w (set_eng (fst (eng_OnChange nk hasFn (w_eng w))) w)"
| unsubscribe:
  "e = unsubscribe_fn nk i (w_eng w) \<Longrightarrow>
     delivery_step w ((set_eng e w)
       \<lparr>w_muted := (if e_subscribers e nk = [] then insert nk (w_muted w) else w_muted w)\<rparr>)"

text \<open>Bringing scopes up, dropping them, closing the engine.\<close>

inductive scope_step :: "world \<Rightarrow> world \<Rightarrow> bool" where
  up_begin:
  "\<forall>t h. BringingUp sco t h \<notin># w_tasks w \<Longrightarrow>
     bring_up_begin sco (w_eng w) = (e1, Subscribing s) \<Longrightarrow> open_feed e1 = (e2, h) \<Longrightarrow>
     scope_step w (put_task (BringingUp sco s h) (set_eng e2 w))"
| up_end:
  "BringingUp sco s h \<in># w_tasks w \<Longrightarrow>
     scope_step w (set_eng (fst (bring_up_conclude sco s (Inr h) (w_eng w)))
       (end_task (BringingUp sco s h) w))"
| up_failed:
  "BringingUp sco s h \<in># w_tasks w \<Longrightarrow>
     scope_step w (set_eng (fst (bring_up_conclude sco s (Inl er) (release_feed (Some h) (w_eng w))))
       (end_task (BringingUp sco s h) w))"
| drop:
  "\<forall>s h. BringingUp sco s h \<notin># w_tasks w \<Longrightarrow> scope_step w (set_eng (dropScope sco (w_eng w)) w)"
| close:
  "scope_step w (set_eng (close_shut (w_eng w)) w)"
| verbs:
  "scope_step w (set_eng ((w_eng w)\<lparr>e_activating := a, e_blocked := b, e_failedAt := d, e_wg := k\<rparr>) w)"

definition wstep :: "world \<Rightarrow> world \<Rightarrow> bool" where
  "wstep w w' \<longleftrightarrow>
     ingest_step w w' \<or> rec_step w w' \<or> delivery_step w w' \<or> scope_step w w'"

text \<open>
  One guard comes from outside the engine's own locks: only the holder of a scope's exclusion brings
  it up or drops it (Start's lock for the single-tenant scope, the activation slot for a tenant's),
  so no drop and no second bring-up runs while a Subscribe of that scope is in flight.
\<close>

inductive reachable :: "engine \<Rightarrow> world \<Rightarrow> bool" for e0 where
  start: "reachable e0 (init_world e0)"
| more: "reachable e0 w \<Longrightarrow> wstep w w' \<Longrightarrow> reachable e0 w'"

subsection \<open>The invariant of a world\<close>

text \<open>
  \<open>tasks_ok\<close> is what every goroutine in flight may rely on; \<open>rec_ok\<close> ties a scope's mailbox,
  windows, generation and stale flag to the program counter of its reconcile goroutine; \<open>feeds_ok\<close>
  says who holds each open changefeed.
\<close>

definition task_ok :: "engine \<Rightarrow> task \<Rightarrow> bool" where
  "task_ok e t \<longleftrightarrow>
     (case t of
        Rereading sco s nk f origin d r \<Rightarrow> s < e_nextSid e \<and> sc_scope (sc_of e s) = sco
      | Ingesting s nk prep f pg \<Rightarrow> s < e_nextSid e \<and> prep_ok e s nk prep
      | BringingUp sco s h \<Rightarrow> trackedScope e sco = Some s \<and> sc_unsubscribe (sc_of e s) = None)"

definition tasks_ok :: "world \<Rightarrow> bool" where
  "tasks_ok w \<longleftrightarrow> (\<forall>t \<in># w_tasks w. task_ok (w_eng w) t)
     \<and> (\<forall>sco s h s' h'. BringingUp sco s h \<in># w_tasks w \<longrightarrow>
          BringingUp sco s' h' \<notin># w_tasks w - {#BringingUp sco s h#})"

fun pc_arm :: "rec_pc \<Rightarrow> arming option" where
  "pc_arm Idle = None"
| "pc_arm (Taken a) = Some a"
| "pc_arm (Listing a) = Some a"
| "pc_arm (Rows a _ _) = Some a"
| "pc_arm (Absences a _) = Some a"
| "pc_arm (Finishing a) = Some a"

fun finishing :: "rec_pc \<Rightarrow> bool" where
  "finishing (Finishing a) = True"
| "finishing _ = False"

definition rec_ok :: "scope_state \<Rightarrow> rec_pc \<Rightarrow> bool" where
  "rec_ok sc pc \<longleftrightarrow>
     (\<forall>a. sc_pending sc = Some a \<longrightarrow> arm_reconcile a = sc_reconcileGen sc \<and> sc_stale sc)
     \<and> (\<forall>a. pc_arm pc = Some a \<longrightarrow>
          arm_reconcile a \<le> sc_reconcileGen sc
          \<and> (sc_pending sc \<noteq> None \<longrightarrow> arm_reconcile a < sc_reconcileGen sc)
          \<and> (arm_reconcile a = sc_reconcileGen sc \<and> \<not> finishing pc \<longrightarrow> sc_stale sc))
     \<and> sc_open sc \<subseteq> arm_reconcile ` (set_option (sc_pending sc) \<union> set_option (pc_arm pc))"

definition recs_ok :: "world \<Rightarrow> bool" where
  "recs_ok w \<longleftrightarrow> (\<forall>s. rec_ok (sc_of (w_eng w) s) (w_rec w s)
     \<and> (w_rec w s \<noteq> Idle \<longrightarrow> s < e_nextSid (w_eng w)))"

definition pending_feeds :: "world \<Rightarrow> nat set" where
  "pending_feeds w = {h. \<exists>sco s. BringingUp sco s h \<in># w_tasks w}"

definition feeds_ok :: "world \<Rightarrow> bool" where
  "feeds_ok w \<longleftrightarrow> e_feeds (w_eng w) \<subseteq> tracked_feeds (w_eng w) \<union> pending_feeds w
     \<and> (e_closed (w_eng w) \<longrightarrow> e_feeds (w_eng w) \<subseteq> pending_feeds w)"

subsection \<open>Every step is moves or a touch\<close>

definition moves_only :: "scope set option \<Rightarrow> world \<Rightarrow> world \<Rightarrow> bool" where
  "moves_only X w w' \<longleftrightarrow>
     emoves X (w_eng w) (w_eng w') \<and> w_last w' = w_last w \<and> w_muted w' = w_muted w"

definition world_ok :: "world \<Rightarrow> bool" where
  "world_ok w \<longleftrightarrow> base_ok (w_eng w) \<and> tasks_ok w \<and> recs_ok w"

lemma world_ok_task:
  "world_ok w \<Longrightarrow> t \<in># w_tasks w \<Longrightarrow> task_ok (w_eng w) t"
  by (simp add: world_ok_def tasks_ok_def)

lemma world_ok_rec:
  assumes "world_ok w" and "w_rec w s \<noteq> Idle"
  shows "s < e_nextSid (w_eng w)"
  using assms by (simp add: world_ok_def recs_ok_def)

lemma world_ok_base: "world_ok w \<Longrightarrow> base_ok (w_eng w)"
  by (simp add: world_ok_def)

lemmas world_okD = base_okD [OF world_ok_base]

lemma moves_only_ingress:
  "world_ok w \<Longrightarrow> s < e_nextSid (w_eng w) \<Longrightarrow> ingress s (w_eng w) (w_eng w') \<Longrightarrow>
     w_last w' = w_last w \<Longrightarrow> w_muted w' = w_muted w \<Longrightarrow> moves_only X w w'"
  by (auto simp: moves_only_def intro: emove.ing)

lemma moves_only_ctl:
  "s < e_nextSid (w_eng w) \<Longrightarrow> controls f (sc_of (w_eng w) s) \<Longrightarrow>
     moves_only X w (set_rec t pc (set_eng (upd_sc s f (w_eng w)) w))"
  by (simp add: moves_only_def emoves_ctl)

lemma controls_take:
  "takeReconcile (sc\<lparr>sc_signal := False\<rparr>) = (sc', r) \<Longrightarrow> controls (\<lambda>_. sc') sc"
  by (auto simp: takeReconcile_def controls_def split: option.splits)

lemma emoves_slotted:
  "\<forall>i. pending_change (ws i) = pending_change (e_workers e i) \<Longrightarrow>
     emoves X e (e\<lparr>e_workers := ws, e_running := r, e_wg := k\<rparr>)"
  by (rule r_into_rtranclp) (rule emove.slots)

lemma emoves_wg: "emoves X e (e\<lparr>e_wg := k\<rparr>)"
  using emoves_slotted [where e = e and ws = "e_workers e" and r = "e_running e" and k = k] by simp

lemma emoves_wake: "emoves X e (worker_wake i wk e)"
  using emoves_slotted [where e = e and ws = "modify (e_workers e) i (\<lambda>x. x\<lparr>w_signal := False\<rparr>)"
      and k = "e_wg e" and r = "(e_running e)(i \<mapsto> wk)"]
  by (simp add: worker_wake_def modify_apply pending_change_def)

lemma emoves_rest: "emoves X e (worker_rest i e)"
  using emoves_slotted [where e = e and ws = "e_workers e" and k = "e_wg e"
      and r = "(e_running e)(i := None)"]
  by (simp add: worker_rest_def)

lemma emoves_exit: "emoves X e (worker_exit i e)"
  using emoves_slotted [where e = e and ws = "e_workers e" and k = "e_wg e - 1"
      and r = "(e_running e)(i := None)"]
  by (simp add: worker_exit_def)

lemma ingress_begin: "ingress s e (ingest_begin s nk e)"
  unfolding ingest_begin_def by (rule ingress.adjust) simp

lemma writeScope_sid: "scopes_ok e \<Longrightarrow> writeScope sco e = Inr s \<Longrightarrow> s < e_nextSid e"
  by (auto simp: writeScope_def dest: scopes_okD split: option.splits if_splits)

lemma scopeForEvent_sid: "scopes_ok e \<Longrightarrow> scopeForEvent sco e = Some s \<Longrightarrow> s < e_nextSid e"
  by (auto simp: scopeForEvent_def dest: scopes_okD)

lemma started_sid: "scopes_ok e \<Longrightarrow> sc_workerStarted (sc_of e s) \<Longrightarrow> s < e_nextSid e"
  by (rule ccontr) (simp add: scopes_ok_fresh)

lemma bring_up_begin_sid:
  assumes "scopes_ok e" and "bring_up_begin sco e = (e1, Subscribing s)"
  shows "trackedScope e1 sco = Some s" and "sc_unsubscribe (sc_of e1 s) = None"
    and "scopes_ok e1" and "X \<noteq> None \<Longrightarrow> emove X e e1"
proof -
  have "e1 = fst (scopeFor sco e)"
    using bring_up_begin_fst [of sco e] assms(2) by simp
  then show m: "X \<noteq> None \<Longrightarrow> emove X e e1" for X by (simp add: emove_scopeFor)
  show "scopes_ok e1" using emove_scopes_ok [OF m [of "Some {}"] assms(1)] by simp
  show "trackedScope e1 sco = Some s" "sc_unsubscribe (sc_of e1 s) = None"
    using assms(2)
    by (auto simp: bring_up_begin_def scopeFor_def trackedScope_def Let_def
        split: option.splits if_splits prod.splits)
qed

lemma emoves_ingress_close:
  assumes "s < e_nextSid e" and i: "ingress s e e'"
  shows "emoves X e (upd_sc s (closeWindow arm) e')"
proof -
  have "s < e_nextSid e'" using assms(1) ingress_env [OF i] unfolding env_of_eq by simp
  then have "emove X e' (upd_sc s (closeWindow arm) e')" by (rule emove_ctl) simp
  with emove.ing [OF assms, of X] show ?thesis by (rule converse_rtranclp_into_rtranclp [OF _ r_into_rtranclp])
qed

lemma ingest_step_ingests:
  assumes "ingest_step w w'" and ok: "world_ok w"
  shows "(\<exists>evt. w_eng w' = fst (onEvent evt (w_eng w))) \<or> ingests (w_eng w) (w_eng w')"
proof -
  note sc = base_okD(5) [OF world_ok_base [OF ok]]
  note tk = world_ok_task [OF ok]
  from assms(1) show ?thesis
  proof cases
    case (event evt)
    then show ?thesis by auto
  next
    case (answer sco s nk f origin deleted retried ans)
    obtain e b where c: "refresh_conclude sco s nk f origin deleted retried ans (w_eng w) = (e, b)"
      by fastforce
    from ingress_refresh_conclude [OF c answer(3)] tk [OF answer(2)] answer(1) c
    show ?thesis by (intro disjI2 ingestsI) (auto simp: task_ok_def)
  next
    case (answer_row sco s nk f origin deleted retried e se)
    with scopeForEvent_sid [OF sc answer_row(3)] show ?thesis
      by (intro disjI2 ingestsI) (auto simp: ingress_begin)
  next
    case (local_write sco s e se c)
    with writeScope_sid [OF sc local_write(3)] show ?thesis
      by (intro disjI2 ingestsI) (auto simp: ingress_begin)
  next
    case (commit s nk prep f pg)
    obtain e b where c: "ingest_commit s nk prep f pg (w_eng w) = (e, b)" by fastforce
    from tk [OF commit(2)] have t: "s < e_nextSid (w_eng w)" "prep_ok (w_eng w) s nk prep"
      by (simp_all add: task_ok_def)
    from ingress_ingest_commit [OF c t(2)] t(1) commit(1) c
    show ?thesis by (intro disjI2 ingestsI) auto
  next
    case (remove sco nk)
    then show ?thesis by (simp add: ingests_PublishDelete [OF sc])
  next
    case (begin_refresh s nk deleted)
    then show ?thesis by (auto intro!: ingestsI ingress.adjust)
  next
    case (end_refresh s nk)
    then show ?thesis by (auto intro!: ingestsI ingress.adjust)
  next
    case (end_retry s rk)
    then show ?thesis by (auto intro!: ingestsI ingress.adjust)
  next
    case work
    then show ?thesis by (auto simp: beginWork_def ingests_wg)
  next
    case work_done
    then show ?thesis by (auto simp: endWork_def ingests_wg)
  qed simp_all
qed

lemma ingest_step_ghosts: "ingest_step w w' \<Longrightarrow> w_last w' = w_last w \<and> w_muted w' = w_muted w"
  by (induction rule: ingest_step.induct) simp_all

lemma ingest_step_moves:
  assumes "ingest_step w w'" and ok: "world_ok w"
  shows "moves_only X w w'"
  using ingest_step_ingests [OF assms] ingest_step_ghosts [OF assms(1)]
    emoves_onEvent [OF world_okD(5) [OF ok]] emoves_ingests
  by (auto simp: moves_only_def)

lemma rec_step_moves:
  assumes "rec_step w w'" and ok: "world_ok w"
  shows "moves_only X w w'"
proof -
  note sc = base_okD(5) [OF world_ok_base [OF ok]]
  note dec = base_okD(2) [OF world_ok_base [OF ok]]
  note st = world_ok_rec [OF ok]
  from assms(1) show ?thesis
  proof cases
    case (rec_take s a r)
    then show ?thesis
      using moves_only_ctl [OF started_sid [OF sc rec_take(3)] controls_take [OF rec_take(5)]] by simp
  next
    case (rec_abandon s arm)
    then show ?thesis using moves_only_ctl [OF st] by simp
  next
    case (rec_failed s arm er)
    then show ?thesis using moves_only_ctl [OF st] by simp
  next
    case (rec_stale_list s arm)
    then show ?thesis using moves_only_ctl [OF st] by simp
  next
    case (rec_row s arm se rows seen e)
    from ingress_applySnapshotRow [OF rec_row(3) dec] rec_row st [of s]
    show ?thesis by (intro moves_only_ingress [OF ok]) auto
  next
    case (rec_row_superseded s arm se rows seen e)
    from emoves_ingress_close [OF st ingress_applySnapshotRow [OF rec_row_superseded(3) dec]]
      rec_row_superseded(1,2) show ?thesis by (simp add: moves_only_def)
  next
    case (rec_absent s arm nk nks e)
    from ingress_applyAbsentKey [OF rec_absent(3)] rec_absent st [of s]
    show ?thesis by (intro moves_only_ingress [OF ok]) auto
  next
    case (rec_absent_superseded s arm nk nks e)
    from emoves_ingress_close [OF st ingress_applyAbsentKey [OF rec_absent_superseded(3)]]
      rec_absent_superseded(1,2) show ?thesis by (simp add: moves_only_def)
  next
    case (rec_clear s arm)
    then show ?thesis using moves_only_ctl [OF st] by simp
  next
    case (rec_finish s arm)
    then show ?thesis using moves_only_ctl [OF st] by simp
  qed (simp_all add: moves_only_def)
qed

lemma touchesI:
  "e' = e\<lparr>e_workers := ws, e_subscribers := f, e_nextSub := k\<rparr> \<Longrightarrow> touches e e'"
  by (auto simp: touches_def)

lemma delivery_step_moves:
  assumes "delivery_step w w'"
  shows "moves_only X w w' \<or> touches (w_eng w) (w_eng w')"
  using assms
proof cases
  case (worker_wakes i wk)
  then show ?thesis by (simp add: moves_only_def emoves_wake)
next
  case (worker_delivers s nk i x r)
  then have "touches (w_eng w) (w_eng w')"
    by (intro touchesI [where ws = "(e_workers (w_eng w))(i := x)" and k = "e_nextSub (w_eng w)" and f = "e_subscribers (w_eng w)"]) simp
  then show ?thesis ..
next
  case (worker_rests i)
  then show ?thesis by (simp add: moves_only_def emoves_rest)
next
  case (worker_exits i)
  then show ?thesis by (simp add: moves_only_def emoves_exit)
next
  case (subscribe nk hasFn)
  then have "touches (w_eng w) (w_eng w')"
    by (intro touchesI [where ws = "e_workers (w_eng w)" and k = "e_nextSub (w_eng w')"
          and f = "e_subscribers (w_eng w')"]) (simp add: eng_OnChange_def Let_def)
  then show ?thesis ..
next
  case (unsubscribe e nk i)
  then have "touches (w_eng w) (w_eng w')"
    by (intro touchesI [where ws = "e_workers (w_eng w)" and k = "e_nextSub (w_eng w')"
          and f = "e_subscribers (w_eng w')"]) (simp add: unsubscribe_fn_def)
  then show ?thesis ..
qed

definition free_of :: "scope set \<Rightarrow> world \<Rightarrow> bool" where
  "free_of A w \<longleftrightarrow> (\<forall>sco \<in> A. \<forall>s h. BringingUp sco s h \<notin># w_tasks w)"

lemma world_ok_unique:
  "world_ok w \<Longrightarrow> BringingUp sco s h \<in># w_tasks w \<Longrightarrow>
     free_of {sco} (end_task (BringingUp sco s h) w)"
  by (simp add: world_ok_def tasks_ok_def free_of_def)

lemma scope_step_moves:
  assumes "scope_step w w'" and ok: "world_ok w"
  shows "\<exists>A. moves_only (Some A) w w' \<and> free_of A w'"
proof -
  note sc = base_okD(5) [OF world_ok_base [OF ok]]
  from assms(1) show ?thesis
  proof cases
    case (up_begin sco e1 s e2 h)
    have "emove (Some {}) e1 e2" using emove_open_feed [of "Some {}" e1] up_begin(4) by simp
    with bring_up_begin_sid(4) [OF sc up_begin(3), of "Some {}"] up_begin(1)
    have "moves_only (Some {}) w w'" by (auto simp: moves_only_def)
    then show ?thesis by (intro exI [of _ "{}"]) (simp add: free_of_def)
  next
    case (up_end sco s h)
    from world_ok_task [OF ok up_end(2)] have "trackedScope (w_eng w) sco = Some s"
      by (simp add: task_ok_def)
    from emoves_bring_up_conclude [OF scopes_okD [OF sc this]] up_end(1)
    have "moves_only (Some {sco}) w w'" by (simp add: moves_only_def)
    with world_ok_unique [OF ok up_end(2)] up_end(1) show ?thesis by (auto simp: free_of_def)
  next
    case (up_failed sco s h er)
    let ?e = "release_feed (Some h) (w_eng w)"
    from world_ok_task [OF ok up_failed(2)] have t: "trackedScope (w_eng w) sco = Some s"
      by (simp add: task_ok_def)
    have r: "emove (Some {sco}) (w_eng w) ?e" by (rule emove_release) simp
    have "trackedScope ?e sco = Some s" using t by (simp add: release_feed_def trackedScope_def)
    from emoves_bring_up_conclude [OF scopes_okD [OF emove_scopes_ok [OF r sc] this]] r up_failed(1)
    have "moves_only (Some {sco}) w w'"
      by (simp add: moves_only_def converse_rtranclp_into_rtranclp)
    with world_ok_unique [OF ok up_failed(2)] up_failed(1) show ?thesis by (auto simp: free_of_def)
  next
    case (drop sco)
    then have "moves_only (Some {sco}) w w'" by (simp add: moves_only_def r_into_rtranclp emove.dropped)
    with drop show ?thesis by (auto simp: free_of_def)
  next
    case close
    have "moves_only (Some {}) w w'" by (auto simp: close moves_only_def intro: emove.shut)
    then show ?thesis by (intro exI [of _ "{}"]) (simp add: free_of_def)
  next
    case (verbs a b d k)
    have "moves_only (Some {}) w w'" by (auto simp: verbs moves_only_def intro: emove.verbs)
    then show ?thesis by (intro exI [of _ "{}"]) (simp add: free_of_def)
  qed
qed

lemma wstep_moves:
  assumes "wstep w w'" and "world_ok w"
  shows "(\<exists>X. moves_only X w w') \<or> touches (w_eng w) (w_eng w')"
  using assms ingest_step_moves rec_step_moves delivery_step_moves scope_step_moves
  unfolding wstep_def by meson

subsection \<open>Delivery steps and the mailboxes\<close>

lemma delivery_step_slots:
  assumes "delivery_step w w'" and wf: "workers_wf (w_eng w)" and "base_ok (w_eng w)"
    and ok: "slots_ok (w_eng w) (w_last w) (w_muted w)"
  shows "slots_ok (w_eng w') (w_last w') (w_muted w')"
  using assms(1)
proof cases
  case (worker_wakes i wk)
  with emoves_slots [OF emoves_wake assms(3) ok] show ?thesis by simp
next
  case (worker_rests i)
  with emoves_slots [OF emoves_rest assms(3) ok] show ?thesis by simp
next
  case (worker_exits i)
  with emoves_slots [OF emoves_exit assms(3) ok] show ?thesis by simp
next
  case (worker_delivers s nk i x r)
  have "handed (w_eng w') (w_last w') j = handed (w_eng w) (w_last w) j" for j
    using worker_delivers(1,5)
    by (auto simp: handed_def take_pending_def pending_change_def split: if_splits)
  with ok worker_delivers(1) show ?thesis by (simp add: slots_ok_def)
next
  case (subscribe nk hasFn)
  with ok show ?thesis
    by (auto simp: eng_OnChange_def Let_def modify_apply elim!: slots_ok_frame split: if_splits)
next
  case (unsubscribe e nk i)
  with ok show ?thesis
    by (auto simp: unsubscribe_fn_def modify_apply elim!: slots_ok_frame split: if_splits)
qed

lemma wstep_slots:
  assumes "wstep w w'" and ok: "world_ok w"
    and s: "slots_ok (w_eng w) (w_last w) (w_muted w)"
  shows "slots_ok (w_eng w') (w_last w') (w_muted w')"
proof -
  have "slots_ok (w_eng w') (w_last w') (w_muted w')" if "moves_only X w w'" for X
    using emoves_slots [of X, OF _ world_ok_base [OF ok] s] that by (auto simp: moves_only_def)
  then show ?thesis
    using assms(1) ingest_step_moves [OF _ ok] rec_step_moves [OF _ ok] scope_step_moves [OF _ ok]
      delivery_step_slots [OF _ world_okD(3) [OF ok] world_ok_base [OF ok] s]
    unfolding wstep_def by meson
qed

subsection \<open>What every move leaves alone\<close>

definition calm :: "scope set \<Rightarrow> engine \<Rightarrow> engine \<Rightarrow> bool" where
  "calm A e e' \<longleftrightarrow> e_nextSid e \<le> e_nextSid e' \<and> e_registry e' = e_registry e
     \<and> e_unmarshal e' = e_unmarshal e
     \<and> (\<forall>s < e_nextSid e. sc_scope (sc_of e' s) = sc_scope (sc_of e s))
     \<and> (\<forall>sco s. sco \<notin> A \<longrightarrow> trackedScope e sco = Some s \<longrightarrow>
          trackedScope e' sco = Some s \<and> sc_unsubscribe (sc_of e' s) = sc_unsubscribe (sc_of e s))"

lemma calm_refl [simp]: "calm A e e"
  by (simp add: calm_def)

lemma calm_trans: "calm A e e' \<Longrightarrow> calm A e' e'' \<Longrightarrow> calm A e e''"
  by (simp add: calm_def)

lemma emove_calm: "emove X e e' \<Longrightarrow> scopes_ok e \<Longrightarrow> calm (held X) e e'"
proof (induction rule: emove.induct)
  case (ing s e e')
  with ingress_env [of s e e'] ingress_mid [of s e e'] show ?case
    by (simp add: calm_def env_of_eq mid_of_eq trackedScope_def)
next
  case (alloc sco e e' r)
  from alloc(2) show ?case
    by (rule scopeFor_cases)
      (use alloc(3) scopes_okD(1) [OF alloc(3)] in \<open>auto simp: calm_def trackedScope_def\<close>)
next
  case (dropped sco e)
  have tr: "trackedScope (dropScope sco e) sco' = trackedScope e sco'" if "sco' \<notin> held X" for sco'
    using that dropped(1) by (auto simp: trackedScope_def)
  show ?case
  proof (cases "trackedScope e sco")
    case (Some s)
    with dropped scopes_okD(2) [OF dropped(2)] show ?thesis by (auto simp: calm_def tr)
  qed simp
next
  case (handle s e h)
  have "trackedScope (upd_sc s f e) = trackedScope e" for f by (simp add: trackedScope_def fun_eq_iff)
  with handle scopes_okD(2) [OF handle(3)] show ?case by (auto simp: calm_def)
qed (auto simp: calm_def trackedScope_def controls_def)

lemma emoves_calm:
  assumes "emoves X e e'" and "scopes_ok e"
  shows "calm (held X) e e'"
proof -
  have "scopes_ok e' \<and> calm (held X) e e'"
    using assms
  proof (induction rule: rtranclp_induct)
    case (step y z)
    then show ?case using emove_calm [of X y z] emove_scopes_ok [of X y z] calm_trans by blast
  qed simp
  then show ?thesis by simp
qed

end
