(* ===== verification/Engine_Worlds.thy ===== *)
theory Engine_Worlds
  imports Engine_Steps
begin

text \<open>
  The invariant of a world is kept by every step, and what follows of every reachable world.
\<close>

subsection \<open>The goroutines in flight\<close>

lemma prep_ok_calm:
  assumes "calm A e e'" and "s < e_nextSid e" and "prep_ok e s nk prep"
  shows "prep_ok e' s nk prep"
proof -
  have "pub_ok e' pub = pub_ok e pub" for pub
    using assms(1) by (simp add: calm_def pub_ok_def backed_def eng_lookup_def)
  with assms show ?thesis by (auto simp: prep_ok_def calm_def)
qed

lemma task_ok_calm:
  assumes "calm A e e'" and "scopes_ok e" and "task_ok e t"
    and "\<And>sco s h. t = BringingUp sco s h \<Longrightarrow> sco \<notin> A"
  shows "task_ok e' t"
proof (cases t)
  case (Rereading sco s nk f origin d r)
  with assms(1,3) show ?thesis by (auto simp: task_ok_def calm_def)
next
  case (Ingesting s nk prep f pg)
  with assms prep_ok_calm [OF assms(1)] show ?thesis by (auto simp: task_ok_def calm_def)
next
  case (BringingUp sco s h)
  with assms(1,3) assms(4) [OF BringingUp] show ?thesis by (simp add: task_ok_def calm_def)
qed

lemma tasks_ok_keep:
  assumes "tasks_ok w" and "scopes_ok (w_eng w)" and "calm A (w_eng w) (w_eng w')"
    and "free_of A w'" and "w_tasks w' \<subseteq># w_tasks w"
  shows "tasks_ok w'"
  unfolding tasks_ok_def
proof (intro conjI ballI allI impI)
  fix t
  assume t: "t \<in># w_tasks w'"
  with assms(1,5) have "task_ok (w_eng w) t" by (auto simp: tasks_ok_def dest: mset_subset_eqD)
  moreover have "t = BringingUp sco s h \<Longrightarrow> sco \<notin> A" for sco s h
    using assms(4) t by (auto simp: free_of_def)
  ultimately show "task_ok (w_eng w') t" by (rule task_ok_calm [OF assms(3,2)])
next
  fix sco s h s' h'
  assume b: "BringingUp sco s h \<in># w_tasks w'"
  have "w_tasks w' - {#BringingUp sco s h#} \<subseteq># w_tasks w - {#BringingUp sco s h#}"
    using assms(5) by (simp add: subseteq_mset_def diff_le_mono)
  moreover have "BringingUp sco s' h' \<notin># w_tasks w - {#BringingUp sco s h#}"
    using assms(1) mset_subset_eqD [OF assms(5) b] by (simp add: tasks_ok_def)
  ultimately show "BringingUp sco s' h' \<notin># w_tasks w' - {#BringingUp sco s h#}"
    by (blast dest: mset_subset_eqD)
qed

lemma tasks_ok_put:
  assumes "tasks_ok w" and "task_ok (w_eng w) t"
    and "\<And>sco s h s' h'. t = BringingUp sco s h \<Longrightarrow> BringingUp sco s' h' \<notin># w_tasks w"
  shows "tasks_ok (put_task t w)"
  unfolding tasks_ok_def
proof (intro conjI ballI allI impI)
  fix u
  assume "u \<in># w_tasks (put_task t w)"
  with assms(1,2) show "task_ok (w_eng (put_task t w)) u" by (auto simp: tasks_ok_def)
next
  fix sco s h s' h'
  assume b: "BringingUp sco s h \<in># w_tasks (put_task t w)"
  show "BringingUp sco s' h' \<notin># w_tasks (put_task t w) - {#BringingUp sco s h#}"
  proof (cases "t = BringingUp sco s h")
    case True
    with assms(3) [OF True, of s' h'] show ?thesis by simp
  next
    case False
    with b have w: "BringingUp sco s h \<in># w_tasks w" by simp
    then have "t \<noteq> BringingUp sco s' h'" using assms(3) [of sco s' h' s h] by blast
    with False w assms(1) show ?thesis
      by (simp add: tasks_ok_def add_mset_diff_bothsides diff_add_mset_swap)
  qed
qed

lemma moves_only_calm: "moves_only X w w' \<Longrightarrow> world_ok w \<Longrightarrow> calm (held X) (w_eng w) (w_eng w')"
  by (simp add: moves_only_def emoves_calm world_okD(5))

lemma free_of_empty [simp]: "free_of {} w"
  by (simp add: free_of_def)

lemma Ingesting_ok:
  assumes "decoder_ok e" and "s < e_nextSid e"
  shows "task_ok e (Ingesting s (row_nk se) (prepare c (sc_scope (sc_of e s)) se pg e) f g)"
  using prepare_prep_ok [OF assms(1)] assms(2) by (simp add: task_ok_def)

lemma Rereading_ok:
  assumes "scopes_ok e" and "refresh_begin sco nk origin e = Some (s, f, o')"
  shows "task_ok e (Rereading sco s nk f o' d r)"
  using assms scopes_okD [OF assms(1)]
  by (auto simp: task_ok_def refresh_begin_def scopeForEvent_def Let_def split: option.splits)

lemma ingest_step_tasks:
  assumes "ingest_step w w'" and ok: "world_ok w"
  shows "tasks_ok w'"
proof -
  have t: "tasks_ok w" using ok by (simp add: world_ok_def)
  note sc = world_okD(5) [OF ok]
  have keep: "tasks_ok v" if "w_eng v = w_eng w'" "w_tasks v \<subseteq># w_tasks w" for v
    using tasks_ok_keep [OF t sc, of "{}" v] moves_only_calm [OF ingest_step_moves [OF assms] ok, of None]
      that by simp
  from assms(1) show ?thesis
  proof cases
    case (reread sco nk origin s f origin' deleted retried)
    with Rereading_ok [OF sc reread(2)] show ?thesis by (auto intro!: tasks_ok_put t)
  next
    case (answer_row sco s nk f origin deleted retried e se)
    let ?v = "set_eng e (end_task (Rereading sco s nk f origin deleted retried) w)"
    from keep [of ?v] answer_row(1) have "tasks_ok ?v" by simp
    moreover have "decoder_ok e" "s < e_nextSid e"
      using answer_row(4) world_okD(2) [OF ok] scopeForEvent_sid [OF sc answer_row(3)]
      by (simp_all add: decoder_ok_def ingest_begin_def)
    ultimately show ?thesis
      using answer_row(1) by (auto intro!: tasks_ok_put Ingesting_ok)
  next
    case (local_write sco s e se c)
    let ?v = "set_eng e w"
    from keep [of ?v] local_write(1) have "tasks_ok ?v" by simp
    moreover have "decoder_ok e" "s < e_nextSid e"
      using local_write(4) world_okD(2) [OF ok] writeScope_sid [OF sc local_write(3)]
      by (simp_all add: decoder_ok_def ingest_begin_def)
    ultimately show ?thesis
      using local_write(1) by (auto intro!: tasks_ok_put Ingesting_ok)
  qed (rule keep; simp)+
qed

lemma rec_step_tasks: "rec_step w w' \<Longrightarrow> w_tasks w' = w_tasks w"
  by (induction rule: rec_step.induct) simp_all

lemma delivery_step_tasks: "delivery_step w w' \<Longrightarrow> w_tasks w' = w_tasks w"
  by (induction rule: delivery_step.induct) simp_all

lemma touches_calm: "touches e e' \<Longrightarrow> calm {} e e'"
  by (auto simp: touches_def calm_def trackedScope_def)

lemma scope_step_tasks:
  assumes "scope_step w w'" and ok: "world_ok w"
  shows "tasks_ok w'"
proof -
  have t: "tasks_ok w" using ok by (simp add: world_ok_def)
  note sc = world_okD(5) [OF ok]
  obtain A where A: "moves_only (Some A) w w'" "free_of A w'"
    using scope_step_moves [OF assms] by blast
  have keep: "tasks_ok w'" if "w_tasks w' \<subseteq># w_tasks w"
    using tasks_ok_keep [OF t sc, of A w'] moves_only_calm [OF A(1) ok] A(2) that by simp
  from assms(1) show ?thesis
  proof cases
    case (up_begin sco e1 s e2 h)
    note b = bring_up_begin_sid [OF sc up_begin(3)]
    have "emove (Some {}) (w_eng w) e1" by (rule b(4)) simp
    then have "calm {} (w_eng w) e1" using emove_calm [of "Some {}", OF _ sc] by simp
    moreover have "calm {} e1 e2" 
      using up_begin(4) by (auto simp: calm_def open_feed_def Let_def trackedScope_def)
    ultimately have "calm {} (w_eng w) e2" by (rule calm_trans)
    then have "tasks_ok (set_eng e2 w)" using tasks_ok_keep [OF t sc, of "{}" "set_eng e2 w"] by simp
    moreover have "task_ok e2 (BringingUp sco s h)"
      using b(1,2) up_begin(4) by (auto simp: task_ok_def open_feed_def Let_def trackedScope_def)
    ultimately show ?thesis using up_begin(1,2) by (auto intro!: tasks_ok_put)
  qed (rule keep; simp)+
qed

subsection \<open>The reconcile goroutines\<close>

text \<open>What \<open>rec_ok\<close> reads of a state.\<close>

lemma rec_ok_cong:
  assumes "sc_pending b = sc_pending a" and "sc_reconcileGen b = sc_reconcileGen a"
    and "sc_open b = sc_open a" and "sc_stale a \<longrightarrow> sc_stale b" and "rec_ok a pc"
  shows "rec_ok b pc"
  using assms by (auto simp: rec_ok_def)

lemma rec_ok_fresh [simp]: "rec_ok (newScopeState sco) Idle"
  by (simp add: rec_ok_def)

text \<open>Arming opens one window, closes the displaced one, and outdates the running reconcile.\<close>

lemma rec_ok_arm:
  assumes "rec_ok sc pc"
  shows "rec_ok (arm_scope sc) pc"
proof (cases "sc_pending sc")
  case None
  with assms show ?thesis
    by (fastforce simp: rec_ok_def arm_scope_def armReconcile_def queueReconcile_def Let_def)
next
  case (Some a)
  with assms show ?thesis
    by (fastforce simp: rec_ok_def arm_scope_def armReconcile_def queueReconcile_def
        closeWindow_def Let_def)
qed

lemma rec_ok_stale: "rec_ok sc pc \<Longrightarrow> rec_ok (markStale_sc sc) pc"
  by (rule rec_ok_cong) (simp_all add: markStale_sc_def)

lemma rec_ok_take:
  assumes "rec_ok sc Idle" and "takeReconcile (sc\<lparr>sc_signal := False\<rparr>) = (sc', r)"
  shows "rec_ok sc' (case r of None \<Rightarrow> Idle | Some arm \<Rightarrow> Taken arm)"
  using assms by (auto simp: rec_ok_def takeReconcile_def split: option.splits)

lemma rec_ok_discard:
  assumes "rec_ok sc pc" and "sc_pending sc = Some a"
  shows "rec_ok (closeWindow a (fst (takeReconcile sc))) pc"
  using assms by (cases "pc_arm pc") (auto simp: rec_ok_def takeReconcile_def closeWindow_def)

lemma rec_ok_advance:
  "rec_ok sc pc \<Longrightarrow> pc_arm pc' = pc_arm pc \<Longrightarrow> finishing pc' = finishing pc \<Longrightarrow> rec_ok sc pc'"
  by (simp add: rec_ok_def)

lemma rec_ok_close:
  assumes "rec_ok sc pc" and "pc_arm pc = Some a"
  shows "rec_ok (closeWindow a sc) Idle"
  using assms by (cases "sc_pending sc") (auto simp: rec_ok_def closeWindow_def)

lemma rec_ok_first: "rec_ok sc pc \<Longrightarrow> rec_ok (finishFirstReconcile er sc) pc"
  by (rule rec_ok_cong) (simp_all add: finishFirstReconcile_def)

lemma rec_ok_clear:
  assumes "rec_ok sc (Absences a [])"
  shows "rec_ok (clearStale a sc) (Finishing a)"
  using assms
  by (cases "sc_pending sc"; cases "sc_reconcileGen sc = arm_reconcile a")
    (simp_all add: rec_ok_def clearStale_def)

lemma rec_ok_owed:
  assumes "rec_ok sc pc" and "sc_pending sc \<noteq> None
    \<or> (\<exists>a. pc_arm pc = Some a \<and> \<not> finishing pc \<and> \<not> superseded sc a)"
  shows "sc_stale sc"
  using assms unfolding rec_ok_def superseded_def by (metis option.exhaust)

lemma rec_ok_ingress:
  assumes "ingress s e e'" and "rec_ok (sc_of e t) pc"
  shows "rec_ok (sc_of e' t) pc"
  using ingress_mid [OF assms(1), of t] unfolding mid_of_eq
  by (intro rec_ok_cong [OF _ _ _ _ assms(2)]) simp_all

lemma rec_ok_started [simp]: "rec_ok (sc\<lparr>sc_workerStarted := b\<rparr>) pc = rec_ok sc pc"
  by (simp add: rec_ok_def)

definition armings_ok :: "engine \<Rightarrow> (sid \<Rightarrow> rec_pc) \<Rightarrow> bool" where
  "armings_ok e pcs \<longleftrightarrow> (\<forall>s. rec_ok (sc_of e s) (pcs s))"

lemma recs_ok_alt:
  "recs_ok w \<longleftrightarrow> armings_ok (w_eng w) (w_rec w)
     \<and> (\<forall>s. w_rec w s \<noteq> Idle \<longrightarrow> s < e_nextSid (w_eng w))"
  by (auto simp: recs_ok_def armings_ok_def)

lemma armings_ok_upd:
  "armings_ok e pcs \<Longrightarrow> rec_ok (f (sc_of e s)) pc \<Longrightarrow> armings_ok (upd_sc s f e) (pcs(s := pc))"
  by (simp add: armings_ok_def)

lemma armings_ok_upd_same:
  "armings_ok e pcs \<Longrightarrow> rec_ok (f (sc_of e s)) (pcs s) \<Longrightarrow> armings_ok (upd_sc s f e) pcs"
  using armings_ok_upd [of e pcs f s "pcs s"] by simp

lemma armings_ok_ingress: "ingress s e e' \<Longrightarrow> armings_ok e pcs \<Longrightarrow> armings_ok e' pcs"
  by (simp add: armings_ok_def rec_ok_ingress)

lemma armings_okD: "armings_ok e pcs \<Longrightarrow> rec_ok (sc_of e s) (pcs s)"
  by (simp add: armings_ok_def)

lemma armings_ok_ensure:
  assumes "armings_ok e pcs"
  shows "armings_ok (fst (ensureReconcileWorker s e)) pcs"
  using assms
  by (simp add: armings_ok_def ensureReconcileWorker_def)

lemma armings_ok_onResync:
  assumes "armings_ok e pcs"
  shows "armings_ok (onResync sco e) pcs"
proof (cases "scopeForEvent sco e")
  case None
  with assms show ?thesis by (simp add: onResync_def)
next
  case (Some s)
  obtain e' b where en: "ensureReconcileWorker s (upd_sc s arm_scope e) = (e', b)" by fastforce
  have ok: "armings_ok e' pcs"
    using armings_ok_ensure [OF armings_ok_upd_same [where f = arm_scope, OF assms rec_ok_arm],
        OF armings_okD [OF assms], of s s] en by simp
  obtain sc r where tk: "takeReconcile (sc_of e' s) = (sc, r)" by fastforce
  then have "rec_ok (closeWindow a sc) (pcs s)" if "r = Some a" for a
    using rec_ok_discard [OF armings_okD [OF ok], of s a] that
    by (auto simp: takeReconcile_def split: option.splits)
  with Some en tk ok show ?thesis
    by (auto simp: onResync_def split: bool.splits option.splits intro: armings_ok_upd_same)
qed

lemma armings_ok_onEvent:
  assumes "armings_ok e pcs"
  shows "armings_ok (fst (onEvent evt e)) pcs"
proof -
  have "armings_ok (markStale sco e) pcs" for sco
    using assms armings_okD [OF assms]
    by (auto simp: markStale_def split: option.splits intro!: armings_ok_upd_same rec_ok_stale)
  moreover have "armings_ok (recordFeedDelete sco nk e) pcs" for sco nk
  proof (cases "trackedScope e sco")
    case None
    with assms show ?thesis by (simp add: recordFeedDelete_def scopeForEvent_def)
  next
    case (Some s)
    from armings_ok_ingress [OF ingress_recordFeedDelete [OF Some] assms] show ?thesis .
  qed
  ultimately show ?thesis
    using assms armings_ok_onResync by (auto simp: onEvent_def Let_def)
qed

lemma ingests_armings: "ingests e e' \<Longrightarrow> armings_ok e pcs \<Longrightarrow> armings_ok e' pcs"
  by (auto simp: ingests_def armings_ok_ingress) (simp add: armings_ok_def)

lemma ingest_step_rec: "ingest_step w w' \<Longrightarrow> w_rec w' = w_rec w"
  by (induction rule: ingest_step.induct) simp_all

lemma delivery_step_rec:
  "delivery_step w w' \<Longrightarrow> w_rec w' = w_rec w \<and> e_states (w_eng w') = e_states (w_eng w)"
  by (induction rule: delivery_step.induct)
    (simp_all add: worker_wake_def worker_rest_def worker_exit_def eng_OnChange_def Let_def
      unsubscribe_fn_def)

lemma scope_step_rec: "scope_step w w' \<Longrightarrow> w_rec w' = w_rec w"
  by (induction rule: scope_step.induct) simp_all

lemma ingest_step_armings:
  assumes "ingest_step w w'" and "world_ok w" and "armings_ok (w_eng w) pcs"
  shows "armings_ok (w_eng w') pcs"
  using ingest_step_ingests [OF assms(1,2)] armings_ok_onEvent ingests_armings assms(3) by auto

lemma rec_step_armings:
  assumes "rec_step w w'" and ok: "world_ok w" and a: "armings_ok (w_eng w) (w_rec w)"
  shows "armings_ok (w_eng w') (w_rec w')"
proof -
  note r = armings_okD [OF a]
  have put: "armings_ok (upd_sc s f e) ((w_rec w)(s := pc))"
    if "ingress s (w_eng w) e" "rec_ok (f (sc_of e s)) pc" for s f e pc
    using armings_ok_ingress [OF that(1) a] that(2) by (rule armings_ok_upd)
  have close: "armings_ok (upd_sc s (closeWindow arm) e) ((w_rec w)(s := Idle))"
    if "ingress s (w_eng w) e" "pc_arm (w_rec w s) = Some arm" for s arm e
    using put [OF that(1)] rec_ok_close [OF rec_ok_ingress [OF that(1) r] that(2)] by blast
  have go: "armings_ok e ((w_rec w)(s := pc))"
    if "ingress s (w_eng w) e" "pc_arm pc = pc_arm (w_rec w s)" "\<not> finishing pc"
      "\<not> finishing (w_rec w s)" for s e pc
    using put [where f = "\<lambda>sc. sc", OF that(1)] rec_ok_advance [OF rec_ok_ingress [OF that(1) r]] that
    by (simp add: upd_sc_def modify_def)
  note dec = world_okD(2) [OF ok]
  from assms(1) show ?thesis
  proof cases
    case (rec_take s sc res)
    with put [OF ingress.same, of "\<lambda>_. sc" s] rec_ok_take [of _ sc res] r [of s] show ?thesis by simp
  next
    case (rec_failed s arm er)
    then have "rec_ok (closeWindow arm (finishFirstReconcile er (sc_of (w_eng w) s))) Idle" for er
      using rec_ok_close [OF rec_ok_first [OF r [of s]], of arm] by simp
    with put [OF ingress.same] rec_failed(1) show ?thesis by simp
  next
    case (rec_finish s arm)
    then have "rec_ok (closeWindow arm (finishFirstReconcile er (sc_of (w_eng w) s))) Idle" for er
      using rec_ok_close [OF rec_ok_first [OF r [of s]], of arm] by simp
    with put [OF ingress.same] rec_finish(1) show ?thesis by simp
  next
    case (rec_clear s arm)
    with put [OF ingress.same, of "clearStale arm" s] rec_ok_clear r [of s] show ?thesis by simp
  next
    case (rec_row s arm se rows seen e)
    with go [OF ingress_applySnapshotRow [OF rec_row(3) dec]] show ?thesis by simp
  next
    case (rec_row_superseded s arm se rows seen e)
    with close [OF ingress_applySnapshotRow [OF rec_row_superseded(3) dec]] show ?thesis by simp
  next
    case (rec_absent s arm nk nks e)
    with go [OF ingress_applyAbsentKey [OF rec_absent(3)]] show ?thesis by simp
  next
    case (rec_absent_superseded s arm nk nks e)
    with close [OF ingress_applyAbsentKey [OF rec_absent_superseded(3)]] show ?thesis by simp
  qed (simp_all add: go close)
qed

lemma armings_ok_scopeFor:
  assumes "armings_ok e pcs" and "pcs (e_nextSid e) = Idle"
  shows "armings_ok (fst (scopeFor sco e)) pcs"
proof -
  obtain e' r where "scopeFor sco e = (e', r)" by fastforce
  then show ?thesis
    by (rule scopeFor_cases) (use assms \<open>scopeFor sco e = (e', r)\<close> in \<open>auto simp: armings_ok_def\<close>)
qed

lemma rec_ok_handle [simp]: "rec_ok (sc\<lparr>sc_unsubscribe := h\<rparr>) pc = rec_ok sc pc"
  by (simp add: rec_ok_def)

lemma armings_ok_dropScope:
  assumes "armings_ok e pcs"
  shows "armings_ok (dropScope sco e) pcs"
  using assms by (cases "trackedScope e sco") (auto simp: armings_ok_def rec_ok_def)

lemma armings_ok_conclude:
  "armings_ok e pcs \<Longrightarrow> armings_ok (fst (bring_up_conclude sco s ans e)) pcs"
  by (auto simp: bring_up_conclude_def release_feed_def split: sum.splits
      intro!: armings_ok_dropScope) (auto simp: armings_ok_def)

lemma armings_ok_begin:
  "bring_up_begin sco e = (e1, b) \<Longrightarrow> armings_ok e pcs \<Longrightarrow> pcs (e_nextSid e) = Idle \<Longrightarrow>
     armings_ok e1 pcs"
  using armings_ok_scopeFor [of e pcs sco] bring_up_begin_fst [of sco e] by simp

lemma scope_step_armings:
  assumes "scope_step w w'" and "recs_ok w"
  shows "armings_ok (w_eng w') (w_rec w)"
proof -
  have a: "armings_ok (w_eng w) (w_rec w)" and i: "w_rec w (e_nextSid (w_eng w)) = Idle"
    using assms(2) by (auto simp: recs_ok_alt)
  from assms(1) show ?thesis
  proof cases
    case (up_begin sco e1 s e2 h)
    with armings_ok_begin [OF up_begin(3) a i] show ?thesis
      by (auto simp: open_feed_def Let_def armings_ok_def)
  next
    case (up_end sco s h)
    with armings_ok_conclude [OF a] show ?thesis by simp
  next
    case (up_failed sco s h er)
    have "armings_ok (release_feed (Some h) (w_eng w)) (w_rec w)"
      using a by (simp add: armings_ok_def release_feed_def)
    with armings_ok_conclude up_failed(1) show ?thesis by simp
  next
    case (drop sco)
    with armings_ok_dropScope [OF a] show ?thesis by simp
  next
    case close
    with a show ?thesis by (simp add: armings_ok_def)
  next
    case (verbs act b d k)
    with a show ?thesis by (simp add: armings_ok_def)
  qed
qed

lemma rec_step_busy:
  "rec_step w w' \<Longrightarrow> w_rec w' s \<noteq> Idle \<Longrightarrow>
     w_rec w s \<noteq> Idle \<or> sc_workerStarted (sc_of (w_eng w) s)"
  by (induction rule: rec_step.induct) (simp_all split: if_splits)

lemma rec_step_sid:
  assumes "rec_step w w'" and "world_ok w" and "w_rec w' s \<noteq> Idle"
  shows "s < e_nextSid (w_eng w)"
  using rec_step_busy [OF assms(1,3)] world_ok_rec [OF assms(2)]
    started_sid [OF world_okD(5) [OF assms(2)]] by auto

subsection \<open>Every step keeps the invariant\<close>

lemma moves_only_grows:
  "moves_only X w w' \<Longrightarrow> e_nextSid (w_eng w) \<le> e_nextSid (w_eng w')"
  by (auto simp: moves_only_def dest: emoves_const)

lemma moves_only_base: "moves_only X w w' \<Longrightarrow> world_ok w \<Longrightarrow> base_ok (w_eng w')"
  by (auto simp: moves_only_def intro: emoves_base world_ok_base)

lemma calm_tasks:
  assumes "world_ok w" and "calm {} (w_eng w) (w_eng w')" and "w_tasks w' = w_tasks w"
  shows "tasks_ok w'"
  using assms(1,3) by (intro tasks_ok_keep [OF _ world_okD(5) assms(2)]) (simp_all add: world_ok_def)

lemma world_okI:
  assumes "base_ok (w_eng w)" and "tasks_ok w" and "armings_ok (w_eng w) (w_rec w)"
    and "\<And>s. w_rec w s \<noteq> Idle \<Longrightarrow> s < e_nextSid (w_eng w)"
  shows "world_ok w"
  using assms by (simp add: world_ok_def recs_ok_alt)

lemma world_ok_armings: "world_ok w \<Longrightarrow> armings_ok (w_eng w) (w_rec w)"
  by (simp add: world_ok_def recs_ok_alt)

lemma ingest_step_ok:
  assumes "ingest_step w w'" and ok: "world_ok w"
  shows "world_ok w'"
proof (rule world_okI)
  note m = ingest_step_moves [OF assms]
  show "base_ok (w_eng w')" by (rule moves_only_base [OF m ok])
  show "tasks_ok w'" by (rule ingest_step_tasks [OF assms])
  show "armings_ok (w_eng w') (w_rec w')"
    using ingest_step_armings [OF assms world_ok_armings [OF ok]] ingest_step_rec [OF assms(1)] by simp
  show "s < e_nextSid (w_eng w')" if "w_rec w' s \<noteq> Idle" for s
    using that world_ok_rec [OF ok] moves_only_grows [OF m] ingest_step_rec [OF assms(1)]
    by (auto intro: less_le_trans)
qed

lemma rec_step_ok:
  assumes "rec_step w w'" and ok: "world_ok w"
  shows "world_ok w'"
proof (rule world_okI)
  note m = rec_step_moves [OF assms]
  show "base_ok (w_eng w')" by (rule moves_only_base [OF m ok])
  have "calm {} (w_eng w) (w_eng w')" using moves_only_calm [OF m ok, of None] by simp
  then show "tasks_ok w'"
    using rec_step_tasks [OF assms(1)] by (rule calm_tasks [OF ok])
  show "armings_ok (w_eng w') (w_rec w')" by (rule rec_step_armings [OF assms world_ok_armings [OF ok]])
  show "s < e_nextSid (w_eng w')" if "w_rec w' s \<noteq> Idle" for s
    using rec_step_sid [OF assms that] moves_only_grows [OF m] by simp
qed

lemma delivery_step_calm:
  assumes "delivery_step w w'" and ok: "world_ok w"
  shows "base_ok (w_eng w') \<and> calm {} (w_eng w) (w_eng w')"
proof -
  have "moves_only None w w' \<or> touches (w_eng w) (w_eng w')" by (rule delivery_step_moves [OF assms(1)])
  then show ?thesis
    using moves_only_base [OF _ ok] moves_only_calm [OF _ ok, of None w']
      touches_base [OF _ world_ok_base [OF ok]] touches_calm by auto
qed

lemma delivery_step_ok:
  assumes "delivery_step w w'" and ok: "world_ok w"
  shows "world_ok w'"
proof (rule world_okI)
  note c = delivery_step_calm [OF assms]
  note r = delivery_step_rec [OF assms(1)]
  from c show "base_ok (w_eng w')" ..
  from c show "tasks_ok w'"
    using calm_tasks [OF ok _ delivery_step_tasks [OF assms(1)]] by simp
  show "armings_ok (w_eng w') (w_rec w')"
    using world_ok_armings [OF ok] r by (simp add: armings_ok_def)
  show "s < e_nextSid (w_eng w')" if "w_rec w' s \<noteq> Idle" for s
    using that c r world_ok_rec [OF ok, of s] by (simp add: calm_def)
qed

lemma scope_step_ok:
  assumes "scope_step w w'" and ok: "world_ok w"
  shows "world_ok w'"
proof (rule world_okI)
  obtain A where m: "moves_only (Some A) w w'" using scope_step_moves [OF assms] by blast
  note r = scope_step_rec [OF assms(1)]
  show "base_ok (w_eng w')" by (rule moves_only_base [OF m ok])
  show "tasks_ok w'" by (rule scope_step_tasks [OF assms])
  show "armings_ok (w_eng w') (w_rec w')"
    using scope_step_armings [OF assms(1)] ok r by (simp add: world_ok_def)
  show "s < e_nextSid (w_eng w')" if "w_rec w' s \<noteq> Idle" for s
    using that r world_ok_rec [OF ok, of s] moves_only_grows [OF m] by simp
qed

lemma wstep_ok: "wstep w w' \<Longrightarrow> world_ok w \<Longrightarrow> world_ok w'"
  unfolding wstep_def using ingest_step_ok rec_step_ok delivery_step_ok scope_step_ok by blast

subsection \<open>Changefeeds\<close>

lemma tracked_feeds_iff:
  "h \<in> tracked_feeds e \<longleftrightarrow>
     (\<exists>sco s. trackedScope e sco = Some s \<and> sc_unsubscribe (sc_of e s) = Some h)"
  by (fastforce simp: tracked_feeds_def trackedScopes_def trackedScope_def ran_def)

lemma pending_feeds_iff: "h \<in> pending_feeds w \<longleftrightarrow> (\<exists>sco s. BringingUp sco s h \<in># w_tasks w)"
  by (simp add: pending_feeds_def)

lemma emove_none_feeds:
  "emove X e e' \<Longrightarrow> X = None \<Longrightarrow> e_feeds e' = e_feeds e \<and> e_closed e' = e_closed e"
proof (induction rule: emove.induct)
  case (ing s e e')
  with ingress_env [of s e e'] show ?case by (simp add: env_of_eq)
next
  case (alloc sco e e' r)
  from alloc(2) show ?case by (rule scopeFor_cases) (use alloc in auto)
qed simp_all

lemma emoves_none_feeds:
  "emoves None e e' \<Longrightarrow> e_feeds e' = e_feeds e \<and> e_closed e' = e_closed e"
  by (induction rule: rtranclp_induct) (auto dest: emove_none_feeds)

lemma feeds_ok_keep:
  assumes "feeds_ok w" and "calm {} (w_eng w) (w_eng w')"
    and "e_feeds (w_eng w') = e_feeds (w_eng w)" and "e_closed (w_eng w') = e_closed (w_eng w)"
    and "pending_feeds w' = pending_feeds w"
  shows "feeds_ok w'"
proof -
  have "tracked_feeds (w_eng w) \<subseteq> tracked_feeds (w_eng w')"
    using assms(2) by (fastforce simp: tracked_feeds_iff calm_def)
  with assms show ?thesis by (auto simp: feeds_ok_def)
qed

lemma other_task_stays: "u \<in># M \<Longrightarrow> u \<noteq> t \<Longrightarrow> u \<in># M - {#t#}"
  by (simp add: in_diff_count)

lemma ending_keeps_bring_up:
  "(\<And>sco s h. t \<noteq> BringingUp sco s h) \<Longrightarrow>
     BringingUp sco s h \<in># M - {#t#} \<longleftrightarrow> BringingUp sco s h \<in># M"
  by (metis other_task_stays in_diffD)

lemma ingest_step_pending: "ingest_step w w' \<Longrightarrow> pending_feeds w' = pending_feeds w"
  by (induction rule: ingest_step.induct) (simp_all add: pending_feeds_def ending_keeps_bring_up)

lemma rec_step_feeds:
  "rec_step w w' \<Longrightarrow> pending_feeds w' = pending_feeds w"
  by (simp add: pending_feeds_def rec_step_tasks)

lemma delivery_step_feeds:
  assumes "delivery_step w w'"
  shows "e_feeds (w_eng w') = e_feeds (w_eng w) \<and> e_closed (w_eng w') = e_closed (w_eng w)
    \<and> pending_feeds w' = pending_feeds w"
  using assms
  by (induction rule: delivery_step.induct)
    (simp_all add: pending_feeds_def worker_wake_def worker_rest_def worker_exit_def
      eng_OnChange_def unsubscribe_fn_def Let_def)

lemma dropScope_feeds:
  "e_feeds (dropScope sco e) =
     (case trackedScope e sco of None \<Rightarrow> e_feeds e
      | Some s \<Rightarrow> e_feeds e - set_option (sc_unsubscribe (sc_of e s)))"
  by (auto simp: dropScope_def trackedScope_def Let_def stopScopeWorkers_def release_feed_def
      split: option.splits)

text \<open>A drop takes its own handle's feed with it, and nobody else's tracking.\<close>

lemma dropScope_tracked_feeds:
  assumes "scopes_ok e" and "h \<in> tracked_feeds e" and "h \<in> e_feeds (dropScope sco e)"
  shows "h \<in> tracked_feeds (dropScope sco e)"
proof -
  from assms(2) obtain sco' s where t: "trackedScope e sco' = Some s"
    and h: "sc_unsubscribe (sc_of e s) = Some h"
    by (auto simp: tracked_feeds_iff)
  have other: "sco' \<noteq> sco" using assms(3) t h by (auto simp: dropScope_feeds)
  then have "trackedScope (dropScope sco e) sco' = Some s" using t by (simp add: trackedScope_def)
  moreover have "sc_of (dropScope sco e) s = sc_of e s"
  proof (cases "trackedScope e sco")
    case (Some u)
    with other t scopes_okD(2) [OF assms(1)] show ?thesis by auto
  qed simp
  ultimately show ?thesis unfolding tracked_feeds_iff using h by metis
qed

lemma dropScope_feeds_sub: "e_feeds (dropScope sco e) \<subseteq> e_feeds e"
  by (auto simp: dropScope_feeds split: option.splits)

definition feeds_in :: "nat set \<Rightarrow> engine \<Rightarrow> bool" where
  "feeds_in P e \<longleftrightarrow> e_feeds e \<subseteq> tracked_feeds e \<union> P \<and> (e_closed e \<longrightarrow> e_feeds e \<subseteq> P)"

lemma feeds_ok_in: "feeds_ok w \<longleftrightarrow> feeds_in (pending_feeds w) (w_eng w)"
  by (simp add: feeds_ok_def feeds_in_def)

lemma feeds_in_drop:
  assumes "feeds_in P e" and "scopes_ok e"
  shows "feeds_in P (dropScope sco e)"
  using assms(1) dropScope_feeds_sub [of sco e] dropScope_tracked_feeds [OF assms(2), of _ sco]
  by (fastforce simp: feeds_in_def)

lemma tracked_feeds_frame [simp]:
  "tracked_feeds (e\<lparr>e_feeds := F, e_nextFeed := k\<rparr>) = tracked_feeds e"
  "tracked_feeds (e\<lparr>e_feeds := F\<rparr>) = tracked_feeds e"
  by (simp_all add: tracked_feeds_def trackedScopes_def)

lemma feeds_in_release:
  "feeds_in (insert h P) e \<Longrightarrow> feeds_in P (release_feed (Some h) e)"
  by (auto simp: feeds_in_def release_feed_def)

lemma feeds_in_open:
  "feeds_in P e \<Longrightarrow> open_feed e = (e', h) \<Longrightarrow> feeds_in (insert h P) e'"
  by (auto simp: feeds_in_def open_feed_def Let_def)

lemma feeds_in_adopt:
  assumes "feeds_in (insert h P) e" and "trackedScope e sco = Some s"
    and "sc_unsubscribe (sc_of e s) = None" and "\<not> e_closed e"
  shows "feeds_in P (upd_sc s (\<lambda>sc. sc\<lparr>sc_unsubscribe := Some h\<rparr>) e)"
proof -
  let ?e = "upd_sc s (\<lambda>sc. sc\<lparr>sc_unsubscribe := Some h\<rparr>) e"
  have "h \<in> tracked_feeds ?e" using assms(2) by (force simp: tracked_feeds_iff trackedScope_def)
  moreover have "tracked_feeds e \<subseteq> tracked_feeds ?e"
    using assms(3) by (fastforce simp: tracked_feeds_iff trackedScope_def)
  ultimately show ?thesis using assms(1,4) by (auto simp: feeds_in_def)
qed

lemma feeds_in_scopeFor:
  assumes "feeds_in P e" and "scopes_ok e"
  shows "feeds_in P (fst (scopeFor sco e))"
proof -
  obtain e' r where sf: "scopeFor sco e = (e', r)" by fastforce
  then show ?thesis
  proof (rule scopeFor_cases)
    assume "e' = e" with sf assms(1) show ?thesis by simp
  next
    assume e': "e' = e\<lparr>e_scopes := (e_scopes e)(sco \<mapsto> e_nextSid e),
       e_states := (e_states e)(e_nextSid e := newScopeState sco), e_nextSid := e_nextSid e + 1\<rparr>"
      and new: "trackedScope e sco = None"
    have "tracked_feeds e \<subseteq> tracked_feeds e'"
    proof
      fix h assume "h \<in> tracked_feeds e"
      then obtain sco' s where t: "trackedScope e sco' = Some s"
        and h: "sc_unsubscribe (sc_of e s) = Some h" by (auto simp: tracked_feeds_iff)
      from scopes_okD(1) [OF assms(2) t] new t h show "h \<in> tracked_feeds e'"
        unfolding tracked_feeds_iff
        by (intro exI [of _ sco'] exI [of _ s]) (auto simp: e' trackedScope_def)
    qed
    with sf assms(1) show ?thesis by (auto simp: feeds_in_def e')
  qed
qed

lemma release_scopes_ok: "scopes_ok e \<Longrightarrow> scopes_ok (release_feed h e)"
  using emove_scopes_ok [OF emove_release, of "Some {}" e h] by simp

lemma ending_feeds:
  assumes "feeds_ok w"
  shows "feeds_in (insert h (pending_feeds (end_task (BringingUp sco s h) w))) (w_eng w)"
proof -
  have "pending_feeds w \<subseteq> insert h (pending_feeds (end_task (BringingUp sco s h) w))"
  proof
    fix k assume "k \<in> pending_feeds w"
    then obtain sco' t where "BringingUp sco' t k \<in># w_tasks w" by (auto simp: pending_feeds_def)
    then show "k \<in> insert h (pending_feeds (end_task (BringingUp sco s h) w))"
      by (cases "BringingUp sco' t k = BringingUp sco s h")
        (auto simp: pending_feeds_def dest: other_task_stays)
  qed
  with assms show ?thesis by (auto simp: feeds_ok_in feeds_in_def)
qed

lemma scope_step_feeds:
  assumes "scope_step w w'" and ok: "world_ok w" and f: "feeds_ok w"
  shows "feeds_ok w'"
  using assms(1)
proof cases
  case (up_begin sco e1 s e2 h)
  have "feeds_in (pending_feeds w) e1"
    using feeds_in_scopeFor [OF f [unfolded feeds_ok_in] world_okD(5) [OF ok], of sco]
      bring_up_begin_fst [of sco "w_eng w"] up_begin(3) by simp
  moreover have "pending_feeds w' = insert h (pending_feeds w)"
    by (auto simp: up_begin(1) pending_feeds_def)
  ultimately show ?thesis using feeds_in_open [OF _ up_begin(4)] by (simp add: up_begin(1) feeds_ok_in)
next
  case (up_end sco s h)
  have fe: "feeds_in (insert h (pending_feeds w')) (w_eng w)"
    using ending_feeds [OF f, where sco = sco and s = s and h = h] up_end(1) by (simp add: pending_feeds_def)
  have tr: "trackedScope (w_eng w) sco = Some s" "sc_unsubscribe (sc_of (w_eng w) s) = None"
    using world_ok_task [OF ok up_end(2)] by (simp_all add: task_ok_def)
  from feeds_in_adopt [OF fe tr] feeds_in_drop [OF feeds_in_release [OF fe] release_scopes_ok]
    world_okD(5) [OF ok]
  show ?thesis by (simp add: up_end(1) feeds_ok_in bring_up_conclude_def pending_feeds_def)
next
  case (up_failed sco s h er)
  have fe: "feeds_in (insert h (pending_feeds w')) (w_eng w)"
    using ending_feeds [OF f, where sco = sco and s = s and h = h] up_failed(1) by (simp add: pending_feeds_def)
  from feeds_in_drop [OF feeds_in_release [OF fe] release_scopes_ok] world_okD(5) [OF ok]
  show ?thesis by (simp add: up_failed(1) feeds_ok_in bring_up_conclude_def pending_feeds_def)
next
  case (drop sco)
  from feeds_in_drop [OF f [unfolded feeds_ok_in] world_okD(5) [OF ok]] show ?thesis
    by (simp add: drop feeds_ok_in pending_feeds_def)
next
  case close
  with f show ?thesis by (auto simp: feeds_ok_def pending_feeds_def)
next
  case (verbs a b d k)
  with f show ?thesis
    by (auto simp: feeds_ok_def pending_feeds_def tracked_feeds_def trackedScopes_def)
qed

subsection \<open>Reachable worlds\<close>

lemma wstep_feeds:
  assumes "wstep w w'" and ok: "world_ok w" and f: "feeds_ok w"
  shows "feeds_ok w'"
proof -
  have same: "feeds_ok w'" if "moves_only None w w'" "pending_feeds w' = pending_feeds w"
    using feeds_ok_keep [OF f] moves_only_calm [OF that(1) ok] that emoves_none_feeds
    by (simp add: moves_only_def)
  have del: "feeds_ok w'" if "delivery_step w w'"
    using feeds_ok_keep [OF f] delivery_step_calm [OF that ok] delivery_step_feeds [OF that] by simp
  from assms(1) show ?thesis
    unfolding wstep_def
    using same ingest_step_moves [OF _ ok] ingest_step_pending rec_step_moves [OF _ ok]
      rec_step_feeds del scope_step_feeds [OF _ ok f] by metis
qed

lemma init_world_ok:
  assumes "um [] = None"
  shows "world_ok (init_world (new_engine hs reg um vc async))"
  using assms
  by (simp add: world_ok_def init_world_def base_ok_def cache_ok_def decoder_ok_def workers_wf_def
      doors_ok_def scopes_ok_def tasks_ok_def recs_ok_def new_engine_def trackedScope_def)

lemma init_world_feeds: "feeds_ok (init_world (new_engine hs reg um vc async))"
  by (simp add: feeds_ok_def init_world_def new_engine_def)

lemma init_world_slots:
  "slots_ok (new_engine hs reg um vc async) lst muted"
  by (simp add: slots_ok_def new_engine_def)

text \<open>The worlds of an engine from its constructor on.\<close>

definition runs_to ::
  "bool \<Rightarrow> registry option \<Rightarrow> (bytes \<Rightarrow> json option) \<Rightarrow> (ctx \<Rightarrow> scope \<Rightarrow> ctx) option \<Rightarrow> bool \<Rightarrow>
     world \<Rightarrow> bool"
where
  "runs_to hs reg um vc async w \<longleftrightarrow> reachable (new_engine hs reg um vc async) w"

lemma runs_to_ok:
  assumes "runs_to hs reg um vc async w" and "um [] = None"
  shows "world_ok w \<and> feeds_ok w \<and> slots_ok (w_eng w) (w_last w) (w_muted w)"
  using assms(1) unfolding runs_to_def
proof (induction rule: reachable.induct)
  case start
  show ?case
    using init_world_ok [where hs = hs and reg = reg and um = um and vc = vc and async = async, OF assms(2)]
      init_world_feeds init_world_slots by (simp add: init_world_def)
next
  case (more w w')
  then show ?case using wstep_ok wstep_feeds wstep_slots by blast
qed

lemma wstep_deletes:
  assumes "wstep w w'" and "world_ok w" and "s < e_nextSid (w_eng w)"
  shows "deletes_of (w_eng w) s nk \<le> deletes_of (w_eng w') s nk \<and> s < e_nextSid (w_eng w')"
proof -
  from wstep_moves [OF assms(1,2)] show ?thesis
  proof
    assume "\<exists>X. moves_only X w w'"
    then obtain X where "emoves X (w_eng w) (w_eng w')" by (auto simp: moves_only_def)
    from emoves_deletes [OF this assms(3)] emoves_const [OF this] assms(3) show ?thesis by auto
  next
    assume "touches (w_eng w) (w_eng w')"
    with assms(3) show ?thesis by (auto simp: touches_def deletes_of_def)
  qed
qed

lemma wsteps_deletes:
  assumes "wstep\<^sup>*\<^sup>* w w'" and "world_ok w" and "s < e_nextSid (w_eng w)"
  shows "deletes_of (w_eng w) s nk \<le> deletes_of (w_eng w') s nk"
proof -
  have "world_ok w' \<and> s < e_nextSid (w_eng w') \<and> deletes_of (w_eng w) s nk \<le> deletes_of (w_eng w') s nk"
    using assms(1)
  proof (induction rule: rtranclp_induct)
    case (step y z)
    with wstep_deletes [of y z s nk] wstep_ok show ?case by fastforce
  qed (simp add: assms(2,3))
  then show ?thesis by simp
qed

end
