(* ===== verification/Sample_World.thy ===== *)
theory Sample_World
  imports Engine_Worlds Sample
begin

text \<open>
  A concrete run of the engine for the witnesses: the single-tenant scope is brought up, a
  subscriber registers, and a local write is decoded and committed. Its worker then holds the
  change.
\<close>

definition world_opening :: world where
  "world_opening = put_task (BringingUp (Scope []) 0 0)
     (set_eng (fst (open_feed (fst (bring_up_begin (Scope []) sample_new)))) (init_world sample_new))"

definition world_open :: world where
  "world_open = set_eng (fst (bring_up_conclude (Scope []) 0 (Inr 0) (w_eng world_opening)))
     (end_task (BringingUp (Scope []) 0 0) world_opening)"

definition world_heard :: world where
  "world_heard = set_eng (fst (eng_OnChange sample_key True (w_eng world_open))) world_open"

definition sample_prep :: "err + publication" where
  "sample_prep = prepare dispatchContext (Scope []) (sample_row ''5'' 3) True
     (ingest_begin 0 sample_key (w_eng world_heard))"

definition world_writing :: world where
  "world_writing = put_task (Ingesting 0 sample_key sample_prep unarmed True)
     (set_eng (ingest_begin 0 sample_key (w_eng world_heard)) world_heard)"

definition world_written :: world where
  "world_written = set_eng (fst (ingest_commit 0 sample_key sample_prep unarmed True (w_eng world_writing)))
     (end_task (Ingesting 0 sample_key sample_prep unarmed True) world_writing)"

abbreviation sample_run :: "world \<Rightarrow> bool" where
  "sample_run \<equiv> runs_to True (Some (engine_view sample_registry)) sample_decoder None True"

lemma sample_run_step: "sample_run w \<Longrightarrow> wstep w w' \<Longrightarrow> sample_run w'"
  by (simp add: runs_to_def reachable.more)

lemma sample_run_start: "sample_run (init_world sample_new)"
  by (simp add: runs_to_def sample_new_def reachable.start)

lemma sample_begin:
  "bring_up_begin (Scope []) sample_new = (fst (bring_up_begin (Scope []) sample_new), Subscribing 0)"
  by (simp add: bring_up_begin_def scopeFor_def sample_new_def new_engine_def Let_def)

lemma sample_open:
  "open_feed (fst (bring_up_begin (Scope []) sample_new))
     = (fst (open_feed (fst (bring_up_begin (Scope []) sample_new))), 0)"
  by (simp add: bring_up_begin_def scopeFor_def sample_new_def new_engine_def Let_def open_feed_def)

lemma sample_run_opening: "sample_run world_opening"
  unfolding world_opening_def
  by (rule sample_run_step [OF sample_run_start], unfold wstep_def, intro disjI2,
      rule scope_step.up_begin [where ?e1.0 = "fst (bring_up_begin (Scope []) sample_new)"])
    (simp_all add: init_world_def sample_begin [symmetric] sample_open [symmetric])

lemma sample_run_open: "sample_run world_open"
  unfolding world_open_def
  by (rule sample_run_step [OF sample_run_opening], unfold wstep_def, intro disjI2, rule scope_step.up_end)
    (simp add: world_opening_def)

lemma sample_run_heard: "sample_run world_heard"
  unfolding world_heard_def
  by (rule sample_run_step [OF sample_run_open], unfold wstep_def)
    (rule disjI2, rule disjI2, rule disjI1, rule delivery_step.subscribe)

lemma world_open_eng:
  "w_eng world_open = upd_sc 0 (\<lambda>sc. sc\<lparr>sc_unsubscribe := Some 0\<rparr>)
     (fst (open_feed (fst (bring_up_begin (Scope []) sample_new))))"
  by (simp add: world_open_def world_opening_def bring_up_conclude_def open_feed_def
      bring_up_begin_def scopeFor_def sample_new_def new_engine_def Let_def)

lemma world_heard_fields:
  "e_scopes (w_eng world_heard) = [Scope [] \<mapsto> 0]"
  "\<not> e_closed (w_eng world_heard)" "\<not> e_workersClosed (w_eng world_heard)"
  "\<not> e_canceled (w_eng world_heard)"
  "e_registry (w_eng world_heard) = Some (engine_view sample_registry)"
  "e_unmarshal (w_eng world_heard) = sample_decoder"
  "e_validatorContext (w_eng world_heard) = None"
  "e_nextWid (w_eng world_heard) = 0"
  "e_subscribers (w_eng world_heard) sample_key = [1]"
  "sc_of (w_eng world_heard) 0 = (newScopeState (Scope []))\<lparr>sc_unsubscribe := Some 0\<rparr>"
  by (simp_all add: world_heard_def world_open_eng eng_OnChange_def open_feed_def modify_apply
      bring_up_begin_def scopeFor_def sample_new_def new_engine_def Let_def)

lemma sample_prep_eq:
  "sample_prep = Inr \<lparr>pub_scope = Scope [], pub_nk = sample_key, pub_rev = 3, pub_value = JStr ''5'',
     pub_raw = ''5'', pub_deleted = False, pub_at = 7, pub_by = ''op''\<rparr>"
  by (simp add: sample_prep_def prepare_def eng_lookup_def sample_row_def row_nk_def sample_key_def
      sample_decoder_def ingest_begin_def world_heard_fields)

lemma sample_row_nk [simp]: "row_nk (sample_row b r) = sample_key"
  by (simp add: sample_row_def row_nk_def sample_key_def)

lemma sample_run_writing: "sample_run world_writing"
proof -
  have "ingest_step world_heard (put_task (Ingesting 0 (row_nk (sample_row ''5'' 3))
      (prepare dispatchContext (sc_scope (sc_of (ingest_begin 0 sample_key (w_eng world_heard)) 0))
        (sample_row ''5'' 3) True (ingest_begin 0 sample_key (w_eng world_heard))) unarmed True)
      (set_eng (ingest_begin 0 sample_key (w_eng world_heard)) world_heard))"
    by (rule ingest_step.local_write [where sco = "Scope []"])
      (simp_all add: world_heard_fields writeScope_def trackedScope_def)
  then have "ingest_step world_heard world_writing"
    by (simp add: world_writing_def sample_prep_def world_heard_fields)
  then show ?thesis using sample_run_step [OF sample_run_heard] by (simp add: wstep_def)
qed

lemma sample_run_written: "sample_run world_written"
  unfolding world_written_def
  by (rule sample_run_step [OF sample_run_writing], unfold wstep_def, rule disjI1, rule ingest_step.commit)
    (simp add: world_writing_def)

subsection \<open>The written world, evaluated\<close>

lemma world_writing_guard: "publish_guard 0 (w_eng world_writing) = None"
  by (simp add: world_writing_def publish_guard_def world_heard_fields ingest_begin_def)

lemma world_writing_sc:
  "sc_of (w_eng world_writing) 0 = (newScopeState (Scope []))\<lparr>sc_unsubscribe := Some 0\<rparr>"
  by (simp add: world_writing_def world_heard_fields record_outcome_def ingest_begin_def
      newScopeState_def)

lemma world_written_eng:
  "w_eng world_written = upd_sc 0 (record_outcome sample_key True)
     (fst (publish_commit 0 (projr sample_prep) (w_eng world_writing)))"
  by (simp add: world_written_def ingest_commit_def sample_prep_eq publish_def world_writing_guard Let_def
      split: prod.splits)

lemma world_writing_env:
  "e_subscribers (w_eng world_writing) sample_key = [1]" "e_nextWid (w_eng world_writing) = 0"
  "\<not> e_workersClosed (w_eng world_writing)" "\<not> e_closed (w_eng world_writing)"
  "e_scopes (w_eng world_writing) = [Scope [] \<mapsto> 0]"
  by (simp_all add: world_writing_def world_heard_fields ingest_begin_def)

lemma world_written_fields:
  "sc_workers (sc_of (w_eng world_written) 0) sample_key = Some 0"
  "sc_entries (sc_of (w_eng world_written) 0) = [sample_key \<mapsto>
     \<lparr>ent_value = JStr ''5'', ent_raw = ''5'', ent_rev = 3, ent_at = 7, ent_by = ''op''\<rparr>]"
  "e_workers (w_eng world_written) 0 = submit \<lparr>ch_tenant = [], ch_ns = Namespace sample_key,
     ch_key = Key sample_key, ch_rev = 3, ch_value = JStr ''5''\<rparr> new_worker"
  "e_scopes (w_eng world_written) = [Scope [] \<mapsto> 0]"
  by (simp_all add: world_written_eng sample_prep_eq publish_commit_def Let_def fence_def
      world_writing_sc world_writing_env dispatch_def workerFor_def modify_apply change_of_def
      entry_of_def)

lemma world_written_idle:
  "w_muted world_written = {}" "w_tasks world_written = {#}" "w_rec world_written = (\<lambda>_. Idle)"
  "w_last world_written = (\<lambda>_. None)"
  by (simp_all add: world_written_def world_writing_def world_heard_def world_open_def
      world_opening_def init_world_def)

subsection \<open>A resync, and a delete\<close>

definition world_armed :: world where
  "world_armed = set_eng (fst (onEvent \<lparr>ev_scope = Scope [], ev_ns = [], ev_key = [],
     ev_op = OpResync, ev_rev = 0\<rparr> (w_eng world_written))) world_written"

lemma sample_run_armed: "sample_run world_armed"
  unfolding world_armed_def
  by (rule sample_run_step [OF sample_run_written], unfold wstep_def, rule disjI1,
      rule ingest_step.event)

lemma world_written_doors:
  "\<not> e_closed (w_eng world_written)" "\<not> e_workersClosed (w_eng world_written)"
  by (simp_all add: world_written_eng sample_prep_eq publish_commit_def Let_def fence_def
      world_writing_sc world_writing_env dispatch_def workerFor_def)

lemma world_written_mid:
  "sc_open (sc_of (w_eng world_written) 0) = {}"
  "sc_pending (sc_of (w_eng world_written) 0) = None"
  "sc_reconcileGen (sc_of (w_eng world_written) 0) = 0"
  "\<not> sc_stop (sc_of (w_eng world_written) 0)"
  by (simp_all add: world_written_eng sample_prep_eq publish_commit_def Let_def fence_def
      world_writing_sc world_writing_env dispatch_def workerFor_def newScopeState_def)

lemma world_armed_fields:
  "trackedScope (w_eng world_armed) (Scope []) = Some 0"
  "sc_pending (sc_of (w_eng world_armed) 0) \<noteq> None"
  "sc_open (sc_of (w_eng world_armed) 0) = {1}"
  by (simp_all add: world_armed_def onEvent_def Let_def onResync_def scopeForEvent_def
      trackedScope_def world_written_fields world_written_doors world_written_mid arm_scope_def
      armReconcile_def queueReconcile_def ensureReconcileWorker_def op_defs)

definition world_deleted :: world where
  "world_deleted = set_eng (fst (onEvent \<lparr>ev_scope = Scope [], ev_ns = Namespace sample_key,
     ev_key = Key sample_key, ev_op = OpDelete, ev_rev = 0\<rparr> (w_eng world_written))) world_written"

definition world_settled :: world where
  "world_settled = set_eng (endWork (w_eng world_deleted)) world_deleted"

lemma sample_run_deleted: "sample_run world_deleted"
  unfolding world_deleted_def
  by (rule sample_run_step [OF sample_run_written], unfold wstep_def, rule disjI1,
      rule ingest_step.event)

lemma world_settled_step: "wstep world_deleted world_settled"
  unfolding world_settled_def wstep_def by (rule disjI1, rule ingest_step.work_done)

lemma sample_key_eta [simp]: "NSKey (Namespace sample_key) (Key sample_key) = sample_key"
  by simp

lemma world_written_registry: "e_registry (w_eng world_written) = Some (engine_view sample_registry)"
  by (simp add: world_written_eng sample_prep_eq publish_commit_def Let_def fence_def
      world_writing_sc dispatch_def workerFor_def world_writing_env)
    (simp add: world_writing_def world_heard_fields ingest_begin_def)

lemma world_deleted_fields:
  "deletes_of (w_eng world_deleted) 0 sample_key = deletes_of (w_eng world_written) 0 sample_key + 1"
  "e_nextSid (w_eng world_deleted) = 1"
proof -
  have "trackedScope (w_eng world_written) (Scope []) = Some 0"
    by (simp add: trackedScope_def world_written_fields)
  moreover have "eng_lookup (w_eng world_written) sample_key \<noteq> None"
    by (simp add: eng_lookup_def world_written_registry)
  moreover have "e_nextSid (w_eng world_written) = 1"
    using bring_up_begin_fst [of "Scope []" sample_new]
    by (simp add: world_written_eng sample_prep_eq publish_commit_def Let_def fence_def
        world_writing_sc dispatch_def workerFor_def world_writing_env)
      (simp add: world_writing_def world_heard_def world_open_eng ingest_begin_def eng_OnChange_def
        Let_def open_feed_def scopeFor_def sample_new_def new_engine_def)
  ultimately show
    "deletes_of (w_eng world_deleted) 0 sample_key = deletes_of (w_eng world_written) 0 sample_key + 1"
    "e_nextSid (w_eng world_deleted) = 1"
    by (simp_all add: world_deleted_def onEvent_def op_defs Let_def world_written_doors
        recordFeedDelete_counts) (simp add: recordFeedDelete_tracked)
qed

lemma world_written_env:
  "e_subscribers (w_eng world_written) sample_key = [1]"
  "e_nextSub (w_eng world_written) = 1" "\<not> e_canceled (w_eng world_written)"
  "e_unmarshal (w_eng world_written) = sample_decoder"
  "sc_scope (sc_of (w_eng world_written) 0) = Scope []"
proof -
  have 1: "e_nextSub (w_eng world_writing) = 1" "\<not> e_canceled (w_eng world_writing)"
    "e_unmarshal (w_eng world_writing) = sample_decoder"
    by (simp_all add: world_writing_def ingest_begin_def world_heard_fields)
      (simp add: world_heard_def world_open_eng eng_OnChange_def Let_def open_feed_def
        bring_up_begin_def scopeFor_def sample_new_def new_engine_def)
  show "e_subscribers (w_eng world_written) sample_key = [1]"
  "e_nextSub (w_eng world_written) = 1" "\<not> e_canceled (w_eng world_written)"
  "e_unmarshal (w_eng world_written) = sample_decoder"
  "sc_scope (sc_of (w_eng world_written) 0) = Scope []"
    by (simp_all add: world_written_eng sample_prep_eq publish_commit_def Let_def fence_def
      world_writing_sc dispatch_def workerFor_def world_writing_env 1)
qed

subsection \<open>A late subscriber\<close>

text \<open>
  The guard of the first property is needed. A publication is queued only for a key that has a
  subscriber at that moment, and a change queued earlier is not withdrawn: here the only subscriber
  leaves while revision 3 waits in the slot, revision 4 is published to nobody, and the subscriber
  that registers next is handed revision 3 and nothing after it.
\<close>

definition world_left :: world where
  "world_left = (set_eng (unsubscribe_fn sample_key 1 (w_eng world_written)) world_written)
     \<lparr>w_muted := {sample_key}\<rparr>"

definition late_prep :: "err + publication" where
  "late_prep = Inr \<lparr>pub_scope = Scope [], pub_nk = sample_key, pub_rev = 4, pub_value = JStr ''6'',
     pub_raw = ''6'', pub_deleted = False, pub_at = 7, pub_by = ''op''\<rparr>"

definition world_rewriting :: world where
  "world_rewriting = put_task (Ingesting 0 sample_key late_prep unarmed True)
     (set_eng (ingest_begin 0 sample_key (w_eng world_left)) world_left)"

definition world_rewritten :: world where
  "world_rewritten = set_eng (fst (ingest_commit 0 sample_key late_prep unarmed True (w_eng world_rewriting)))
     (end_task (Ingesting 0 sample_key late_prep unarmed True) world_rewriting)"

definition world_late :: world where
  "world_late = set_eng (fst (eng_OnChange sample_key True (w_eng world_rewritten))) world_rewritten"

definition world_woken :: world where
  "world_woken = set_eng (worker_wake 0 \<lparr>wk_scope = Scope [], wk_nk = sample_key\<rparr> (w_eng world_late)) world_late"

lemma world_left_eng:
  "sc_of (w_eng world_left) = sc_of (w_eng world_written)"
  "e_subscribers (w_eng world_left) sample_key = []"
  "e_nextSub (w_eng world_left) = 1"
  "e_scopes (w_eng world_left) = [Scope [] \<mapsto> 0]"
  "\<not> e_closed (w_eng world_left)" "\<not> e_canceled (w_eng world_left)"
  "e_workers (w_eng world_left) = e_workers (w_eng world_written)"
  "e_registry (w_eng world_left) = Some (engine_view sample_registry)"
  "e_unmarshal (w_eng world_left) = sample_decoder"
  by (simp_all add: world_left_def unsubscribe_fn_def modify_apply world_written_env
      world_written_fields world_written_doors world_written_registry)

lemma late_prep_eq:
  "prepare dispatchContext (sc_scope (sc_of (ingest_begin 0 sample_key (w_eng world_left)) 0))
     (sample_row ''6'' 4) True (ingest_begin 0 sample_key (w_eng world_left)) = late_prep"
  by (simp add: late_prep_def prepare_def eng_lookup_def sample_row_def row_nk_def sample_key_def
      sample_decoder_def ingest_begin_def world_left_eng world_written_env)

lemma world_rewritten_eng:
  "w_eng world_rewritten = upd_sc 0 (record_outcome sample_key True)
     (fst (publish_commit 0 (projr late_prep) (w_eng world_rewriting)))"
  by (simp add: world_rewritten_def ingest_commit_def late_prep_def publish_def Let_def
      publish_guard_def world_rewriting_def ingest_begin_def world_left_eng world_written_mid
      split: prod.splits)

lemma world_rewritten_fields:
  "e_workers (w_eng world_rewritten) = e_workers (w_eng world_written)"
  "e_subscribers (w_eng world_rewritten) sample_key = []"
  "e_nextSub (w_eng world_rewritten) = 1"
  "\<not> e_closed (w_eng world_rewritten)" "\<not> e_canceled (w_eng world_rewritten)"
  "sc_entries (sc_of (w_eng world_rewritten) 0) sample_key = Some
     \<lparr>ent_value = JStr ''6'', ent_raw = ''6'', ent_rev = 4, ent_at = 7, ent_by = ''op''\<rparr>"
  by (simp_all add: world_rewritten_eng late_prep_def publish_commit_def Let_def fence_def
      world_rewriting_def ingest_begin_def world_left_eng world_written_fields dispatch_def
      entry_of_def)

lemma world_late_fields:
  "e_workers (w_eng world_late) = e_workers (w_eng world_written)"
  "e_subscribers (w_eng world_late) sample_key = [2]"
  "sc_of (w_eng world_late) = sc_of (w_eng world_rewritten)"
  "\<not> e_canceled (w_eng world_late)"
  by (simp_all add: world_late_def eng_OnChange_def Let_def world_rewritten_fields modify_apply)

lemma sample_run_late: "sample_run world_woken"
proof -
  have 1: "sample_run world_left"
  proof (rule sample_run_step [OF sample_run_written])
    have "delivery_step world_written world_left"
      unfolding world_left_def using world_written_env(1)
      by (intro back_subst [of "delivery_step world_written", OF delivery_step.unsubscribe])
        (auto simp: unsubscribe_fn_def modify_apply world_written_idle)
    then show "wstep world_written world_left" by (simp add: wstep_def)
  qed
  have "ingest_step world_left (put_task (Ingesting 0 (row_nk (sample_row ''6'' 4))
      (prepare dispatchContext (sc_scope (sc_of (ingest_begin 0 sample_key (w_eng world_left)) 0))
        (sample_row ''6'' 4) True (ingest_begin 0 sample_key (w_eng world_left))) unarmed True)
      (set_eng (ingest_begin 0 sample_key (w_eng world_left)) world_left))"
    by (rule ingest_step.local_write [where sco = "Scope []"])
      (simp_all add: world_left_eng writeScope_def trackedScope_def)
  then have "ingest_step world_left world_rewriting"
    by (simp only: late_prep_eq sample_row_nk world_rewriting_def)
  then have 2: "sample_run world_rewriting"
    using sample_run_step [OF 1] by (simp add: wstep_def)
  have 3: "sample_run world_rewritten"
    unfolding world_rewritten_def
    by (rule sample_run_step [OF 2], unfold wstep_def, rule disjI1, rule ingest_step.commit)
      (simp add: world_rewriting_def)
  have 4: "sample_run world_late"
    unfolding world_late_def
    by (rule sample_run_step [OF 3], unfold wstep_def)
      (rule disjI2, rule disjI2, rule disjI1, rule delivery_step.subscribe)
  show ?thesis
    unfolding world_woken_def
    by (rule sample_run_step [OF 4], unfold wstep_def, rule disjI2, rule disjI2, rule disjI1,
        rule delivery_step.worker_wakes) (simp add: world_late_fields world_written_fields submit_def)
qed

end
