(* ===== verification/World_Theorems.thy ===== *)
theory World_Theorems
  imports Sample_World
begin

text \<open>
  What holds of every interleaving: the properties of reachable worlds, each with its witness on
  the run of Sample_World.
\<close>

subsection \<open>Delivery\<close>

text \<open>C6.
  Subscribers end on the newest value, whatever the interleaving. In every reachable world, a live
  delivery worker of a key whose subscriber list was never emptied has for its subscribers exactly
  what the cache holds: the change waiting in its slot, or the last one it handed out when the slot
  is empty.
\<close>

theorem subscribers_end_on_newest:
  assumes "runs_to hs reg um vc async w" and "um [] = None"
    and "sc_workers (sc_of (w_eng w) s) nk = Some i" and "nk \<notin> w_muted w"
  shows "\<exists>c. sc_entries (sc_of (w_eng w) s) nk = Some c
    \<and> handed (w_eng w) (w_last w) i
        = Some (change_of_entry (sc_scope (sc_of (w_eng w) s)) nk c)"
  using slots_okD(2) [OF _ assms(3,4)] runs_to_ok [OF assms(1,2)] by blast

theorem subscribers_end_on_newest_witness:
  "\<exists>c. sc_entries (sc_of (w_eng world_written) 0) sample_key = Some c
    \<and> handed (w_eng world_written) (w_last world_written) 0
        = Some (change_of_entry (sc_scope (sc_of (w_eng world_written) 0)) sample_key c)"
  by (rule subscribers_end_on_newest [OF sample_run_written])
    (simp_all add: sample_decoder_def world_written_fields world_written_idle)

subsection \<open>The cache\<close>

text \<open>C7.
  Every cached entry is backed, in every reachable world: its key is registered, and its value is
  what the decoder makes of the row it came from, or the key's default at revision zero.
\<close>

theorem cache_always_backed:
  assumes "runs_to hs reg um vc async w" and "um [] = None"
    and "sc_entries (sc_of (w_eng w) s) nk = Some c"
  shows "entry_ok (w_eng w) nk c"
  using runs_to_ok [OF assms(1,2)] assms(3) world_okD(1) [of w] by (auto simp: cache_ok_def)

theorem cache_always_backed_witness:
  "entry_ok (w_eng world_written) sample_key
     \<lparr>ent_value = JStr ''5'', ent_raw = ''5'', ent_rev = 3, ent_at = 7, ent_by = ''op''\<rparr>"
  by (rule cache_always_backed [OF sample_run_written, where s = 0])
    (simp_all add: sample_decoder_def world_written_fields)

subsection \<open>Staleness and windows\<close>

text \<open>C8.
  While a resync is queued, or the reconcile that answers the newest one has not applied its
  snapshot, every read of the scope says so.
\<close>

theorem stale_while_reconcile_owed:
  assumes "runs_to hs reg um vc async w" and "um [] = None"
    and "trackedScope (w_eng w) sco = Some s"
    and "sc_pending (sc_of (w_eng w) s) \<noteq> None
      \<or> (\<exists>a. pc_arm (w_rec w s) = Some a \<and> \<not> finishing (w_rec w s)
             \<and> \<not> superseded (sc_of (w_eng w) s) a)"
  shows "pe_stale (fst (Lookup sco nk (w_eng w)))"
proof -
  have "rec_ok (sc_of (w_eng w) s) (w_rec w s)"
    using runs_to_ok [OF assms(1,2)] armings_okD [OF world_ok_armings [of w]] by blast
  then have "sc_stale (sc_of (w_eng w) s)" using assms(4) by (rule rec_ok_owed)
  with assms(3) show ?thesis by (auto simp: Lookup_def Let_def zero_Entry_def split: option.splits)
qed

theorem stale_while_reconcile_owed_witness:
  "pe_stale (fst (Lookup (Scope []) sample_key (w_eng world_armed)))"
  by (rule stale_while_reconcile_owed
      [OF sample_run_armed _ world_armed_fields(1) disjI1 [OF world_armed_fields(2)]])
    (simp add: sample_decoder_def)

text \<open>Windows do not leak: a scope never has more than two reconciles' windows open, and none once
  nothing is queued and its reconcile goroutine is idle.
\<close>

theorem windows_bounded:
  assumes "runs_to hs reg um vc async w" and "um [] = None"
  shows "card (sc_open (sc_of (w_eng w) s)) \<le> 2
    \<and> (sc_pending (sc_of (w_eng w) s) = None \<and> w_rec w s = Idle \<longrightarrow>
         sc_open (sc_of (w_eng w) s) = {})"
proof -
  let ?A = "set_option (sc_pending (sc_of (w_eng w) s)) \<union> set_option (pc_arm (w_rec w s))"
  have sub: "sc_open (sc_of (w_eng w) s) \<subseteq> arm_reconcile ` ?A"
    using runs_to_ok [OF assms] armings_okD [OF world_ok_armings [of w], of s]
    by (simp add: rec_ok_def)
  have "card ?A \<le> 2"
    by (cases "sc_pending (sc_of (w_eng w) s)"; cases "pc_arm (w_rec w s)") (simp_all add: card_insert_if)
  then have "card (arm_reconcile ` ?A) \<le> 2" using card_image_le [of ?A arm_reconcile] by simp
  with sub have "card (sc_open (sc_of (w_eng w) s)) \<le> 2"
    using card_mono [of "arm_reconcile ` ?A", OF _ sub] by simp
  with sub show ?thesis by auto
qed

theorem windows_bounded_witness:
  "card (sc_open (sc_of (w_eng world_written) 0)) \<le> 2
    \<and> sc_open (sc_of (w_eng world_written) 0) = {}"
  using windows_bounded [OF sample_run_written, of 0]
  by (simp add: sample_decoder_def world_written_mid world_written_idle)

text \<open>No changefeed outlives its owner: once the engine is closed and no bring-up is inside Subscribe,
  no feed is open; before that, each open one is the handle of a tracked scope or in the hands of a
  bring-up in flight.
\<close>

theorem feeds_have_owners:
  assumes "runs_to hs reg um vc async w" and "um [] = None" and "h \<in> e_feeds (w_eng w)"
  shows "(\<exists>sco s. BringingUp sco s h \<in># w_tasks w)
    \<or> (\<not> e_closed (w_eng w) \<and> (\<exists>sco s. trackedScope (w_eng w) sco = Some s
         \<and> sc_unsubscribe (sc_of (w_eng w) s) = Some h))"
  using runs_to_ok [OF assms(1,2)] assms(3)
  by (auto simp: feeds_ok_def tracked_feeds_iff pending_feeds_iff)

theorem feeds_have_owners_witness:
  "(\<exists>sco s. BringingUp sco s 0 \<in># w_tasks world_opening)
    \<or> (\<not> e_closed (w_eng world_opening)
       \<and> (\<exists>sco s. trackedScope (w_eng world_opening) sco = Some s
         \<and> sc_unsubscribe (sc_of (w_eng world_opening) s) = Some 0))"
  by (rule feeds_have_owners [OF sample_run_opening])
    (simp_all add: sample_decoder_def world_opening_def open_feed_def Let_def bring_up_begin_def
      scopeFor_def sample_new_def new_engine_def)

subsection \<open>Fences\<close>

text \<open>A fence a delete has overtaken stays overtaken: whatever runs between, a re-read that armed
  before the delete never again passes its check, so it can never restore the deleted row.
\<close>

theorem overtaken_fence_stays_overtaken:
  assumes "runs_to hs reg um vc async w" and "um [] = None" and "wstep\<^sup>*\<^sup>* w w'"
    and "s < e_nextSid (w_eng w)" and "ff_armed f"
    and "kf_deletes (ff_key f) < deletes_of (w_eng w) s nk"
  shows "supersededByDelete (sc_of (w_eng w') s) nk f"
  using wsteps_deletes [OF assms(3) _ assms(4), of nk] runs_to_ok [OF assms(1,2)] assms(5,6)
  by (auto simp: supersededByDelete_def deletes_of_def)

theorem overtaken_fence_stays_overtaken_witness:
  "supersededByDelete (sc_of (w_eng world_settled) 0) sample_key
     (fenceFor (sc_of (w_eng world_written) 0) sample_key)"
  by (rule overtaken_fence_stays_overtaken
      [OF sample_run_deleted _ r_into_rtranclp [of wstep, OF world_settled_step]])
    (simp_all add: sample_decoder_def fenceFor_def world_deleted_fields flip: deletes_of_def)

subsection \<open>A late subscriber\<close>

text \<open>C9.
  The guard of \<open>subscribers_end_on_newest\<close> is needed. A run exists in which the newest accepted
  publication is revision 4, the only subscriber registered after it, and the worker hands that
  subscriber revision 3 and is left with nothing more to hand out: a change queued before the last
  subscriber left is neither withdrawn nor replaced.
\<close>

theorem late_subscriber_gets_older:
  "\<exists>w e' ch c. sample_run w \<and> sc_entries (sc_of (w_eng w) 0) sample_key = Some c \<and> ent_rev c = 4
     \<and> worker_serve 0 \<lparr>wk_scope = Scope [], wk_nk = sample_key\<rparr> (w_eng w) = (e', Some [(2, ch)])
     \<and> ch_rev ch = 3 \<and> pending_change (e_workers e' 0) = None"
proof -
  let ?ch = "\<lparr>ch_tenant = [], ch_ns = Namespace sample_key, ch_key = Key sample_key, ch_rev = 3,
    ch_value = JStr ''5''\<rparr>"
  let ?e = "w_eng world_woken"
  let ?x = "fst (take_pending (e_workers ?e 0))"
  have "worker_serve 0 \<lparr>wk_scope = Scope [], wk_nk = sample_key\<rparr> ?e
      = (?e\<lparr>e_workers := (e_workers ?e)(0 := ?x)\<rparr>, Some [(2, ?ch)])"
    and "pending_change ?x = None"
    and "sc_entries (sc_of ?e 0) sample_key = Some
     \<lparr>ent_value = JStr ''6'', ent_raw = ''6'', ent_rev = 4, ent_at = 7, ent_by = ''op''\<rparr>"
    by (simp_all add: world_woken_def worker_wake_def worker_serve_def worker_stopped_def
        world_late_fields world_rewritten_fields world_written_fields modify_apply submit_def
        take_pending_def deliver_def pending_change_def new_worker_def)
  with sample_run_late show ?thesis by fastforce
qed

end
