(* ===== verification/Activation.thy ===== *)
theory Activation
  imports Engine_Worlds
begin

text \<open>
  The scope verbs (\<^verbatim>\<open>internal/engine/activate.go\<close>): activation on a first read, blocking, rebuilding.
  At most one goroutine holds a scope's slot; \<open>holder\<close> is where it stands. \<open>astep\<close> runs the verbs,
  the holders and everything else of a world concurrently, and \<open>astep_wsteps\<close> shows that the slot
  gives the exclusion that the steps of a world presuppose.
\<close>

subsection \<open>The verbs\<close>

text \<open>The flag says a holder was launched.\<close>

definition launchActivation :: "scope \<Rightarrow> bool \<Rightarrow> engine \<Rightarrow> engine \<times> bool" where
  "launchActivation sco rebuild e =
     (case beginWork e of
        (e', False) \<Rightarrow> (e', False)
      | (e', True) \<Rightarrow> (e'\<lparr>e_activating := (e_activating e')(sco \<mapsto> rebuild)\<rparr>, True))"

definition cooling :: "time \<Rightarrow> scope \<Rightarrow> engine \<Rightarrow> bool" where
  "cooling now sco e =
     (case e_failedAt e sco of None \<Rightarrow> False | Some failed \<Rightarrow> now - failed < e_retryDelay e)"

definition Activate :: "time \<Rightarrow> scope \<Rightarrow> engine \<Rightarrow> engine \<times> bool" where
  "Activate now sco e =
     (if sco \<in> e_blocked e \<or> e_activating e sco \<noteq> None \<or> e_closed e \<or> trackedScope e sco \<noteq> None
      then (e, False)
      else if cooling now sco e then (e, False)
      else launchActivation sco False e)"

definition supersede :: "scope \<Rightarrow> engine \<Rightarrow> engine \<times> bool" where
  "supersede sco e =
     (if e_activating e sco \<noteq> None
      then (e\<lparr>e_activating := (e_activating e)(sco \<mapsto> True)\<rparr>, False)
      else if trackedScope e sco \<noteq> None then launchActivation sco True e
      else (e, False))"

definition Block :: "scope \<Rightarrow> engine \<Rightarrow> engine \<times> bool" where
  "Block sco e = supersede sco (e\<lparr>e_blocked := insert sco (e_blocked e)\<rparr>)"

definition Unblock :: "scope \<Rightarrow> engine \<Rightarrow> engine" where
  "Unblock sco e = e\<lparr>e_blocked := e_blocked e - {sco}, e_failedAt := (e_failedAt e)(sco := None)\<rparr>"

definition Blocked :: "scope \<Rightarrow> engine \<Rightarrow> bool" where
  "Blocked sco e = (sco \<in> e_blocked e)"

definition Reactivate :: "scope \<Rightarrow> engine \<Rightarrow> engine \<times> bool" where
  "Reactivate sco e =
     (if sco \<in> e_blocked e then (e, False)
      else supersede sco (e\<lparr>e_failedAt := (e_failedAt e)(sco := None)\<rparr>))"

definition releaseActivation :: "time \<Rightarrow> scope \<Rightarrow> bool \<Rightarrow> engine \<Rightarrow> engine \<times> bool" where
  "releaseActivation now sco up e =
     (if e_activating e sco = Some True
      then (e\<lparr>e_activating := (e_activating e)(sco \<mapsto> False)\<rparr>, False)
      else (e\<lparr>e_activating := (e_activating e)(sco := None),
              e_failedAt := (e_failedAt e)(sco := (if up then None else Some now))\<rparr>, True))"

subsection \<open>The holder of a slot\<close>

text \<open>
  \<open>activate\<close> is \<open>Activating\<close>, \<open>Subscribing_Feed\<close> and \<open>Waiting\<close>; the loop of \<open>endActivation\<close> is
  \<open>Settling\<close>, \<open>Dropping\<close> and \<open>Deciding\<close>. A rebuild starts at \<open>Settling\<close>.
\<close>

datatype holder =
    Activating
  | Subscribing_Feed sid nat
  | Waiting sid
  | Settling bool
  | Dropping
  | Deciding

record aworld =
  a_world :: world
  a_hold :: "scope \<Rightarrow> holder option"

abbreviation a_eng :: "aworld \<Rightarrow> engine" where
  "a_eng a \<equiv> w_eng (a_world a)"

definition go :: "world \<Rightarrow> scope \<Rightarrow> holder option \<Rightarrow> aworld \<Rightarrow> aworld" where
  "go w sco h a = \<lparr>a_world = w, a_hold = (a_hold a)(sco := h)\<rparr>"

definition at_eng :: "engine \<Rightarrow> aworld \<Rightarrow> world" where
  "at_eng e a = set_eng e (a_world a)"

lemma go_simps [simp]:
  "a_world (go w sco h a) = w" "a_hold (go w sco h a) = (a_hold a)(sco := h)"
  "w_eng (at_eng e a) = e" "w_tasks (at_eng e a) = w_tasks (a_world a)"
  "w_rec (at_eng e a) = w_rec (a_world a)" "w_last (at_eng e a) = w_last (a_world a)"
  "w_muted (at_eng e a) = w_muted (a_world a)"
  by (simp_all add: go_def at_eng_def)

definition launched :: "engine \<times> bool \<Rightarrow> scope \<Rightarrow> holder \<Rightarrow> aworld \<Rightarrow> aworld" where
  "launched r sco h a =
     (case r of (e, b) \<Rightarrow> go (at_eng e a) sco (if b then Some h else a_hold a sco) a)"

inductive verb_step :: "aworld \<Rightarrow> aworld \<Rightarrow> bool" where
  activate_call: "verb_step a (launched (Activate now sco (a_eng a)) sco Activating a)"
| block_call: "verb_step a (launched (Block sco (a_eng a)) sco (Settling False) a)"
| unblock_call: "verb_step a (go (at_eng (Unblock sco (a_eng a)) a) sco (a_hold a sco) a)"
| reactivate_call: "verb_step a (launched (Reactivate sco (a_eng a)) sco (Settling False) a)"

inductive holder_step :: "aworld \<Rightarrow> aworld \<Rightarrow> bool" where
  starts:
  "a_hold a sco = Some Activating \<Longrightarrow> bring_up_begin sco (a_eng a) = (e1, Subscribing s) \<Longrightarrow>
     open_feed e1 = (e2, h) \<Longrightarrow>
     holder_step a (go (put_task (BringingUp sco s h) (at_eng e2 a)) sco (Some (Subscribing_Feed s h)) a)"
| starts_up:
  "a_hold a sco = Some Activating \<Longrightarrow> bring_up_begin sco (a_eng a) = (e1, Already s) \<Longrightarrow>
     holder_step a (go (at_eng e1 a) sco (Some (Waiting s)) a)"
| starts_refused:
  "a_hold a sco = Some Activating \<Longrightarrow> bring_up_begin sco (a_eng a) = (e1, Refused er) \<Longrightarrow>
     holder_step a (go (at_eng (dropScope sco e1) a) sco (Some (Settling False)) a)"
| subscribed:
  "a_hold a sco = Some (Subscribing_Feed s h) \<Longrightarrow>
     bring_up_conclude sco s (Inr h) (a_eng a) = (e', Inr s') \<Longrightarrow>
     holder_step a (go (end_task (BringingUp sco s h) (at_eng e' a)) sco (Some (Waiting s')) a)"
| subscribed_closed:
  "a_hold a sco = Some (Subscribing_Feed s h) \<Longrightarrow>
     bring_up_conclude sco s (Inr h) (a_eng a) = (e', Inl er) \<Longrightarrow>
     holder_step a (go (end_task (BringingUp sco s h) (at_eng (dropScope sco e') a)) sco
       (Some (Settling False)) a)"
| subscribe_failed:
  "a_hold a sco = Some (Subscribing_Feed s h) \<Longrightarrow>
     e' = fst (bring_up_conclude sco s (Inl er) (release_feed (Some h) (a_eng a))) \<Longrightarrow>
     holder_step a (go (end_task (BringingUp sco s h) (at_eng (dropScope sco e') a)) sco
       (Some (Settling False)) a)"
| reconciled:
  "a_hold a sco = Some (Waiting s) \<Longrightarrow> sc_firstDone (sc_of (a_eng a) s) \<Longrightarrow>
     sc_firstErr (sc_of (a_eng a) s) = None \<Longrightarrow>
     holder_step a (go (a_world a) sco (Some (Settling True)) a)"
| reconcile_failed:
  "a_hold a sco = Some (Waiting s) \<Longrightarrow> sc_firstDone (sc_of (a_eng a) s) \<Longrightarrow>
     sc_firstErr (sc_of (a_eng a) s) = Some er \<Longrightarrow>
     holder_step a (go (at_eng (dropScope sco (a_eng a)) a) sco (Some (Settling False)) a)"
| wait_canceled:
  "a_hold a sco = Some (Waiting s) \<Longrightarrow> e_canceled (a_eng a) \<Longrightarrow>
     holder_step a (go (a_world a) sco (Some (Settling False)) a)"
| settled:
  "a_hold a sco = Some (Settling up) \<Longrightarrow> releaseActivation now sco up (a_eng a) = (e', True) \<Longrightarrow>
     holder_step a (go (at_eng (endWork e') a) sco None a)"
| superseded:
  "a_hold a sco = Some (Settling up) \<Longrightarrow> releaseActivation now sco up (a_eng a) = (e', False) \<Longrightarrow>
     holder_step a (go (at_eng e' a) sco (Some Dropping) a)"
| dropped:
  "a_hold a sco = Some Dropping \<Longrightarrow>
     holder_step a (go (at_eng (dropScope sco (a_eng a)) a) sco (Some Deciding) a)"
| decide_stop:
  "a_hold a sco = Some Deciding \<Longrightarrow> Blocked sco (a_eng a) \<or> e_closed (a_eng a) \<Longrightarrow>
     holder_step a (go (a_world a) sco (Some (Settling False)) a)"
| decide_go:
  "a_hold a sco = Some Deciding \<Longrightarrow> \<not> Blocked sco (a_eng a) \<Longrightarrow> \<not> e_closed (a_eng a) \<Longrightarrow>
     holder_step a (go (a_world a) sco (Some Activating) a)"

inductive other_step :: "aworld \<Rightarrow> aworld \<Rightarrow> bool" where
  data: "ingest_step (a_world a) w \<or> rec_step (a_world a) w \<or> delivery_step (a_world a) w \<Longrightarrow>
     other_step a (a\<lparr>a_world := w\<rparr>)"
| shut: "other_step a (a\<lparr>a_world := at_eng (close_shut (a_eng a)) a\<rparr>)"

definition astep :: "aworld \<Rightarrow> aworld \<Rightarrow> bool" where
  "astep a a' \<longleftrightarrow> verb_step a a' \<or> holder_step a a' \<or> other_step a a'"

definition idle_world :: "engine \<Rightarrow> aworld" where
  "idle_world e = \<lparr>a_world = init_world e, a_hold = Map.empty\<rparr>"

subsection \<open>The slot gives exclusion\<close>

text \<open>The verbs only move the slots, the blocks, the cooldowns and the wait group.\<close>

definition verbs_only :: "engine \<Rightarrow> engine \<Rightarrow> bool" where
  "verbs_only e e' \<longleftrightarrow> e = e'\<lparr>e_activating := e_activating e, e_blocked := e_blocked e,
     e_failedAt := e_failedAt e, e_wg := e_wg e\<rparr>"

lemma verbs_only_alt:
  assumes "verbs_only e e'"
  shows "e' = e\<lparr>e_activating := e_activating e', e_blocked := e_blocked e',
     e_failedAt := e_failedAt e', e_wg := e_wg e'\<rparr>"
  by (subst assms [unfolded verbs_only_def]) simp

lemma verbs_only_fields:
  assumes "verbs_only e e'"
  shows "e_scopes e' = e_scopes e" "e_states e' = e_states e" "e_workersClosed e' = e_workersClosed e"
    "e_closed e' = e_closed e" "trackedScope e' sco = trackedScope e sco"
  by (subst verbs_only_alt [OF assms], simp add: trackedScope_def)+

lemma verbs_only_step: "verbs_only (w_eng w) e' \<Longrightarrow> wstep w (set_eng e' w)"
  by (subst verbs_only_alt, assumption) (simp add: wstep_def scope_step.verbs)

lemma verbs_onlyI:
  "verbs_only e e" "fst (launchActivation sco b e) = e' \<Longrightarrow> verbs_only e e'"
  "verbs_only e (Unblock sco e)"
  by (auto simp: verbs_only_def launchActivation_def beginWork_def Unblock_def)

lemma supersede_verbs: "verbs_only e (fst (supersede sco e))"
  by (simp add: supersede_def verbs_onlyI) (simp add: verbs_only_def)

lemma verbs_only_Activate: "verbs_only e (fst (Activate now sco e))"
  by (simp add: Activate_def verbs_onlyI)

lemma verbs_only_trans:
  assumes "verbs_only e e'" and "verbs_only e' e''"
  shows "verbs_only e e''"
proof -
  have "e'\<lparr>e_activating := a, e_blocked := b, e_failedAt := d, e_wg := k\<rparr>
      = e''\<lparr>e_activating := a, e_blocked := b, e_failedAt := d, e_wg := k\<rparr>" for a b d k
    by (subst assms(2) [unfolded verbs_only_def]) simp
  with assms(1) show ?thesis by (simp add: verbs_only_def)
qed

lemma verbs_only_Block: "verbs_only e (fst (Block sco e))"
  unfolding Block_def by (rule verbs_only_trans [OF _ supersede_verbs]) (simp add: verbs_only_def)

lemma verbs_only_Reactivate: "verbs_only e (fst (Reactivate sco e))"
proof -
  have "verbs_only e (e\<lparr>e_failedAt := f\<rparr>)" for f by (simp add: verbs_only_def)
  from verbs_only_trans [OF this supersede_verbs] show ?thesis
    by (simp add: Reactivate_def verbs_onlyI)
qed

lemma verbs_only_release: "verbs_only e (endWork (fst (releaseActivation now sco up e)))"
  "verbs_only e (fst (releaseActivation now sco up e))"
  by (simp_all add: releaseActivation_def endWork_def verbs_only_def)

subsubsection \<open>Steps of the holders are steps of a world\<close>

text \<open>The tasks of a world that bring scopes up are exactly the holders inside Subscribe.\<close>

definition in_step :: "aworld \<Rightarrow> bool" where
  "in_step a \<longleftrightarrow> (\<forall>sco s h. BringingUp sco s h \<in># w_tasks (a_world a)
     \<longleftrightarrow> a_hold a sco = Some (Subscribing_Feed s h))"

lemma drop_wstep:
  "\<forall>s h. BringingUp sco s h \<notin># w_tasks w \<Longrightarrow> e' = dropScope sco (w_eng w) \<Longrightarrow> w' = set_eng e' w \<Longrightarrow>
     wstep w w'"
  by (simp add: wstep_def scope_step.drop)

lemma launched_world: "a_world (launched r sco h a) = set_eng (fst r) (a_world a)"
  by (cases r) (simp add: launched_def at_eng_def)

lemma verb_step_wsteps:
  assumes "verb_step a a'"
  shows "wstep (a_world a) (a_world a')"
  using assms
  by (induction rule: verb_step.induct)
    (simp_all add: launched_world at_eng_def verbs_only_step verbs_only_Activate verbs_only_Block
      verbs_only_Reactivate verbs_onlyI)

lemma end_task_set_eng: "end_task t (set_eng e w) = set_eng e (end_task t w)"
  by (cases w) (simp add: set_eng_def end_task_def)

lemma held_drop:
  assumes "in_step a" and "a_hold a sco = Some x" and "\<And>s h. x \<noteq> Subscribing_Feed s h"
  shows "wstep\<^sup>*\<^sup>* (a_world a) (at_eng (dropScope sco (a_eng a)) a)"
  using assms by (intro r_into_rtranclp drop_wstep) (auto simp: in_step_def at_eng_def)

lemma bring_up_begin_same:
  "bring_up_begin sco e = (e1, Already s) \<Longrightarrow> e1 = e"
  "bring_up_begin sco e = (e1, Refused er) \<Longrightarrow> e1 = e"
  by (auto simp: bring_up_begin_def scopeFor_def Let_def split: prod.splits option.splits if_splits)

text \<open>A failed bring-up is dropped by \<open>bringUpScope\<close> and once more, as a no-op, by \<open>activate\<close>.\<close>

lemma conclude_then_drop:
  assumes "world_ok w" and "BringingUp sco s h \<in># w_tasks w"
    and "wstep w (set_eng e (end_task (BringingUp sco s h) w))"
  shows "wstep\<^sup>*\<^sup>* w (end_task (BringingUp sco s h) (set_eng (dropScope sco e) w))"
proof -
  let ?w = "set_eng e (end_task (BringingUp sco s h) w)"
  have "wstep ?w (set_eng (dropScope sco (w_eng ?w)) ?w)"
    using world_ok_unique [OF assms(1,2)] by (intro drop_wstep) (auto simp: free_of_def)
  with assms(3) have "wstep\<^sup>*\<^sup>* w (set_eng (dropScope sco e) ?w)" by simp
  then show ?thesis unfolding end_task_set_eng by (simp add: set_eng_def)
qed

lemma holder_step_wsteps:
  assumes "holder_step a a'" and k: "in_step a" and ok: "world_ok (a_world a)"
  shows "wstep\<^sup>*\<^sup>* (a_world a) (a_world a')"
  using assms(1)
proof cases
  case (starts sco e1 s e2 h)
  have "\<forall>t h. BringingUp sco t h \<notin># w_tasks (a_world a)"
    using starts(2) k by (simp add: in_step_def)
  from scope_step.up_begin [OF this starts(3,4)] starts(1) show ?thesis
    by (auto simp: at_eng_def wstep_def)
next
  case (starts_up sco e1 s)
  with bring_up_begin_same(1) [OF starts_up(3)] show ?thesis by (simp add: at_eng_def set_eng_def)
next
  case (starts_refused sco e1 er)
  with bring_up_begin_same(2) [OF starts_refused(3)] held_drop [OF k starts_refused(2)]
  show ?thesis by simp
next
  case (subscribed sco s h e' s')
  then have "BringingUp sco s h \<in># w_tasks (a_world a)" using k by (simp add: in_step_def)
  from scope_step.up_end [OF this] subscribed(1,3) show ?thesis
    by (auto simp: at_eng_def wstep_def end_task_set_eng)
next
  case (subscribed_closed sco s h e' er)
  then have b: "BringingUp sco s h \<in># w_tasks (a_world a)" using k by (simp add: in_step_def)
  from conclude_then_drop [OF ok b] scope_step.up_end [OF b] subscribed_closed(1,3) show ?thesis
    by (simp add: at_eng_def wstep_def)
next
  case (subscribe_failed sco s h e' er)
  then have b: "BringingUp sco s h \<in># w_tasks (a_world a)" using k by (simp add: in_step_def)
  from conclude_then_drop [OF ok b] scope_step.up_failed [OF b] subscribe_failed(1,3) show ?thesis
    by (simp add: at_eng_def wstep_def)
next
  case (settled sco up now e')
  with verbs_only_release(1) [of "a_eng a" now sco up] show ?thesis
    by (auto simp: at_eng_def intro: verbs_only_step)
next
  case (superseded sco up now e')
  with verbs_only_release(2) [of "a_eng a" now sco up] show ?thesis
    by (auto simp: at_eng_def intro: verbs_only_step)
qed (use held_drop [OF k] in simp_all)

lemma other_step_wstep: "other_step a a' \<Longrightarrow> wstep (a_world a) (a_world a')"
  by (induction rule: other_step.induct)
    (auto simp: wstep_def at_eng_def intro: scope_step.close)

subsection \<open>What every interleaving keeps\<close>

text \<open>What the invariant reads of an engine at a scope.\<close>

definition view :: "engine \<Rightarrow> scope \<Rightarrow> sid option \<times> bool option \<times> bool \<times> bool" where
  "view e sco = (trackedScope e sco, e_activating e sco, sco \<in> e_blocked e, e_workersClosed e)"

lemma view_eq:
  "view e' sco = view e sco \<longleftrightarrow> trackedScope e' sco = trackedScope e sco
     \<and> e_activating e' sco = e_activating e sco \<and> (sco \<in> e_blocked e' \<longleftrightarrow> sco \<in> e_blocked e)
     \<and> e_workersClosed e' = e_workersClosed e"
  by (simp add: view_def)

lemma dropScope_view:
  "e_activating (dropScope sco e) = e_activating e" "e_blocked (dropScope sco e) = e_blocked e"
  "trackedScope (dropScope sco e) sco' = (if sco' = sco then None else trackedScope e sco')"
  by (auto simp: trackedScope_def dropScope_def Let_def stopScopeWorkers_def release_feed_def
      split: option.splits)

lemma bring_up_view:
  assumes "bring_up_begin sco e = (e1, b)"
  shows "e_activating e1 = e_activating e" "e_blocked e1 = e_blocked e"
    "e_workersClosed e1 = e_workersClosed e"
    "sco' \<noteq> sco \<Longrightarrow> trackedScope e1 sco' = trackedScope e sco'"
  using assms
  by (auto simp: bring_up_begin_def scopeFor_def trackedScope_def Let_def
      split: prod.splits option.splits if_splits)

lemma open_feed_view:
  assumes "open_feed e = (e', h)"
  shows "e_activating e' = e_activating e" "e_blocked e' = e_blocked e"
    "e_workersClosed e' = e_workersClosed e" "trackedScope e' = trackedScope e"
  using assms by (auto simp: open_feed_def Let_def trackedScope_def)

lemma release_feed_view [simp]:
  "e_activating (release_feed h e) = e_activating e" "e_blocked (release_feed h e) = e_blocked e"
  "e_workersClosed (release_feed h e) = e_workersClosed e"
  "trackedScope (release_feed h e) = trackedScope e"
  by (auto simp: release_feed_def trackedScope_def split: option.splits)

lemma conclude_view:
  assumes "bring_up_conclude sco s ans e = (e', r)"
  shows "e_activating e' = e_activating e" "e_blocked e' = e_blocked e"
    "e_workersClosed e' = e_workersClosed e"
    "sco' \<noteq> sco \<Longrightarrow> trackedScope e' sco' = trackedScope e sco'"
    "r = Inr s' \<Longrightarrow> trackedScope e' = trackedScope e"
proof -
  have u: "trackedScope (upd_sc t f x) = trackedScope x" for t f and x :: engine
    by (simp add: trackedScope_def fun_eq_iff)
  show "e_activating e' = e_activating e" "e_blocked e' = e_blocked e"
    "e_workersClosed e' = e_workersClosed e"
    "sco' \<noteq> sco \<Longrightarrow> trackedScope e' sco' = trackedScope e sco'"
    "r = Inr s' \<Longrightarrow> trackedScope e' = trackedScope e"
    using assms by (auto simp: bring_up_conclude_def dropScope_view u split: sum.splits if_splits)
qed

text \<open>
  \<open>slot_ok\<close>: a slot has a holder exactly while the engine marks it, and a blocked scope that is
  tracked, or about to be, has been marked as superseded unless its holder is just dropping it.
\<close>

definition slot_ok :: "engine \<Rightarrow> scope \<Rightarrow> holder option \<Rightarrow> bool" where
  "slot_ok e sco h \<longleftrightarrow>
     (h = None \<longleftrightarrow> e_activating e sco = None)
     \<and> (sco \<in> e_blocked e \<longrightarrow> \<not> e_workersClosed e \<longrightarrow>
          trackedScope e sco \<noteq> None \<or> h = Some Activating \<longrightarrow>
          h = Some Dropping \<or> e_activating e sco = Some True)
     \<and> (h = Some Deciding \<longrightarrow> trackedScope e sco = None)"

lemma slot_ok_view: "view e' sco = view e sco \<Longrightarrow> slot_ok e sco h \<Longrightarrow> slot_ok e' sco h"
  by (simp add: view_eq slot_ok_def)

definition hold_ok :: "aworld \<Rightarrow> bool" where
  "hold_ok a \<longleftrightarrow> in_step a \<and> world_ok (a_world a) \<and> (\<forall>sco. slot_ok (a_eng a) sco (a_hold a sco))"

lemma hold_okD:
  assumes "hold_ok a"
  shows "in_step a" "world_ok (a_world a)" "slot_ok (a_eng a) sco (a_hold a sco)"
  using assms by (auto simp: hold_ok_def)

lemma launch_slot:
  "launchActivation sco b e = (e', True) \<Longrightarrow> e_activating e' = (e_activating e)(sco \<mapsto> b)"
  "launchActivation sco b e = (e', False) \<Longrightarrow> e' = e \<and> e_workersClosed e"
  by (auto simp: launchActivation_def beginWork_def split: if_splits)

lemma slot_ok_supersede:
  assumes "slot_ok e0 sco h" and "verbs_only e0 e" and "e_activating e = e_activating e0"
    and "supersede sco e = (e', b)"
  shows "slot_ok e' sco (if b then Some (Settling False) else h)"
proof -
  note f = verbs_only_fields [OF assms(2)]
  show ?thesis
  proof (cases "e_activating e sco")
    case None
    with assms f show ?thesis
      by (auto simp: supersede_def slot_ok_def launchActivation_def beginWork_def trackedScope_def
          split: if_splits)
  next
    case (Some m)
    with assms f show ?thesis
      by (auto simp: supersede_def slot_ok_def trackedScope_def)
  qed
qed

lemma slots_go:
  assumes "\<And>sco. slot_ok (a_eng a) sco (a_hold a sco)" and "slot_ok e sco h"
    and "\<And>sco'. sco' \<noteq> sco \<Longrightarrow> view e sco' = view (a_eng a) sco'"
  shows "slot_ok e sco' (((a_hold a)(sco := h)) sco')"
  using assms slot_ok_view by (cases "sco' = sco") auto

lemma in_step_go:
  assumes "in_step a" and "w_tasks w = w_tasks (a_world a)"
    and "\<And>s k. h \<noteq> Some (Subscribing_Feed s k)" and "\<And>s k. a_hold a sco \<noteq> Some (Subscribing_Feed s k)"
  shows "in_step (go w sco h a)"
  using assms by (auto simp: in_step_def)

lemma supersede_other:
  assumes "supersede sco e = (e', b)"
  shows "e_blocked e' = e_blocked e" "sco' \<noteq> sco \<Longrightarrow> e_activating e' sco' = e_activating e sco'"
  using assms
  by (auto simp: supersede_def launchActivation_def beginWork_def split: if_splits)

lemma Activate_slot:
  assumes "slot_ok e sco h" and "Activate now sco e = (e', b)"
  shows "slot_ok e' sco (if b then Some Activating else h)"
  using assms
  by (auto simp: Activate_def slot_ok_def launchActivation_def beginWork_def trackedScope_def
      split: if_splits)

lemma Activate_other:
  assumes "Activate now sco e = (e', b)"
  shows "e_blocked e' = e_blocked e" "sco' \<noteq> sco \<Longrightarrow> e_activating e' sco' = e_activating e sco'"
  using assms
  by (auto simp: Activate_def launchActivation_def beginWork_def split: if_splits)

lemma verb_step_slots:
  assumes "verb_step a a'" and ok: "\<And>sco. slot_ok (a_eng a) sco (a_hold a sco)"
  shows "slot_ok (a_eng a') sco' (a_hold a' sco')"
  using assms(1)
proof cases
  case (activate_call now sco)
  obtain e b where r: "Activate now sco (a_eng a) = (e, b)" by fastforce
  have "view e t = view (a_eng a) t" if "t \<noteq> sco" for t
    using Activate_other [OF r] verbs_only_fields [OF verbs_only_Activate, of now sco "a_eng a"] r that
    by (simp add: view_eq)
  with slots_go [OF ok Activate_slot [OF ok r]] show ?thesis
    by (simp add: activate_call launched_def r)
next
  case (block_call sco)
  let ?e = "(a_eng a)\<lparr>e_blocked := insert sco (e_blocked (a_eng a))\<rparr>"
  obtain e b where r: "supersede sco ?e = (e, b)" by fastforce
  have v: "verbs_only (a_eng a) ?e" by (simp add: verbs_only_def)
  have "view e t = view (a_eng a) t" if "t \<noteq> sco" for t
    using supersede_other [OF r] verbs_only_fields [OF verbs_only_Block, of sco "a_eng a"] r that
    by (simp add: view_eq Block_def)
  with slots_go [OF ok slot_ok_supersede [OF ok v _ r]] show ?thesis
    by (simp add: block_call launched_def Block_def r)
next
  case (unblock_call sco)
  have "slot_ok (Unblock sco (a_eng a)) sco (a_hold a sco)"
    using ok [of sco] by (simp add: slot_ok_def Unblock_def trackedScope_def)
  moreover have "view (Unblock sco (a_eng a)) t = view (a_eng a) t" if "t \<noteq> sco" for t
    using that by (simp add: view_eq Unblock_def trackedScope_def)
  ultimately have "slot_ok (Unblock sco (a_eng a)) sco' (((a_hold a)(sco := a_hold a sco)) sco')"
    by (rule slots_go [OF ok])
  then show ?thesis by (simp add: unblock_call)
next
  case (reactivate_call sco)
  let ?e = "(a_eng a)\<lparr>e_failedAt := (e_failedAt (a_eng a))(sco := None)\<rparr>"
  have v: "verbs_only (a_eng a) ?e" by (simp add: verbs_only_def)
  obtain e b where r: "supersede sco ?e = (e, b)" by fastforce
  have "view e t = view (a_eng a) t" if "t \<noteq> sco" for t
    using supersede_other [OF r] verbs_only_fields [OF verbs_only_trans [OF v supersede_verbs], of sco] r that
    by (simp add: view_eq)
  with slots_go [OF ok slot_ok_supersede [OF ok v _ r]] ok show ?thesis
    by (auto simp: reactivate_call launched_def Reactivate_def r)
qed

lemma verb_step_in_step:
  assumes "verb_step a a'" and "hold_ok a"
  shows "in_step a'"
proof -
  note k = hold_okD(1) [OF assms(2)]
  have lau: "in_step (launched r sco h a)"
    if "snd r \<Longrightarrow> a_hold a sco = None" "\<And>s k. h \<noteq> Subscribing_Feed s k" for r sco h
    using that k by (cases r; cases "snd r") (auto simp: launched_def in_step_def)
  have free: "a_hold a sco = None" if "e_activating (a_eng a) sco = None" for sco
    using hold_okD(3) [OF assms(2), of sco] that by (simp add: slot_ok_def)
  have act: "snd (Activate now sco (a_eng a)) \<Longrightarrow> a_hold a sco = None" for now sco
    using free [of sco] by (auto simp: Activate_def split: if_splits)
  have blk: "snd (Block sco (a_eng a)) \<Longrightarrow> a_hold a sco = None" for sco
    using free [of sco] by (auto simp: Block_def supersede_def split: if_splits)
  have rea: "snd (Reactivate sco (a_eng a)) \<Longrightarrow> a_hold a sco = None" for sco
    using free [of sco] by (auto simp: Reactivate_def supersede_def split: if_splits)
  from assms(1) show ?thesis
  proof cases
    case (activate_call now sco)
    show ?thesis unfolding activate_call by (rule lau) (simp_all add: act)
  next
    case (block_call sco)
    show ?thesis unfolding block_call by (rule lau) (simp_all add: blk)
  next
    case (unblock_call sco)
    with k show ?thesis by (simp add: in_step_def)
  next
    case (reactivate_call sco)
    show ?thesis unfolding reactivate_call by (rule lau) (simp_all add: rea)
  qed
qed

text \<open>A holder's step is local to its scope.\<close>

definition beside :: "scope \<Rightarrow> engine \<Rightarrow> engine \<Rightarrow> bool" where
  "beside sco e e' \<longleftrightarrow> (\<forall>t. t \<noteq> sco \<longrightarrow> view e' t = view e t)
     \<and> e_activating e' sco = e_activating e sco
     \<and> (sco \<in> e_blocked e' \<longleftrightarrow> sco \<in> e_blocked e) \<and> e_workersClosed e' = e_workersClosed e"

lemma beside_refl [simp]: "beside sco e e"
  by (simp add: beside_def)

lemma beside_begin: "bring_up_begin sco e = (e1, b) \<Longrightarrow> beside sco e e1"
  by (simp add: beside_def view_eq bring_up_view [of sco e e1 b])

lemma beside_open: "beside sco e e1 \<Longrightarrow> open_feed e1 = (e2, h) \<Longrightarrow> beside sco e e2"
  by (simp add: beside_def view_eq open_feed_view [of e1 e2 h])

lemma beside_conclude: "bring_up_conclude sco s ans e = (e', r) \<Longrightarrow> beside sco e e'"
  by (simp add: beside_def view_eq conclude_view [of sco s ans e e' r])

lemma beside_drop: "beside sco e e' \<Longrightarrow> beside sco e (dropScope sco e')"
  by (simp add: beside_def view_eq dropScope_view)

lemma slots_beside:
  assumes "\<And>sco. slot_ok (a_eng a) sco (a_hold a sco)" and "beside sco (a_eng a) (w_eng w)"
    and "slot_ok (w_eng w) sco h"
  shows "slot_ok (a_eng (go w sco h a)) sco' (a_hold (go w sco h a) sco')"
  using slots_go [OF assms(1,3)] assms(2) by (simp add: beside_def)

lemma slot_ok_drop:
  assumes "slot_ok (a_eng a) sco (Some x)" and "beside sco (a_eng a) e" and "h \<noteq> Activating"
  shows "slot_ok (dropScope sco e) sco (Some h)"
  using assms by (auto simp: slot_ok_def beside_def dropScope_view)

lemma slot_ok_held:
  assumes "slot_ok (a_eng a) sco (Some x)" and "beside sco (a_eng a) e"
    and "h \<noteq> Deciding" and "h = Activating \<longrightarrow> x = Activating"
    and "x = Dropping \<longrightarrow> h = Dropping"
    and "trackedScope e sco \<noteq> None \<longrightarrow> trackedScope (a_eng a) sco \<noteq> None \<or> x = Activating"
  shows "slot_ok e sco (Some h)"
  using assms by (auto simp: slot_ok_def beside_def)

lemma holder_step_slots:
  assumes "holder_step a a'" and ok: "\<And>sco. slot_ok (a_eng a) sco (a_hold a sco)"
  shows "slot_ok (a_eng a') sco' (a_hold a' sco')"
proof -
  have x: "slot_ok (a_eng a) sco (Some x)" if "a_hold a sco = Some x" for sco x
    using ok [of sco] that by simp
  from assms(1) show ?thesis
  proof cases
    case (starts sco e1 s e2 h)
    have b: "beside sco (a_eng a) e2" by (rule beside_open [OF beside_begin [OF starts(3)] starts(4)])
    then have "slot_ok e2 sco (Some (Subscribing_Feed s h))"
      by (rule slot_ok_held [OF x [OF starts(2)]]) simp_all
    with b show ?thesis unfolding starts(1) by (intro slots_beside [OF ok]) simp_all
  next
    case (starts_up sco e1 s)
    have e1: "e1 = a_eng a" by (rule bring_up_begin_same(1) [OF starts_up(3)])
    have "slot_ok (a_eng a) sco (Some (Waiting s))"
      by (rule slot_ok_held [OF x [OF starts_up(2)]]) simp_all
    then show ?thesis unfolding starts_up(1) e1 by (intro slots_beside [OF ok]) simp_all
  next
    case (starts_refused sco e1 er)
    have b: "beside sco (a_eng a) e1" by (rule beside_begin [OF starts_refused(3)])
    from slot_ok_drop [OF x [OF starts_refused(2)] b] beside_drop [OF b] show ?thesis
      unfolding starts_refused(1) by (intro slots_beside [OF ok]) simp_all
  next
    case (subscribed sco s h e' s')
    have b: "beside sco (a_eng a) e'" by (rule beside_conclude [OF subscribed(3)])
    have "slot_ok e' sco (Some (Waiting s'))"
      by (rule slot_ok_held [OF x [OF subscribed(2)] b])
        (simp_all add: conclude_view(5) [OF subscribed(3)])
    with b show ?thesis unfolding subscribed(1) by (intro slots_beside [OF ok]) simp_all
  next
    case (subscribed_closed sco s h e' er)
    have b: "beside sco (a_eng a) e'" by (rule beside_conclude [OF subscribed_closed(3)])
    from slot_ok_drop [OF x [OF subscribed_closed(2)] b] beside_drop [OF b] show ?thesis
      unfolding subscribed_closed(1) by (intro slots_beside [OF ok]) simp_all
  next
    case (subscribe_failed sco s h e' er)
    have "beside sco (a_eng a) e'"
      using subscribe_failed(3) by (simp add: bring_up_conclude_def beside_def view_eq dropScope_view)
    from slot_ok_drop [OF x [OF subscribe_failed(2)] this] beside_drop [OF this] show ?thesis
      unfolding subscribe_failed(1) by (intro slots_beside [OF ok]) simp_all
  next
    case (reconciled sco s)
    have "slot_ok (a_eng a) sco (Some (Settling True))"
      by (rule slot_ok_held [OF x [OF reconciled(2)]]) simp_all
    then show ?thesis unfolding reconciled(1) by (intro slots_beside [OF ok]) simp_all
  next
    case (reconcile_failed sco s er)
    from slot_ok_drop [OF x [OF reconcile_failed(2)] beside_refl] beside_drop [OF beside_refl]
    show ?thesis unfolding reconcile_failed(1) by (intro slots_beside [OF ok]) simp_all
  next
    case (wait_canceled sco s)
    have "slot_ok (a_eng a) sco (Some (Settling False))"
      by (rule slot_ok_held [OF x [OF wait_canceled(2)]]) simp_all
    then show ?thesis unfolding wait_canceled(1) by (intro slots_beside [OF ok]) simp_all
  next
    case (settled sco up now e')
    have "slot_ok (endWork e') sco None"
      using x [OF settled(2)] settled(3)
      by (auto simp: slot_ok_def releaseActivation_def endWork_def trackedScope_def split: if_splits)
    moreover have "view (endWork e') t = view (a_eng a) t" if "t \<noteq> sco" for t
      using settled(3) that
      by (auto simp: view_eq releaseActivation_def endWork_def trackedScope_def split: if_splits)
    ultimately show ?thesis unfolding settled(1) using slots_go [OF ok] by simp
  next
    case (superseded sco up now e')
    have "slot_ok e' sco (Some Dropping)"
      using x [OF superseded(2)] superseded(3)
      by (auto simp: slot_ok_def releaseActivation_def trackedScope_def split: if_splits)
    moreover have "view e' t = view (a_eng a) t" if "t \<noteq> sco" for t
      using superseded(3) that
      by (auto simp: view_eq releaseActivation_def trackedScope_def split: if_splits)
    ultimately show ?thesis unfolding superseded(1) using slots_go [OF ok] by simp
  next
    case (dropped sco)
    from slot_ok_drop [OF x [OF dropped(2)] beside_refl] beside_drop [OF beside_refl]
    show ?thesis unfolding dropped(1) by (intro slots_beside [OF ok]) simp_all
  next
    case (decide_stop sco)
    have "slot_ok (a_eng a) sco (Some (Settling False))"
      by (rule slot_ok_held [OF x [OF decide_stop(2)]]) simp_all
    then show ?thesis unfolding decide_stop(1) by (intro slots_beside [OF ok]) simp_all
  next
    case (decide_go sco)
    with x [OF decide_go(2)] have "slot_ok (a_eng a) sco (Some Activating)"
      by (simp add: slot_ok_def Blocked_def)
    then show ?thesis unfolding decide_go(1) by (intro slots_beside [OF ok]) simp_all
  qed
qed

lemma in_step_end:
  assumes "in_step a" and "world_ok (a_world a)" and "a_hold a sco = Some (Subscribing_Feed s k)"
    and "w_tasks w = w_tasks (a_world a) - {#BringingUp sco s k#}"
    and "\<And>s k. h \<noteq> Some (Subscribing_Feed s k)"
  shows "in_step (go w sco h a)"
proof -
  have b: "BringingUp sco s k \<in># w_tasks (a_world a)" using assms(1,3) by (simp add: in_step_def)
  have "BringingUp t u v \<in># w_tasks (a_world a) - {#BringingUp sco s k#}
      \<longleftrightarrow> t \<noteq> sco \<and> BringingUp t u v \<in># w_tasks (a_world a)" for t u v
    using world_ok_unique [OF assms(2) b] other_task_stays [of "BringingUp t u v" _ "BringingUp sco s k"]
    by (auto simp: free_of_def dest: in_diffD)
  with assms(1,4,5) show ?thesis by (auto simp: in_step_def)
qed

lemma holder_step_in_step:
  assumes "holder_step a a'" and "in_step a" and "world_ok (a_world a)"
  shows "in_step a'"
  using assms(1)
proof cases
  case (starts sco e1 s e2 h)
  then show ?thesis using assms(2) by (auto simp: in_step_def)
next
  case (subscribed sco s h e' s')
  show ?thesis unfolding subscribed(1) by (rule in_step_end [OF assms(2,3) subscribed(2)]) simp_all
next
  case (subscribed_closed sco s h e' er)
  show ?thesis
    unfolding subscribed_closed(1) by (rule in_step_end [OF assms(2,3) subscribed_closed(2)]) simp_all
next
  case (subscribe_failed sco s h e' er)
  show ?thesis
    unfolding subscribe_failed(1) by (rule in_step_end [OF assms(2,3) subscribe_failed(2)]) simp_all
qed (simp_all add: in_step_go [OF assms(2)])

text \<open>Everything else leaves the slots, the blocks and the tracking alone.\<close>

lemma emove_none_view:
  "emove X e e' \<Longrightarrow> X = None \<Longrightarrow> view e' = view e \<and> e_feeds e' = e_feeds e"
proof (induction rule: emove.induct)
  case (ing s e e')
  with ingress_env [of s e e'] show ?case
    by (simp add: env_of_eq view_def trackedScope_def fun_eq_iff)
qed (auto simp: view_def trackedScope_def fun_eq_iff)

lemma emoves_none_view: "emoves None e e' \<Longrightarrow> view e' = view e"
  by (induction rule: rtranclp_induct) (auto dest: emove_none_view)

lemma touches_view: "touches e e' \<Longrightarrow> view e' = view e"
  by (auto simp: touches_def view_def trackedScope_def fun_eq_iff)

lemma data_step_view:
  assumes "ingest_step w w' \<or> rec_step w w' \<or> delivery_step w w'" and "world_ok w"
  shows "view (w_eng w') = view (w_eng w)"
proof -
  have "moves_only None w w' \<or> touches (w_eng w) (w_eng w')"
    using assms ingest_step_moves rec_step_moves delivery_step_moves by blast
  then show ?thesis using emoves_none_view touches_view by (auto simp: moves_only_def)
qed

lemma ingest_step_bring_up:
  "ingest_step w w' \<Longrightarrow> BringingUp sco s h \<in># w_tasks w' \<longleftrightarrow> BringingUp sco s h \<in># w_tasks w"
  by (induction rule: ingest_step.induct) (simp_all add: ending_keeps_bring_up)

lemma other_step_ok:
  assumes "other_step a a'" and ok: "hold_ok a"
  shows "in_step a' \<and> slot_ok (a_eng a') sco (a_hold a' sco)"
  using assms(1)
proof cases
  case (data w)
  from data_step_view [OF data(2) hold_okD(2) [OF ok]] have "view (w_eng w) sco = view (a_eng a) sco"
    by simp
  moreover have "BringingUp t s h \<in># w_tasks w \<longleftrightarrow> BringingUp t s h \<in># w_tasks (a_world a)" for t s h
    using data(2) ingest_step_bring_up rec_step_tasks delivery_step_tasks by metis
  ultimately show ?thesis
    using hold_okD [OF ok] slot_ok_view by (auto simp: data(1) in_step_def)
next
  case shut
  with hold_okD(1) [OF ok] hold_okD(3) [OF ok, of sco] show ?thesis
    by (simp add: in_step_def slot_ok_def trackedScope_def)
       (simp add: close_shut_def closeWorkers_def Let_def)
qed

lemma wsteps_ok: "wstep\<^sup>*\<^sup>* w w' \<Longrightarrow> world_ok w \<Longrightarrow> world_ok w'"
  by (induction rule: rtranclp_induct) (auto intro: wstep_ok)

lemma astep_wsteps:
  assumes "astep a a'" and "hold_ok a"
  shows "wstep\<^sup>*\<^sup>* (a_world a) (a_world a')"
  using assms verb_step_wsteps holder_step_wsteps other_step_wstep hold_okD(1,2)
  unfolding astep_def by (meson r_into_rtranclp)

lemma astep_ok:
  assumes "astep a a'" and ok: "hold_ok a"
  shows "hold_ok a'"
proof -
  have "world_ok (a_world a')" by (rule wsteps_ok [OF astep_wsteps [OF assms] hold_okD(2) [OF ok]])
  moreover have "in_step a' \<and> (\<forall>sco. slot_ok (a_eng a') sco (a_hold a' sco))"
    using assms verb_step_slots [OF _ hold_okD(3) [OF ok]] verb_step_in_step
      holder_step_slots [OF _ hold_okD(3) [OF ok]] holder_step_in_step [OF _ hold_okD(1,2) [OF ok]]
      other_step_ok
    unfolding astep_def by blast
  ultimately show ?thesis by (simp add: hold_ok_def)
qed

lemma reachable_steps: "wstep\<^sup>*\<^sup>* w w' \<Longrightarrow> reachable e w \<Longrightarrow> reachable e w'"
  by (induction rule: rtranclp_induct) (auto intro: reachable.more)

definition activation_run ::
  "bool \<Rightarrow> registry option \<Rightarrow> (bytes \<Rightarrow> json option) \<Rightarrow> (ctx \<Rightarrow> scope \<Rightarrow> ctx) option \<Rightarrow> bool \<Rightarrow>
     aworld \<Rightarrow> bool"
where
  "activation_run hs reg um vc async a \<longleftrightarrow> astep\<^sup>*\<^sup>* (idle_world (new_engine hs reg um vc async)) a"

lemma activation_run_ok:
  assumes "activation_run hs reg um vc async a" and "um [] = None"
  shows "hold_ok a \<and> runs_to hs reg um vc async (a_world a)"
  using assms(1) unfolding activation_run_def
proof (induction rule: rtranclp_induct)
  case base
  show ?case
    using init_world_ok [where hs = hs and reg = reg and um = um and vc = vc and async = async, OF assms(2)]
    by (simp add: hold_ok_def idle_world_def in_step_def slot_ok_def runs_to_def reachable.start)
      (simp add: init_world_def new_engine_def trackedScope_def)
next
  case (step a a')
  with reachable_steps [OF astep_wsteps] astep_ok show ?case by (auto simp: runs_to_def)
qed

subsection \<open>A superseded state does not survive its slot\<close>

definition doomed :: "scope \<Rightarrow> sid \<Rightarrow> aworld \<Rightarrow> bool" where
  "doomed sco s a \<longleftrightarrow> s < e_nextSid (a_eng a)
     \<and> (trackedScope (a_eng a) sco \<noteq> Some s \<or> e_activating (a_eng a) sco = Some True
        \<or> a_hold a sco = Some Dropping)"

lemma bring_up_fresh:
  assumes "bring_up_begin sco e = (e1, b)" and "s < e_nextSid e" and "trackedScope e1 t = Some s"
  shows "trackedScope e t = Some s"
  using assms
  by (auto simp: bring_up_begin_def scopeFor_def trackedScope_def Let_def
      split: prod.splits option.splits if_splits)

lemma conclude_tracks_less:
  assumes "bring_up_conclude sco s ans e = (e', r)" and "trackedScope e' t = Some u"
  shows "trackedScope e t = Some u"
  using conclude_view(5) [OF assms(1)] conclude_view(4) [OF assms(1), of t] assms
  by (cases "t = sco")
    (auto simp: bring_up_conclude_def dropScope_view trackedScope_def split: sum.splits if_splits)

text \<open>No verb takes a mark away, and none moves a holder that stands.\<close>

lemma verb_marks:
  assumes "verb_step a a'" and "e_activating (a_eng a) sco \<noteq> None"
  shows "a_hold a' sco = a_hold a sco"
    and "e_activating (a_eng a) sco = Some True \<Longrightarrow> e_activating (a_eng a') sco = Some True"
  using assms
  by (induction rule: verb_step.induct)
    (auto simp: launched_def Activate_def Block_def Unblock_def Reactivate_def supersede_def
      launchActivation_def beginWork_def split: if_splits)

lemma verb_step_verbs: "verb_step a a' \<Longrightarrow> verbs_only (a_eng a) (a_eng a')"
  by (induction rule: verb_step.induct)
    (simp_all add: launched_world verbs_only_Activate verbs_only_Block verbs_only_Reactivate
      verbs_onlyI)

lemma verbs_only_nextSid: "verbs_only e e' \<Longrightarrow> e_nextSid e' = e_nextSid e"
  by (subst verbs_only_alt, assumption) simp

lemma doomed_verb:
  assumes "verb_step a a'" and "doomed sco s a" and ok: "slot_ok (a_eng a) sco (a_hold a sco)"
  shows "doomed sco s a'"
proof -
  note v = verb_step_verbs [OF assms(1)]
  have "e_activating (a_eng a) sco \<noteq> None" if "a_hold a sco = Some Dropping"
    using ok that by (simp add: slot_ok_def)
  with assms(2) verb_marks [OF assms(1), of sco] show ?thesis
    by (auto simp: doomed_def verbs_only_fields(5) [OF v] verbs_only_nextSid [OF v])
qed

text \<open>A holder's step either keeps the state doomed or drops it.\<close>

lemma doomedI:
  assumes "doomed sco s a" and "e_nextSid (a_eng a) \<le> e_nextSid (w_eng w)"
    and "trackedScope (w_eng w) sco = Some s \<Longrightarrow> trackedScope (a_eng a) sco = Some s"
    and "e_activating (w_eng w) = e_activating (a_eng a)"
    and "t \<noteq> sco \<or> a_hold a t \<noteq> Some Dropping"
  shows "doomed sco s (go w t h a)"
  using assms by (auto simp: doomed_def)

lemma doomed_holder:
  assumes "holder_step a a'" and d: "doomed sco s a"
  shows "doomed sco s a'"
  using assms(1)
proof cases
  case (starts t e1 u e2 h)
  note v = bring_up_view [OF starts(3)] open_feed_view [OF starts(4)]
  have "trackedScope e1 sco = Some s \<Longrightarrow> trackedScope (a_eng a) sco = Some s"
    using bring_up_fresh [OF starts(3)] d by (simp add: doomed_def)
  moreover have "e_nextSid (a_eng a) \<le> e_nextSid e2"
    using starts(3,4) by (auto simp: bring_up_begin_def scopeFor_def open_feed_def Let_def
        split: prod.splits option.splits if_splits)
  ultimately show ?thesis unfolding starts(1) by (intro doomedI [OF d]) (simp_all add: v starts(2))
next
  case (starts_up t e1 u)
  show ?thesis
    unfolding starts_up(1) bring_up_begin_same(1) [OF starts_up(3)]
    by (rule doomedI [OF d]) (simp_all add: starts_up(2))
next
  case (starts_refused t e1 er)
  show ?thesis
    unfolding starts_refused(1) bring_up_begin_same(2) [OF starts_refused(3)]
    by (rule doomedI [OF d]) (simp_all add: starts_refused(2) dropScope_view split: if_splits)
next
  case (subscribed t u h e' u')
  have "e_nextSid e' = e_nextSid (a_eng a)"
    using subscribed(3) by (auto simp: bring_up_conclude_def split: if_splits)
  then show ?thesis
    unfolding subscribed(1)
    by (intro doomedI [OF d])
      (simp_all add: subscribed(2) conclude_view(1,5) [OF subscribed(3)])
next
  case (subscribed_closed t u h e' er)
  have "e_nextSid e' = e_nextSid (a_eng a)"
    using subscribed_closed(3) by (auto simp: bring_up_conclude_def release_feed_def split: if_splits)
  moreover have "trackedScope (dropScope t e') sco = Some s \<Longrightarrow> trackedScope (a_eng a) sco = Some s"
    using conclude_tracks_less [OF subscribed_closed(3)] by (simp add: dropScope_view split: if_splits)
  ultimately show ?thesis
    unfolding subscribed_closed(1)
    by (intro doomedI [OF d])
      (simp_all add: subscribed_closed(2) dropScope_view(1) conclude_view(1) [OF subscribed_closed(3)])
next
  case (subscribe_failed t u h e' er)
  then show ?thesis
    by (auto intro!: doomedI [OF d] simp: bring_up_conclude_def dropScope_view release_feed_def
        trackedScope_def split: if_splits)
next
  case (settled t up now e')
  then show ?thesis using d
    by (auto simp: doomed_def releaseActivation_def endWork_def trackedScope_def split: if_splits)
next
  case (superseded t up now e')
  then show ?thesis using d
    by (auto simp: doomed_def releaseActivation_def trackedScope_def split: if_splits)
next
  case (dropped t)
  then show ?thesis using d by (auto simp: doomed_def dropScope_view split: if_splits)
qed (auto intro!: doomedI [OF d] simp: dropScope_view split: if_splits)

lemma doomed_other:
  assumes "other_step a a'" and d: "doomed sco s a" and ok: "world_ok (a_world a)"
  shows "doomed sco s a'"
  using assms(1)
proof cases
  case (data w)
  from data_step_view [OF data(2) ok] have "view (w_eng w) sco = view (a_eng a) sco" by simp
  moreover have "wstep (a_world a) w" using data(2) by (auto simp: wstep_def)
  ultimately show ?thesis
    using d wstep_deletes [OF _ ok, of w s] by (auto simp: data(1) doomed_def view_eq)
next
  case shut
  have "e_activating (close_shut e) = e_activating e" for e
    by (simp add: close_shut_def closeWorkers_def Let_def)
  with d show ?thesis by (simp add: shut doomed_def trackedScope_def)
qed

lemma doomed_steps:
  assumes "astep\<^sup>*\<^sup>* a a'" and "hold_ok a" and "doomed sco s a"
  shows "hold_ok a' \<and> doomed sco s a'"
  using assms(1)
proof (induction rule: rtranclp_induct)
  case (step y z)
  then have "doomed sco s z"
    using doomed_verb doomed_holder doomed_other hold_okD(2,3) unfolding astep_def by meson
  with step show ?case using astep_ok by blast
qed (use assms in simp)

lemma doomed_freed:
  assumes "hold_ok a" and "doomed sco s a" and "a_hold a sco = None"
  shows "trackedScope (a_eng a) sco \<noteq> Some s"
  using assms hold_okD(3) [OF assms(1), of sco] by (auto simp: doomed_def slot_ok_def)

subsection \<open>A holder settles\<close>

text \<open>Steps of the holder of one scope, in a row.\<close>

definition same_doors :: "aworld \<Rightarrow> aworld \<Rightarrow> bool" where
  "same_doors a a' \<longleftrightarrow> e_blocked (a_eng a') = e_blocked (a_eng a)
     \<and> e_workersClosed (a_eng a') = e_workersClosed (a_eng a)"

lemma same_doors_trans: "same_doors a b \<Longrightarrow> same_doors b c \<Longrightarrow> same_doors a c"
  by (simp add: same_doors_def)

lemma settle_free:
  assumes "a_hold a sco = Some (Settling up)" and "e_activating (a_eng a) sco \<noteq> Some True"
  shows "\<exists>a'. holder_step a a' \<and> a_hold a' sco = None \<and> same_doors a a'"
proof -
  have "releaseActivation 0 sco up (a_eng a) = (fst (releaseActivation 0 sco up (a_eng a)), True)"
    using assms(2) by (simp add: releaseActivation_def)
  from holder_step.settled [OF assms(1) this] show ?thesis
    by (intro exI conjI, assumption) (simp_all add: same_doors_def releaseActivation_def endWork_def)
qed

lemma settle_stopped:
  assumes "a_hold a sco = Some (Settling up)" and "Blocked sco (a_eng a) \<or> e_closed (a_eng a)"
  shows "\<exists>a'. holder_step\<^sup>*\<^sup>* a a' \<and> a_hold a' sco = None \<and> same_doors a a'"
proof (cases "e_activating (a_eng a) sco = Some True")
  case False
  with settle_free [OF assms(1)] show ?thesis by (blast intro: r_into_rtranclp)
next
  case True
  define e1 where "e1 = fst (releaseActivation 0 sco up (a_eng a))"
  define a1 where "a1 = go (at_eng e1 a) sco (Some Dropping) a"
  define a2 where "a2 = go (at_eng (dropScope sco e1) a1) sco (Some Deciding) a1"
  define a3 where "a3 = go (a_world a2) sco (Some (Settling False)) a2"
  have e1: "releaseActivation 0 sco up (a_eng a) = (e1, False)" "e_activating e1 sco = Some False"
    "e_blocked e1 = e_blocked (a_eng a)" "e_closed e1 = e_closed (a_eng a)"
    using True by (simp_all add: e1_def releaseActivation_def)
  have 1: "holder_step a a1" unfolding a1_def by (rule holder_step.superseded [OF assms(1) e1(1)])
  have 2: "holder_step a1 a2"
    using holder_step.dropped [of a1 sco] by (simp add: a2_def a1_def)
  have 3: "holder_step a2 a3"
    unfolding a3_def using assms(2) e1(3,4)
    by (intro holder_step.decide_stop) (auto simp: a2_def Blocked_def dropScope_view)
  have "a_hold a3 sco = Some (Settling False)" "e_activating (a_eng a3) sco \<noteq> Some True"
    by (simp_all add: a3_def a2_def dropScope_view e1)
  from settle_free [OF this] obtain a' where "holder_step a3 a'" "a_hold a' sco = None"
    "same_doors a3 a'" by blast
  moreover have "same_doors a a3"
    using e1 by (simp add: same_doors_def a3_def a2_def dropScope_view)
      (simp add: e1_def releaseActivation_def)
  ultimately show ?thesis using 1 2 3
    by (meson converse_rtranclp_into_rtranclp r_into_rtranclp same_doors_trans)
qed

lemma holder_steps_asteps: "holder_step\<^sup>*\<^sup>* a a' \<Longrightarrow> astep\<^sup>*\<^sup>* a a'"
  by (rule rtranclp_mono [THEN predicate2D, rotated]) (auto simp: astep_def)

end
