(* ===== verification/Activation_Theorems.thy ===== *)
theory Activation_Theorems
  imports Activation Sample
begin

text \<open>
  The properties of the scope verbs, over every interleaving of them with the holders of the slots
  and with everything else the engine does.
\<close>

subsection \<open>A run for the witnesses\<close>

definition tenant_scope :: scope where
  "tenant_scope = Scope ''t1''"

abbreviation sample_activation :: "aworld \<Rightarrow> bool" where
  "sample_activation \<equiv> activation_run True (Some (engine_view sample_registry)) sample_decoder None True"

lemma sample_activation_start: "sample_activation (idle_world sample_new)"
  by (simp add: activation_run_def sample_new_def)

lemma sample_activation_step: "sample_activation a \<Longrightarrow> astep a a' \<Longrightarrow> sample_activation a'"
  unfolding activation_run_def by (rule rtranclp.rtrancl_into_rtrancl)

definition act_called :: aworld where
  "act_called = launched (Activate 0 tenant_scope sample_new) tenant_scope Activating (idle_world sample_new)"

definition act_begun :: engine where
  "act_begun = fst (bring_up_begin tenant_scope (a_eng act_called))"

definition act_open :: aworld where
  "act_open = go (put_task (BringingUp tenant_scope 0 0) (at_eng (fst (open_feed act_begun)) act_called))
     tenant_scope (Some (Subscribing_Feed 0 0)) act_called"

lemma act_called_fields:
  "a_hold act_called tenant_scope = Some Activating"
  "e_scopes (a_eng act_called) = Map.empty" "\<not> e_closed (a_eng act_called)"
  "\<not> e_workersClosed (a_eng act_called)" "e_nextSid (a_eng act_called) = 0"
  "e_nextFeed (a_eng act_called) = 0" "e_blocked (a_eng act_called) = {}"
  "e_activating (a_eng act_called) tenant_scope = Some False"
  by (simp_all add: act_called_def launched_def Activate_def launchActivation_def beginWork_def
      sample_new_def new_engine_def cooling_def trackedScope_def)

lemma act_begin: "bring_up_begin tenant_scope (a_eng act_called) = (act_begun, Subscribing 0)"
  by (simp add: act_begun_def bring_up_begin_def scopeFor_def act_called_fields Let_def)

lemma act_begun_fields:
  "e_scopes act_begun = [tenant_scope \<mapsto> 0]" "e_nextFeed act_begun = 0"
  "e_activating act_begun = e_activating (a_eng act_called)" "\<not> e_workersClosed act_begun"
  "e_blocked act_begun = {}"
  by (simp_all add: act_begun_def bring_up_begin_def scopeFor_def act_called_fields Let_def)

lemma sample_activation_called: "sample_activation act_called"
proof -
  have "verb_step (idle_world sample_new) act_called"
    unfolding act_called_def
    using verb_step.activate_call [of "idle_world sample_new" 0 tenant_scope]
    by (simp add: idle_world_def init_world_def)
  then show ?thesis by (intro sample_activation_step [OF sample_activation_start]) (simp add: astep_def)
qed

lemma sample_activation_open: "sample_activation act_open"
proof -
  have "open_feed act_begun = (fst (open_feed act_begun), 0)"
    by (simp add: open_feed_def Let_def act_begun_fields)
  from holder_step.starts [OF act_called_fields(1) act_begin this]
  have "holder_step act_called act_open" by (simp add: act_open_def)
  then show ?thesis by (intro sample_activation_step [OF sample_activation_called]) (simp add: astep_def)
qed

lemma act_open_fields:
  "a_hold act_open tenant_scope = Some (Subscribing_Feed 0 0)"
  "trackedScope (a_eng act_open) tenant_scope = Some 0" "\<not> e_workersClosed (a_eng act_open)"
  "e_activating (a_eng act_open) tenant_scope = Some False"
  by (simp_all add: act_open_def open_feed_def Let_def act_begun_fields trackedScope_def
      act_called_fields)

subsection \<open>The slot\<close>

text \<open>C10.
  The slots refine the engine's interleaving semantics: every run of the scope verbs and their
  holders, beside any feed event, write, re-read, reconcile, delivery or Close, is a run of the
  world model; Start's own bring-up, which holds Start's lock and no slot, is not among the steps. So what that model presupposes (no drop and no second bring-up of a scope while one
  is inside Subscribe) is what the slots provide, and everything proved of reachable worlds holds.
\<close>

theorem activation_refines_world:
  assumes "activation_run hs reg um vc async a" and "um [] = None"
  shows "runs_to hs reg um vc async (a_world a)"
  using activation_run_ok [OF assms] by simp

theorem activation_refines_world_witness:
  "runs_to True (Some (engine_view sample_registry)) sample_decoder None True (a_world act_open)"
  by (rule activation_refines_world [OF sample_activation_open]) (simp add: sample_decoder_def)

text \<open>A blocked scope stays down: once Block has returned and no holder stands in the scope's slot, the
  scope is untracked as long as the engine has not closed its workers, whatever Activate, Reactivate
  or a bring-up in flight did meanwhile. (After that, Block launches no holder, and Close drops every scope.)
\<close>

theorem blocked_scope_untracked:
  assumes "activation_run hs reg um vc async a" and "um [] = None"
    and "Blocked sco (a_eng a)" and "a_hold a sco = None" and "\<not> e_workersClosed (a_eng a)"
  shows "trackedScope (a_eng a) sco = None"
  using activation_run_ok [OF assms(1,2)] hold_okD(3) [of a sco] assms(3-5)
  by (auto simp: slot_ok_def Blocked_def)

definition act_blocked :: aworld where
  "act_blocked = launched (Block tenant_scope (a_eng (idle_world sample_new))) tenant_scope
     (Settling False) (idle_world sample_new)"

lemma sample_activation_blocked: "sample_activation act_blocked"
  unfolding act_blocked_def
  by (rule sample_activation_step [OF sample_activation_start])
    (simp add: astep_def verb_step.block_call)

theorem blocked_scope_untracked_witness:
  "trackedScope (a_eng act_blocked) tenant_scope = None"
  by (rule blocked_scope_untracked [OF sample_activation_blocked])
    (simp_all add: sample_decoder_def act_blocked_def launched_def Block_def supersede_def Blocked_def
      idle_world_def init_world_def sample_new_def new_engine_def trackedScope_def)

text \<open>A superseded state does not survive: after Block, or Reactivate of a scope that is not blocked,
  found the scope tracked by a state, that state no longer serves the scope by the time the slot is
  free again. It was dropped, and what tracks the scope then, if anything, is a fresh state on a
  feed of its own.
\<close>

theorem superseded_state_gone:
  assumes "activation_run hs reg um vc async a" and "um [] = None"
    and "trackedScope (a_eng a) sco = Some s" and "\<not> e_workersClosed (a_eng a)"
    and "a0 = launched (Block sco (a_eng a)) sco (Settling False) a
      \<or> \<not> Blocked sco (a_eng a) \<and> a0 = launched (Reactivate sco (a_eng a)) sco (Settling False) a"
    and "astep\<^sup>*\<^sup>* a0 a'" and "a_hold a' sco = None"
  shows "trackedScope (a_eng a') sco \<noteq> Some s"
proof -
  have ok: "hold_ok a" using activation_run_ok [OF assms(1,2)] by simp
  have v: "verb_step a a0" using assms(5) verb_step.block_call verb_step.reactivate_call by blast
  have "s < e_nextSid (a_eng a)"
    using scopes_okD(1) [OF world_okD(5) [OF hold_okD(2) [OF ok]] assms(3)] .
  moreover have "e_activating (a_eng a0) sco = Some True"
    using assms(3-5)
    by (auto simp: launched_world Block_def Reactivate_def Blocked_def supersede_def
        launchActivation_def beginWork_def trackedScope_def)
  ultimately have "doomed sco s a0"
    using verbs_only_nextSid [OF verb_step_verbs [OF v]] by (simp add: doomed_def)
  moreover have "hold_ok a0" using astep_ok [OF _ ok] v by (simp add: astep_def)
  ultimately show ?thesis using doomed_steps [OF assms(6)] doomed_freed assms(7) by blast
qed

lemma activation_run_steps:
  "activation_run hs reg um vc async a \<Longrightarrow> astep\<^sup>*\<^sup>* a a' \<Longrightarrow> activation_run hs reg um vc async a'"
  unfolding activation_run_def by (rule rtranclp_trans)

text \<open>A blocked holder past its bring-up ends with the slot free and the scope down.\<close>

lemma settle_down:
  assumes "activation_run hs reg um vc async a" and "um [] = None"
    and "a_hold a sco = Some (Settling up)" and "Blocked sco (a_eng a)"
    and "\<not> e_workersClosed (a_eng a)"
  shows "\<exists>a'. holder_step\<^sup>*\<^sup>* a a' \<and> a_hold a' sco = None \<and> trackedScope (a_eng a') sco = None"
proof -
  from settle_stopped [OF assms(3)] assms(4) obtain a' where
    a': "holder_step\<^sup>*\<^sup>* a a'" "a_hold a' sco = None" "same_doors a a'" by blast
  have "activation_run hs reg um vc async a'"
    by (rule activation_run_steps [OF assms(1) holder_steps_asteps [OF a'(1)]])
  from activation_run_ok [OF this assms(2)] hold_okD(3) [of a' sco] a'(2,3) assms(4,5)
  have "trackedScope (a_eng a') sco = None"
    by (auto simp: slot_ok_def Blocked_def same_doors_def)
  with a' show ?thesis by blast
qed

text \<open>A blocked holder lets go: whenever the goroutine in a blocked scope's slot is past its bring-up,
  steps of its own, with no help from anyone, end with the slot free and the scope down.
\<close>

theorem blocked_holder_settles:
  assumes "activation_run hs reg um vc async a" and "um [] = None"
    and "a_hold a sco = Some (Settling up)" and "Blocked sco (a_eng a)"
    and "\<not> e_workersClosed (a_eng a)"
  shows "\<exists>a'. holder_step\<^sup>*\<^sup>* a a' \<and> a_hold a' sco = None \<and> trackedScope (a_eng a') sco = None"
  by (rule settle_down [OF assms])

definition act_recalled :: aworld where
  "act_recalled = launched (Block tenant_scope (a_eng act_open)) tenant_scope (Settling False) act_open"

definition act_failed :: aworld where
  "act_failed = go (end_task (BringingUp tenant_scope 0 0)
       (at_eng (dropScope tenant_scope (fst (bring_up_conclude tenant_scope 0
          (Inl (Sentinel Store_ErrClosed)) (release_feed (Some 0) (a_eng act_recalled))))) act_recalled))
     tenant_scope (Some (Settling False)) act_recalled"

lemma act_recalled_fields:
  "a_hold act_recalled tenant_scope = Some (Subscribing_Feed 0 0)"
  "tenant_scope \<in> e_blocked (a_eng act_recalled)" "\<not> e_workersClosed (a_eng act_recalled)"
  by (simp_all add: act_recalled_def launched_def Block_def supersede_def act_open_fields)

lemma sample_activation_recalled: "sample_activation act_recalled"
  unfolding act_recalled_def
  by (rule sample_activation_step [OF sample_activation_open])
    (simp add: astep_def verb_step.block_call)

lemma act_failed_step: "holder_step act_recalled act_failed"
  unfolding act_failed_def by (rule holder_step.subscribe_failed [OF act_recalled_fields(1)]) (rule refl)

lemma sample_activation_failed: "sample_activation act_failed"
  by (rule sample_activation_step [OF sample_activation_recalled]) (simp add: astep_def act_failed_step)

lemma act_failed_fields:
  "a_hold act_failed tenant_scope = Some (Settling False)" "Blocked tenant_scope (a_eng act_failed)"
  "\<not> e_workersClosed (a_eng act_failed)"
  using act_recalled_fields
  by (simp_all add: act_failed_def Blocked_def dropScope_view bring_up_conclude_def)

theorem blocked_holder_settles_witness:
  "\<exists>a'. holder_step\<^sup>*\<^sup>* act_failed a' \<and> a_hold a' tenant_scope = None
     \<and> trackedScope (a_eng a') tenant_scope = None"
  by (rule blocked_holder_settles [OF sample_activation_failed _ act_failed_fields])
    (simp add: sample_decoder_def)

theorem superseded_state_gone_witness:
  "\<exists>a'. astep\<^sup>*\<^sup>* act_recalled a' \<and> a_hold a' tenant_scope = None
     \<and> trackedScope (a_eng a') tenant_scope \<noteq> Some 0"
proof -
  from settle_down [OF sample_activation_failed _ act_failed_fields] obtain a'
    where a': "holder_step\<^sup>*\<^sup>* act_failed a'" "a_hold a' tenant_scope = None"
    by (auto simp: sample_decoder_def)
  have "astep\<^sup>*\<^sup>* act_recalled a'"
    using holder_steps_asteps [OF converse_rtranclp_into_rtranclp [of holder_step, OF act_failed_step a'(1)]] .
  with superseded_state_gone [OF sample_activation_open _ act_open_fields(2,3) _ this a'(2)] a'(2)
  show ?thesis by (auto simp: sample_decoder_def act_recalled_def)
qed

subsection \<open>The cooldown\<close>

text \<open>A failed activation costs one attempt per window: until \<open>activationRetryDelay\<close> has passed since the
  slot was released, Activate starts nothing and changes nothing. Unblock lifts the refusal at once:
  the next Activate starts exactly when the engine is open and the scope untracked.
\<close>

theorem failed_activation_cools_down:
  assumes "releaseActivation t sco False e = (e', True)"
  shows "(now < t + e_retryDelay e \<longrightarrow> Activate now sco e' = (e', False))
    \<and> (snd (Activate now sco (Unblock sco e')) \<longleftrightarrow>
         \<not> e_closed e \<and> \<not> e_workersClosed e \<and> trackedScope e sco = None)"
  using assms
  by (auto simp: releaseActivation_def Activate_def Unblock_def cooling_def launchActivation_def
      beginWork_def trackedScope_def split: if_splits)

theorem failed_activation_cools_down_witness:
  "Activate 8 tenant_scope (fst (releaseActivation 7 tenant_scope False sample_new))
     = (fst (releaseActivation 7 tenant_scope False sample_new), False)
   \<and> snd (Activate 8 tenant_scope (Unblock tenant_scope
          (fst (releaseActivation 7 tenant_scope False sample_new))))"
proof -
  have "releaseActivation 7 tenant_scope False sample_new
      = (fst (releaseActivation 7 tenant_scope False sample_new), True)"
    by (simp add: releaseActivation_def sample_new_def new_engine_def)
  from failed_activation_cools_down [OF this, of 8] show ?thesis
    by (simp add: sample_new_def new_engine_def trackedScope_def)
qed

end
