(* ===== verification/Client_Ops.thy ===== *)
theory Client_Ops
  imports Client_Registry Activation
begin

text \<open>
  The client's operations (\<^verbatim>\<open>internal/client\<close>: \<^verbatim>\<open>client.go\<close>, \<^verbatim>\<open>register.go\<close>, \<^verbatim>\<open>set.go\<close>, \<^verbatim>\<open>get.go\<close>,
  \<^verbatim>\<open>onchange.go\<close>, \<^verbatim>\<open>tenant.go\<close>). The store's answers, the bytes \<open>json.Marshal\<close> makes of a caller's
  value and the clock are arguments. The engine reads the client's own registry map, so the model
  keeps the two fields equal (\<open>linked\<close>): Register writes both.
\<close>

record client =
  cl_engine :: engine
  cl_hasStore :: bool
  cl_multiTenant :: bool
  cl_tenantManaged :: bool
  cl_registry :: client_registry
  cl_started :: bool
  cl_frozen :: bool
  cl_closed :: bool
  cl_closeErr :: "err option option"

definition linked :: "client \<Rightarrow> bool" where
  "linked c \<longleftrightarrow> e_registry (cl_engine c) = Some (engine_view (cl_registry c))"

definition set_engine :: "engine \<Rightarrow> client \<Rightarrow> client" where
  "set_engine e c = c\<lparr>cl_engine := e\<rparr>"

lemma set_engine_simps [simp]:
  "cl_engine (set_engine e c) = e" "cl_multiTenant (set_engine e c) = cl_multiTenant c"
  "cl_tenantManaged (set_engine e c) = cl_tenantManaged c"
  "cl_registry (set_engine e c) = cl_registry c" "cl_started (set_engine e c) = cl_started c"
  "cl_frozen (set_engine e c) = cl_frozen c" "cl_closed (set_engine e c) = cl_closed c"
  "cl_hasStore (set_engine e c) = cl_hasStore c" "cl_closeErr (set_engine e c) = cl_closeErr c"
  by (simp_all add: set_engine_def)

text \<open>The tenant manager's \<open>ContextWithTenantID\<close>, the \<open>ValidatorContext\<close> of every client.\<close>

definition tenant_ctx :: "ctx \<Rightarrow> scope \<Rightarrow> ctx" where
  "tenant_ctx c sco = c\<lparr>ctx_tenant := Tenant sco\<rparr>"

definition newClient ::
  "bool \<Rightarrow> bool \<Rightarrow> bool \<Rightarrow> (bytes \<Rightarrow> json option) \<Rightarrow> bool \<Rightarrow> client"
where
  "newClient hasStore multi managed um async =
     \<lparr>cl_engine = new_engine hasStore (Some (engine_view fmempty)) um (Some tenant_ctx) async,
      cl_hasStore = hasStore, cl_multiTenant = multi, cl_tenantManaged = managed,
      cl_registry = fmempty, cl_started = False, cl_frozen = False, cl_closed = False,
      cl_closeErr = None\<rparr>"

subsection \<open>Scopes\<close>

definition client_scopeFor :: "client \<Rightarrow> ctx \<Rightarrow> scope" where
  "client_scopeFor c x = (if \<not> cl_multiTenant c then Scope [] else Scope (ctx_tenant x))"

definition tenantScope :: "client \<Rightarrow> ctx \<Rightarrow> scope \<times> bool" where
  "tenantScope c x =
     (let sco = client_scopeFor c x in (sco, cl_tenantManaged c \<and> Tenant sco \<noteq> []))"

subsection \<open>Registration\<close>

definition isReservedCatalogKey :: "string \<Rightarrow> string \<Rightarrow> bool" where
  "isReservedCatalogKey ns key \<longleftrightarrow>
     ns = ''-'' \<and> (key = ''catalog'' \<or> take 8 key = ''catalog/'')"

text \<open>
  What the options and the caller's default amount to: whether \<open>ValidateCloneSafe\<close> passes, the two
  validators, the description, and the default's JSON bytes when it marshals.
\<close>

record registration =
  rg_cloneSafe :: "err option"
  rg_description :: string
  rg_validator :: "validator option"
  rg_writeValidator :: "validator option"
  rg_catalogSafe :: "err option"
  rg_marshaled :: "err + bytes"

definition canonicalValue :: "(bytes \<Rightarrow> json option) \<Rightarrow> err + bytes \<Rightarrow> err + json" where
  "canonicalValue um m =
     (case m of
        Inl er \<Rightarrow> Inl er
      | Inr raw \<Rightarrow> (case um raw of None \<Rightarrow> Inl (Sentinel ErrDecode) | Some v \<Rightarrow> Inr v))"

definition validation :: "err list \<Rightarrow> err" where
  "validation causes = Wrap NoNote (Sentinel ErrValidation # causes)"

definition label_validation :: "err \<Rightarrow> err" where
  "label_validation er = (if err_is er ErrValidation then Wrap NoNote [er] else validation [er])"

definition Register :: "string \<Rightarrow> string \<Rightarrow> registration \<Rightarrow> client \<Rightarrow> client \<times> err option" where
  "Register ns key rg c =
     (if cl_closed c then (c, Some (Sentinel Client_ErrClosed))
      else if cl_started c \<or> cl_frozen c then (c, Some (Sentinel ErrRegisterAfterStart))
      else if ns = [] \<or> key = [] then (c, Some (validation []))
      else if isReservedCatalogKey ns key then (c, Some (validation []))
      else case rg_cloneSafe rg of
        Some er \<Rightarrow> (c, Some (validation [er]))
      | None \<Rightarrow>
      if rg_writeValidator rg \<noteq> None \<and> rg_validator rg \<noteq> None then (c, Some (validation []))
      else case rg_catalogSafe rg of
        Some er \<Rightarrow> (c, Some (validation [er]))
      | None \<Rightarrow>
      (case canonicalValue (e_unmarshal (cl_engine c)) (rg_marshaled rg) of
         Inl er \<Rightarrow> (c, Some (validation [er]))
       | Inr canonical \<Rightarrow>
           let v = (if rg_writeValidator rg \<noteq> None then rg_writeValidator rg else rg_validator rg);
               nk = NSKey ns key;
               def = \<lparr>cd_default = canonical, cd_description = rg_description rg,
                      cd_validator = v, cd_writeValidator = rg_writeValidator rg\<rparr>
           in case runValidator background v canonical of
                Some er \<Rightarrow> (c, Some (label_validation er))
              | None \<Rightarrow>
                  if fmlookup (cl_registry c) nk \<noteq> None
                  then (c, Some (wrap_key ErrDuplicateKey nk))
                  else let reg = fmupd nk def (cl_registry c) in
                    (c\<lparr>cl_registry := reg,
                       cl_engine := (cl_engine c)\<lparr>e_registry := Some (engine_view reg)\<rparr>\<rparr>, None)))"

definition IsRegistered :: "string \<Rightarrow> string \<Rightarrow> client \<Rightarrow> bool" where
  "IsRegistered ns key c \<longleftrightarrow> \<not> cl_closed c \<and> fmlookup (cl_registry c) (NSKey ns key) \<noteq> None"

definition KeyDescription :: "string \<Rightarrow> string \<Rightarrow> client \<Rightarrow> string" where
  "KeyDescription ns key c =
     (if cl_closed c then []
      else case fmlookup (cl_registry c) (NSKey ns key) of
        None \<Rightarrow> [] | Some def \<Rightarrow> cd_description def)"

subsection \<open>Writes\<close>

text \<open>What \<open>store.Set\<close> and \<open>store.Delete\<close> answer; a write answers the row's new revision.\<close>

datatype set_answer = Stored int | Set_Failed err
datatype delete_answer = Removed | Delete_Failed err

definition published :: "client \<Rightarrow> err option \<Rightarrow> nskey \<Rightarrow> err option" where
  "published c r nk =
     (case r of
        None \<Rightarrow> None
      | Some er \<Rightarrow>
          if err_is er Engine_ErrClosed then Some (Sentinel Client_ErrClosed)
          else if err_is er ErrScopeNotTracked \<and> cl_multiTenant c then None
          else if err_is er ErrScopeNotTracked
          then Some (Wrap (AtKey (Namespace nk) (Key nk)) [Sentinel ErrNotStarted, er])
          else Some (Wrap (AtKey (Namespace nk) (Key nk)) [er]))"

text \<open>Milliseconds, the coarsest precision either backend stores.\<close>

definition trunc_ms :: "time \<Rightarrow> time" where
  "trunc_ms t = t - t mod 1000000"

text \<open>\<open>Set\<close> up to its call of the store: the refusal, or the row to write.\<close>

definition set_row ::
  "ctx option \<Rightarrow> string \<Rightarrow> string \<Rightarrow> err + bytes \<Rightarrow> string \<Rightarrow> time \<Rightarrow> client \<Rightarrow> err + row"
where
  "set_row x ns key marshaled actor now c =
     (if cl_closed c then Inl (Sentinel Client_ErrClosed)
      else case x of
        None \<Rightarrow> Inl (Sentinel ErrNilContext)
      | Some xx \<Rightarrow>
      if \<not> cl_started c then Inl (Sentinel ErrNotStarted)
      else case fmlookup (cl_registry c) (NSKey ns key) of
        None \<Rightarrow> Inl (wrap_key ErrUnknownKey (NSKey ns key))
      | Some def \<Rightarrow>
      (case marshaled of
         Inl er \<Rightarrow> Inl (validation [er])
       | Inr raw \<Rightarrow>
           let row = \<lparr>row_ns = ns, row_key = key, row_value = raw, row_rev = 0,
                      row_at = trunc_ms now, row_by = actor\<rparr>
           in if cd_validator def = None then Inr row
              else case e_unmarshal (cl_engine c) raw of
                None \<Rightarrow> Inl (validation [Sentinel ErrDecode])
              | Some canonical \<Rightarrow>
                  (case runValidator xx (cd_validator def) canonical of
                     Some er \<Rightarrow> Inl (if err_is er ErrValidation then er else validation [er])
                   | None \<Rightarrow> Inr row)))"

text \<open>
  The whole of \<open>Set\<close>; \<open>during\<close> is what the rest of the process does to the client while the store
  call runs. The flag says the store was called.
\<close>

definition client_Set ::
  "ctx option \<Rightarrow> string \<Rightarrow> string \<Rightarrow> err + bytes \<Rightarrow> string \<Rightarrow> time \<Rightarrow> (client \<Rightarrow> client) \<Rightarrow>
     set_answer \<Rightarrow> client \<Rightarrow> client \<times> bool \<times> err option"
where
  "client_Set x ns key marshaled actor now during ans c =
     (case set_row x ns key marshaled actor now c of
        Inl er \<Rightarrow> (c, False, Some er)
      | Inr row \<Rightarrow>
          let c1 = during c in
          (case ans of
             Set_Failed er \<Rightarrow> (c1, True, Some er)
           | Stored n \<Rightarrow>
               let sco = client_scopeFor c (the x);
                   (e, r) = Publish (the x) sco (row\<lparr>row_rev := n\<rparr>) (cl_engine c1)
               in (set_engine e c1, True, published c r (NSKey ns key))))"

definition delete_refusal :: "ctx option \<Rightarrow> string \<Rightarrow> string \<Rightarrow> client \<Rightarrow> err option" where
  "delete_refusal x ns key c =
     (if cl_closed c then Some (Sentinel Client_ErrClosed)
      else if x = None then Some (Sentinel ErrNilContext)
      else if \<not> cl_started c then Some (Sentinel ErrNotStarted)
      else if fmlookup (cl_registry c) (NSKey ns key) = None
      then Some (wrap_key ErrUnknownKey (NSKey ns key))
      else None)"

definition client_Delete ::
  "ctx option \<Rightarrow> string \<Rightarrow> string \<Rightarrow> (client \<Rightarrow> client) \<Rightarrow> delete_answer \<Rightarrow> client \<Rightarrow>
     client \<times> bool \<times> err option"
where
  "client_Delete x ns key during ans c =
     (case delete_refusal x ns key c of
        Some er \<Rightarrow> (c, False, Some er)
      | None \<Rightarrow>
          let c1 = during c in
          (case ans of
             Delete_Failed er \<Rightarrow> (c1, True, Some er)
           | Removed \<Rightarrow>
               let (e, r) = PublishDelete (client_scopeFor c (the x)) (NSKey ns key) (cl_engine c1)
               in (set_engine e c1, True, published c r (NSKey ns key))))"

subsection \<open>Reads\<close>

datatype read_answer = Row_Found row | Row_Missing | Read_Failed err

definition default_Entry :: "client_keydef \<Rightarrow> Entry" where
  "default_Entry def = zero_Entry\<lparr>pe_value := cd_default def\<rparr>"

definition singleTenantEntry :: "client \<Rightarrow> nskey \<Rightarrow> client_keydef \<Rightarrow> Entry" where
  "singleTenantEntry c nk def =
     (case Lookup (Scope []) nk (cl_engine c) of
        (ent, True) \<Rightarrow> ent
      | (ent, False) \<Rightarrow> (default_Entry def)\<lparr>pe_stale := True\<rparr>)"

definition decodeErr :: "ctx \<Rightarrow> nskey \<Rightarrow> err" where
  "decodeErr x nk = Wrap (AtScope (Scope (ctx_tenant x))) [wrap_key ErrDecode nk]"

definition readThrough ::
  "ctx \<Rightarrow> nskey \<Rightarrow> client_keydef \<Rightarrow> bytes \<Rightarrow> client \<Rightarrow> err + (json \<times> bool)"
where
  "readThrough x nk def raw c =
     (case e_unmarshal (cl_engine c) raw of
        None \<Rightarrow> Inl (decodeErr x nk)
      | Some decoded \<Rightarrow>
          (case runValidator x (readBackValidator def) decoded of
             Some er \<Rightarrow> Inr (cd_default def, False)
           | None \<Rightarrow> Inr (decoded, True)))"

text \<open>The answer of a read: the entry, whether the key is registered, and the error.\<close>

type_synonym reading = "Entry \<times> bool \<times> err option"

definition serve_row :: "ctx \<Rightarrow> nskey \<Rightarrow> client_keydef \<Rightarrow> read_answer \<Rightarrow> client \<Rightarrow> reading" where
  "serve_row x nk def ans c =
     (case ans of
        Read_Failed er \<Rightarrow> (zero_Entry, False, Some (Wrap NoNote [er]))
      | Row_Missing \<Rightarrow> (default_Entry def, True, None)
      | Row_Found r \<Rightarrow>
          (case readThrough x nk def (row_value r) c of
             Inl er \<Rightarrow> (zero_Entry, False, Some er)
           | Inr (v, False) \<Rightarrow> (zero_Entry\<lparr>pe_value := v\<rparr>, True, None)
           | Inr (v, True) \<Rightarrow>
               (\<lparr>pe_value = v, pe_rev = row_rev r, pe_at = row_at r, pe_by = row_by r,
                  pe_stale = False\<rparr>, True, None)))"

text \<open>The flag says a holder was launched for the tenant's scope.\<close>

definition tenantEntry ::
  "time \<Rightarrow> ctx \<Rightarrow> nskey \<Rightarrow> client_keydef \<Rightarrow> read_answer \<Rightarrow> client \<Rightarrow> client \<times> bool \<times> reading"
where
  "tenantEntry now x nk def ans c =
     (let (sco, cacheable) = tenantScope c x in
      if cacheable
      then case Lookup sco nk (cl_engine c) of
          (ent, True) \<Rightarrow> (c, False, ent, True, None)
        | (_, False) \<Rightarrow>
            let (e, started) = Activate now sco (cl_engine c)
            in (set_engine e c, started, serve_row x nk def ans c)
      else (c, False, serve_row x nk def ans c))"

definition getEntry ::
  "time \<Rightarrow> ctx option \<Rightarrow> string \<Rightarrow> string \<Rightarrow> read_answer \<Rightarrow> client \<Rightarrow> client \<times> bool \<times> reading"
where
  "getEntry now x ns key ans c =
     (if cl_closed c then (c, False, zero_Entry, False, Some (Sentinel Client_ErrClosed))
      else case x of
        None \<Rightarrow> (c, False, zero_Entry, False, Some (Sentinel ErrNilContext))
      | Some xx \<Rightarrow>
      let nk = NSKey ns key in
      (case fmlookup (cl_registry c) nk of
         None \<Rightarrow> (c, False, zero_Entry, False, None)
       | Some def \<Rightarrow>
           if \<not> cl_multiTenant c then (c, False, singleTenantEntry c nk def, True, None)
           else tenantEntry now xx nk def ans c))"

subsection \<open>Listing\<close>

record ListEntry =
  le_key :: string
  le_value :: json
  le_description :: string

text \<open>The registered keys of a namespace with their definitions, sorted by key.\<close>

definition registered_in :: "string \<Rightarrow> client \<Rightarrow> (nskey \<times> client_keydef) list" where
  "registered_in ns c =
     map (\<lambda>nk. (nk, the (fmlookup (cl_registry c) nk)))
       (filter (\<lambda>nk. Namespace nk = ns) (sorted_list_of_fset (fmdom (cl_registry c))))"

definition listFromEngine ::
  "scope \<Rightarrow> (nskey \<times> client_keydef) list \<Rightarrow> engine \<Rightarrow> ListEntry list \<times> bool"
where
  "listFromEngine sco keys e =
     (map (\<lambda>(nk, def). case Lookup sco nk e of
          (ent, ok) \<Rightarrow> \<lparr>le_key = Key nk, le_value = (if ok then pe_value ent else cd_default def),
             le_description = cd_description def\<rparr>) keys,
      \<forall>(nk, def) \<in> set keys. snd (Lookup sco nk e))"

text \<open>The last row of a key wins in the map the code builds.\<close>

definition stored_by_key :: "string \<Rightarrow> row list \<Rightarrow> string \<Rightarrow> bytes option" where
  "stored_by_key ns rows key =
     map_option row_value (find (\<lambda>r. row_ns r = ns \<and> row_key r = key) (rev rows))"

fun list_rows ::
  "ctx \<Rightarrow> (string \<Rightarrow> bytes option) \<Rightarrow> (nskey \<times> client_keydef) list \<Rightarrow> client \<Rightarrow> err + ListEntry list"
where
  "list_rows x stored [] c = Inr []"
| "list_rows x stored ((nk, def) # keys) c =
     (case (case stored (Key nk) of
              None \<Rightarrow> Inr (cd_default def, False)
            | Some raw \<Rightarrow> readThrough x nk def raw c) of
        Inl er \<Rightarrow> Inl er
      | Inr (v, _) \<Rightarrow>
          (case list_rows x stored keys c of
             Inl er \<Rightarrow> Inl er
           | Inr es \<Rightarrow> Inr (\<lparr>le_key = Key nk, le_value = v,
                 le_description = cd_description def\<rparr> # es)))"

definition listFromStore ::
  "ctx \<Rightarrow> string \<Rightarrow> (nskey \<times> client_keydef) list \<Rightarrow> err + row list \<Rightarrow> client \<Rightarrow> err + ListEntry list"
where
  "listFromStore x ns keys ans c =
     (case ans of
        Inl er \<Rightarrow> Inl (Wrap NoNote [er])
      | Inr rows \<Rightarrow> list_rows x (stored_by_key ns rows) keys c)"

definition client_List ::
  "time \<Rightarrow> ctx option \<Rightarrow> string \<Rightarrow> err + row list \<Rightarrow> client \<Rightarrow> client \<times> bool \<times> (err + ListEntry list)"
where
  "client_List now x ns ans c =
     (if cl_closed c then (c, False, Inl (Sentinel Client_ErrClosed))
      else case x of
        None \<Rightarrow> (c, False, Inl (Sentinel ErrNilContext))
      | Some xx \<Rightarrow>
      let keys = registered_in ns c in
      if keys = [] then (c, False, Inr [])
      else if \<not> cl_multiTenant c
      then (c, False, Inr (fst (listFromEngine (Scope []) keys (cl_engine c))))
      else let (sco, cacheable) = tenantScope c xx in
        if cacheable
        then case listFromEngine sco keys (cl_engine c) of
            (entries, True) \<Rightarrow> (c, False, Inr entries)
          | (_, False) \<Rightarrow>
              let (e, started) = Activate now sco (cl_engine c)
              in (set_engine e c, started, listFromStore xx ns keys ans c)
        else (c, False, listFromStore xx ns keys ans c))"

subsection \<open>Subscriptions, tenant events, Start and Close\<close>

definition client_OnChange ::
  "string \<Rightarrow> string \<Rightarrow> bool \<Rightarrow> client \<Rightarrow> client \<times> subscription option \<times> err option"
where
  "client_OnChange ns key hasFn c =
     (if cl_closed c then (c, None, Some (Sentinel Client_ErrClosed))
      else if fmlookup (cl_registry c) (NSKey ns key) = None
      then (c, None, Some (wrap_key ErrUnknownKey (NSKey ns key)))
      else if cl_multiTenant c \<and> \<not> cl_tenantManaged c
      then (c, None, Some (Sentinel ErrNotSupportedInMultiTenant))
      else let (e, sub) = eng_OnChange (NSKey ns key) hasFn (cl_engine c)
        in (set_engine e c, sub, None))"

datatype tenant_event = TenantActivated | TenantSuspended | TenantDeleted | CredentialsRotated
  | OtherEvent

text \<open>The flag says a holder was launched.\<close>

definition HandleTenantLifecycle ::
  "tenant_event \<Rightarrow> string \<Rightarrow> client \<Rightarrow> client \<times> bool \<times> err option"
where
  "HandleTenantLifecycle ev tenant c =
     (if \<not> cl_tenantManaged c then (c, False, None)
      else if cl_closed c then (c, False, Some (Sentinel Client_ErrClosed))
      else if tenant = [] then (c, False, Some (validation []))
      else let sco = Scope tenant in
        (case ev of
           TenantActivated \<Rightarrow> (set_engine (Unblock sco (cl_engine c)) c, False, None)
         | TenantSuspended \<Rightarrow>
             let (e, l) = Block sco (cl_engine c) in (set_engine e c, l, None)
         | TenantDeleted \<Rightarrow>
             let (e, l) = Block sco (cl_engine c) in (set_engine e c, l, None)
         | CredentialsRotated \<Rightarrow>
             let (e, l) = Reactivate sco (cl_engine c) in (set_engine e c, l, None)
         | OtherEvent \<Rightarrow> (c, False, None)))"

definition TenantBlocked :: "string \<Rightarrow> client \<Rightarrow> bool" where
  "TenantBlocked tenant c = Blocked (Scope tenant) (cl_engine c)"

text \<open>
  \<open>Start\<close>: \<open>storeAns\<close> is what \<open>store.Start\<close> answered, \<open>during\<close>, \<open>ans\<close>, \<open>waiting\<close> and \<open>w\<close> are those of the
  engine's Start, \<open>expired\<close> says whether the caller's context is done when it returned.
\<close>

definition client_Start ::
  "ctx option \<Rightarrow> err option \<Rightarrow> (engine \<Rightarrow> engine) \<Rightarrow> subscribe_answer \<Rightarrow> (engine \<Rightarrow> engine) \<Rightarrow>
     start_wake \<Rightarrow> bool \<Rightarrow> client \<Rightarrow> client \<times> err option"
where
  "client_Start x storeAns during ans waiting w expired c =
     (if x = None then (c, Some (Sentinel ErrNilContext))
      else if cl_closed c then (c, Some (Sentinel Client_ErrClosed))
      else if \<not> cl_hasStore c then (c, Some (Sentinel Client_ErrClosed))
      else if cl_started c then (c, None)
      else case storeAns of
        Some er \<Rightarrow> (c, Some er)
      | None \<Rightarrow>
          let c1 = c\<lparr>cl_started := True\<rparr> in
          if cl_multiTenant c then (c1, None)
          else (case eng_Start during ans waiting w (cl_engine c1) of
             (e, None) \<Rightarrow> (set_engine e c1, None)
           | (e, Some er) \<Rightarrow>
               ((set_engine e c1)\<lparr>cl_started := False, cl_frozen := expired\<rparr>, Some er)))"

definition client_Close ::
  "(engine \<Rightarrow> engine) \<Rightarrow> bool \<Rightarrow> err option \<Rightarrow> client \<Rightarrow> client \<times> err option"
where
  "client_Close waiting drained storeAns c =
     (case cl_closeErr c of
        Some r \<Rightarrow> (c, r)
      | None \<Rightarrow>
          let (e, engineErr) = eng_Close waiting drained (cl_engine c);
              storeErr = (if cl_hasStore c then map_option (\<lambda>er. Wrap NoNote [er]) storeAns else None);
              causes = (case engineErr of None \<Rightarrow> [] | Some er \<Rightarrow> [er])
                     @ (case storeErr of None \<Rightarrow> [] | Some er \<Rightarrow> [er]);
              r = (if causes = [] then None else Some (Wrap NoNote causes))
          in ((set_engine e c)\<lparr>cl_closed := True, cl_closeErr := Some r\<rparr>, r))"

end
