(* ===== verification/Client_Theorems.thy ===== *)
theory Client_Theorems
  imports Client_Ops Engine_Theorems
begin

text \<open>
  What the client promises its callers: a write it acknowledges is what the next read serves, what
  it refuses never reaches the store, one tenant's calls leave the others alone, a suspended tenant
  is not activated by reads, and the three ways of reading a key agree.
\<close>

subsection \<open>Facts on the operations\<close>

text \<open>What the rest of the process cannot change of a started client.\<close>

definition same_setup :: "client \<Rightarrow> client \<Rightarrow> bool" where
  "same_setup c c1 \<longleftrightarrow> cl_multiTenant c1 = cl_multiTenant c
     \<and> cl_tenantManaged c1 = cl_tenantManaged c \<and> cl_registry c1 = cl_registry c
     \<and> e_unmarshal (cl_engine c1) = e_unmarshal (cl_engine c)"

lemma same_setup_refl [simp]: "same_setup c c"
  by (simp add: same_setup_def)

lemma set_rowD:
  assumes "set_row x ns key m actor now c = Inr row"
  obtains xx raw def where "x = Some xx" and "m = Inr raw" and "\<not> cl_closed c" and "cl_started c"
    and "fmlookup (cl_registry c) (NSKey ns key) = Some def"
    and "row = \<lparr>row_ns = ns, row_key = key, row_value = raw, row_rev = 0, row_at = trunc_ms now,
           row_by = actor\<rparr>"
    and "cd_validator def = None \<or> (\<exists>v. e_unmarshal (cl_engine c) raw = Some v
           \<and> runValidator xx (cd_validator def) v = None)"
  using assms
  by (auto simp: set_row_def Let_def split: if_splits option.splits sum.splits)

text \<open>Reads grade with the write's own validator, or with none.\<close>

lemma graded_read_back:
  "cd_validator def = None \<or> runValidator x (cd_validator def) v = None \<Longrightarrow>
     runValidator x (readBackValidator def) v = None"
  by (auto simp: readBackValidator_def runValidator_def)

lemma serve_row_accepted:
  assumes "e_unmarshal (cl_engine c) (row_value r) = Some v"
    and "runValidator x (readBackValidator def) v = None"
  shows "serve_row x nk def (Row_Found r) c =
    (\<lparr>pe_value = v, pe_rev = row_rev r, pe_at = row_at r, pe_by = row_by r, pe_stale = False\<rparr>,
     True, None)"
  using assms by (simp add: serve_row_def readThrough_def)

lemma launch_simps [simp]:
  "e_scopes (fst (launchActivation sco b e)) = e_scopes e"
  "e_states (fst (launchActivation sco b e)) = e_states e"
  "e_unmarshal (fst (launchActivation sco b e)) = e_unmarshal e"
  by (auto simp: launchActivation_def beginWork_def Let_def)

lemma Activate_simps [simp]:
  "e_scopes (fst (Activate now sco e)) = e_scopes e"
  "e_states (fst (Activate now sco e)) = e_states e"
  "e_unmarshal (fst (Activate now sco e)) = e_unmarshal e"
  by (simp_all add: Activate_def)

lemma serve_row_set_engine:
  "e_unmarshal e = e_unmarshal (cl_engine c) \<Longrightarrow>
     serve_row x nk def ans (set_engine e c) = serve_row x nk def ans c"
  by (simp add: serve_row_def readThrough_def split: read_answer.splits)

text \<open>What a read answers, by where the value comes from.\<close>

definition read_of ::
  "ctx \<Rightarrow> nskey \<Rightarrow> client_keydef \<Rightarrow> read_answer \<Rightarrow> client \<Rightarrow> reading"
where
  "read_of x nk def ans c =
     (if \<not> cl_multiTenant c then (singleTenantEntry c nk def, True, None)
      else case Lookup (client_scopeFor c x) nk (cl_engine c) of
        (ent, ok) \<Rightarrow> if ok \<and> snd (tenantScope c x) then (ent, True, None)
                     else serve_row x nk def ans c)"

lemma getEntry_reads:
  assumes "\<not> cl_closed c" and "fmlookup (cl_registry c) (NSKey ns key) = Some def"
  shows "snd (snd (getEntry now (Some x) ns key ans c)) = read_of x (NSKey ns key) def ans c"
  using assms
  by (auto simp: getEntry_def read_of_def tenantEntry_def tenantScope_def Let_def
      split: prod.splits bool.splits)

lemma singleTenantEntry_hit:
  "Lookup (Scope []) nk (cl_engine c) = (ent, True) \<Longrightarrow> singleTenantEntry c nk def = ent"
  by (simp add: singleTenantEntry_def)

text \<open>A cached key is what every read of its scope serves, where the client caches at all.\<close>

lemma read_of_hit:
  assumes "Lookup (client_scopeFor c x) nk (cl_engine c) = (ent, True)"
    and "\<not> cl_multiTenant c \<or> snd (tenantScope c x)"
  shows "read_of x nk def ans c = (ent, True, None)"
  using assms by (auto simp: read_of_def client_scopeFor_def singleTenantEntry_hit)

subsection \<open>Writes\<close>

definition serving :: "engine \<Rightarrow> bool" where
  "serving e \<longleftrightarrow> cache_ok e \<and> decoder_ok e
     \<and> (\<forall>sco s. trackedScope e sco = Some s \<longrightarrow> \<not> sc_stop (sc_of e s))"

lemma Publish_untracked:
  assumes "Publish c sco se e = (e', Some er)" and "err_is er ErrScopeNotTracked" and "serving e"
  shows "trackedScope e sco = None" and "e' = e"
proof -
  show un: "trackedScope e sco = None"
  proof (rule ccontr)
    assume "trackedScope e sco \<noteq> None"
    then obtain s where s: "trackedScope e sco = Some s" by blast
    with assms(3) have live: "\<not> sc_stop (sc_of e s)" by (simp add: serving_def)
    from s assms(1,2) have ing: "ingest c s se unarmed True e = (e', Some er)"
      by (auto simp: Publish_def writeScope_def split: if_splits)
    show False
      by (cases rule: ingest_cases [of c e s se True unarmed])
        (use ing assms(2) live in \<open>auto simp: prepare_def publish_guard_def
           split: option.splits if_splits\<close>)
  qed
  with assms(1,2) show "e' = e"
    by (auto simp: Publish_def writeScope_def split: if_splits)
qed

lemma Publish_setup:
  assumes "Publish c sco se e = (e', r)"
  shows "env_of e' = env_of e"
  using assms
  by (auto simp: Publish_def writeScope_def dest: ingest_env split: if_splits option.splits)

lemma untracked_read:
  assumes "trackedScope (cl_engine c) (client_scopeFor c x) = None" and "cl_multiTenant c"
  shows "read_of x nk def ans c = serve_row x nk def ans c"
  using assms by (simp add: read_of_def Lookup_def)

text \<open>The two ways \<open>published\<close> turns the engine's answer into nil.\<close>

lemma published_nil:
  "published c r nk = None \<longleftrightarrow>
     (case r of None \<Rightarrow> True
      | Some er \<Rightarrow> \<not> err_is er Engine_ErrClosed \<and> err_is er ErrScopeNotTracked \<and> cl_multiTenant c)"
  by (auto simp: published_def split: option.splits)

lemma Set_read_back:
  assumes "client_Set (Some x) ns key (Inr raw) actor now during (Stored n) c = (c', called, None)"
    and "same_setup c (during c)" and "serving (cl_engine (during c))" and "\<not> cl_closed c'"
    and "e_unmarshal (cl_engine c) raw = Some v" and "row_value r = raw" and "row_rev r = n"
  shows "\<exists>ent. snd (snd (getEntry later (Some x) ns key (Row_Found r) c')) = (ent, True, None)
    \<and> (pe_rev ent = n \<and> pe_value ent = v \<or> n < pe_rev ent)"
proof -
  let ?nk = "NSKey ns key" and ?e = "cl_engine (during c)" and ?sco = "client_scopeFor c x"
  from assms(1) obtain row where row: "set_row (Some x) ns key (Inr raw) actor now c = Inr row"
    by (auto simp: client_Set_def split: sum.splits)
  obtain def where def: "fmlookup (cl_registry c) ?nk = Some def"
    and rowv: "row_nk row = ?nk" "row_value row = raw"
    and graded: "cd_validator def = None \<or> runValidator x (cd_validator def) v = None"
    using row by (rule set_rowD) (auto simp: row_nk_def assms(5))
  obtain e' res where pub: "Publish x ?sco (row\<lparr>row_rev := n\<rparr>) ?e = (e', res)" by fastforce
  with assms(1) row have c': "c' = set_engine e' (during c)" and nil: "published c res ?nk = None"
    by (auto simp: client_Set_def Let_def)
  have um: "e_unmarshal (cl_engine c') = e_unmarshal (cl_engine c)"
    using Publish_setup [OF pub] assms(2) by (simp add: c' same_setup_def env_of_eq)
  have mode: "cl_multiTenant c' = cl_multiTenant c" "cl_tenantManaged c' = cl_tenantManaged c"
    "cl_registry c' = cl_registry c"
    using assms(2) by (simp_all add: c' same_setup_def)
  then have sco: "client_scopeFor c' x = ?sco" by (simp add: client_scopeFor_def)
  have row': "serve_row x ?nk def (Row_Found r) c' = (\<lparr>pe_value = v, pe_rev = n,
      pe_at = row_at r, pe_by = row_by r, pe_stale = False\<rparr>, True, None)"
    using serve_row_accepted [of c' r v x def ?nk] graded_read_back [OF graded] assms(5-7)
    by (simp add: um)
  have read: "snd (snd (getEntry later (Some x) ns key (Row_Found r) c'))
      = read_of x ?nk def (Row_Found r) c'"
    using assms(4) def mode(3) by (intro getEntry_reads) simp_all
  show ?thesis
  proof (cases "res = None")
    case True
    with pub have p: "Publish x ?sco (row\<lparr>row_rev := n\<rparr>) ?e = (e', None)" by simp
    from Publish_serves [OF _ _ p] assms(3,5) assms(2) rowv
    obtain ent where ent: "Lookup ?sco ?nk (cl_engine c') = (ent, True)"
      "pe_rev ent = n \<and> pe_value ent = v \<or> n < pe_rev ent"
      by (auto simp: serving_def same_setup_def row_nk_def c')
    show ?thesis
    proof (cases "\<not> cl_multiTenant c' \<or> snd (tenantScope c' x)")
      case True
      from read_of_hit [OF _ True, of ?nk ent] ent sco read show ?thesis by auto
    next
      case False
      with row' ent(1) sco have "read_of x ?nk def (Row_Found r) c' = (\<lparr>pe_value = v, pe_rev = n,
          pe_at = row_at r, pe_by = row_by r, pe_stale = False\<rparr>, True, None)"
        by (simp add: read_of_def)
      with read show ?thesis by simp
    qed
  next
    case False
    with nil obtain er where er: "res = Some er" "err_is er ErrScopeNotTracked"
      and mt: "cl_multiTenant c" by (auto simp: published_nil)
    from pub er(1) have p: "Publish x ?sco (row\<lparr>row_rev := n\<rparr>) ?e = (e', Some er)" by simp
    from Publish_untracked [OF p er(2) assms(3)] have "trackedScope (cl_engine c') ?sco = None"
      by (simp add: c')
    with mt mode sco have "read_of x ?nk def (Row_Found r) c' = serve_row x ?nk def (Row_Found r) c'"
      by (intro untracked_read) simp_all
    with row' read show ?thesis by simp
  qed
qed

text \<open>C11. Read your writes through the client, in every mode: when Set answers nil, the caller's next
  read of the key answers without an error and serves the row just written (its revision, its
  decoded value) or a newer revision. Where no cache serves the caller, the read goes to the store,
  which answers the row; the validator that let the write pass does not refuse it on the way back.\<close>

theorem set_then_get:
  assumes "client_Set (Some x) ns key (Inr raw) actor now during (Stored n) c = (c', called, None)"
    and "same_setup c (during c)" and "serving (cl_engine (during c))" and "\<not> cl_closed c'"
    and "e_unmarshal (cl_engine c) raw = Some v" and "row_value r = raw" and "row_rev r = n"
  shows "\<exists>ent. snd (snd (getEntry later (Some x) ns key (Row_Found r) c')) = (ent, True, None)
    \<and> (pe_rev ent = n \<and> pe_value ent = v \<or> n < pe_rev ent)"
  using assms by (rule Set_read_back)

text \<open>The witnesses run on a client around the sample engine, single-tenant or tenant-managed.\<close>

definition sample_client :: "bool \<Rightarrow> client" where
  "sample_client multi = \<lparr>cl_engine = sample_up, cl_hasStore = True, cl_multiTenant = multi,
     cl_tenantManaged = multi, cl_registry = sample_registry, cl_started = True,
     cl_frozen = False, cl_closed = False, cl_closeErr = None\<rparr>"

lemma sample_client_simps [simp]:
  "cl_engine (sample_client m) = sample_up" "cl_multiTenant (sample_client m) = m"
  "cl_tenantManaged (sample_client m) = m" "cl_registry (sample_client m) = sample_registry"
  "cl_started (sample_client m)" "\<not> cl_closed (sample_client m)"
  by (simp_all add: sample_client_def)

definition acme :: ctx where
  "acme = \<lparr>ctx_tenant = ''acme'', ctx_value = Map.empty\<rparr>"

lemma sample_registered [simp]:
  "fmlookup sample_registry (NSKey ''app'' ''limit'') = Some \<lparr>cd_default = JNum 1,
     cd_description = ''a limit'', cd_validator = Some sample_validator, cd_writeValidator = None\<rparr>"
  by (simp add: sample_registry_def sample_key_def)

lemma sample_set_row:
  "set_row (Some x) ''app'' ''limit'' (Inr ''6'') ''op'' 7 (sample_client m) =
     Inr \<lparr>row_ns = ''app'', row_key = ''limit'', row_value = ''6'', row_rev = 0, row_at = 0,
       row_by = ''op''\<rparr>"
  by (simp add: set_row_def Let_def sample_decoder_def runValidator_def sample_validator_def
      trunc_ms_def)

lemma sample_serving [simp]: "serving sample_up"
  by (auto simp: serving_def trackedScope_def sample_up_scope newScopeState_def split: if_splits)

lemma sample_Set:
  "\<exists>c'. client_Set (Some x) ''app'' ''limit'' (Inr ''6'') ''op'' 7 (\<lambda>c. c) (Stored 4)
      (sample_client False) = (c', True, None) \<and> \<not> cl_closed c'"
proof -
  let ?se = "\<lparr>row_ns = ''app'', row_key = ''limit'', row_value = ''6'', row_rev = 4, row_at = 0,
    row_by = ''op''\<rparr>"
  obtain e r where p: "Publish x (Scope []) ?se sample_up = (e, r)" by fastforce
  from Publish_decides [OF p] have "r = None"
    by (simp add: trackedScope_def eng_lookup_def sample_decoder_def row_nk_def sample_key_def
        sample_up_scope newScopeState_def)
  with p show ?thesis
    by (simp add: client_Set_def sample_set_row client_scopeFor_def published_def)
qed

theorem set_then_get_witness:
  "\<exists>c' ent. client_Set (Some acme) ''app'' ''limit'' (Inr ''6'') ''op'' 7 (\<lambda>c. c) (Stored 4)
       (sample_client False) = (c', True, None)
    \<and> snd (snd (getEntry 9 (Some acme) ''app'' ''limit'' (Row_Found (sample_row ''6'' 4)) c'))
        = (ent, True, None)
    \<and> (pe_rev ent = 4 \<and> pe_value ent = JStr ''6'' \<or> 4 < pe_rev ent)"
proof -
  from sample_Set obtain c' where c': "client_Set (Some acme) ''app'' ''limit'' (Inr ''6'') ''op'' 7
      (\<lambda>c. c) (Stored 4) (sample_client False) = (c', True, None)" "\<not> cl_closed c'" by blast
  from set_then_get [OF c'(1) _ _ c'(2), of "JStr ''6''" "sample_row ''6'' 4"] c'(1)
  show ?thesis by (simp add: sample_decoder_def)
qed

lemma set_row_written:
  assumes "set_row x ns key m actor now c = Inr row"
  shows "row_nk row = NSKey ns key" and "m = Inr (row_value row)" and "row_by row = actor" and "row_at row = trunc_ms now"
  using assms by (auto simp: set_row_def row_nk_def Let_def split: option.splits sum.splits if_splits)

lemma set_row_refusal:
  assumes "set_row x ns key m actor now c = Inl er"
  shows "if cl_closed c then er = Sentinel Client_ErrClosed
     else if x = None then er = Sentinel ErrNilContext
     else if \<not> cl_started c then er = Sentinel ErrNotStarted
     else if fmlookup (cl_registry c) (NSKey ns key) = None then er = wrap_key ErrUnknownKey (NSKey ns key)
     else err_is er ErrValidation \<and> (case m of
         Inl me \<Rightarrow> er = validation [me]
       | Inr raw \<Rightarrow> (case e_unmarshal (cl_engine c) raw of
             None \<Rightarrow> err_is er ErrDecode
           | Some v \<Rightarrow> (\<exists>def ve. fmlookup (cl_registry c) (NSKey ns key) = Some def
               \<and> runValidator (the x) (cd_validator def) v = Some ve \<and> (er = ve \<or> er = validation [ve]))))"
  using assms
  by (auto simp: set_row_def Let_def validation_def split: option.splits sum.splits if_splits)

text \<open>C12. What Set does, branch by branch. The store is called exactly when the client is open and
  started, the context is not nil, the key is registered, the value marshals and, where the key has
  a validator, the value decodes again and the validator accepts it under the caller's context;
  otherwise the client is left as it was and the error is, in this order: the client is closed; the context
  is nil; it has not started; the key is unknown, naming it; a validation error wrapping the marshalling
  failure, the decoding failure or the validator's own error. The row written carries the key, the caller's
  bytes and actor and the clock's time to the millisecond. After a stored write the answer is
  nil exactly when the engine took the publication or, on a multi-tenant client, has no scope for
  the tenant; a failed store call comes back as it is.\<close>

theorem set_outcome:
  assumes "client_Set x ns key m actor now during ans c = (c', called, r)"
  shows "(called \<longleftrightarrow> \<not> cl_closed c \<and> x \<noteq> None \<and> cl_started c
      \<and> (\<exists>def raw. fmlookup (cl_registry c) (NSKey ns key) = Some def \<and> m = Inr raw
           \<and> (cd_validator def = None \<or> (\<exists>v. e_unmarshal (cl_engine c) raw = Some v
                 \<and> runValidator (the x) (cd_validator def) v = None))))
    \<and> (\<not> called \<longrightarrow> c' = c \<and> (\<exists>er. r = Some er
        \<and> (if cl_closed c then er = Sentinel Client_ErrClosed
           else if x = None then er = Sentinel ErrNilContext
           else if \<not> cl_started c then er = Sentinel ErrNotStarted
           else if fmlookup (cl_registry c) (NSKey ns key) = None then er = wrap_key ErrUnknownKey (NSKey ns key)
           else err_is er ErrValidation \<and> (case m of
               Inl me \<Rightarrow> er = validation [me]
             | Inr raw \<Rightarrow> (case e_unmarshal (cl_engine c) raw of
                   None \<Rightarrow> err_is er ErrDecode
                 | Some v \<Rightarrow> (\<exists>def ve. fmlookup (cl_registry c) (NSKey ns key) = Some def
                     \<and> runValidator (the x) (cd_validator def) v = Some ve \<and> (er = ve \<or> er = validation [ve])))))))
    \<and> (called \<longrightarrow> (case ans of
          Set_Failed er \<Rightarrow> c' = during c \<and> r = Some er
        | Stored n \<Rightarrow> (\<exists>row e res. set_row x ns key m actor now c = Inr row
            \<and> row_nk row = NSKey ns key \<and> m = Inr (row_value row) \<and> row_by row = actor \<and> row_at row = trunc_ms now
            \<and> Publish (the x) (client_scopeFor c (the x)) (row\<lparr>row_rev := n\<rparr>)
                (cl_engine (during c)) = (e, res)
            \<and> c' = set_engine e (during c)
            \<and> (r = None \<longleftrightarrow> res = None \<or> cl_multiTenant c
                \<and> err_is (the res) ErrScopeNotTracked \<and> \<not> err_is (the res) Engine_ErrClosed))))"
proof -
  have row: "is_ok (set_row x ns key m actor now c) \<longleftrightarrow> \<not> cl_closed c \<and> x \<noteq> None \<and> cl_started c
      \<and> (\<exists>def raw. fmlookup (cl_registry c) (NSKey ns key) = Some def \<and> m = Inr raw
           \<and> (cd_validator def = None \<or> (\<exists>v. e_unmarshal (cl_engine c) raw = Some v
                 \<and> runValidator (the x) (cd_validator def) v = None)))"
    by (auto simp: set_row_def Let_def split: option.splits sum.splits)
  show ?thesis
  proof (cases "set_row x ns key m actor now c")
    case (Inl er)
    with assms have c: "\<not> called" "c' = c" "r = Some er" by (simp_all add: client_Set_def)
    from set_row_refusal [OF Inl] c row Inl show ?thesis by simp
  next
    case (Inr rw)
    with assms row set_row_written [OF Inr] show ?thesis
      by (auto simp: client_Set_def Let_def published_nil split: set_answer.splits prod.splits
          option.splits)
  qed
qed

theorem set_outcome_witness:
  "\<exists>er. client_Set (Some acme) ''app'' ''limit'' (Inr ''bad'') ''op'' 7 (\<lambda>c. c) (Stored 4)
       (sample_client True) = (sample_client True, False, Some er) \<and> err_is er ErrValidation"
proof -
  obtain c' called r where s: "client_Set (Some acme) ''app'' ''limit'' (Inr ''bad'') ''op'' 7 (\<lambda>c. c)
      (Stored 4) (sample_client True) = (c', called, r)" by (cases rule: prod_cases3) blast
  from set_outcome [OF s] have "\<not> called"
    by (simp add: sample_decoder_def runValidator_def sample_validator_def)
  with set_outcome [OF s] s show ?thesis by auto
qed

subsection \<open>Tenants\<close>

text \<open>A local write or removal is an ingress of the one scope it names.\<close>

lemma ingress_Lookup_other:
  assumes "ingress s e e'" and "trackedScope e sco = Some s" and "scopes_ok e" and "sco' \<noteq> sco"
  shows "Lookup sco' nk e' = Lookup sco' nk e"
proof (cases "trackedScope e sco'")
  case None
  then show ?thesis by (simp add: Lookup_def trackedScope_env [OF ingress_env [OF assms(1)]])
next
  case (Some t)
  with assms(2-4) have "t \<noteq> s" by (auto dest: scopes_okD(2))
  from ingress_other [OF assms(1) this] Some show ?thesis
    by (simp add: Lookup_def trackedScope_env [OF ingress_env [OF assms(1)]])
qed

lemma Publish_other_scope:
  assumes "Publish c sco se e = (e', r)" and "scopes_ok e" and "decoder_ok e" and "sco' \<noteq> sco"
  shows "Lookup sco' nk e' = Lookup sco' nk e"
proof (cases "e_closed e \<or> trackedScope e sco = None")
  case True
  with assms(1) show ?thesis by (auto simp: Publish_def writeScope_def split: if_splits option.splits)
next
  case False
  then obtain s where s: "trackedScope e sco = Some s" "\<not> e_closed e" by auto
  with assms(1) have "ingest c s se unarmed True e = (e', r)"
    by (simp add: Publish_def writeScope_def)
  from ingress_Lookup_other [OF ingress_ingest [OF this assms(3)] s(1) assms(2,4)] show ?thesis .
qed

lemma PublishDelete_other_scope:
  assumes "PublishDelete sco nk' e = (e', r)" and "scopes_ok e" and "sco' \<noteq> sco"
  shows "Lookup sco' nk e' = Lookup sco' nk e"
proof (cases "e_closed e \<or> trackedScope e sco = None")
  case True
  with assms(1) show ?thesis
    by (auto simp: PublishDelete_def writeScope_def split: if_splits option.splits)
next
  case False
  then obtain s where s: "trackedScope e sco = Some s" "\<not> e_closed e" by auto
  obtain e1 q where i: "ingestDefault s nk' True e = (e1, q)" by fastforce
  with s assms(1) have "ingress s e e'"
    using ingress_ingestDefault [OF i]
    by (auto simp: PublishDelete_def writeScope_def split: sum.splits if_splits intro: ingress_record)
  from ingress_Lookup_other [OF this s(1) assms(2,3)] show ?thesis .
qed

lemma PublishDelete_setup: "PublishDelete sco nk e = (e', r) \<Longrightarrow> env_of e' = env_of e"
  by (auto simp: PublishDelete_def writeScope_def dest!: ingestDefault_env
      split: if_splits option.splits prod.splits sum.splits)

text \<open>A read reads the engine through the caller's own scope and the decoder.\<close>

lemma getEntry_engine_cong:
  assumes "\<And>nk. Lookup (client_scopeFor c y) nk e = Lookup (client_scopeFor c y) nk (cl_engine c)"
    and "e_unmarshal e = e_unmarshal (cl_engine c)"
  shows "snd (snd (getEntry now (Some y) ns key ans (set_engine e c)))
    = snd (snd (getEntry now (Some y) ns key ans c))"
proof (cases "cl_closed c \<or> fmlookup (cl_registry c) (NSKey ns key) = None")
  case True
  then show ?thesis by (auto simp: getEntry_def)
next
  case False
  then obtain def where "fmlookup (cl_registry c) (NSKey ns key) = Some def" "\<not> cl_closed c" by auto
  moreover have "client_scopeFor (set_engine e c) y = client_scopeFor c y"
    "tenantScope (set_engine e c) y = tenantScope c y"
    by (simp_all add: client_scopeFor_def tenantScope_def)
  moreover have "singleTenantEntry (set_engine e c) nk d = singleTenantEntry c nk d"
    if "\<not> cl_multiTenant c" for nk d
    using assms(1) that by (simp add: singleTenantEntry_def client_scopeFor_def)
  ultimately show ?thesis
    using assms by (simp add: getEntry_reads read_of_def serve_row_set_engine split: prod.split)
qed

text \<open>C13. Tenants are isolated: whatever a Set or a Delete made under one tenant's context does or
  refuses, every read made under a context of another tenant answers the same afterwards as it would
  have before (as it would have where the store call ended, when the store was called).\<close>

theorem tenants_isolated:
  assumes "client_Set (Some x) ns key m actor now during ans c = (c', called, r)
      \<or> client_Delete (Some x) ns key during del c = (c', called, r)"
    and "same_setup c (during c)" and "scopes_ok (cl_engine (during c))"
    and "decoder_ok (cl_engine (during c))"
    and "client_scopeFor c y \<noteq> client_scopeFor c x"
  shows "snd (snd (getEntry later (Some y) ns' key' row c'))
    = snd (snd (getEntry later (Some y) ns' key' row (if called then during c else c)))"
proof -
  let ?d = "during c"
  have sco: "client_scopeFor ?d y = client_scopeFor c y"
    using assms(2) by (simp add: same_setup_def client_scopeFor_def)
  have reads: "snd (snd (getEntry later (Some y) ns' key' row (set_engine e ?d)))
      = snd (snd (getEntry later (Some y) ns' key' row ?d))"
    if "\<And>nk. Lookup (client_scopeFor c y) nk e = Lookup (client_scopeFor c y) nk (cl_engine ?d)"
      and "env_of e = env_of (cl_engine ?d)" for e
    using that by (intro getEntry_engine_cong) (simp_all add: sco env_of_eq)
  have set: "snd (snd (getEntry later (Some y) ns' key' row (set_engine e ?d)))
      = snd (snd (getEntry later (Some y) ns' key' row ?d))"
    if "Publish x (client_scopeFor c x) se (cl_engine ?d) = (e, q)" for se e q
    using Publish_other_scope [OF that assms(3,4,5)] Publish_setup [OF that] by (rule reads)
  have del: "snd (snd (getEntry later (Some y) ns' key' row (set_engine e ?d)))
      = snd (snd (getEntry later (Some y) ns' key' row ?d))"
    if "PublishDelete (client_scopeFor c x) nk (cl_engine ?d) = (e, q)" for nk e q
    using PublishDelete_other_scope [OF that assms(3,5)] PublishDelete_setup [OF that]
    by (rule reads)
  from assms(1) show ?thesis
    by (auto simp: client_Set_def client_Delete_def Let_def set del
        split: sum.splits option.splits set_answer.splits delete_answer.splits prod.splits)
qed

text \<open>The witness: a tenant writes on a tenant-managed client where only the zero scope is up.\<close>

lemma sample_scopes_ok [simp]: "scopes_ok sample_up"
proof -
  have "e_nextSid sample_up = 1" and "\<forall>s \<ge> 1. sc_of sample_up s = newScopeState (Scope [])"
    by (simp_all add: sample_up_def sample_new_def new_engine_def bringUpScope_def
        bring_up_begin_def scopeFor_def open_feed_def bring_up_conclude_def onResync_def
        scopeForEvent_def trackedScope_def ensureReconcileWorker_def Let_def newScopeState_def
        arm_scope_def armReconcile_def queueReconcile_def)
  then show ?thesis
    by (auto simp: scopes_ok_def trackedScope_def sample_up_scope newScopeState_def
        split: if_splits)
qed

theorem tenants_isolated_witness:
  "\<exists>c' r. client_Delete (Some background) ''app'' ''limit'' (\<lambda>c. c) Removed (sample_client True)
       = (c', True, r)
    \<and> snd (snd (getEntry 9 (Some acme) ''app'' ''limit'' Row_Missing c'))
        = snd (snd (getEntry 9 (Some acme) ''app'' ''limit'' Row_Missing (sample_client True)))"
proof -
  obtain c' called r where d: "client_Delete (Some background) ''app'' ''limit'' (\<lambda>c. c) Removed
      (sample_client True) = (c', called, r)" by (cases rule: prod_cases3) blast
  then have called by (auto simp: client_Delete_def delete_refusal_def Let_def split: prod.splits)
  moreover from d have "client_Set (Some background) ''app'' ''limit'' (Inr []) [] 7 (\<lambda>c. c)
      (Stored 1) (sample_client True) = (c', called, r)
    \<or> client_Delete (Some background) ''app'' ''limit'' (\<lambda>c. c) Removed
      (sample_client True) = (c', called, r)" by blast
  note tenants_isolated [OF this, of acme]
  ultimately show ?thesis using d by (auto simp: client_scopeFor_def background_def acme_def)
qed

lemma set_engine_same [simp]: "set_engine (cl_engine c) c = c"
  by (simp add: set_engine_def)

lemma Activate_blocked: "Blocked sco e \<Longrightarrow> Activate now sco e = (e, False)"
  by (simp add: Activate_def Blocked_def)

text \<open>A read that launches nothing leaves the client as it found it.\<close>

lemma read_blocked:
  assumes "cl_multiTenant c \<longrightarrow> Blocked (Scope (ctx_tenant x)) (cl_engine c)"
  shows "fst (getEntry now (Some x) ns key ans c) = c \<and> \<not> fst (snd (getEntry now (Some x) ns key ans c))"
    and "fst (client_List now (Some x) ns rows c) = c \<and> \<not> fst (snd (client_List now (Some x) ns rows c))"
  using assms
  by (auto simp: getEntry_def client_List_def tenantEntry_def tenantScope_def client_scopeFor_def
      Activate_blocked Let_def split: option.splits prod.splits bool.splits)

lemma supersede_blocked [simp]: "e_blocked (fst (supersede sco e)) = e_blocked e"
  by (auto simp: supersede_def launchActivation_def beginWork_def Let_def)

text \<open>A suspended or deleted tenant stays down: after the lifecycle event, no read of that tenant
  (a single key or a whole namespace) launches an activation or changes the client at all, until an
  activation event lifts the block; then the tenant's next read of a registered key launches one at
  once, whatever cooldown an earlier failure left, if the tenant is untracked, its slot free and the
  engine open.\<close>

theorem suspended_tenant_stays_down:
  assumes "ev = TenantSuspended \<or> ev = TenantDeleted"
    and "HandleTenantLifecycle ev (ctx_tenant x) c = (c1, l1, r)"
    and "HandleTenantLifecycle TenantActivated (ctx_tenant x) c1 = (c2, l2, r2)"
    and "cl_tenantManaged c" and "\<not> cl_closed c" and "ctx_tenant x \<noteq> []"
  shows "r = None \<and> TenantBlocked (ctx_tenant x) c1
    \<and> fst (getEntry now (Some x) ns key ans c1) = c1
    \<and> \<not> fst (snd (getEntry now (Some x) ns key ans c1))
    \<and> fst (client_List now (Some x) ns rows c1) = c1
    \<and> \<not> fst (snd (client_List now (Some x) ns rows c1))
    \<and> \<not> TenantBlocked (ctx_tenant x) c2
    \<and> (cl_multiTenant c \<and> fmlookup (cl_registry c) (NSKey ns key) \<noteq> None
        \<and> e_activating (cl_engine c1) (Scope (ctx_tenant x)) = None
        \<and> trackedScope (cl_engine c1) (Scope (ctx_tenant x)) = None
        \<and> \<not> e_closed (cl_engine c1) \<and> \<not> e_workersClosed (cl_engine c1)
       \<longrightarrow> fst (snd (getEntry now (Some x) ns key ans c2)))"
proof -
  let ?sco = "Scope (ctx_tenant x)"
  obtain e l where b: "Block ?sco (cl_engine c) = (e, l)" by fastforce
  have c1: "c1 = set_engine e c" "r = None"
    using assms b by (auto simp: HandleTenantLifecycle_def Let_def)
  have "Blocked ?sco (cl_engine c1)"
    using arg_cong [OF b, of "\<lambda>p. e_blocked (fst p)"]
    by (simp add: c1 Block_def Blocked_def) blast
  then have down: "TenantBlocked (ctx_tenant x) c1"
    "fst (getEntry now (Some x) ns key ans c1) = c1"
    "\<not> fst (snd (getEntry now (Some x) ns key ans c1))"
    "fst (client_List now (Some x) ns rows c1) = c1"
    "\<not> fst (snd (client_List now (Some x) ns rows c1))"
    using read_blocked [of c1 x] by (simp_all add: TenantBlocked_def)
  have c2: "c2 = set_engine (Unblock ?sco (cl_engine c1)) c1"
    using assms(3-6) by (auto simp: HandleTenantLifecycle_def c1 Let_def)
  then have "\<not> TenantBlocked (ctx_tenant x) c2"
    by (simp add: TenantBlocked_def Blocked_def Unblock_def)
  moreover have "fst (snd (getEntry now (Some x) ns key ans c2))"
    if "cl_multiTenant c" "fmlookup (cl_registry c) (NSKey ns key) \<noteq> None"
      "e_activating (cl_engine c1) ?sco = None" "trackedScope (cl_engine c1) ?sco = None"
      "\<not> e_closed (cl_engine c1)" "\<not> e_workersClosed (cl_engine c1)"
  proof -
    have "snd (Activate now ?sco (cl_engine c2))"
      using that c2 by (simp add: Activate_def cooling_def Unblock_def trackedScope_def
          launchActivation_def beginWork_def)
    moreover have "Lookup ?sco nk (cl_engine c2) = (zero_Entry, False)" for nk
      using that c2 by (simp add: Lookup_def trackedScope_def Unblock_def)
    ultimately show ?thesis
      using that assms(4-6) c2 c1
      by (auto simp: getEntry_def tenantEntry_def tenantScope_def client_scopeFor_def
          split: prod.splits)
  qed
  ultimately show ?thesis using c1(2) down by blast
qed

text \<open>The tenant of the witness is suspended while its scope is down.\<close>

theorem suspended_tenant_stays_down_witness:
  "\<exists>c1 c2. HandleTenantLifecycle TenantSuspended ''acme'' (sample_client True) = (c1, False, None)
     \<and> HandleTenantLifecycle TenantActivated ''acme'' c1 = (c2, False, None)
     \<and> \<not> fst (snd (getEntry 9 (Some acme) ''app'' ''limit'' Row_Missing c1))
     \<and> fst (snd (getEntry 9 (Some acme) ''app'' ''limit'' Row_Missing c2))"
proof -
  let ?e = "fst (Block (Scope ''acme'') sample_up)"
  let ?c1 = "set_engine ?e (sample_client True)"
  have act: "e_activating sample_up = Map.empty"
    by (simp add: sample_up_def sample_new_def new_engine_def bringUpScope_def
        bring_up_begin_def scopeFor_def open_feed_def bring_up_conclude_def onResync_def
        scopeForEvent_def trackedScope_def ensureReconcileWorker_def Let_def newScopeState_def
        arm_scope_def armReconcile_def queueReconcile_def)
  then have b: "Block (Scope ''acme'') sample_up = (?e, False)"
      "e_activating ?e = Map.empty" "e_scopes ?e = e_scopes sample_up"
      "e_closed ?e = e_closed sample_up" "e_workersClosed ?e = e_workersClosed sample_up"
    by (simp_all add: Block_def supersede_def trackedScope_def)
  then have 1: "HandleTenantLifecycle TenantSuspended (ctx_tenant acme) (sample_client True)
      = (?c1, False, None)"
    using b(1) by (auto simp: HandleTenantLifecycle_def acme_def split: prod.splits)
  have 2: "HandleTenantLifecycle TenantActivated (ctx_tenant acme) ?c1
      = (set_engine (Unblock (Scope ''acme'') ?e) ?c1, False, None)"
    by (simp add: HandleTenantLifecycle_def acme_def)
  from suspended_tenant_stays_down [OF _ 1 2, of 9 "''app''" "''limit''" Row_Missing] 1 2 b
  show ?thesis by (auto simp: acme_def trackedScope_def)
qed

subsection \<open>The registry\<close>

text \<open>
  What every registered key satisfies: it is named, it is not one of the catalog's own, its default
  has the shape a stored row decodes to, the validator that will grade its writes accepts that
  default, and a write-only validator is the one writes are graded by. The engine sees these keys.
\<close>

definition keydef_ok :: "(bytes \<Rightarrow> json option) \<Rightarrow> nskey \<Rightarrow> client_keydef \<Rightarrow> bool" where
  "keydef_ok um nk def \<longleftrightarrow> Namespace nk \<noteq> [] \<and> Key nk \<noteq> []
     \<and> \<not> isReservedCatalogKey (Namespace nk) (Key nk)
     \<and> (\<exists>raw. um raw = Some (cd_default def))
     \<and> runValidator background (cd_validator def) (cd_default def) = None
     \<and> (cd_writeValidator def \<noteq> None \<longrightarrow> cd_validator def = cd_writeValidator def)"

definition registry_ok :: "client \<Rightarrow> bool" where
  "registry_ok c \<longleftrightarrow> linked c \<and> (\<forall>nk def. fmlookup (cl_registry c) nk = Some def \<longrightarrow>
     keydef_ok (e_unmarshal (cl_engine c)) nk def)"

text \<open>A registration that is accepted, and what it adds.\<close>

lemma Register_accepted:
  assumes "Register ns key rg c = (c', None)"
  obtains def where "\<not> cl_closed c" and "\<not> cl_started c" and "\<not> cl_frozen c"
    and "fmlookup (cl_registry c) (NSKey ns key) = None"
    and "keydef_ok (e_unmarshal (cl_engine c)) (NSKey ns key) def"
    and "c' = c\<lparr>cl_registry := fmupd (NSKey ns key) def (cl_registry c),
       cl_engine := (cl_engine c)\<lparr>e_registry :=
         Some (engine_view (fmupd (NSKey ns key) def (cl_registry c)))\<rparr>\<rparr>"
proof -
  from assms obtain raw canonical where dec: "e_unmarshal (cl_engine c) raw = Some canonical"
    and can: "canonicalValue (e_unmarshal (cl_engine c)) (rg_marshaled rg) = Inr canonical"
    by (auto simp: Register_def canonicalValue_def split: if_splits option.splits sum.splits)
  let ?v = "if rg_writeValidator rg \<noteq> None then rg_writeValidator rg else rg_validator rg"
  let ?def = "\<lparr>cd_default = canonical, cd_description = rg_description rg, cd_validator = ?v,
    cd_writeValidator = rg_writeValidator rg\<rparr>"
  from assms can have "\<not> cl_closed c" "\<not> cl_started c" "\<not> cl_frozen c" "ns \<noteq> []" "key \<noteq> []"
    "\<not> isReservedCatalogKey ns key" "runValidator background ?v canonical = None"
    "fmlookup (cl_registry c) (NSKey ns key) = None"
    "c' = c\<lparr>cl_registry := fmupd (NSKey ns key) ?def (cl_registry c),
       cl_engine := (cl_engine c)\<lparr>e_registry :=
         Some (engine_view (fmupd (NSKey ns key) ?def (cl_registry c)))\<rparr>\<rparr>"
    by (auto simp: Register_def Let_def split: if_splits option.splits)
  with dec show ?thesis by (intro that [of ?def]) (auto simp: keydef_ok_def)
qed

lemma Register_refused: "Register ns key rg c = (c', Some er) \<Longrightarrow> c' = c"
  by (auto simp: Register_def Let_def split: if_splits option.splits sum.splits)

text \<open>C14. Register keeps the registry well formed, from the empty one of a new client on: a refusal
  changes nothing; an accepted key was new, on an open client that never started, and from then on
  is what the client and the engine both read, with no other key moved; and whatever validator it
  has accepts its default in the decoded shape.\<close>

theorem register_well_formed:
  assumes "Register ns key rg c = (c', r)" and "registry_ok c"
  shows "registry_ok (newClient hasStore multi managed um async) \<and> registry_ok c'
    \<and> (r \<noteq> None \<longrightarrow> c' = c)
    \<and> (r = None \<longrightarrow> \<not> cl_closed c \<and> \<not> cl_started c \<and> \<not> cl_frozen c
        \<and> \<not> IsRegistered ns key c \<and> IsRegistered ns key c'
        \<and> (\<exists>d. eng_lookup (cl_engine c') (NSKey ns key) = Some d
             \<and> runValidator background (kd_validate d) (kd_default d) = None)
        \<and> (\<forall>nk. nk \<noteq> NSKey ns key \<longrightarrow> eng_lookup (cl_engine c') nk = eng_lookup (cl_engine c) nk))"
proof (cases r)
  case (Some er)
  with assms Register_refused [of ns key rg c c' er] show ?thesis
    by (simp add: registry_ok_def linked_def newClient_def new_engine_def)
next
  case None
  with assms(1) have "Register ns key rg c = (c', None)" by simp
  then obtain def where *: "\<not> cl_closed c" "\<not> cl_started c" "\<not> cl_frozen c"
    "fmlookup (cl_registry c) (NSKey ns key) = None"
    "keydef_ok (e_unmarshal (cl_engine c)) (NSKey ns key) def"
    and c': "c' = c\<lparr>cl_registry := fmupd (NSKey ns key) def (cl_registry c),
       cl_engine := (cl_engine c)\<lparr>e_registry :=
         Some (engine_view (fmupd (NSKey ns key) def (cl_registry c)))\<rparr>\<rparr>"
    by (rule Register_accepted)
  have look: "eng_lookup (cl_engine c') nk = (if nk = NSKey ns key
      then Some \<lparr>kd_default = cd_default def, kd_validate = readBackValidator def\<rparr>
      else eng_lookup (cl_engine c) nk)" for nk
    using assms(2) by (simp add: c' eng_lookup_def client_Lookup_def registry_ok_def linked_def)
  have "runValidator background (readBackValidator def) (cd_default def) = None"
    using *(5) by (intro graded_read_back) (simp add: keydef_ok_def)
  with * None look assms(2) show ?thesis
    by (auto simp: c' registry_ok_def linked_def newClient_def new_engine_def IsRegistered_def)
qed

text \<open>The witness registers a key on a new client, with a validator that refuses every string.\<close>

definition sample_registration :: registration where
  "sample_registration = \<lparr>rg_cloneSafe = None, rg_description = [], rg_validator = None,
     rg_writeValidator = Some sample_validator, rg_catalogSafe = None, rg_marshaled = Inr ''on''\<rparr>"

theorem register_well_formed_witness:
  "\<exists>c'. Register ''app'' ''mode'' sample_registration (newClient True False False sample_decoder True)
      = (c', None) \<and> registry_ok c' \<and> IsRegistered ''app'' ''mode'' c'"
proof -
  let ?c = "newClient True False False sample_decoder True"
  have ok: "registry_ok ?c" by (simp add: registry_ok_def linked_def newClient_def new_engine_def)
  have "snd (Register ''app'' ''mode'' sample_registration ?c) = None"
    by (simp add: Register_def sample_registration_def newClient_def new_engine_def
        isReservedCatalogKey_def canonicalValue_def sample_decoder_def runValidator_def
        sample_validator_def Let_def)
  then obtain c' where r: "Register ''app'' ''mode'' sample_registration ?c = (c', None)"
    by (metis prod.collapse)
  from register_well_formed [OF r ok] r show ?thesis by blast
qed

subsection \<open>The ways of reading agree\<close>

text \<open>
  A validator that grades a value by the tenant alone, as the options ask of one that must decide
  alike on every ingress; its errors are its own, never the engine's sentinel.
\<close>

definition tenant_only :: "validator option \<Rightarrow> bool" where
  "tenant_only v \<longleftrightarrow> (\<forall>f. v = Some f \<longrightarrow>
     (\<forall>x y j. ctx_tenant x = ctx_tenant y \<longrightarrow> f x j = f y j)
     \<and> (\<forall>x j er. f x j = VErr er \<longrightarrow> \<not> err_is er ErrUnregisteredKey))"

lemma tenant_only_read_back: "tenant_only (cd_validator def) \<Longrightarrow> tenant_only (readBackValidator def)"
  by (simp add: tenant_only_def readBackValidator_def)

lemma tenant_only_grades:
  assumes "tenant_only v" and "ctx_tenant x = ctx_tenant y"
  shows "runValidator x v j = runValidator y v j"
    and "runValidator x v j = Some er \<Longrightarrow> \<not> err_is er ErrUnregisteredKey"
proof -
  have "f x j = f y j \<and> (\<forall>er. f x j = VErr er \<longrightarrow> \<not> err_is er ErrUnregisteredKey)" if "v = Some f" for f
    using assms that unfolding tenant_only_def by blast
  then show "runValidator x v j = runValidator y v j"
    and "runValidator x v j = Some er \<Longrightarrow> \<not> err_is er ErrUnregisteredKey"
    by (auto simp: runValidator_def split: option.splits vres.splits)
qed

text \<open>What the store answers a read of one key when its table holds \<open>rows\<close>.\<close>

definition row_answer :: "row list \<Rightarrow> nskey \<Rightarrow> read_answer" where
  "row_answer rows nk = (case snapshot_row rows nk of None \<Rightarrow> Row_Missing | Some r \<Rightarrow> Row_Found r)"

text \<open>The entry a first reconcile leaves for a key, and the entry a per-request read makes of the
  same table, are one: the key's value, revision and provenance.\<close>

definition unstale :: "Entry \<Rightarrow> Entry" where
  "unstale ent = ent\<lparr>pe_stale := False\<rparr>"

lemma converge_serves:
  assumes link: "linked c" "fmlookup (cl_registry c) nk = Some def"
    and ctx: "e_validatorContext (cl_engine c) = Some tenant_ctx" "t \<noteq> []" "ctx_tenant x = t"
    and dec: "\<And>r. snapshot_row rows nk = Some r \<Longrightarrow> e_unmarshal (cl_engine c) (row_value r) \<noteq> None"
    and val: "tenant_only (cd_validator def)" and win: "nk \<notin> touched w"
  shows "\<exists>u b. converge (cl_engine c) (Scope t) w nk (snapshot_row rows nk) (None, b0) = (Some u, b)
    \<and> serve_row x nk def (row_answer rows nk) c = (\<lparr>pe_value = ent_value u, pe_rev = ent_rev u,
         pe_at = ent_at u, pe_by = ent_by u, pe_stale = False\<rparr>, True, None)"
proof -
  let ?e = "cl_engine c"
  have look: "eng_lookup ?e nk = Some \<lparr>kd_default = cd_default def, kd_validate = readBackValidator def\<rparr>"
    using link by (simp add: eng_lookup_def linked_def client_Lookup_def)
  show ?thesis
  proof (cases "snapshot_row rows nk")
    case None
    with look win show ?thesis
      by (intro exI [of _ "default_entry \<lparr>kd_default = cd_default def, kd_validate = None\<rparr>"]
          exI [of _ False])
        (simp add: converge_def default_entry_def serve_row_def row_answer_def default_Entry_def
          zero_Entry_def)
  next
    case (Some r)
    then have nk: "row_nk r = nk" by (auto simp: snapshot_row_def find_Some_iff)
    from dec [OF Some] obtain v where v: "e_unmarshal ?e (row_value r) = Some v" by auto
    let ?y = "validatorCtx ?e dispatchContext (Scope t)"
    have "ctx_tenant ?y = ctx_tenant x"
      using ctx by (simp add: validatorCtx_def tenant_ctx_def)
    note g = tenant_only_grades [OF tenant_only_read_back [OF val] this, of v]
    show ?thesis
    proof (cases "runValidator x (readBackValidator def) v")
      case None
      with g look v nk have "prepare dispatchContext (Scope t) r False ?e = Inr \<lparr>pub_scope = Scope t,
          pub_nk = nk, pub_rev = row_rev r, pub_value = v, pub_raw = row_value r,
          pub_deleted = False, pub_at = row_at r, pub_by = row_by r\<rparr>"
        by (simp add: prepare_def)
      with None Some look win v show ?thesis
        by (simp add: converge_def merge_def fence_def entry_of_def row_answer_def
            serve_row_accepted)
    next
      case bad: (Some er)
      with g look v nk have p: "prepare dispatchContext (Scope t) r False ?e = Inl er"
        and "\<not> err_is er ErrUnregisteredKey" by (simp_all add: prepare_def)
      with bad Some look win v show ?thesis
        by (intro exI [of _ "default_entry \<lparr>kd_default = cd_default def, kd_validate = None\<rparr>"]
            exI [of _ False]) (simp add: converge_def default_entry_def serve_row_def readThrough_def row_answer_def
            zero_Entry_def)
    qed
  qed
qed

text \<open>A key does not change value as its tenant's cache warms: a read served per request from the
  tenant's table answers exactly the value, revision and provenance that the reads after the
  tenant's first reconcile of that same table answer from the cache, whether the key has a row that
  its validator accepts, one it refuses, or none.\<close>

theorem warming_keeps_value:
  assumes "linked c" and "fmlookup (cl_registry c) nk = Some def" and "nk = NSKey ns key"
    and "cl_multiTenant c" and "cl_tenantManaged c" and "\<not> cl_closed c"
    and "e_validatorContext (cl_engine c) = Some tenant_ctx" and "ctx_tenant x = t" and "t \<noteq> []"
    and "trackedScope (cl_engine c) (Scope t) = Some s" and "scopes_ok (cl_engine c)"
    and "sc_entries (sc_of (cl_engine c) s) nk = None" and "owns s arm (cl_engine c)"
    and "nk \<notin> touched (window_of (cl_engine c) s arm)" and "distinct (map row_nk rows)"
    and "\<And>r. snapshot_row rows nk = Some r \<Longrightarrow> e_unmarshal (cl_engine c) (row_value r) \<noteq> None"
    and "tenant_only (cd_validator def)"
  shows "\<exists>before after. snd (snd (getEntry now (Some x) ns key (row_answer rows nk) c))
      = (before, True, None)
    \<and> snd (snd (getEntry later (Some x) ns key ans
         (set_engine (runOneReconcile s arm (Listed rows) (cl_engine c)) c))) = (after, True, None)
    \<and> unstale after = before"
proof -
  let ?e = "cl_engine c" and ?e' = "runOneReconcile s arm (Listed rows) (cl_engine c)"
  let ?c' = "set_engine ?e' c"
  have sco: "sc_scope (sc_of ?e s) = Scope t" using scopes_okD(2) [OF assms(11,10)] .
  then have tr: "tracks ?e s" using assms(10) by (simp add: tracks_def)
  from assms(1) have reg: "e_registry ?e = Some (engine_view (cl_registry c))" by (simp add: linked_def)
  note conv = client_port.runOneReconcile_converges [OF reg tr assms(13,15)]
  from converge_serves [OF assms(1,2,7,9,8,16,17,14)] obtain u b where
    u: "converge ?e (Scope t) (window_of ?e s arm) nk (snapshot_row rows nk)
          (None, nk \<in> sc_unconfirmed (sc_of ?e s)) = (Some u, b)"
    and served: "serve_row x nk def (row_answer rows nk) c = (\<lparr>pe_value = ent_value u,
      pe_rev = ent_rev u, pe_at = ent_at u, pe_by = ent_by u, pe_stale = False\<rparr>, True, None)"
    by blast
  have "sc_entries (sc_of ?e' s) nk = Some u"
    using conv(1) [of nk] u by (simp add: sco key_state_def assms(12))
  moreover have "trackedScope ?e' (Scope t) = Some s"
    using assms(10) trackedScope_env [OF conv(5)] by simp
  ultimately have after: "Lookup (Scope t) nk ?e' = (\<lparr>pe_value = ent_value u, pe_rev = ent_rev u,
      pe_at = ent_at u, pe_by = ent_by u,
      pe_stale = (sc_stale (sc_of ?e' s) \<or> nk \<in> sc_unconfirmed (sc_of ?e' s))\<rparr>, True)"
    by (simp add: Lookup_tracked)
  have miss: "snd (Lookup (Scope t) nk ?e) = False"
    using assms(10,12) by (simp add: Lookup_def)
  have reads: "snd (snd (getEntry now (Some x) ns key (row_answer rows nk) c))
      = serve_row x nk def (row_answer rows nk) c"
    "snd (snd (getEntry later (Some x) ns key ans ?c')) = (fst (Lookup (Scope t) nk ?e'), True, None)"
    using assms(2-6,8,9) miss after
    by (auto simp: getEntry_reads read_of_def tenantScope_def client_scopeFor_def
        split: prod.splits)
  with served after show ?thesis by (simp add: unstale_def)
qed

text \<open>The witness: the scope of one tenant, up and armed, on a tenant-managed client.\<close>

definition warm_engine :: engine where
  "warm_engine = onResync (Scope ''acme'') (fst (bringUpScope (Scope ''acme'') (\<lambda>e. e) Subscribed
     (new_engine True (Some (engine_view sample_registry)) sample_decoder (Some tenant_ctx) True)))"

definition warm_client :: client where
  "warm_client = set_engine warm_engine (sample_client True)"

lemma warm_fields [simp]:
  "e_scopes warm_engine = [Scope ''acme'' \<mapsto> 0]" "e_nextSid warm_engine = 1"
  "e_registry warm_engine = Some (engine_view sample_registry)"
  "e_unmarshal warm_engine = sample_decoder" "e_validatorContext warm_engine = Some tenant_ctx"
  "\<not> e_closed warm_engine"
  "sc_of warm_engine 0 = (newScopeState (Scope ''acme''))\<lparr>sc_unsubscribe := Some 0,
     sc_reconcileGen := 1, sc_open := {1}, sc_pending := Some sample_arm, sc_signal := True,
     sc_workerStarted := True\<rparr>"
  "1 \<le> s \<Longrightarrow> sc_of warm_engine s = newScopeState (Scope [])"
  by (simp_all add: warm_engine_def new_engine_def bringUpScope_def bring_up_begin_def
      scopeFor_def open_feed_def bring_up_conclude_def onResync_def scopeForEvent_def
      trackedScope_def ensureReconcileWorker_def Let_def newScopeState_def arm_scope_def
      armReconcile_def queueReconcile_def sample_arm_def empty_window_def fun_upd_idem)

lemma warm_ok: "scopes_ok warm_engine" "owns 0 sample_arm warm_engine" "linked warm_client"
  "tenant_only (Some sample_validator)"
  by (auto simp: scopes_ok_def trackedScope_def owns_def publish_guard_def newScopeState_def
      sample_arm_def linked_def warm_client_def tenant_only_def sample_validator_def
      split: if_splits)

theorem warming_keeps_value_witness:
  "\<exists>before after. snd (snd (getEntry 9 (Some acme) ''app'' ''limit''
        (row_answer [sample_row ''bad'' 3] sample_key) warm_client)) = (before, True, None)
    \<and> snd (snd (getEntry 9 (Some acme) ''app'' ''limit'' Row_Missing (set_engine
        (runOneReconcile 0 sample_arm (Listed [sample_row ''bad'' 3]) warm_engine) warm_client)))
      = (after, True, None)
    \<and> unstale after = before"
proof -
  have "trackedScope warm_engine (Scope ''acme'') = Some 0" by (simp add: trackedScope_def)
  from warming_keeps_value [OF warm_ok(3) _ sample_key_def, of _ acme "''acme''" 0 sample_arm
      "[sample_row ''bad'' 3]" 9 9 Row_Missing] this warm_ok
  show ?thesis
    by (simp add: warm_client_def sample_key_def acme_def sample_decoder_def newScopeState_def
        empty_window_def sample_arm_def)
qed

text \<open>
  Listing a namespace. Whether a scope serves a key does not depend on which key it is once its
  first reconcile has run: every registered key is cached then, and none before its scope exists.
\<close>

definition evenly_cached :: "ctx \<Rightarrow> string \<Rightarrow> client \<Rightarrow> bool" where
  "evenly_cached x ns c \<longleftrightarrow> (\<forall>k k'. fmlookup (cl_registry c) (NSKey ns k) \<noteq> None \<longrightarrow>
     fmlookup (cl_registry c) (NSKey ns k') \<noteq> None \<longrightarrow>
     snd (Lookup (client_scopeFor c x) (NSKey ns k) (cl_engine c)) =
     snd (Lookup (client_scopeFor c x) (NSKey ns k') (cl_engine c)))"

lemma registered_in_iff:
  "(nk, def) \<in> set (registered_in ns c) \<longleftrightarrow>
     Namespace nk = ns \<and> fmlookup (cl_registry c) nk = Some def"
  by (auto simp: registered_in_def sorted_list_of_fset.rep_eq fmlookup_dom_iff image_iff)

text \<open>The listed keys, in strictly increasing order.\<close>

lemma registered_in_keys:
  "sorted_wrt (<) (map (Key \<circ> fst) (registered_in ns c))"
proof -
  let ?l = "filter (\<lambda>nk. Namespace nk = ns) (sorted_list_of_fset (fmdom (cl_registry c)))"
  have "sorted_wrt (<) (sorted_list_of_fset (fmdom (cl_registry c)))"
    by (simp add: sorted_list_of_fset.rep_eq strict_sorted_list_of_set)
  then have "sorted_wrt (<) ?l" by (rule sorted_wrt_filter)
  then have "sorted_wrt (\<lambda>a b. Key a < Key b) ?l"
    by (rule sorted_wrt_mono_rel [rotated]) (auto simp: less_nskey_def)
  then show ?thesis by (simp add: registered_in_def sorted_wrt_map o_def)
qed

lemma find_append_cases:
  "find P (xs @ ys) = (case find P xs of None \<Rightarrow> find P ys | Some x \<Rightarrow> Some x)"
  by (induction xs) auto

lemma find_rev_distinct:
  "distinct (map f xs) \<Longrightarrow> find (\<lambda>x. f x = a) (rev xs) = find (\<lambda>x. f x = a) xs"
proof (induction xs)
  case (Cons x xs)
  then have "f x = a \<Longrightarrow> find (\<lambda>x. f x = a) xs = None" by (auto simp: find_None_iff image_iff)
  with Cons show ?case by (simp add: find_append_cases split: option.split)
qed simp

lemma stored_by_key_snapshot:
  assumes "distinct (map row_nk rows)"
  shows "stored_by_key ns rows key = map_option row_value (snapshot_row rows (NSKey ns key))"
proof -
  have eq: "(\<lambda>r. row_ns r = ns \<and> row_key r = key) = (\<lambda>r. row_nk r = NSKey ns key)"
    by (auto simp: row_nk_def)
  show ?thesis
    unfolding stored_by_key_def snapshot_row_def eq
    by (simp add: find_rev_distinct [OF assms])
qed

text \<open>What one listed entry says of its key.\<close>

definition lists :: "(nskey \<Rightarrow> client_keydef \<Rightarrow> json \<Rightarrow> bool) \<Rightarrow> nskey \<times> client_keydef \<Rightarrow> ListEntry \<Rightarrow> bool"
where
  "lists V k e \<longleftrightarrow> le_key e = Key (fst k) \<and> le_description e = cd_description (snd k)
     \<and> V (fst k) (snd k) (le_value e)"

lemma lists_mono:
  assumes "list_all2 (lists V) keys es"
    and "\<And>nk def v. (nk, def) \<in> set keys \<Longrightarrow> V nk def v \<Longrightarrow> W nk def v"
  shows "list_all2 (lists W) keys es"
  using assms(1) by (rule list.rel_mono_strong) (auto simp: lists_def assms(2))

lemma some_bool: "Ex Not"
  by (rule exI [of _ False]) simp

lemma listFromEngine_lists:
  "list_all2 (lists (\<lambda>nk def v. v = (if snd (Lookup sco nk e) then pe_value (fst (Lookup sco nk e))
     else cd_default def))) keys (fst (listFromEngine sco keys e))"
  by (auto simp: listFromEngine_def lists_def list_all2_map2 intro!: list.rel_refl_strong
      split: prod.splits)

lemma listFromStore_lists:
  assumes "list_rows x stored keys c = Inr es"
  shows "list_all2 (lists (\<lambda>nk def v. \<exists>b. (case stored (Key nk) of
       None \<Rightarrow> Inr (cd_default def, False)
     | Some raw \<Rightarrow> readThrough x nk def raw c) = Inr (v, b))) keys es"
  using assms
  by (induction keys arbitrary: es)
    (auto simp: lists_def some_bool split: sum.splits prod.splits option.splits)

text \<open>A value read from the table is the value a per-request read serves.\<close>

lemma serve_row_lists:
  assumes "distinct (map row_nk rows)" and "Namespace nk = ns"
    and "(case stored_by_key ns rows (Key nk) of
            None \<Rightarrow> Inr (cd_default def, False)
          | Some raw \<Rightarrow> readThrough x nk def raw c) = Inr (v, b)"
  shows "\<exists>ent. serve_row x nk def (row_answer rows nk) c = (ent, True, None) \<and> pe_value ent = v"
proof -
  have nk: "NSKey ns (Key nk) = nk" using assms(2) by (cases nk) simp
  show ?thesis
    using assms(3)
    by (cases "snapshot_row rows nk"; cases b)
      (simp_all add: stored_by_key_snapshot [OF assms(1)] nk row_answer_def serve_row_def
        default_Entry_def)
qed

text \<open>A successful listing, as one relation between the registered keys and the entries: each key is
  listed at what a read of it serves.\<close>

lemma client_List_lists:
  assumes "client_List now (Some x) ns (Inr rows) c = (c', started, Inr es)"
    and "evenly_cached x ns c" and "distinct (map row_nk rows)"
  shows "list_all2 (lists (\<lambda>nk def v. \<exists>ent. read_of x nk def (row_answer rows nk) c = (ent, True, None)
      \<and> pe_value ent = v)) (registered_in ns c) es"
proof -
  let ?keys = "registered_in ns c" and ?sco = "client_scopeFor c x"
  let ?hit = "\<lambda>nk. Lookup ?sco nk (cl_engine c)"
  show ?thesis
  proof (cases "?keys = []")
    case True
    with assms(1) show ?thesis by (auto simp: client_List_def split: if_splits)
  next
    case nonempty: False
    show ?thesis
    proof (cases "\<not> cl_multiTenant c \<or> snd (tenantScope c x)
        \<and> snd (listFromEngine ?sco ?keys (cl_engine c))")
      case True
      with assms(1) nonempty have es: "es = fst (listFromEngine ?sco ?keys (cl_engine c))"
        by (auto simp: client_List_def tenantScope_def client_scopeFor_def Let_def
            split: if_splits prod.splits bool.splits)
      have "\<exists>ent. read_of x nk def (row_answer rows nk) c = (ent, True, None) \<and> pe_value ent
          = (if snd (?hit nk) then pe_value (fst (?hit nk)) else cd_default def)"
        if "(nk, def) \<in> set ?keys" for nk def
      proof (cases "cl_multiTenant c")
        case True
        with that \<open>\<not> cl_multiTenant c \<or> _\<close> have "snd (?hit nk)" "snd (tenantScope c x)"
          by (auto simp: listFromEngine_def)
        then show ?thesis by (cases "?hit nk") (simp add: read_of_hit)
      next
        case False
        then show ?thesis
          by (cases "?hit nk") (auto simp: read_of_def singleTenantEntry_def client_scopeFor_def
              default_Entry_def split: bool.splits)
      qed
      with listFromEngine_lists [of ?sco "cl_engine c" ?keys] show ?thesis
        unfolding es by (elim lists_mono) simp
    next
      case False
      with assms(1) nonempty have es: "list_rows x (stored_by_key ns rows) ?keys c = Inr es"
        by (auto simp: client_List_def listFromStore_def tenantScope_def client_scopeFor_def Let_def
            split: if_splits prod.splits bool.splits)
      have miss: "\<not> (snd (?hit nk) \<and> snd (tenantScope c x))" if "(nk, def) \<in> set ?keys" for nk def
      proof
        assume h: "snd (?hit nk) \<and> snd (tenantScope c x)"
        have "snd (?hit nk')" if "(nk', d) \<in> set ?keys" for nk' d
          using assms(2) h that \<open>(nk, def) \<in> set ?keys\<close>
          unfolding evenly_cached_def registered_in_iff
          by (cases nk; cases nk') (metis nskey.sel option.distinct(1))
        with h False show False by (auto simp: listFromEngine_def)
      qed
      have "read_of x nk def (row_answer rows nk) c = serve_row x nk def (row_answer rows nk) c"
        if "(nk, def) \<in> set ?keys" for nk def
        using miss [OF that] False by (auto simp: read_of_def split: prod.splits)
      with listFromStore_lists [OF es] show ?thesis
        using serve_row_lists [OF assms(3)] by (elim lists_mono) (auto simp: registered_in_iff)
    qed
  qed
qed

text \<open>Listing agrees with reading key by key: a successful List names every registered key of the
  namespace exactly once, in increasing order, each with its own description and with the value a
  read of that key under the same context answers (from the cache, or from the same table), when the cache
  holds all the namespace's keys or none of them. While a first reconcile has applied a part of its snapshot
  List falls back to the store for every key, and a read serves the cached ones.\<close>

theorem list_agrees_with_get:
  assumes "client_List now (Some x) ns (Inr rows) c = (c', started, Inr es)"
    and "evenly_cached x ns c" and "distinct (map row_nk rows)"
  shows "sorted_wrt (<) (map le_key es)
    \<and> set (map le_key es) = {k. IsRegistered ns k c}
    \<and> (\<forall>e \<in> set es. le_description e = KeyDescription ns (le_key e) c
        \<and> (\<exists>ent. snd (snd (getEntry later (Some x) ns (le_key e)
              (row_answer rows (NSKey ns (le_key e))) c)) = (ent, True, None)
            \<and> pe_value ent = le_value e))"
proof -
  note all = client_List_lists [OF assms]
  have live: "\<not> cl_closed c" using assms(1) by (auto simp: client_List_def)
  have keys: "map le_key es = map (Key \<circ> fst) (registered_in ns c)"
    using all by (auto simp: list_all2_conv_all_nth lists_def intro: nth_equalityI)
  have "set (map le_key es) = {k. IsRegistered ns k c}"
  proof (intro set_eqI iffI)
    fix k
    assume "k \<in> {k. IsRegistered ns k c}"
    then obtain def where "fmlookup (cl_registry c) (NSKey ns k) = Some def"
      by (auto simp: IsRegistered_def)
    then have "(NSKey ns k, def) \<in> set (registered_in ns c)" by (simp add: registered_in_iff)
    then show "k \<in> set (map le_key es)" unfolding keys by force
  next
    fix k
    assume "k \<in> set (map le_key es)"
    then obtain nk def where "(nk, def) \<in> set (registered_in ns c)" "k = Key nk"
      unfolding keys by auto
    then show "k \<in> {k. IsRegistered ns k c}"
      by (cases nk) (simp add: IsRegistered_def live registered_in_iff)
  qed
  moreover have "le_description e = KeyDescription ns (le_key e) c
        \<and> (\<exists>ent. snd (snd (getEntry later (Some x) ns (le_key e)
              (row_answer rows (NSKey ns (le_key e))) c)) = (ent, True, None)
            \<and> pe_value ent = le_value e)" if "e \<in> set es" for e
  proof -
    from that obtain i where i: "i < length es" "e = es ! i" by (auto simp: in_set_conv_nth)
    obtain nk def where nd: "registered_in ns c ! i = (nk, def)" by (rule prod.exhaust)
    have "i < length (registered_in ns c)" using i(1) all by (simp add: list_all2_lengthD)
    with nd have k: "(nk, def) \<in> set (registered_in ns c)" by (metis nth_mem)
    from list_all2_nthD2 [OF all i(1)] nd i(2)
    have l: "lists (\<lambda>nk def v. \<exists>ent. read_of x nk def (row_answer rows nk) c = (ent, True, None)
        \<and> pe_value ent = v) (nk, def) e" by simp
    with k have "nk = NSKey ns (le_key e)" by (cases nk) (auto simp: lists_def registered_in_iff)
    with k l live show ?thesis
      by (auto simp: lists_def registered_in_iff KeyDescription_def getEntry_reads)
  qed
  ultimately show ?thesis using registered_in_keys [of ns c] by (simp add: keys)
qed

theorem list_agrees_with_get_witness:
  "\<exists>es. snd (snd (client_List 9 (Some acme) ''app'' (Inr [sample_row ''5'' 3]) (sample_client False)))
      = Inr es \<and> set (map le_key es) = {''limit''}"
proof -
  have one: "fmlookup sample_registry (NSKey ''app'' k) \<noteq> None \<longleftrightarrow> k = ''limit''" for k
    unfolding sample_registry_def sample_key_def fmupd_lookup nskey.inject fmempty_lookup
    by (cases "k = ''limit''") (simp_all del: not_None_eq)
  let ?c = "sample_client False"
  have "(sample_key, the (fmlookup sample_registry sample_key)) \<in> set (registered_in ''app'' ?c)"
    unfolding registered_in_iff sample_key_def by simp
  then have "registered_in ''app'' ?c \<noteq> []" by force
  then obtain es where l: "client_List 9 (Some acme) ''app'' (Inr [sample_row ''5'' 3]) ?c
      = (?c, False, Inr es)"
    unfolding client_List_def Let_def by simp
  have ev: "evenly_cached acme ''app'' (sample_client False)"
    unfolding evenly_cached_def sample_client_simps one by (intro allI impI) (simp only:)
  have "{k. IsRegistered ''app'' k (sample_client False)} = {''limit''}"
    unfolding IsRegistered_def sample_client_simps one by simp
  with list_agrees_with_get [OF l ev] l show ?thesis by simp
qed

end
