(* ===== verification/Typed_Reads.thy ===== *)
theory Typed_Reads
  imports "HOL-Library.Word" "HOL-Library.Log_Nat" Client_Ops
begin

text \<open>
  The typed accessors of the client (\<^verbatim>\<open>internal/client/get.go\<close>) over what \<open>getEntry\<close> answered, with Go's
  conversions between float64 and int64. A decoded number is the rational its float64 denotes.
  Converting an int64 to a float64 rounds to the nearest of the 53-bit floats, ties to even. The
  other direction truncates, and outside the range of int64 the language leaves the result to the
  implementation: the processor's own conversion, which on amd64 answers the smallest int64 and on
  arm64 the nearest one.
\<close>

subsection \<open>Conversions\<close>

definition round53 :: "int \<Rightarrow> int" where
  "round53 k =
     (let a = \<bar>k\<bar>; s = nat (bitlen a - 53) in
      if s = 0 then k
      else let q = a div 2 ^ s; r = a mod 2 ^ s;
               up = 2 ^ s < 2 * r \<or> (2 * r = 2 ^ s \<and> odd q)
           in sgn k * ((if up then q + 1 else q) * 2 ^ s))"

definition ofInt64 :: "64 word \<Rightarrow> rat" where
  "ofInt64 w = of_int (round53 (sint w))"

definition trunc :: "rat \<Rightarrow> int" where
  "trunc n = (if n < 0 then \<lceil>n\<rceil> else \<lfloor>n\<rfloor>)"

definition toInt64_amd64 :: "rat \<Rightarrow> 64 word" where
  "toInt64_amd64 n =
     (let t = trunc n in if - (2 ^ 63) \<le> t \<and> t < 2 ^ 63 then word_of_int t else word_of_int (- (2 ^ 63)))"

definition toInt64_arm64 :: "rat \<Rightarrow> 64 word" where
  "toInt64_arm64 n = word_of_int (max (- (2 ^ 63)) (min (2 ^ 63 - 1) (trunc n)))"

subsection \<open>The accessors\<close>

definition mismatch :: "string \<Rightarrow> string \<Rightarrow> err" where
  "mismatch ns key = Wrap (AtKey ns key) [Sentinel ErrValidation]"

definition GetString :: "string \<Rightarrow> string \<Rightarrow> reading \<Rightarrow> string \<times> bool \<times> err option" where
  "GetString ns key r =
     (case r of (ent, ok, er) \<Rightarrow>
        if er \<noteq> None \<or> \<not> ok then ([], ok, er)
        else case pe_value ent of
          JStr s \<Rightarrow> (s, True, None)
        | _ \<Rightarrow> ([], False, Some (mismatch ns key)))"

definition GetBool :: "string \<Rightarrow> string \<Rightarrow> reading \<Rightarrow> bool \<times> bool \<times> err option" where
  "GetBool ns key r =
     (case r of (ent, ok, er) \<Rightarrow>
        if er \<noteq> None \<or> \<not> ok then (False, ok, er)
        else case pe_value ent of
          JBool b \<Rightarrow> (b, True, None)
        | _ \<Rightarrow> (False, False, Some (mismatch ns key)))"

definition GetFloat64 :: "string \<Rightarrow> string \<Rightarrow> reading \<Rightarrow> rat \<times> bool \<times> err option" where
  "GetFloat64 ns key r =
     (case r of (ent, ok, er) \<Rightarrow>
        if er \<noteq> None \<or> \<not> ok then (0, ok, er)
        else case pe_value ent of
          JNum n \<Rightarrow> (n, True, None)
        | _ \<Rightarrow> (0, False, Some (mismatch ns key)))"

definition GetInt ::
  "(rat \<Rightarrow> 64 word) \<Rightarrow> (64 word \<Rightarrow> rat) \<Rightarrow> string \<Rightarrow> string \<Rightarrow> reading \<Rightarrow> 64 word \<times> bool \<times> err option"
where
  "GetInt toInt ofInt ns key r =
     (case r of (ent, ok, er) \<Rightarrow>
        if er \<noteq> None \<or> \<not> ok then (0, ok, er)
        else case pe_value ent of
          JNum n \<Rightarrow>
            if n \<noteq> ofInt (toInt n) then (0, False, Some (mismatch ns key))
            else (toInt n, True, None)
        | _ \<Rightarrow> (0, False, Some (mismatch ns key)))"

text \<open>\<open>parse\<close> is \<open>time.ParseDuration\<close>.\<close>

definition GetDuration ::
  "(string \<Rightarrow> 64 word option) \<Rightarrow> (rat \<Rightarrow> 64 word) \<Rightarrow> string \<Rightarrow> string \<Rightarrow> reading \<Rightarrow>
     64 word \<times> bool \<times> err option"
where
  "GetDuration parse toInt ns key r =
     (case r of (ent, ok, er) \<Rightarrow>
        if er \<noteq> None \<or> \<not> ok then (0, ok, er)
        else case pe_value ent of
          JStr s \<Rightarrow>
            (case parse s of
               None \<Rightarrow> (0, False, Some (mismatch ns key))
             | Some d \<Rightarrow> (d, True, None))
        | JNum n \<Rightarrow> (toInt n, True, None)
        | _ \<Rightarrow> (0, False, Some (mismatch ns key)))"

subsection \<open>Floats\<close>

text \<open>Every finite float64 is of this form (the format also bounds the exponent).\<close>

definition f64 :: "rat \<Rightarrow> bool" where
  "f64 n \<longleftrightarrow> (\<exists>m e. \<bar>m\<bar> < 2 ^ 53 \<and> (n = of_int m * 2 ^ e \<or> n = of_int m / 2 ^ e))"

lemma bitlen_nat_bounds:
  assumes "0 < (a::int)" and "nat (bitlen a - 53) = s" and "s \<noteq> 0"
  shows "2 ^ (52 + s) \<le> a"
proof -
  have "nat (bitlen a - 1) = 52 + s" using assms by simp
  with bitlen_bounds [OF assms(1)] show ?thesis by simp
qed

text \<open>An integer of at most 53 significant bits is a float64 and converts to itself.\<close>

lemma round53_exact:
  assumes "k = m * 2 ^ e" and "\<bar>m\<bar> < 2 ^ 53"
  shows "round53 k = k"
proof -
  define s where "s = nat (bitlen \<bar>k\<bar> - 53)"
  show ?thesis
  proof (cases "s = 0 \<or> k = 0")
    case True
    then show ?thesis by (auto simp: round53_def Let_def s_def)
  next
    case False
    then have "2 ^ (52 + s) \<le> \<bar>k\<bar>" by (intro bitlen_nat_bounds) (auto simp: s_def)
    also have "\<bar>k\<bar> = \<bar>m\<bar> * 2 ^ e" by (simp add: assms(1) abs_mult)
    also have "\<dots> < 2 ^ 53 * 2 ^ e" using assms(2) by simp
    finally have "(2::int) ^ (52 + s) < 2 ^ (53 + e)" by (simp add: power_add)
    then have "52 + s < 53 + e" by (rule power_less_imp_less_exp [rotated]) simp
    then have "(2::int) ^ s dvd 2 ^ e" by (intro le_imp_power_dvd) simp
    then have d: "2 ^ s dvd \<bar>k\<bar>" by (simp add: assms(1) dvd_mult)
    then have "\<bar>k\<bar> mod 2 ^ s = 0" by simp
    moreover have "\<bar>k\<bar> div 2 ^ s * 2 ^ s = \<bar>k\<bar>" using d by simp
    ultimately show ?thesis
      using False by (simp add: round53_def Let_def s_def [symmetric] sgn_mult_abs)
  qed
qed

lemma round53_small: "\<bar>k\<bar> < 2 ^ 53 \<Longrightarrow> round53 k = k"
  by (rule round53_exact [of k k 0]) simp_all

lemma round53_limits: "round53 (- (2 ^ 63)) = - (2 ^ 63)" "round53 (2 ^ 63 - 1) = 2 ^ 63"
proof -
  show "round53 (- (2 ^ 63)) = - (2 ^ 63)" by (rule round53_exact [of _ "-1" 63]) simp_all
  have "bitlen (2 ^ 63 - 1) = 63" by code_simp
  then show "round53 (2 ^ 63 - 1) = 2 ^ 63" by (simp add: round53_def Let_def)
qed

lemma trunc_of_int [simp]: "trunc (of_int k) = k"
  by (simp add: trunc_def)

lemma f64_integral:
  assumes "f64 (of_int k)"
  shows "round53 k = k"
proof -
  from assms obtain m e where m: "\<bar>m\<bar> < 2 ^ 53"
    and k: "(of_int k :: rat) = of_int m * 2 ^ e \<or> (of_int k :: rat) = of_int m / 2 ^ e"
    unfolding f64_def by blast
  from k show ?thesis
  proof
    assume "(of_int k :: rat) = of_int m * 2 ^ e"
    also have "\<dots> = of_int (m * 2 ^ e)" by simp
    finally have "k = m * 2 ^ e" by (simp only: of_int_eq_iff)
    with m show ?thesis by (rule round53_exact [rotated])
  next
    assume "(of_int k :: rat) = of_int m / 2 ^ e"
    then have "(of_int k :: rat) * 2 ^ e = of_int m" by (simp add: field_simps)
    then have "(of_int (k * 2 ^ e) :: rat) = of_int m" by simp
    then have "k * 2 ^ e = m" by (simp only: of_int_eq_iff)
    then have "\<bar>k\<bar> * 2 ^ e = \<bar>m\<bar>" by (auto simp: abs_mult)
    moreover have "\<bar>k\<bar> * 1 \<le> \<bar>k\<bar> * 2 ^ e" by (intro mult_left_mono) simp_all
    ultimately show ?thesis using m by (intro round53_small) simp
  qed
qed

lemma sint_in_range: "- (2 ^ 63) \<le> k \<Longrightarrow> k < 2 ^ 63 \<Longrightarrow> sint (word_of_int k :: 64 word) = k"
  by (simp add: sint_sbintrunc' signed_take_bit_int_eq_self)

lemma ofInt64_in_range [simp]:
  "- (2 ^ 63) \<le> k \<Longrightarrow> k < 2 ^ 63 \<Longrightarrow> ofInt64 (word_of_int k) = of_int (round53 k)"
  by (simp add: ofInt64_def sint_in_range)

lemma ofInt64_Ints [simp]: "ofInt64 w \<in> \<int>"
  by (simp add: ofInt64_def)

definition int64_range :: "rat \<Rightarrow> bool" where
  "int64_range n \<longleftrightarrow> n \<in> \<int> \<and> - (2 ^ 63) \<le> n \<and> n < 2 ^ 63"

lemma int64_range_of_int: "int64_range (of_int k) \<longleftrightarrow> - (2 ^ 63) \<le> k \<and> k < 2 ^ 63"
proof -
  have "(- (2 ^ 63) \<le> (of_int k :: rat)) = (- (2 ^ 63) \<le> k)"
    using of_int_le_iff [where ?'a = rat, of "- (2 ^ 63)" k] by simp
  moreover have "((of_int k :: rat) < 2 ^ 63) = (k < 2 ^ 63)"
    using of_int_less_iff [where ?'a = rat, of k "2 ^ 63"] by simp
  ultimately show ?thesis by (simp add: int64_range_def)
qed

text \<open>What survives the conversion to an int64 and back.\<close>

lemma round_trip:
  assumes "f64 n"
  shows "n = ofInt64 (toInt64_amd64 n) \<longleftrightarrow> int64_range n"
    and "n = ofInt64 (toInt64_arm64 n) \<longleftrightarrow> int64_range n \<or> n = 2 ^ 63"
    and "int64_range n \<Longrightarrow> toInt64_amd64 n = word_of_int \<lfloor>n\<rfloor> \<and> toInt64_arm64 n = word_of_int \<lfloor>n\<rfloor>"
proof -
  have frac: "n \<noteq> ofInt64 w" if "n \<notin> \<int>" for w
    using that ofInt64_Ints [of w] by metis
  have big: "(2::rat) ^ 63 = of_int (2 ^ 63)" by simp
  have int: "n = ofInt64 (toInt64_amd64 n) \<longleftrightarrow> int64_range n"
    "n = ofInt64 (toInt64_arm64 n) \<longleftrightarrow> int64_range n \<or> n = 2 ^ 63"
    "int64_range n \<longrightarrow> toInt64_amd64 n = word_of_int k \<and> toInt64_arm64 n = word_of_int k"
    if n: "n = of_int k" for k
  proof -
    have lo: "ofInt64 (word_of_int (- (2 ^ 63))) = of_int (- (2 ^ 63))"
      and hi: "ofInt64 (word_of_int (2 ^ 63 - 1)) = of_int (2 ^ 63)"
      by (subst ofInt64_in_range, simp, simp, simp only: round53_limits)+
    consider "k < - (2 ^ 63)" | "- (2 ^ 63) \<le> k" "k < 2 ^ 63" | "2 ^ 63 \<le> k" by linarith
    then have "(n = ofInt64 (toInt64_amd64 n) \<longleftrightarrow> int64_range n)
      \<and> (n = ofInt64 (toInt64_arm64 n) \<longleftrightarrow> int64_range n \<or> n = 2 ^ 63)
      \<and> (int64_range n \<longrightarrow> toInt64_amd64 n = word_of_int k \<and> toInt64_arm64 n = word_of_int k)"
    proof cases
      case 1
      then have c: "toInt64_amd64 n = word_of_int (- (2 ^ 63))" "toInt64_arm64 n = word_of_int (- (2 ^ 63))"
        by (simp_all add: n toInt64_amd64_def toInt64_arm64_def Let_def max_def min_def)
      from 1 show ?thesis unfolding c lo hi unfolding n int64_range_of_int big of_int_eq_iff by simp
    next
      case 2
      then have "k \<le> 2 ^ 63 - 1" by linarith
      then have "max (- (2 ^ 63)) (min (2 ^ 63 - 1) k) = k" using 2 by (simp only: min_absorb2 max_absorb2)
      then have "toInt64_amd64 n = word_of_int k" "toInt64_arm64 n = word_of_int k"
        using 2 by (simp_all only: n toInt64_amd64_def toInt64_arm64_def Let_def trunc_of_int simp_thms if_True)
      with 2 f64_integral [of k] assms show ?thesis
        by (simp add: n int64_range_of_int del: of_int_power)
    next
      case 3
      then have c: "toInt64_amd64 n = word_of_int (- (2 ^ 63))" "toInt64_arm64 n = word_of_int (2 ^ 63 - 1)"
        by (simp_all add: n toInt64_amd64_def toInt64_arm64_def Let_def max_def min_def)
      from 3 show ?thesis unfolding c lo hi unfolding n int64_range_of_int big of_int_eq_iff by simp
    qed
    then show "n = ofInt64 (toInt64_amd64 n) \<longleftrightarrow> int64_range n"
      "n = ofInt64 (toInt64_arm64 n) \<longleftrightarrow> int64_range n \<or> n = 2 ^ 63"
      "int64_range n \<longrightarrow> toInt64_amd64 n = word_of_int k \<and> toInt64_arm64 n = word_of_int k" by blast+
  qed
  have out: "\<not> int64_range n \<and> n \<noteq> 2 ^ 63" if "n \<notin> \<int>"
    using that by (auto simp: int64_range_def)
  show "n = ofInt64 (toInt64_amd64 n) \<longleftrightarrow> int64_range n"
  proof (cases "n \<in> \<int>")
    case True
    then show ?thesis by (rule Ints_cases) (rule int(1))
  qed (use frac out in blast)
  show "n = ofInt64 (toInt64_arm64 n) \<longleftrightarrow> int64_range n \<or> n = 2 ^ 63"
  proof (cases "n \<in> \<int>")
    case True
    then show ?thesis by (rule Ints_cases) (rule int(2))
  qed (use frac out in blast)
  show "toInt64_amd64 n = word_of_int \<lfloor>n\<rfloor> \<and> toInt64_arm64 n = word_of_int \<lfloor>n\<rfloor>" if "int64_range n"
    using that int(3) [of "\<lfloor>n\<rfloor>"] by (auto simp: int64_range_def elim: Ints_cases)
qed

text \<open>C15. GetInt reads a number exactly or not at all, on amd64: it answers the number itself when it
  is an integer an int64 holds, and a type error for every other, fractional or out of range. On
  arm64 the same check lets one number through that no int64 holds: \<open>2 ^ 63\<close> is read, without an
  error, as the largest int64.\<close>

theorem get_int_exact:
  assumes "f64 n" and "pe_value ent = JNum n"
  shows "GetInt toInt64_amd64 ofInt64 ns key (ent, True, None) =
      (if int64_range n then (word_of_int \<lfloor>n\<rfloor>, True, None) else (0, False, Some (mismatch ns key)))
    \<and> (int64_range n \<longrightarrow> of_int (sint (word_of_int \<lfloor>n\<rfloor> :: 64 word)) = n)
    \<and> GetInt toInt64_arm64 ofInt64 ns key (ent, True, None) =
      (if n = 2 ^ 63 then (word_of_int (2 ^ 63 - 1), True, None)
       else GetInt toInt64_amd64 ofInt64 ns key (ent, True, None))"
proof -
  note rt = round_trip [OF assms(1)]
  have "of_int (sint (word_of_int \<lfloor>n\<rfloor> :: 64 word)) = n" if r: "int64_range n"
  proof -
    from r obtain k where k: "n = of_int k" by (auto simp: int64_range_def elim: Ints_cases)
    with r show ?thesis by (simp add: int64_range_of_int sint_in_range)
  qed
  moreover have "toInt64_arm64 (2 ^ 63) = word_of_int (2 ^ 63 - 1)"
    using trunc_of_int [of "2 ^ 63"] by (simp add: toInt64_arm64_def)
  moreover have "\<not> int64_range (2 ^ 63)" by (simp add: int64_range_def)
  ultimately show ?thesis
    using rt assms(2) by (auto simp: GetInt_def)
qed

theorem get_int_exact_witness:
  "GetInt toInt64_arm64 ofInt64 ''app'' ''limit'' (zero_Entry\<lparr>pe_value := JNum (2 ^ 63)\<rparr>, True, None)
     = (word_of_int (2 ^ 63 - 1), True, None)"
proof -
  have "f64 (2 ^ 63)" unfolding f64_def by (rule exI [of _ 1], rule exI [of _ 63]) simp
  from get_int_exact [OF this, of "zero_Entry\<lparr>pe_value := JNum (2 ^ 63)\<rparr>" "''app''" "''limit''"]
  show ?thesis by simp
qed

end
