(* ===== verification/Debounce.thy ===== *)
theory Debounce
  imports "HOL-Library.Word" Prelude
begin

text \<open>
  The trailing-edge debouncer (\<^verbatim>\<open>internal/debounce/debounce.go\<close>). A \<open>time.Timer\<close> made by \<open>AfterFunc\<close> is
  armed until its window elapses, and then a goroutine that has yet to take the debouncer's lock:
  \<open>Stop\<close> reaches the first and not the second. The log records what was submitted and what ran, in
  order; what a callback does, and its recovered panic, are not part of the state.
\<close>

subsection \<open>State and operations\<close>

record timerEntry =
  te_timer :: nat
  te_generation :: "64 word"

datatype ('k, 'f) dbevent = Submitted 'k 'f | Ran 'k 'f

type_synonym ('k, 'f) fired = "'k \<times> 64 word \<times> 'f"

record ('k, 'f) debouncer =
  db_window :: int
  db_timers :: "'k \<Rightarrow> timerEntry option"
  db_closed :: bool
  db_armed :: "nat \<Rightarrow> ('k, 'f) fired option"
  db_expired :: "nat \<Rightarrow> ('k, 'f) fired option"
  db_next :: nat
  db_log :: "('k, 'f) dbevent list"

definition new_debouncer :: "int \<Rightarrow> ('k, 'f) debouncer" where
  "new_debouncer window = \<lparr>db_window = window, db_timers = Map.empty, db_closed = False,
     db_armed = Map.empty, db_expired = Map.empty, db_next = 0, db_log = []\<rparr>"

definition stop_timer :: "timerEntry option \<Rightarrow> ('k, 'f) debouncer \<Rightarrow> ('k, 'f) debouncer" where
  "stop_timer e d =
     (case e of None \<Rightarrow> d | Some te \<Rightarrow> d\<lparr>db_armed := (db_armed d)(te_timer te := None)\<rparr>)"

definition log_event :: "('k, 'f) dbevent \<Rightarrow> ('k, 'f) debouncer \<Rightarrow> ('k, 'f) debouncer" where
  "log_event ev d = d\<lparr>db_log := db_log d @ [ev]\<rparr>"

definition db_Submit :: "'k \<Rightarrow> 'f option \<Rightarrow> ('k, 'f) debouncer \<Rightarrow> ('k, 'f) debouncer" where
  "db_Submit k fn d =
     (case fn of
        None \<Rightarrow> d
      | Some f \<Rightarrow>
          if db_window d \<le> 0 then log_event (Ran k f) (log_event (Submitted k f) d)
          else if db_closed d then d
          else let d1 = stop_timer (db_timers d k) (log_event (Submitted k f) d);
                   g = (case db_timers d k of None \<Rightarrow> 0 | Some te \<Rightarrow> te_generation te) + 1;
                   t = db_next d1
               in d1\<lparr>db_timers := (db_timers d1)(k \<mapsto> \<lparr>te_timer = t, te_generation = g\<rparr>),
                     db_armed := (db_armed d1)(t \<mapsto> (k, g, f)), db_next := t + 1\<rparr>)"

definition db_Close :: "('k, 'f) debouncer \<Rightarrow> ('k, 'f) debouncer" where
  "db_Close d =
     (if db_closed d then d
      else d\<lparr>db_closed := True, db_timers := Map.empty,
             db_armed := (\<lambda>t. if \<exists>k te. db_timers d k = Some te \<and> te_timer te = t then None
                             else db_armed d t)\<rparr>)"

text \<open>The window of an armed timer elapses: its goroutine starts.\<close>

definition expire :: "nat \<Rightarrow> ('k, 'f) debouncer \<Rightarrow> ('k, 'f) debouncer" where
  "expire t d =
     (case db_armed d t of
        None \<Rightarrow> d
      | Some x \<Rightarrow> d\<lparr>db_armed := (db_armed d)(t := None), db_expired := (db_expired d)(t \<mapsto> x)\<rparr>)"

text \<open>The goroutine of an expired timer runs.\<close>

definition fire :: "nat \<Rightarrow> ('k, 'f) debouncer \<Rightarrow> ('k, 'f) debouncer" where
  "fire t d =
     (case db_expired d t of
        None \<Rightarrow> d
      | Some (k, g, f) \<Rightarrow>
          let d1 = d\<lparr>db_expired := (db_expired d)(t := None)\<rparr> in
          if db_closed d1 then d1
          else (case db_timers d1 k of
                  None \<Rightarrow> d1
                | Some te \<Rightarrow>
                    if te_generation te \<noteq> g then d1
                    else log_event (Ran k f) (d1\<lparr>db_timers := (db_timers d1)(k := None)\<rparr>)))"

inductive db_step :: "('k, 'f) debouncer \<Rightarrow> ('k, 'f) debouncer \<Rightarrow> bool" where
  submits: "db_step d (db_Submit k fn d)"
| expires: "db_step d (expire t d)"
| fires: "db_step d (fire t d)"
| closes: "db_step d (db_Close d)"

definition db_run :: "int \<Rightarrow> ('k, 'f) debouncer \<Rightarrow> bool" where
  "db_run window d \<longleftrightarrow> db_step\<^sup>*\<^sup>* (new_debouncer window) d"

subsection \<open>The invariant\<close>

text \<open>
  The entry of a key names a timer that is still alive and carries the entry's own generation, so its
  goroutine will find it; timers have identities of their own; and a submission of a key that nothing
  has answered yet has an entry.
\<close>

definition held :: "('k, 'f) debouncer \<Rightarrow> nat \<Rightarrow> ('k, 'f) fired option" where
  "held d t = (case db_armed d t of None \<Rightarrow> db_expired d t | Some x \<Rightarrow> Some x)"

fun owed :: "'k \<Rightarrow> ('k, 'f) dbevent list \<Rightarrow> bool \<Rightarrow> bool" where
  "owed k [] b = b"
| "owed k (Submitted k' f # l) b = owed k l (b \<or> k' = k)"
| "owed k (Ran k' f # l) b = owed k l (b \<and> k' \<noteq> k)"

lemma owed_append [simp]: "owed k (l @ l') b = owed k l' (owed k l b)"
  by (induction k l b rule: owed.induct) simp_all

definition db_ok :: "('k, 'f) debouncer \<Rightarrow> bool" where
  "db_ok d \<longleftrightarrow>
     (\<forall>k te. db_timers d k = Some te \<longrightarrow> (\<exists>f. held d (te_timer te) = Some (k, te_generation te, f)))
     \<and> (\<forall>t. db_next d \<le> t \<longrightarrow> held d t = None)
     \<and> (\<forall>t. db_armed d t = None \<or> db_expired d t = None)
     \<and> (\<forall>k. \<not> db_closed d \<longrightarrow> owed k (db_log d) False \<longrightarrow> db_timers d k \<noteq> None)
     \<and> (db_closed d \<longrightarrow> db_timers d = Map.empty)"

lemma db_okD:
  assumes "db_ok d"
  shows "db_timers d k = Some te \<Longrightarrow> \<exists>f. held d (te_timer te) = Some (k, te_generation te, f)"
    and "db_next d \<le> t \<Longrightarrow> held d t = None"
    and "db_armed d t = None \<or> db_expired d t = None"
    and "\<not> db_closed d \<Longrightarrow> owed k (db_log d) False \<Longrightarrow> db_timers d k \<noteq> None"
    and "db_closed d \<Longrightarrow> db_timers d = Map.empty"
  using assms by (auto simp: db_ok_def)

lemma new_ok: "db_ok (new_debouncer w)"
  by (simp add: db_ok_def new_debouncer_def held_def)

lemma expire_ok:
  assumes "db_ok d"
  shows "db_ok (expire t d)"
proof (cases "db_armed d t")
  case (Some x)
  have "held (expire t d) = held d"
    using Some db_okD(3) [OF assms, of t] by (auto simp: expire_def held_def fun_eq_iff split: option.splits)
  then show ?thesis
    using assms Some unfolding db_ok_def by (auto simp: expire_def)
qed (simp add: expire_def assms)

lemma held_timers [simp]: "held (d\<lparr>db_timers := m\<rparr>) = held d"
  by (auto simp: held_def fun_eq_iff split: option.splits)

lemma log_event_simps [simp]:
  "held (log_event ev d) = held d" "db_timers (log_event ev d) = db_timers d"
  "db_armed (log_event ev d) = db_armed d" "db_expired (log_event ev d) = db_expired d"
  "db_next (log_event ev d) = db_next d" "db_closed (log_event ev d) = db_closed d"
  "db_log (log_event ev d) = db_log d @ [ev]"
  by (auto simp: log_event_def held_def fun_eq_iff split: option.splits)

lemma log_ran_ok: "db_ok d \<Longrightarrow> db_ok (log_event (Ran k f) (log_event (Submitted k f) d))"
  by (auto simp: db_ok_def)

text \<open>One entry per timer: stopping a key's timer, or spending it, leaves the other keys' alone.\<close>

lemma timer_key:
  assumes "db_ok d" and "db_timers d k = Some te" and "db_timers d k' = Some te'" and "k' \<noteq> k"
  shows "te_timer te' \<noteq> te_timer te"
  using db_okD(1) [OF assms(1,2)] db_okD(1) [OF assms(1,3)] assms(4) by auto

lemma submit_ok:
  assumes "db_ok d"
  shows "db_ok (db_Submit k fn d)"
proof (cases "fn = None \<or> db_window d \<le> 0 \<or> db_closed d")
  case True
  then show ?thesis
    using assms log_ran_ok [OF assms, of k] by (auto simp: db_Submit_def split: option.splits)
next
  case False
  then obtain f where f: "fn = Some f" "0 < db_window d" "\<not> db_closed d" by auto
  define d' where "d' = db_Submit k fn d"
  define t where "t = db_next d"
  define g where "g = (case db_timers d k of None \<Rightarrow> 0 | Some te \<Rightarrow> te_generation te) + 1"
  have d': "db_timers d' = (db_timers d)(k \<mapsto> \<lparr>te_timer = t, te_generation = g\<rparr>)"
    "db_armed d' = (\<lambda>u. if u = t then Some (k, g, f)
       else if \<exists>te. db_timers d k = Some te \<and> u = te_timer te then None else db_armed d u)"
    "db_expired d' = db_expired d" "db_next d' = t + 1" "db_closed d' = db_closed d"
    "db_log d' = db_log d @ [Submitted k f]"
    using f by (auto simp: d'_def db_Submit_def stop_timer_def log_event_def Let_def t_def g_def
        fun_eq_iff split: option.splits)
  have fresh: "held d t = None" using db_okD(2) [OF assms, of t] by (simp add: t_def)
  have same: "held d' u = held d u" if "u \<noteq> t" "\<forall>te. db_timers d k = Some te \<longrightarrow> u \<noteq> te_timer te" for u
    using that by (auto simp: held_def d' split: option.splits)
  have mine: "held d' t = Some (k, g, f)" by (simp add: held_def d')
  have "db_ok d'"
    unfolding db_ok_def
  proof (intro conjI allI impI)
    fix k' te
    assume te: "db_timers d' k' = Some te"
    show "\<exists>f. held d' (te_timer te) = Some (k', te_generation te, f)"
    proof (cases "k' = k")
      case True
      with te mine show ?thesis by (auto simp: d')
    next
      case other: False
      with te have te': "db_timers d k' = Some te" by (simp add: d')
      from db_okD(1) [OF assms this] obtain f' where
        h: "held d (te_timer te) = Some (k', te_generation te, f')" by blast
      with fresh have "te_timer te \<noteq> t" by auto
      with same [of "te_timer te"] timer_key [OF assms _ te' other] h show ?thesis by auto
    qed
  next
    fix u
    assume u: "db_next d' \<le> u"
    then have "held d u = None" using db_okD(2) [OF assms, of u] by (simp add: d' t_def)
    with u show "held d' u = None" by (auto simp: held_def d' split: option.splits)
  next
    fix u
    show "db_armed d' u = None \<or> db_expired d' u = None"
      using db_okD(3) [OF assms, of u] fresh by (auto simp: held_def d' split: option.splits)
  next
    fix k'
    assume "\<not> db_closed d'" and "owed k' (db_log d') False"
    then show "db_timers d' k' \<noteq> None"
      using db_okD(4) [OF assms, of k'] by (auto simp: d')
  next
    assume "db_closed d'"
    with f(3) show "db_timers d' = Map.empty" by (simp add: d')
  qed
  then show ?thesis by (simp add: d'_def)
qed

lemma close_ok:
  assumes "db_ok d"
  shows "db_ok (db_Close d)"
proof (cases "db_closed d")
  case False
  let ?d = "db_Close d"
  have "db_armed ?d t = None \<or> db_armed ?d t = db_armed d t" "db_expired ?d = db_expired d" for t
    using False by (simp_all add: db_Close_def)
  then have "db_armed ?d t = None \<or> db_expired ?d t = None" "db_next d \<le> t \<Longrightarrow> held ?d t = None" for t
    using db_okD(2,3) [OF assms, of t]
    by (metis, metis (no_types) held_def option.case_eq_if option.distinct(1))
  with False show ?thesis by (auto simp: db_ok_def db_Close_def)
qed (simp add: db_Close_def assms)

lemma fire_ok:
  assumes "db_ok d"
  shows "db_ok (fire t d)"
proof (cases "db_expired d t")
  case None
  with assms show ?thesis by (simp add: fire_def)
next
  case (Some x)
  obtain k g f where x: "x = (k, g, f)" by (rule prod_cases3)
  with Some db_okD(3) [OF assms, of t] have h: "held d t = Some (k, g, f)" "db_armed d t = None"
    by (auto simp: held_def)
  define d1 where "d1 = d\<lparr>db_expired := (db_expired d)(t := None)\<rparr>"
  have h1: "held d1 u = (if u = t then None else held d u)" for u
    using h(2) by (auto simp: held_def d1_def split: option.splits)
  have d1: "db_timers d1 = db_timers d" "db_armed d1 = db_armed d" "db_next d1 = db_next d"
    "db_closed d1 = db_closed d" "db_log d1 = db_log d"
    "db_expired d1 = (db_expired d)(t := None)" by (simp_all add: d1_def)
  have rest: "db_armed d1 u = None \<or> db_expired d1 u = None" for u
    using db_okD(3) [OF assms, of u] by (auto simp: d1)
  text \<open>The entries that name another timer keep it; only the key of \<open>t\<close> can have named \<open>t\<close>.\<close>
  have keep: "\<exists>f. held d1 (te_timer te) = Some (k', te_generation te, f)"
    if "db_timers d k' = Some te" "k' \<noteq> k \<or> te_generation te \<noteq> g" for k' te
    using db_okD(1) [OF assms that(1)] that(2) h(1) by (auto simp: h1)
  have skip: "db_ok d1" if q: "\<And>te. db_timers d k = Some te \<Longrightarrow> te_generation te \<noteq> g"
  proof -
    have "\<exists>f. held d1 (te_timer te) = Some (k', te_generation te, f)"
      if "db_timers d k' = Some te" for k' te
      using keep [OF that] that q by (cases "k' = k") auto
    then show ?thesis
      using db_okD(2-5) [OF assms] rest
      by (auto simp: db_ok_def h1 d1(1,3-5) simp del: not_None_eq)
  qed
  consider (closed) "db_closed d" "fire t d = d1"
    | (nothing) "\<not> db_closed d" "db_timers d k = None" "fire t d = d1"
    | (stale) te where "\<not> db_closed d" "db_timers d k = Some te" "te_generation te \<noteq> g" "fire t d = d1"
    | (runs) te where "\<not> db_closed d" "db_timers d k = Some te" "te_generation te = g"
        "fire t d = log_event (Ran k f) (d1\<lparr>db_timers := (db_timers d1)(k := None)\<rparr>)"
    using Some x by (auto simp: fire_def d1_def Let_def split: option.splits if_splits)
  then show ?thesis
  proof cases
    case closed
    with assms show ?thesis
      by (auto simp: db_ok_def h1 d1 rest db_okD(2) [OF assms] db_okD(5) [OF assms])
  next
    case nothing
    with skip show ?thesis by simp
  next
    case (stale te)
    with skip show ?thesis by simp
  next
    case runs
    with assms keep show ?thesis
      using db_okD(4) [OF assms] by (auto simp: db_ok_def h1 d1 rest db_okD(2) [OF assms])
  qed
qed

lemma run_ok: "db_run w d \<Longrightarrow> db_ok d"
  unfolding db_run_def
  by (induction rule: rtranclp_induct)
    (auto simp: new_ok elim!: db_step.cases intro: submit_ok expire_ok fire_ok close_ok)

subsection \<open>What submitting promises\<close>

lemma owed_True: "\<forall>f. Ran k f \<notin> set l \<Longrightarrow> owed k l True"
proof (induction l)
  case (Cons ev l)
  then show ?case by (cases ev) auto
qed simp

lemma owedI: "\<forall>f. Ran k f \<notin> set l2 \<Longrightarrow> owed k (l1 @ Submitted k f # l2) b"
  by (simp add: owed_True)

lemma db_run_steps [intro]:
  assumes "db_run w d"
  shows "db_run w (db_Submit k fn d)" "db_run w (expire t d)" "db_run w (fire t d)"
    "db_run w (db_Close d)"
  using assms unfolding db_run_def
  by (blast intro: db_step.intros rtranclp.rtrancl_into_rtrancl)+

lemma db_run_new [intro]: "db_run w (new_debouncer w)"
  by (simp add: db_run_def)

text \<open>C16. No submission goes unanswered: in every run, while the debouncer is open, a function of the
  key runs after its last submission, or else the key still has a timer that is armed or about to
  run and whose firing will find the key's entry; so when no timer is left, every submission has been
  followed by a run of its key.\<close>

theorem submissions_answered:
  assumes "db_run w d" and "\<not> db_closed d" and "db_log d = l1 @ Submitted k f # l2"
  shows "(\<exists>f'. Ran k f' \<in> set l2) \<or>
    (\<exists>te f'. db_timers d k = Some te
       \<and> (db_armed d (te_timer te) = Some (k, te_generation te, f')
          \<or> db_expired d (te_timer te) = Some (k, te_generation te, f')))"
proof (cases "\<exists>f'. Ran k f' \<in> set l2")
  case False
  then have "owed k (db_log d) False" unfolding assms(3) by (intro owedI) blast
  with db_okD(4) [OF run_ok [OF assms(1)] assms(2)] obtain te where te: "db_timers d k = Some te" by blast
  from db_okD(1) [OF run_ok [OF assms(1)] te] te show ?thesis
    by (auto simp: held_def split: option.splits)
qed simp

text \<open>A run of three submissions on which the goroutine of the first is held up before the lock.\<close>

definition late_goroutine :: "(nat, string) debouncer" where
  "late_goroutine =
     fire 0 (db_Submit 7 (Some ''third'')
       (fire 1 (expire 1 (db_Submit 7 (Some ''second'')
         (expire 0 (db_Submit 7 (Some ''first'') (new_debouncer 100)))))))"

lemma late_goroutine_run: "db_run 100 late_goroutine"
  unfolding late_goroutine_def by (intro db_run_steps db_run_new)

lemmas debounce_defs = db_Submit_def fire_def expire_def new_debouncer_def stop_timer_def
  log_event_def Let_def

theorem submissions_answered_witness:
  "(\<exists>f'. Ran (7::nat) f' \<in> set [Ran 7 ''first'']) \<or> (\<exists>te. db_timers late_goroutine 7 = Some te)"
proof -
  have "\<not> db_closed late_goroutine" by (simp add: late_goroutine_def debounce_defs)
  moreover have "db_log late_goroutine = [Submitted 7 ''first'', Submitted 7 ''second'',
      Ran 7 ''second''] @ Submitted 7 ''third'' # [Ran 7 ''first'']"
    by (simp add: late_goroutine_def debounce_defs)
  ultimately show ?thesis using submissions_answered [OF late_goroutine_run, of _ 7] by fastforce
qed

text \<open>C17. The function that runs need not be the last one submitted. The generation of a key starts
  over once its entry is removed, so a goroutine that expired before the entry was replaced and
  reaches the lock after it was spent finds its own generation again in the entry of a later
  submission: in this run the third function is submitted last, the first one runs in its place, and
  the timer of the third then fires without running anything.\<close>

theorem late_goroutine_runs_stale:
  "db_run 100 (fire 2 (expire 2 late_goroutine))
   \<and> db_log (fire 2 (expire 2 late_goroutine)) = [Submitted 7 ''first'', Submitted 7 ''second'',
       Ran 7 ''second'', Submitted 7 ''third'', Ran 7 ''first'']
   \<and> (\<forall>t. db_armed (fire 2 (expire 2 late_goroutine)) t = None
        \<and> db_expired (fire 2 (expire 2 late_goroutine)) t = None)"
proof -
  have "db_run 100 (fire 2 (expire 2 late_goroutine))"
    by (intro db_run_steps late_goroutine_run)
  moreover have "db_log (fire 2 (expire 2 late_goroutine)) = [Submitted 7 ''first'',
      Submitted 7 ''second'', Ran 7 ''second'', Submitted 7 ''third'', Ran 7 ''first'']"
    and "db_armed (fire 2 (expire 2 late_goroutine)) = Map.empty"
    and "db_expired (fire 2 (expire 2 late_goroutine)) = Map.empty"
    by (auto simp: late_goroutine_def debounce_defs fun_eq_iff)
  ultimately show ?thesis by simp
qed

end
