(* ===== verification/Coordinator.thy ===== *)
theory Coordinator
  imports Store_Types
begin

text \<open>
  The publication coordinator of a typed group (\<^verbatim>\<open>internal/group/coordinator.go\<close>), one definition per
  critical section. The consumer's decoder, its documents' marshaller and its appliers are outside:
  what they answered is an argument. A context is a number, and \<open>cancelled\<close> says which are done. A
  panic of an applier is the error it becomes.
\<close>

subsection \<open>State\<close>

record Publication =
  gp_tenant :: string
  gp_rev :: int
  gp_value :: json

record 'v Decoded =
  dc_tenant :: string
  dc_rev :: int
  dc_value :: 'v

record 'v observation =
  ob_seq :: nat
  ob_ctx :: nat
  ob_value :: "'v Decoded"

text \<open>A scope that only failed documents reached has the zero observation as its current one: none.\<close>

record 'v gscope =
  gs_current :: "'v observation option"
  gs_observed :: bool
  gs_delivering :: bool
  gs_desired :: int
  gs_lastErr :: "err option"
  gs_latestSeq :: nat
  gs_seedArmed :: bool
  gs_seedRev :: int
  gs_seedBytes :: "bytes option"

definition new_gscope :: "'v gscope" where
  "new_gscope = \<lparr>gs_current = None, gs_observed = False, gs_delivering = False, gs_desired = 0,
     gs_lastErr = None, gs_latestSeq = 0, gs_seedArmed = False, gs_seedRev = 0, gs_seedBytes = None\<rparr>"

record 'v applierScope =
  as_deliveredSeq :: nat
  as_acceptedSeq :: nat
  as_appliedRev :: int
  as_accepted :: "'v Decoded option"

definition new_applierScope :: "'v applierScope" where
  "new_applierScope = \<lparr>as_deliveredSeq = 0, as_acceptedSeq = 0, as_appliedRev = 0, as_accepted = None\<rparr>"

text \<open>An applier is removed exactly when its identifier has left the list.\<close>

record 'v applier =
  ap_id :: nat
  ap_state :: "string \<Rightarrow> 'v applierScope option"

record 'v coordinator =
  co_seq :: nat
  co_nextID :: nat
  co_seedTaken :: bool
  co_scopes :: "(string, 'v gscope) fmap"
  co_appliers :: "'v applier list"

definition newCoordinator :: "'v coordinator" where
  "newCoordinator = \<lparr>co_seq = 0, co_nextID = 0, co_seedTaken = False, co_scopes = fmempty,
     co_appliers = []\<rparr>"

text \<open>\<open>scopeLocked\<close>: the scope of a tenant, created on its first use.\<close>

definition scope_of :: "string \<Rightarrow> 'v coordinator \<Rightarrow> 'v gscope" where
  "scope_of t c = (case fmlookup (co_scopes c) t of None \<Rightarrow> new_gscope | Some sc \<Rightarrow> sc)"

definition put_scope :: "string \<Rightarrow> 'v gscope \<Rightarrow> 'v coordinator \<Rightarrow> 'v coordinator" where
  "put_scope t sc c = c\<lparr>co_scopes := fmupd t sc (co_scopes c)\<rparr>"

lemma put_scope_simps [simp]:
  "scope_of t (put_scope u sc c) = (if t = u then sc else scope_of t c)"
  "co_seq (put_scope u sc c) = co_seq c" "co_appliers (put_scope u sc c) = co_appliers c"
  "co_nextID (put_scope u sc c) = co_nextID c" "co_seedTaken (put_scope u sc c) = co_seedTaken c"
  by (simp_all add: put_scope_def scope_of_def)

subsection \<open>Publishing\<close>

definition stamp :: "'v coordinator \<Rightarrow> 'v coordinator \<times> nat" where
  "stamp c = (c\<lparr>co_seq := co_seq c + 1\<rparr>, co_seq c + 1)"

text \<open>The watermark is spent on the first publication that follows a seed.\<close>

definition dropsAfterSeed :: "bytes option \<Rightarrow> Publication \<Rightarrow> 'v gscope \<Rightarrow> 'v gscope \<times> bool" where
  "dropsAfterSeed marshaled pub sc =
     (if \<not> gs_seedArmed sc then (sc, False)
      else let sc' = sc\<lparr>gs_seedArmed := False\<rparr> in
        if gs_seedRev sc < gp_rev pub \<or> gs_seedBytes sc = None then (sc', False)
        else case marshaled of None \<Rightarrow> (sc', False) | Some b \<Rightarrow> (sc', Some b = gs_seedBytes sc))"

definition observe :: "nat \<Rightarrow> Publication \<Rightarrow> 'v \<Rightarrow> nat \<Rightarrow> 'v gscope \<Rightarrow> 'v gscope" where
  "observe ctx pub v n sc =
     sc\<lparr>gs_current := Some \<lparr>ob_seq = n, ob_ctx = ctx,
          ob_value = \<lparr>dc_tenant = gp_tenant pub, dc_rev = gp_rev pub, dc_value = v\<rparr>\<rparr>,
        gs_observed := True, gs_latestSeq := n\<rparr>"

definition observe_failed :: "err \<Rightarrow> nat \<Rightarrow> 'v gscope \<Rightarrow> 'v gscope" where
  "observe_failed er n sc =
     sc\<lparr>gs_latestSeq := n, gs_lastErr := Some er, gs_observed := True\<rparr>"

text \<open>The flag says the publication was recorded: \<open>commit\<close> answered a scope, not nil.\<close>

definition commit ::
  "nat \<Rightarrow> Publication \<Rightarrow> nat \<Rightarrow> err + 'v \<Rightarrow> bytes option \<Rightarrow> 'v coordinator \<Rightarrow> 'v coordinator \<times> bool"
where
  "commit ctx pub n decoded marshaled c =
     (let t = gp_tenant pub; sc = scope_of t c in
      if n < gs_latestSeq sc then (put_scope t sc c, False)
      else case dropsAfterSeed marshaled pub sc of
        (sc1, True) \<Rightarrow> (put_scope t sc1 c, False)
      | (sc1, False) \<Rightarrow>
          let sc2 = sc1\<lparr>gs_desired := gp_rev pub\<rparr> in
          (put_scope t (case decoded of Inl er \<Rightarrow> observe_failed er n sc2
                                      | Inr v \<Rightarrow> observe ctx pub v n sc2) c, True))"

text \<open>A publication is drained when it was recorded and its document decoded.\<close>

definition drains :: "err + 'v \<Rightarrow> bool \<Rightarrow> bool" where
  "drains decoded recorded \<longleftrightarrow> recorded \<and> is_ok decoded"

subsection \<open>Registration\<close>

datatype 'v seed_answer =
    Seed_Failed err
  | Seed_Absent
  | Seed_Read Publication "err + 'v" "bytes option"

definition anyObserved :: "'v coordinator \<Rightarrow> bool" where
  "anyObserved c \<longleftrightarrow> (\<exists>t \<in> fset (fmdom (co_scopes c)). gs_observed (scope_of t c))"

definition seedLocked :: "nat \<Rightarrow> 'v seed_answer \<Rightarrow> 'v coordinator \<Rightarrow> 'v coordinator \<times> err option" where
  "seedLocked bg ans c =
     (if co_seedTaken c \<or> anyObserved c then (c, None)
      else case ans of
        Seed_Failed er \<Rightarrow> (c, Some er)
      | Seed_Absent \<Rightarrow> (c, None)
      | Seed_Read pub decoded marshaled \<Rightarrow>
          let t = gp_tenant pub; n = co_seq c + 1;
              sc = (scope_of t c)\<lparr>gs_desired := gp_rev pub\<rparr>;
              sc' = (case decoded of
                       Inl er \<Rightarrow> observe_failed er n sc
                     | Inr v \<Rightarrow> (observe bg pub v n sc)\<lparr>gs_seedArmed := True,
                         gs_seedRev := gp_rev pub, gs_seedBytes := marshaled\<rparr>)
          in (put_scope t sc' (c\<lparr>co_seedTaken := True, co_seq := n\<rparr>), None))"

text \<open>\<open>add\<close> answers the new applier's identifier, the scopes to replay and the seed read's error.\<close>

definition add_applier ::
  "nat \<Rightarrow> 'v seed_answer \<Rightarrow> 'v coordinator \<Rightarrow> 'v coordinator \<times> nat \<times> string list \<times> err option"
where
  "add_applier bg ans c =
     (let (c1, readErr) = seedLocked bg ans c;
          n = co_nextID c1 + 1;
          c2 = c1\<lparr>co_nextID := n, co_appliers := co_appliers c1 @ [\<lparr>ap_id = n, ap_state = Map.empty\<rparr>]\<rparr>
      in (c2, n, filter (\<lambda>t. gs_observed (scope_of t c2)) (sorted_list_of_fset (fmdom (co_scopes c2))),
          readErr))"

subsection \<open>Convergence\<close>

definition accepted_by :: "string \<Rightarrow> nat \<Rightarrow> 'v applier \<Rightarrow> bool" where
  "accepted_by t n ap \<longleftrightarrow>
     (case ap_state ap t of None \<Rightarrow> False | Some st \<Rightarrow> n \<le> as_acceptedSeq st)"

definition clearErrIfConverged :: "string \<Rightarrow> 'v coordinator \<Rightarrow> 'v gscope \<Rightarrow> 'v gscope" where
  "clearErrIfConverged t c sc =
     (if co_appliers c \<noteq> [] \<and> (\<forall>ap \<in> set (co_appliers c). accepted_by t (gs_latestSeq sc) ap)
      then sc\<lparr>gs_lastErr := None\<rparr> else sc)"

definition remove_applier :: "nat \<Rightarrow> 'v coordinator \<Rightarrow> 'v coordinator" where
  "remove_applier n c =
     (if n \<notin> ap_id ` set (co_appliers c) then c
      else let c1 = c\<lparr>co_appliers := filter (\<lambda>ap. ap_id ap \<noteq> n) (co_appliers c)\<rparr>
        in c1\<lparr>co_scopes := fmmap_keys (\<lambda>t sc. clearErrIfConverged t c1 sc) (co_scopes c1)\<rparr>)"

text \<open>\<open>furthest\<close> walks the appliers with the smallest accepted sequence so far.\<close>

fun furthest :: "string \<Rightarrow> 'v applier list \<Rightarrow> (nat \<times> int) option \<Rightarrow> int option" where
  "furthest t [] best = Some (case best of None \<Rightarrow> 0 | Some (_, r) \<Rightarrow> r)"
| "furthest t (ap # aps) best =
     (case ap_state ap t of
        None \<Rightarrow> None
      | Some st \<Rightarrow>
          furthest t aps
            (case best of
               None \<Rightarrow> Some (as_acceptedSeq st, as_appliedRev st)
             | Some (oldest, r) \<Rightarrow>
                 if as_acceptedSeq st < oldest then Some (as_acceptedSeq st, as_appliedRev st) else best))"

definition applied_rev :: "string \<Rightarrow> 'v coordinator \<Rightarrow> int" where
  "applied_rev t c =
     (if co_appliers c = [] then gs_desired (scope_of t c)
      else case furthest t (co_appliers c) None of None \<Rightarrow> 0 | Some r \<Rightarrow> r)"

record Status =
  st_tenant :: string
  st_desired :: int
  st_applied :: int
  st_lastErr :: "err option"

definition group_Status :: "'v coordinator \<Rightarrow> Status list" where
  "group_Status c =
     map (\<lambda>t. \<lparr>st_tenant = t, st_desired = gs_desired (scope_of t c), st_applied = applied_rev t c,
                st_lastErr = gs_lastErr (scope_of t c)\<rparr>)
       (sorted_list_of_fset (fmdom (co_scopes c)))"

subsection \<open>The fan-out\<close>

datatype answer = Skipped | Accepted | Rejected err

record 'v gdelivery =
  dl_ap :: nat
  dl_seq :: nat
  dl_current :: "'v Decoded"
  dl_previous :: "'v Decoded option"

definition scopeState :: "'v applier \<Rightarrow> string \<Rightarrow> 'v applierScope" where
  "scopeState ap t = (case ap_state ap t of None \<Rightarrow> new_applierScope | Some st \<Rightarrow> st)"

definition current_seq :: "'v gscope \<Rightarrow> nat" where
  "current_seq sc = (case gs_current sc of None \<Rightarrow> 0 | Some ob \<Rightarrow> ob_seq ob)"

text \<open>One applier's share of \<open>pendingLocked\<close>: offered before it is invoked.\<close>

definition offer :: "string \<Rightarrow> nat \<Rightarrow> 'v applier \<Rightarrow> 'v applier" where
  "offer t n ap =
     (let st = scopeState ap t in
      ap\<lparr>ap_state := (ap_state ap)(t \<mapsto>
        (if n \<le> as_deliveredSeq st then st else st\<lparr>as_deliveredSeq := n\<rparr>))\<rparr>)"

definition pendingLocked :: "string \<Rightarrow> 'v coordinator \<Rightarrow> 'v coordinator \<times> 'v gdelivery list" where
  "pendingLocked t c =
     (let sc = scope_of t c in
      (c\<lparr>co_appliers := map (offer t (current_seq sc)) (co_appliers c)\<rparr>,
       case gs_current sc of
         None \<Rightarrow> []
       | Some ob \<Rightarrow>
           map (\<lambda>ap. \<lparr>dl_ap = ap_id ap, dl_seq = ob_seq ob, dl_current = ob_value ob,
                       dl_previous = as_accepted (scopeState ap t)\<rparr>)
             (filter (\<lambda>ap. as_deliveredSeq (scopeState ap t) < ob_seq ob) (co_appliers c))))"

definition deliveryCtx :: "(nat \<Rightarrow> bool) \<Rightarrow> nat \<Rightarrow> 'v observation option \<Rightarrow> nat" where
  "deliveryCtx cancelled fallback ob =
     (case ob of None \<Rightarrow> fallback
      | Some x \<Rightarrow> if cancelled (ob_ctx x) then fallback else ob_ctx x)"

text \<open>One delivery's share of \<open>recordLocked\<close>.\<close>

definition accept :: "string \<Rightarrow> 'v Decoded \<Rightarrow> 'v applier \<Rightarrow> 'v applier" where
  "accept t cur ap =
     (let st = scopeState ap t in
      ap\<lparr>ap_state := (ap_state ap)(t \<mapsto> st\<lparr>as_acceptedSeq := as_deliveredSeq st,
        as_appliedRev := dc_rev cur, as_accepted := Some cur\<rparr>)\<rparr>)"

definition record_one :: "string \<Rightarrow> 'v gdelivery \<times> answer \<Rightarrow> 'v coordinator \<Rightarrow> 'v coordinator" where
  "record_one t d c =
     (case d of
        (_, Skipped) \<Rightarrow> c
      | (_, Rejected er) \<Rightarrow> put_scope t ((scope_of t c)\<lparr>gs_lastErr := Some er\<rparr>) c
      | (x, Accepted) \<Rightarrow>
          c\<lparr>co_appliers := map (\<lambda>ap. if ap_id ap = dl_ap x then accept t (dl_current x) ap else ap)
             (co_appliers c)\<rparr>)"

definition recordLocked :: "string \<Rightarrow> ('v gdelivery \<times> answer) list \<Rightarrow> 'v coordinator \<Rightarrow> 'v coordinator" where
  "recordLocked t ds c =
     (let c1 = fold (record_one t) ds c in put_scope t (clearErrIfConverged t c1 (scope_of t c1)) c1)"

definition set_delivering :: "string \<Rightarrow> bool \<Rightarrow> 'v coordinator \<Rightarrow> 'v coordinator" where
  "set_delivering t b c = put_scope t ((scope_of t c)\<lparr>gs_delivering := b\<rparr>) c"

end
