(* ===== verification/Coordinator_Runs.thy ===== *)
theory Coordinator_Runs
  imports Coordinator "HOL-Library.Multiset"
begin

text \<open>
  The coordinator under concurrency. Publishers, registrants and fan-outs run on any goroutines; what
  the state mutex makes atomic is one step, and a fan-out gives the mutex up around each applier. A
  world carries, beside the coordinator: the publications stamped and not yet committed, the calls of
  \<open>drain\<close> not yet begun, the fan-out of each scope that has one, and the log of what each applier was
  handed.
\<close>

record 'v fanout =
  fo_todo :: "'v gdelivery list"
  fo_running :: "'v gdelivery option"
  fo_done :: "('v gdelivery \<times> answer) list"

definition inflight :: "'v fanout option \<Rightarrow> 'v gdelivery list" where
  "inflight f = (case f of None \<Rightarrow> []
     | Some x \<Rightarrow> map fst (fo_done x) @ (case fo_running x of None \<Rightarrow> [] | Some d \<Rightarrow> [d]) @ fo_todo x)"

definition todo :: "'v fanout option \<Rightarrow> 'v gdelivery list" where
  "todo f = (case f of None \<Rightarrow> [] | Some x \<Rightarrow> fo_todo x)"

record 'v gworld =
  gw_co :: "'v coordinator"
  gw_stamped :: "(nat \<times> Publication) multiset"
  gw_drains :: "string multiset"
  gw_fan :: "string \<Rightarrow> 'v fanout option"
  gw_log :: "(nat \<times> string \<times> nat) list"

definition new_gworld :: "'v gworld" where
  "new_gworld = \<lparr>gw_co = newCoordinator, gw_stamped = {#}, gw_drains = {#}, gw_fan = Map.empty,
     gw_log = []\<rparr>"

text \<open>One turn of drain's loop: what is pending goes out, or the flag is released.\<close>

definition drain_turn :: "string \<Rightarrow> 'v coordinator \<Rightarrow> 'v gworld \<Rightarrow> 'v gworld" where
  "drain_turn t c w =
     (case pendingLocked t c of
        (c', []) \<Rightarrow> w\<lparr>gw_co := set_delivering t False c', gw_fan := (gw_fan w)(t := None)\<rparr>
      | (c', ds) \<Rightarrow> w\<lparr>gw_co := c',
          gw_fan := (gw_fan w)(t \<mapsto> \<lparr>fo_todo = ds, fo_running = None, fo_done = []\<rparr>)\<rparr>)"

inductive gstep :: "'v gworld \<Rightarrow> 'v gworld \<Rightarrow> bool" where
  stamps: "stamp (gw_co w) = (c, n) \<Longrightarrow>
     gstep w (w\<lparr>gw_co := c, gw_stamped := add_mset (n, pub) (gw_stamped w)\<rparr>)"
| commits: "(n, pub) \<in># gw_stamped w \<Longrightarrow>
     commit ctx pub n decoded marshaled (gw_co w) = (c, recorded) \<Longrightarrow>
     gstep w (w\<lparr>gw_co := c, gw_stamped := gw_stamped w - {#(n, pub)#},
       gw_drains := (if drains decoded recorded then add_mset (gp_tenant pub) (gw_drains w)
                     else gw_drains w)\<rparr>)"
| registers: "add_applier bg ans (gw_co w) = (c, n, ts, readErr) \<Longrightarrow>
     gstep w (w\<lparr>gw_co := c, gw_drains := gw_drains w + mset ts\<rparr>)"
| removes: "gstep w (w\<lparr>gw_co := remove_applier n (gw_co w)\<rparr>)"
| busy: "t \<in># gw_drains w \<Longrightarrow> gs_delivering (scope_of t (gw_co w)) \<Longrightarrow>
     gstep w (w\<lparr>gw_drains := gw_drains w - {#t#}\<rparr>)"
| starts: "t \<in># gw_drains w \<Longrightarrow> \<not> gs_delivering (scope_of t (gw_co w)) \<Longrightarrow>
     gstep w (drain_turn t (set_delivering t True (gw_co w)) (w\<lparr>gw_drains := gw_drains w - {#t#}\<rparr>))"
| skips: "gw_fan w t = Some \<lparr>fo_todo = d # ds, fo_running = None, fo_done = done\<rparr> \<Longrightarrow>
     dl_ap d \<notin> ap_id ` set (co_appliers (gw_co w)) \<Longrightarrow>
     gstep w (w\<lparr>gw_fan := (gw_fan w)(t \<mapsto> \<lparr>fo_todo = ds, fo_running = None,
       fo_done = done @ [(d, Skipped)]\<rparr>)\<rparr>)"
| begins: "gw_fan w t = Some \<lparr>fo_todo = d # ds, fo_running = None, fo_done = done\<rparr> \<Longrightarrow>
     dl_ap d \<in> ap_id ` set (co_appliers (gw_co w)) \<Longrightarrow>
     gstep w (w\<lparr>gw_fan := (gw_fan w)(t \<mapsto> \<lparr>fo_todo = ds, fo_running = Some d, fo_done = done\<rparr>),
       gw_log := gw_log w @ [(dl_ap d, t, dl_seq d)]\<rparr>)"
| finishes: "gw_fan w t = Some \<lparr>fo_todo = ds, fo_running = Some d, fo_done = done\<rparr> \<Longrightarrow>
     a \<noteq> Skipped \<Longrightarrow>
     gstep w (w\<lparr>gw_fan := (gw_fan w)(t \<mapsto> \<lparr>fo_todo = ds, fo_running = None,
       fo_done = done @ [(d, a)]\<rparr>)\<rparr>)"
| records: "gw_fan w t = Some \<lparr>fo_todo = [], fo_running = None, fo_done = done\<rparr> \<Longrightarrow>
     gstep w (drain_turn t (recordLocked t done (gw_co w)) w)"

definition gruns :: "'v gworld \<Rightarrow> bool" where
  "gruns w \<longleftrightarrow> gstep\<^sup>*\<^sup>* new_gworld w"

subsection \<open>What the operations do to one scope of one applier\<close>

text \<open>Of an applier a scope's invariant reads its identifier and its bookkeeping for that scope.\<close>

definition views :: "'v coordinator \<Rightarrow> string \<Rightarrow> (nat \<times> 'v applierScope) list" where
  "views c t = map (\<lambda>ap. (ap_id ap, scopeState ap t)) (co_appliers c)"

lemma views_ids: "map fst (views c t) = map ap_id (co_appliers c)"
  by (simp add: views_def)

lemma views_put [simp]: "views (put_scope t sc c) u = views c u"
  by (simp add: views_def)

lemma views_same [simp]:
  "views (c\<lparr>co_seq := n\<rparr>) t = views c t" "views (c\<lparr>co_seedTaken := b\<rparr>) t = views c t"
  "views (c\<lparr>co_scopes := s\<rparr>) t = views c t" "views (set_delivering t' b c) t = views c t"
  by (simp_all add: views_def set_delivering_def)

lemma scope_of_same [simp]:
  "scope_of t (c\<lparr>co_seq := n\<rparr>) = scope_of t c" "scope_of t (c\<lparr>co_seedTaken := b\<rparr>) = scope_of t c"
  "scope_of t (c\<lparr>co_appliers := as\<rparr>) = scope_of t c" "scope_of t (c\<lparr>co_nextID := n\<rparr>) = scope_of t c"
  by (simp_all add: scope_of_def)

definition offered :: "nat \<Rightarrow> 'v applierScope \<Rightarrow> 'v applierScope" where
  "offered n st = (if n \<le> as_deliveredSeq st then st else st\<lparr>as_deliveredSeq := n\<rparr>)"

lemma scopeState_offer:
  "scopeState (offer t n ap) u = (if u = t then offered n (scopeState ap t) else scopeState ap u)"
  by (auto simp: offer_def scopeState_def offered_def Let_def)

lemma ap_id_offer [simp]: "ap_id (offer t n ap) = ap_id ap"
  by (simp add: offer_def Let_def)

lemma pending_views:
  assumes "pendingLocked t c = (c', ds)"
  shows "views c' u = (if u = t then map (\<lambda>(i, st). (i, offered (current_seq (scope_of t c)) st)) (views c t)
     else views c u)"
    and "scope_of u c' = scope_of u c" and "co_seq c' = co_seq c" and "co_nextID c' = co_nextID c"
    and "map ap_id (co_appliers c') = map ap_id (co_appliers c)"
    and "fmdom (co_scopes c') = fmdom (co_scopes c)"
  using assms by (auto simp: pendingLocked_def Let_def views_def scopeState_offer o_def)

text \<open>What is pending goes to the appliers behind the scope's newest document, each once.\<close>

lemma pending_deliveries:
  assumes "pendingLocked t c = (c', ds)"
  shows "map dl_ap ds = map fst (filter (\<lambda>(i, st). as_deliveredSeq st < current_seq (scope_of t c)) (views c t))"
    and "d \<in> set ds \<Longrightarrow> dl_seq d = current_seq (scope_of t c)
       \<and> gs_current (scope_of t c) \<noteq> None
       \<and> Some (dl_current d) = map_option ob_value (gs_current (scope_of t c))"
proof -
  show "map dl_ap ds = map fst (filter (\<lambda>(i, st). as_deliveredSeq st < current_seq (scope_of t c)) (views c t))"
    using assms
    by (auto simp: pendingLocked_def Let_def views_def current_seq_def o_def filter_map
        split: option.splits)
  show "d \<in> set ds \<Longrightarrow> dl_seq d = current_seq (scope_of t c)
       \<and> gs_current (scope_of t c) \<noteq> None
       \<and> Some (dl_current d) = map_option ob_value (gs_current (scope_of t c))"
    using assms
    by (auto simp: pendingLocked_def Let_def current_seq_def split: option.splits)
qed

definition acc :: "'v Decoded \<Rightarrow> 'v applierScope \<Rightarrow> 'v applierScope" where
  "acc cur st = st\<lparr>as_acceptedSeq := as_deliveredSeq st, as_appliedRev := dc_rev cur,
     as_accepted := Some cur\<rparr>"

lemma scopeState_accept:
  "scopeState (accept t cur ap) u = (if u = t then acc cur (scopeState ap t) else scopeState ap u)"
  by (auto simp: accept_def scopeState_def acc_def Let_def)

lemma ap_id_accept [simp]: "ap_id (accept t cur ap) = ap_id ap"
  by (simp add: accept_def Let_def)

fun recorded :: "('v gdelivery \<times> answer) list \<Rightarrow> nat \<Rightarrow> 'v applierScope \<Rightarrow> 'v applierScope" where
  "recorded [] i st = st"
| "recorded ((d, a) # ds) i st =
     recorded ds i (if a = Accepted \<and> i = dl_ap d then acc (dl_current d) st else st)"

fun last_err :: "('v gdelivery \<times> answer) list \<Rightarrow> err option \<Rightarrow> err option" where
  "last_err [] e = e"
| "last_err ((d, a) # ds) e = last_err ds (case a of Rejected er \<Rightarrow> Some er | _ \<Rightarrow> e)"

lemma record_one_views:
  "views (record_one t (d, a) c) u = (if u = t \<and> a = Accepted
     then map (\<lambda>(i, st). (i, if i = dl_ap d then acc (dl_current d) st else st)) (views c t)
     else views c u)"
  by (cases a) (auto simp: record_one_def views_def scopeState_accept)

lemma record_one_scope:
  "scope_of u (record_one t (d, a) c) = (case a of
     Rejected er \<Rightarrow> if u = t then (scope_of t c)\<lparr>gs_lastErr := Some er\<rparr> else scope_of u c
   | _ \<Rightarrow> scope_of u c)"
  by (cases a) (auto simp: record_one_def)

lemma record_one_same [simp]:
  "co_seq (record_one t d c) = co_seq c" "co_nextID (record_one t d c) = co_nextID c"
  "map ap_id (co_appliers (record_one t d c)) = map ap_id (co_appliers c)"
  by (cases d; cases "snd d"; auto simp: record_one_def)+

lemma records_views:
  "views (fold (record_one t) ds c) t = map (\<lambda>(i, st). (i, recorded ds i st)) (views c t)"
proof (induction ds arbitrary: c)
  case (Cons x ds)
  obtain d a where x: "x = (d, a)" by fastforce
  show ?case by (auto simp: x Cons.IH record_one_views)
qed simp

lemma records_other:
  "u \<noteq> t \<Longrightarrow> views (fold (record_one t) ds c) u = views c u
     \<and> scope_of u (fold (record_one t) ds c) = scope_of u c"
proof (induction ds arbitrary: c)
  case (Cons x ds)
  then show ?case
    by (cases x; cases "snd x") (auto simp: record_one_views record_one_scope)
qed simp

lemma records_scope:
  "scope_of t (fold (record_one t) ds c) =
     (scope_of t c)\<lparr>gs_lastErr := last_err ds (gs_lastErr (scope_of t c))\<rparr>"
proof (induction ds arbitrary: c)
  case (Cons x ds)
  then show ?case
    by (cases x; cases "snd x") (auto simp: record_one_scope)
qed simp

lemma records_same [simp]:
  "co_seq (fold (record_one t) ds c) = co_seq c" "co_nextID (fold (record_one t) ds c) = co_nextID c"
  "map ap_id (co_appliers (fold (record_one t) ds c)) = map ap_id (co_appliers c)"
  by (induction ds arbitrary: c) simp_all

lemma recorded_delivered [simp]: "as_deliveredSeq (recorded ds i st) = as_deliveredSeq st"
  by (induction ds i st rule: recorded.induct) (auto simp: acc_def)

lemma recorded_other: "i \<notin> dl_ap ` fst ` set ds \<Longrightarrow> recorded ds i st = st"
  by (induction ds i st rule: recorded.induct) auto

lemma recorded_own:
  assumes "distinct (map dl_ap (map fst ds))" and "(d, a) \<in> set ds"
  shows "recorded ds (dl_ap d) st = (if a = Accepted then acc (dl_current d) st else st)"
  using assms
proof (induction ds arbitrary: st)
  case (Cons x ds)
  obtain d' a' where x: "x = (d', a')" by fastforce
  show ?case
  proof (cases "(d, a) = (d', a')")
    case True
    with Cons.prems(1) x have "dl_ap d \<notin> dl_ap ` fst ` set ds" by (auto simp: image_image)
    from recorded_other [OF this] True x show ?thesis by simp
  next
    case False
    with Cons.prems x have "(d, a) \<in> set ds" by auto
    moreover from this Cons.prems(1) x have "dl_ap d \<noteq> dl_ap d'" by (auto simp: image_image) force
    ultimately show ?thesis using Cons x by auto
  qed
qed simp

lemma last_err_set: "e \<noteq> None \<or> (\<exists>d er. (d, Rejected er) \<in> set ds) \<Longrightarrow> last_err ds e \<noteq> None"
proof (induction ds arbitrary: e)
  case (Cons x ds)
  obtain d a where x: "x = (d, a)" by fastforce
  with Cons.prems have "(case a of Rejected er \<Rightarrow> Some er | _ \<Rightarrow> e) \<noteq> None
      \<or> (\<exists>d er. (d, Rejected er) \<in> set ds)"
    by (cases a) auto
  from Cons.IH [OF this] show ?case by (simp add: x)
qed simp

lemma accepted_by_le: "accepted_by t n ap \<Longrightarrow> n \<le> as_acceptedSeq (scopeState ap t)"
  by (auto simp: accepted_by_def scopeState_def split: option.splits)

text \<open>Clearing a scope's error asks that every applier has accepted the newest observation.\<close>

lemma clearErr_cases:
  obtains "clearErrIfConverged t c sc = sc"
  | "clearErrIfConverged t c sc = sc\<lparr>gs_lastErr := None\<rparr>" and "co_appliers c \<noteq> []"
    and "\<forall>(i, st) \<in> set (views c t). gs_latestSeq sc \<le> as_acceptedSeq st"
proof (cases "clearErrIfConverged t c sc = sc")
  case False
  then have "co_appliers c \<noteq> []" "\<forall>ap \<in> set (co_appliers c). accepted_by t (gs_latestSeq sc) ap"
    "clearErrIfConverged t c sc = sc\<lparr>gs_lastErr := None\<rparr>"
    by (auto simp: clearErrIfConverged_def split: if_splits)
  then show ?thesis using that(2) accepted_by_le by (fastforce simp: views_def)
qed (rule that(1))

subsection \<open>The invariant\<close>

text \<open>
  Of an applier in a scope: it accepts what it was offered, it is offered what the scope observed,
  what it was offered is in the log or about to be, what it accepted last is the document it was
  offered, and once it answered the newest observation it has accepted it or the scope's error is
  set.
\<close>

definition ap_ok ::
  "'v gscope \<Rightarrow> (nat \<times> string \<times> nat) list \<Rightarrow> 'v fanout option \<Rightarrow> string \<Rightarrow> nat \<Rightarrow> 'v applierScope \<Rightarrow> bool"
where
  "ap_ok sc lg f t i st \<longleftrightarrow>
     as_acceptedSeq st \<le> as_deliveredSeq st \<and> as_deliveredSeq st \<le> current_seq sc
     \<and> (\<forall>n. (i, t, n) \<in> set lg \<longrightarrow> n \<le> as_deliveredSeq st)
     \<and> (as_deliveredSeq st \<noteq> 0 \<longrightarrow>
          (i, t, as_deliveredSeq st) \<in> set lg \<or> i \<in> dl_ap ` set (todo f))
     \<and> (as_acceptedSeq st \<noteq> 0 \<longrightarrow> as_acceptedSeq st = current_seq sc \<longrightarrow>
          as_accepted st = map_option ob_value (gs_current sc)
          \<and> Some (as_appliedRev st) = map_option (dc_rev \<circ> ob_value) (gs_current sc))
     \<and> (i \<notin> dl_ap ` set (inflight f) \<longrightarrow> as_deliveredSeq st \<noteq> 0 \<longrightarrow>
          as_deliveredSeq st = gs_latestSeq sc \<longrightarrow>
          as_acceptedSeq st = as_deliveredSeq st \<or> gs_lastErr sc \<noteq> None)"

definition fan_ok ::
  "'v gscope \<Rightarrow> (nat \<times> string \<times> nat) list \<Rightarrow> 'v fanout option \<Rightarrow> string \<Rightarrow>
     (nat \<times> 'v applierScope) list \<Rightarrow> bool"
where
  "fan_ok sc lg f t V \<longleftrightarrow>
     distinct (map dl_ap (inflight f))
     \<and> (\<forall>d \<in> set (inflight f). (\<forall>st. (dl_ap d, st) \<in> set V \<longrightarrow> as_deliveredSeq st = dl_seq d)
          \<and> dl_seq d \<noteq> 0 \<and> dl_seq d \<le> current_seq sc
          \<and> (dl_seq d = current_seq sc \<longrightarrow> Some (dl_current d) = map_option ob_value (gs_current sc)))
     \<and> (\<forall>d \<in> set (todo f). \<forall>n. (dl_ap d, t, n) \<in> set lg \<longrightarrow> n < dl_seq d)
     \<and> (\<forall>x d. f = Some x \<longrightarrow> (d, Skipped) \<in> set (fo_done x) \<longrightarrow> dl_ap d \<notin> fst ` set V)"

definition gscope_ok :: "nat \<Rightarrow> 'v gscope \<Rightarrow> bool" where
  "gscope_ok m sc \<longleftrightarrow> current_seq sc \<le> gs_latestSeq sc \<and> gs_latestSeq sc \<le> m
     \<and> (gs_observed sc \<longleftrightarrow> gs_latestSeq sc \<noteq> 0)
     \<and> (current_seq sc < gs_latestSeq sc \<longrightarrow> gs_lastErr sc \<noteq> None)
     \<and> (\<forall>ob. gs_current sc = Some ob \<longrightarrow> ob_seq ob \<noteq> 0
          \<and> (ob_seq ob = gs_latestSeq sc \<longrightarrow> gs_desired sc = dc_rev (ob_value ob)))"

definition lag :: "'v gscope \<Rightarrow> (nat \<times> 'v applierScope) list \<Rightarrow> bool" where
  "lag sc V \<longleftrightarrow> (\<exists>(i, st) \<in> set V. as_deliveredSeq st < current_seq sc)"

definition tenant_ok :: "'v gworld \<Rightarrow> string \<Rightarrow> bool" where
  "tenant_ok w t \<longleftrightarrow>
     (let c = gw_co w; sc = scope_of t c; V = views c t; f = gw_fan w t in
        gscope_ok (co_seq c) sc \<and> (gs_delivering sc \<longleftrightarrow> f \<noteq> None)
        \<and> (\<forall>(i, st) \<in> set V. ap_ok sc (gw_log w) f t i st)
        \<and> fan_ok sc (gw_log w) f t V \<and> (lag sc V \<longrightarrow> t \<in># gw_drains w \<or> f \<noteq> None))"

definition in_order :: "(nat \<times> string \<times> nat) \<Rightarrow> (nat \<times> string \<times> nat) \<Rightarrow> bool" where
  "in_order a b \<longleftrightarrow> (fst a = fst b \<and> fst (snd a) = fst (snd b) \<longrightarrow> snd (snd a) < snd (snd b))"

definition gworld_ok :: "'v gworld \<Rightarrow> bool" where
  "gworld_ok w \<longleftrightarrow>
     (\<forall>t. tenant_ok w t)
     \<and> distinct (map ap_id (co_appliers (gw_co w)))
     \<and> (\<forall>i \<in> set (map ap_id (co_appliers (gw_co w))). i \<le> co_nextID (gw_co w))
     \<and> (\<forall>t. \<forall>d \<in> set (inflight (gw_fan w t)). dl_ap d \<le> co_nextID (gw_co w))
     \<and> (\<forall>x \<in> set (gw_log w). fst x \<le> co_nextID (gw_co w))
     \<and> (\<forall>n. count (image_mset fst (gw_stamped w)) n \<le> 1)
     \<and> (\<forall>(n, p) \<in># gw_stamped w. n \<noteq> 0 \<and> n \<le> co_seq (gw_co w)
          \<and> (\<forall>t. gs_latestSeq (scope_of t (gw_co w)) \<noteq> n))
     \<and> sorted_wrt in_order (gw_log w)"

lemma tenant_okI:
  assumes "gscope_ok (co_seq (gw_co w)) (scope_of t (gw_co w))"
    and "gs_delivering (scope_of t (gw_co w)) \<longleftrightarrow> gw_fan w t \<noteq> None"
    and "\<And>i st. (i, st) \<in> set (views (gw_co w) t) \<Longrightarrow>
      ap_ok (scope_of t (gw_co w)) (gw_log w) (gw_fan w t) t i st"
    and "fan_ok (scope_of t (gw_co w)) (gw_log w) (gw_fan w t) t (views (gw_co w) t)"
    and "lag (scope_of t (gw_co w)) (views (gw_co w) t) \<Longrightarrow> t \<in># gw_drains w \<or> gw_fan w t \<noteq> None"
  shows "tenant_ok w t"
  using assms by (auto simp: tenant_ok_def Let_def)

lemma tenant_okD:
  assumes "tenant_ok w t"
  shows "gscope_ok (co_seq (gw_co w)) (scope_of t (gw_co w))"
    and "gs_delivering (scope_of t (gw_co w)) \<longleftrightarrow> gw_fan w t \<noteq> None"
    and "(i, st) \<in> set (views (gw_co w) t) \<Longrightarrow>
      ap_ok (scope_of t (gw_co w)) (gw_log w) (gw_fan w t) t i st"
    and "fan_ok (scope_of t (gw_co w)) (gw_log w) (gw_fan w t) t (views (gw_co w) t)"
    and "lag (scope_of t (gw_co w)) (views (gw_co w) t) \<Longrightarrow> t \<in># gw_drains w \<or> gw_fan w t \<noteq> None"
  using assms by (auto simp: tenant_ok_def Let_def)

text \<open>What a scope's invariant reads of its state; the watermark is no part of it.\<close>

definition core :: "'v gscope \<Rightarrow> 'v observation option \<times> bool \<times> bool \<times> int \<times> err option \<times> nat" where
  "core sc = (gs_current sc, gs_observed sc, gs_delivering sc, gs_desired sc, gs_lastErr sc,
     gs_latestSeq sc)"

lemma core_eqD:
  assumes "core sc' = core sc"
  shows "gs_current sc' = gs_current sc" "gs_observed sc' = gs_observed sc"
    "gs_delivering sc' = gs_delivering sc" "gs_desired sc' = gs_desired sc"
    "gs_lastErr sc' = gs_lastErr sc" "gs_latestSeq sc' = gs_latestSeq sc"
    "current_seq sc' = current_seq sc"
  using assms by (auto simp: core_def current_seq_def)

lemma core_cong:
  assumes "core sc' = core sc"
  shows "ap_ok sc' lg f t i st = ap_ok sc lg f t i st" "fan_ok sc' lg f t V = fan_ok sc lg f t V"
    "gscope_ok m sc' = gscope_ok m sc" "lag sc' V = lag sc V"
  by (simp_all add: ap_ok_def fan_ok_def gscope_ok_def lag_def core_eqD [OF assms])

lemma log_cong:
  assumes "\<And>i n. (i, t, n) \<in> set lg' \<longleftrightarrow> (i, t, n) \<in> set lg"
  shows "ap_ok sc lg' f t i st = ap_ok sc lg f t i st" "fan_ok sc lg' f t V = fan_ok sc lg f t V"
  by (simp_all add: ap_ok_def fan_ok_def assms)

lemma gscope_ok_mono: "gscope_ok m sc \<Longrightarrow> m \<le> m' \<Longrightarrow> gscope_ok m' sc"
  by (auto simp: gscope_ok_def)

text \<open>A step that leaves a scope's own part alone keeps its invariant.\<close>

lemma tenant_frame:
  assumes "tenant_ok w t" and "core (scope_of t (gw_co w')) = core (scope_of t (gw_co w))"
    and "views (gw_co w') t = views (gw_co w) t" and "gw_fan w' t = gw_fan w t"
    and "\<And>i n. (i, t, n) \<in> set (gw_log w') \<longleftrightarrow> (i, t, n) \<in> set (gw_log w)"
    and "co_seq (gw_co w) \<le> co_seq (gw_co w')"
    and "t \<in># gw_drains w \<Longrightarrow> t \<in># gw_drains w' \<or> gw_fan w t \<noteq> None"
  shows "tenant_ok w' t"
  using tenant_okD [OF assms(1)] assms(6,7) gscope_ok_mono
  by (intro tenant_okI)
    (auto simp: assms(3,4) core_cong [OF assms(2)] core_eqD [OF assms(2)] log_cong [OF assms(5)])

text \<open>A new document: nobody has been offered it, and whoever lags is owed a drain.\<close>

lemma observe_ok:
  assumes "tenant_ok w t" and "gs_latestSeq (scope_of t (gw_co w)) < n" and "n \<le> co_seq (gw_co w')"
    and "core (scope_of t (gw_co w')) = core (observe ctx pub v n
           ((scope_of t (gw_co w))\<lparr>gs_desired := gp_rev pub\<rparr>))"
    and "views (gw_co w') t = views (gw_co w) t" and "gw_fan w' t = gw_fan w t"
    and "gw_log w' = gw_log w" and "t \<in># gw_drains w'"
  shows "tenant_ok w' t"
proof (rule tenant_okI)
  let ?sc = "scope_of t (gw_co w)" and ?sc' = "scope_of t (gw_co w')"
  note old = tenant_okD [OF assms(1)]
  have new: "gs_current ?sc' = Some \<lparr>ob_seq = n, ob_ctx = ctx, ob_value = \<lparr>dc_tenant = gp_tenant pub,
      dc_rev = gp_rev pub, dc_value = v\<rparr>\<rparr>" "gs_observed ?sc'" "gs_latestSeq ?sc' = n"
    "gs_desired ?sc' = gp_rev pub" "gs_lastErr ?sc' = gs_lastErr ?sc" "current_seq ?sc' = n"
    "gs_delivering ?sc' = gs_delivering ?sc"
    using core_eqD [OF assms(4)] by (simp_all add: observe_def current_seq_def)
  have cur: "current_seq ?sc < n" using old(1) assms(2) by (simp add: gscope_ok_def)
  show "gscope_ok (co_seq (gw_co w')) ?sc'"
    using assms(2,3) by (simp add: gscope_ok_def new)
  show "gs_delivering ?sc' \<longleftrightarrow> gw_fan w' t \<noteq> None"
    using old(2) by (simp add: new assms(6))
  show "fan_ok ?sc' (gw_log w') (gw_fan w' t) t (views (gw_co w') t)"
    using old(4) cur by (auto simp: fan_ok_def new assms(5-7))
  show "ap_ok ?sc' (gw_log w') (gw_fan w' t) t i st" if "(i, st) \<in> set (views (gw_co w') t)" for i st
    using old(3) [of i st] that cur by (auto simp: ap_ok_def new assms(5-7))
qed (simp add: assms(8))

lemma observe_failed_ok:
  assumes "tenant_ok w t" and "gs_latestSeq (scope_of t (gw_co w)) < n" and "n \<le> co_seq (gw_co w')"
    and "core (scope_of t (gw_co w')) = core (observe_failed er n
           ((scope_of t (gw_co w))\<lparr>gs_desired := r\<rparr>))"
    and "views (gw_co w') t = views (gw_co w) t" and "gw_fan w' t = gw_fan w t"
    and "gw_log w' = gw_log w" and "t \<in># gw_drains w \<Longrightarrow> t \<in># gw_drains w'"
  shows "tenant_ok w' t"
proof (rule tenant_okI)
  let ?sc = "scope_of t (gw_co w)" and ?sc' = "scope_of t (gw_co w')"
  note old = tenant_okD [OF assms(1)]
  have new: "gs_current ?sc' = gs_current ?sc" "gs_observed ?sc'" "gs_latestSeq ?sc' = n"
    "gs_lastErr ?sc' = Some er" "current_seq ?sc' = current_seq ?sc"
    "gs_delivering ?sc' = gs_delivering ?sc"
    using core_eqD [OF assms(4)] by (simp_all add: observe_failed_def current_seq_def)
  have cur: "current_seq ?sc < n" using old(1) assms(2) by (simp add: gscope_ok_def)
  show "gscope_ok (co_seq (gw_co w')) ?sc'"
    using assms(2,3) old(1) cur by (auto simp: gscope_ok_def new current_seq_def)
  show "gs_delivering ?sc' \<longleftrightarrow> gw_fan w' t \<noteq> None"
    using old(2) by (simp add: new assms(6))
  show "fan_ok ?sc' (gw_log w') (gw_fan w' t) t (views (gw_co w') t)"
    using old(4) cur by (auto simp: fan_ok_def new assms(5-7))
  show "ap_ok ?sc' (gw_log w') (gw_fan w' t) t i st" if "(i, st) \<in> set (views (gw_co w') t)" for i st
    using old(3) [of i st] that cur by (auto simp: ap_ok_def new assms(5-7))
  show "t \<in># gw_drains w' \<or> gw_fan w' t \<noteq> None" if "lag ?sc' (views (gw_co w') t)"
    using that old(5) assms(8) by (auto simp: lag_def new assms(5,6))
qed

subsubsection \<open>A turn of the drain\<close>

lemma set_delivering_simps [simp]:
  "scope_of u (set_delivering t b c) =
     (if u = t then (scope_of t c)\<lparr>gs_delivering := b\<rparr> else scope_of u c)"
  "co_seq (set_delivering t b c) = co_seq c" "co_nextID (set_delivering t b c) = co_nextID c"
  "co_appliers (set_delivering t b c) = co_appliers c"
  by (simp_all add: set_delivering_def)

lemma drain_turn_cases:
  obtains (quiet) c' where "pendingLocked t c = (c', [])"
    and "drain_turn t c w = w\<lparr>gw_co := set_delivering t False c', gw_fan := (gw_fan w)(t := None)\<rparr>"
  | (fans) c' ds where "pendingLocked t c = (c', ds)" and "ds \<noteq> []"
    and "drain_turn t c w = w\<lparr>gw_co := c',
          gw_fan := (gw_fan w)(t \<mapsto> \<lparr>fo_todo = ds, fo_running = None, fo_done = []\<rparr>)\<rparr>"
proof -
  obtain c' ds where p: "pendingLocked t c = (c', ds)" by fastforce
  show ?thesis
  proof (cases ds)
    case Nil
    with p show ?thesis by (intro quiet) (auto simp: drain_turn_def)
  next
    case (Cons d l)
    with p show ?thesis by (intro fans [of c' ds]) (auto simp: drain_turn_def)
  qed
qed

lemma turn_frame:
  assumes "u \<noteq> t"
  shows "scope_of u (gw_co (drain_turn t c w)) = scope_of u c"
    and "views (gw_co (drain_turn t c w)) u = views c u"
    and "gw_fan (drain_turn t c w) u = gw_fan w u"
  by (cases rule: drain_turn_cases [of t c w], use assms in \<open>simp_all add: pending_views\<close>)+

lemma turn_same [simp]:
  "co_seq (gw_co (drain_turn t c w)) = co_seq c"
  "co_nextID (gw_co (drain_turn t c w)) = co_nextID c"
  "gw_log (drain_turn t c w) = gw_log w" "gw_drains (drain_turn t c w) = gw_drains w"
  "gw_stamped (drain_turn t c w) = gw_stamped w"
  "map ap_id (co_appliers (gw_co (drain_turn t c w))) = map ap_id (co_appliers c)"
  by (cases rule: drain_turn_cases [of t c w], simp_all add: pending_views)+

lemma turn_latest [simp]:
  "gs_latestSeq (scope_of u (gw_co (drain_turn t c w))) = gs_latestSeq (scope_of u c)"
  by (cases rule: drain_turn_cases [of t c w]) (simp_all add: pending_views)

lemma offered_same: "n \<le> as_deliveredSeq st \<Longrightarrow> offered n st = st"
  by (simp add: offered_def)

lemma turn_ok:
  assumes "gscope_ok (co_seq c) (scope_of t c)" and "gs_delivering (scope_of t c)"
    and ap: "\<And>i st. (i, st) \<in> set (views c t) \<Longrightarrow> ap_ok (scope_of t c) (gw_log w) None t i st"
    and dist: "distinct (map fst (views c t))"
  shows "tenant_ok (drain_turn t c w) t"
proof -
  let ?sc = "scope_of t c" and ?n = "current_seq (scope_of t c)"
  show ?thesis
  proof (cases rule: drain_turn_cases [of t c w])
    case (quiet c')
    have none: "?n \<le> as_deliveredSeq st" if "(i, st) \<in> set (views c t)" for i st
      using pending_deliveries(1) [OF quiet(1)] that by (auto simp: filter_empty_conv)
    have "views c' t = map (\<lambda>(i, st). (i, offered ?n st)) (views c t)"
      by (simp add: pending_views [OF quiet(1)])
    also have "\<dots> = views c t"
      by (rule map_idI) (auto simp: offered_same none)
    finally have v: "views c' t = views c t" .
    have core: "ap_ok (?sc\<lparr>gs_delivering := False\<rparr>) lg f t i st = ap_ok ?sc lg f t i st" for lg f i st
      by (simp add: ap_ok_def current_seq_def)
    have "\<not> lag ?sc (views c t)" using none by (force simp: lag_def not_less)
    then have "\<not> lag (?sc\<lparr>gs_delivering := False\<rparr>) (views c t)"
      by (simp add: lag_def current_seq_def)
    then show ?thesis
      unfolding quiet(2)
      by (intro tenant_okI)
        (use assms(1) ap in \<open>auto simp: v pending_views(2-) [OF quiet(1)] core fan_ok_def inflight_def
          todo_def gscope_ok_def current_seq_def\<close>)
  next
    case (fans c' ds)
    let ?f = "Some \<lparr>fo_todo = ds, fo_running = None, fo_done = []\<rparr>"
    have fl: "inflight ?f = ds" "todo ?f = ds" by (simp_all add: inflight_def todo_def)
    note pd = pending_deliveries(2) [OF fans(1)]
    have ids: "map dl_ap ds = map fst (filter (\<lambda>(i, st). as_deliveredSeq st < ?n) (views c t))"
      by (rule pending_deliveries(1) [OF fans(1)])
    have n0: "?n \<noteq> 0"
    proof -
      from fans(2) obtain d l where "ds = d # l" by (cases ds) auto
      with ids show ?thesis by (cases "filter (\<lambda>(i, st). as_deliveredSeq st < ?n) (views c t)")
          (auto simp: filter_eq_Cons_iff)
    qed
    have "set (map dl_ap ds) = fst ` {x \<in> set (views c t). as_deliveredSeq (snd x) < ?n}"
      unfolding ids by (auto simp: case_prod_unfold)
    then have ids': "dl_ap ` set ds = fst ` {x \<in> set (views c t). as_deliveredSeq (snd x) < ?n}" by simp
    have behind: "i \<in> dl_ap ` set ds \<longleftrightarrow> as_deliveredSeq st < ?n" if v: "(i, st) \<in> set (views c t)" for i st
    proof
      assume "i \<in> dl_ap ` set ds"
      then obtain st' where "(i, st') \<in> set (views c t)" "as_deliveredSeq st' < ?n"
        unfolding ids' by auto
      with eq_key_imp_eq_value [OF dist v] show "as_deliveredSeq st < ?n" by metis
    next
      assume "as_deliveredSeq st < ?n"
      with v show "i \<in> dl_ap ` set ds" unfolding ids' by force
    qed
    have V: "views c' t = map (\<lambda>(i, st). (i, offered ?n st)) (views c t)"
      by (simp add: pending_views [OF fans(1)])
    have sc': "scope_of t c' = ?sc" by (simp add: pending_views [OF fans(1)])
    have ap': "ap_ok ?sc (gw_log w) ?f t i (offered ?n st)" if "(i, st) \<in> set (views c t)" for i st
      using ap [OF that] behind [OF that] unfolding ap_ok_def fl
      by (cases "as_deliveredSeq st < ?n") (auto simp: offered_def inflight_def todo_def)
    have "fan_ok ?sc (gw_log w) ?f t (views c' t)"
      unfolding fan_ok_def fl
    proof (intro conjI ballI allI impI)
      show "distinct (map dl_ap ds)" unfolding ids using dist by (rule distinct_map_filter)
      fix d assume d: "d \<in> set ds"
      show "dl_seq d \<noteq> 0" "dl_seq d \<le> ?n" using pd [OF d] n0 by simp_all
      show "dl_seq d = ?n \<Longrightarrow> Some (dl_current d) = map_option ob_value (gs_current ?sc)"
        using pd [OF d] by simp
      show "as_deliveredSeq st = dl_seq d" if "(dl_ap d, st) \<in> set (views c' t)" for st
        using that pd [OF d] ap behind d
        by (fastforce simp: V offered_def ap_ok_def)
      show "n < dl_seq d" if l: "(dl_ap d, t, n) \<in> set (gw_log w)" for n
      proof -
        from d ids' obtain st where "(dl_ap d, st) \<in> set (views c t)" by force
        with behind [OF this] ap [OF this] l d pd [OF d] show ?thesis by (fastforce simp: ap_ok_def)
      qed
    qed auto
    then show ?thesis
      unfolding fans(3)
      by (intro tenant_okI) (use assms(1,2) ap' in \<open>auto simp: sc' V pending_views [OF fans(1)]\<close>)
  qed
qed

subsubsection \<open>Recording and clearing\<close>

lemma clear_core [simp]:
  "gs_current (clearErrIfConverged t c sc) = gs_current sc"
  "gs_latestSeq (clearErrIfConverged t c sc) = gs_latestSeq sc"
  "gs_observed (clearErrIfConverged t c sc) = gs_observed sc"
  "gs_delivering (clearErrIfConverged t c sc) = gs_delivering sc"
  "gs_desired (clearErrIfConverged t c sc) = gs_desired sc"
  "current_seq (clearErrIfConverged t c sc) = current_seq sc"
  by (simp_all add: clearErrIfConverged_def current_seq_def)

text \<open>An error is cleared only when every applier has accepted the newest observation.\<close>

lemma clear_ok:
  assumes "gscope_ok m sc" and ap: "\<And>i st. (i, st) \<in> set (views c t) \<Longrightarrow> ap_ok sc lg f t i st"
  shows "gscope_ok m (clearErrIfConverged t c sc)"
    and "(i, st) \<in> set (views c t) \<Longrightarrow> ap_ok (clearErrIfConverged t c sc) lg f t i st"
proof -
  let ?sc' = "clearErrIfConverged t c sc"
  have both: "gscope_ok m ?sc' \<and> (\<forall>(i, st) \<in> set (views c t). ap_ok ?sc' lg f t i st)"
  proof (cases rule: clearErr_cases [of t c sc])
    case 1
    with assms show ?thesis by (auto simp del: clear_core)
  next
    case 2
    have le: "gs_latestSeq sc \<le> as_acceptedSeq st" "as_acceptedSeq st \<le> as_deliveredSeq st"
      "as_deliveredSeq st \<le> current_seq sc" if "(i, st) \<in> set (views c t)" for i st
      using 2(3) ap [OF that] that by (auto simp: ap_ok_def)
    from 2(2) obtain ap where "ap \<in> set (co_appliers c)" by (cases "co_appliers c") auto
    then have "(ap_id ap, scopeState ap t) \<in> set (views c t)" by (auto simp: views_def)
    from le [OF this] have "\<not> current_seq sc < gs_latestSeq sc" by simp
    then have "gscope_ok m ?sc'" using assms(1) by (simp add: gscope_ok_def)
    moreover have "ap_ok ?sc' lg f t i st" if "(i, st) \<in> set (views c t)" for i st
      using ap [OF that] le [OF that] by (auto simp: ap_ok_def)
    ultimately show ?thesis by blast
  qed
  then show "gscope_ok m ?sc'" and "(i, st) \<in> set (views c t) \<Longrightarrow> ap_ok ?sc' lg f t i st" by auto
qed

lemma record_same [simp]:
  "co_seq (recordLocked t ds c) = co_seq c" "co_nextID (recordLocked t ds c) = co_nextID c"
  "map ap_id (co_appliers (recordLocked t ds c)) = map ap_id (co_appliers c)"
  "gs_latestSeq (scope_of u (recordLocked t ds c)) = gs_latestSeq (scope_of u c)"
  by (auto simp: recordLocked_def Let_def records_scope records_other)

lemma record_other:
  "u \<noteq> t \<Longrightarrow> views (recordLocked t ds c) u = views c u \<and> scope_of u (recordLocked t ds c) = scope_of u c"
  by (simp add: recordLocked_def Let_def records_other)

lemma record_ready:
  assumes "tenant_ok w t" and f: "gw_fan w t = Some \<lparr>fo_todo = [], fo_running = None, fo_done = ds\<rparr>"
    and dist: "distinct (map fst (views (gw_co w) t))"
  defines "c' \<equiv> recordLocked t ds (gw_co w)"
  shows "gscope_ok (co_seq c') (scope_of t c')" and "gs_delivering (scope_of t c')"
    and "(i, st) \<in> set (views c' t) \<Longrightarrow> ap_ok (scope_of t c') (gw_log w) None t i st"
    and "distinct (map fst (views c' t))"
proof -
  let ?c = "gw_co w" and ?c1 = "fold (record_one t) ds (gw_co w)"
  let ?sc = "scope_of t (gw_co w)"
  define sc1 where "sc1 = ?sc\<lparr>gs_lastErr := last_err ds (gs_lastErr ?sc)\<rparr>"
  note old = tenant_okD [OF assms(1)]
  have fl: "inflight (gw_fan w t) = map fst ds" "todo (gw_fan w t) = []"
    by (simp_all add: f inflight_def todo_def)
  have sc1: "scope_of t ?c1 = sc1" by (simp add: records_scope sc1_def)
  have keep: "gs_lastErr ?sc \<noteq> None \<Longrightarrow> gs_lastErr sc1 \<noteq> None"
    using last_err_set [of "gs_lastErr ?sc" ds] by (simp add: sc1_def)
  have g1: "gscope_ok (co_seq ?c1) sc1"
    using old(1) keep by (auto simp: gscope_ok_def sc1_def current_seq_def)
  have ap1: "ap_ok sc1 (gw_log w) None t i st'" if "(i, st') \<in> set (views ?c1 t)" for i st'
  proof -
    from that obtain st where st: "(i, st) \<in> set (views ?c t)" "st' = recorded ds i st"
      by (auto simp: records_views)
    note a = old(3) [OF st(1), unfolded ap_ok_def fl]
    show ?thesis
    proof (cases "i \<in> dl_ap ` fst ` set ds")
      case False
      then have st': "st' = st" by (simp add: st(2) recorded_other)
      from False have "i \<notin> dl_ap ` set (map fst ds)" by simp
      with a keep show ?thesis
        by (auto simp: ap_ok_def st' inflight_def todo_def sc1_def current_seq_def)
    next
      case True
      then obtain d ans where d: "(d, ans) \<in> set ds" "dl_ap d = i" by auto
      from old(4) have fan: "distinct (map dl_ap (map fst ds))" "as_deliveredSeq st = dl_seq d"
        "dl_seq d = current_seq ?sc \<longrightarrow> Some (dl_current d) = map_option ob_value (gs_current ?sc)"
        "ans \<noteq> Skipped"
        unfolding fan_ok_def fl using d st(1) by (force simp: f)+
      have st': "st' = (if ans = Accepted then acc (dl_current d) st else st)"
        using recorded_own [OF fan(1) d(1), of st] d(2) by (simp add: st(2))
      have "ans = Accepted \<or> gs_lastErr sc1 \<noteq> None"
        using fan(4) d(1) last_err_set [of "gs_lastErr ?sc" ds] by (cases ans) (auto simp: sc1_def)
      then show ?thesis
        using a fan(2,3)
        by (auto simp: ap_ok_def st' acc_def todo_def sc1_def current_seq_def
            map_option.compositionality split: option.splits)
    qed
  qed
  have c': "scope_of t c' = clearErrIfConverged t ?c1 sc1" "views c' t = views ?c1 t" "co_seq c' = co_seq ?c1"
    by (simp_all add: c'_def recordLocked_def Let_def sc1)
  from clear_ok [of "co_seq ?c1" sc1 ?c1 t "gw_log w" None, OF g1 ap1]
  show "gscope_ok (co_seq c') (scope_of t c')"
    and "(i, st) \<in> set (views c' t) \<Longrightarrow> ap_ok (scope_of t c') (gw_log w) None t i st"
    by (simp_all add: c')
  show "gs_delivering (scope_of t c')" using old(2) by (simp add: c' f sc1_def)
  show "distinct (map fst (views c' t))" using dist by (simp add: c'(2) views_ids)
qed

subsection \<open>Every step keeps the invariant\<close>

lemma gworld_okD:
  assumes "gworld_ok w"
  shows "tenant_ok w t" and "distinct (map ap_id (co_appliers (gw_co w)))"
    and "i \<in> set (map ap_id (co_appliers (gw_co w))) \<Longrightarrow> i \<le> co_nextID (gw_co w)"
    and "d \<in> set (inflight (gw_fan w t)) \<Longrightarrow> dl_ap d \<le> co_nextID (gw_co w)"
    and "x \<in> set (gw_log w) \<Longrightarrow> fst x \<le> co_nextID (gw_co w)"
    and "count (image_mset fst (gw_stamped w)) n \<le> 1"
    and "(n, p) \<in># gw_stamped w \<Longrightarrow> n \<noteq> 0 \<and> n \<le> co_seq (gw_co w)
          \<and> gs_latestSeq (scope_of t (gw_co w)) \<noteq> n"
    and "sorted_wrt in_order (gw_log w)"
  using assms by (auto simp: gworld_ok_def)

lemma gworld_okI:
  assumes "\<And>t. tenant_ok w t" and "distinct (map ap_id (co_appliers (gw_co w)))"
    and "\<And>i. i \<in> set (map ap_id (co_appliers (gw_co w))) \<Longrightarrow> i \<le> co_nextID (gw_co w)"
    and "\<And>t d. d \<in> set (inflight (gw_fan w t)) \<Longrightarrow> dl_ap d \<le> co_nextID (gw_co w)"
    and "\<And>x. x \<in> set (gw_log w) \<Longrightarrow> fst x \<le> co_nextID (gw_co w)"
    and "\<And>n. count (image_mset fst (gw_stamped w)) n \<le> 1"
    and "\<And>n p t. (n, p) \<in># gw_stamped w \<Longrightarrow> n \<noteq> 0 \<and> n \<le> co_seq (gw_co w)
          \<and> gs_latestSeq (scope_of t (gw_co w)) \<noteq> n"
    and "sorted_wrt in_order (gw_log w)"
  shows "gworld_ok w"
  unfolding gworld_ok_def by (intro conjI allI ballI; use assms in \<open>auto simp: case_prod_beta\<close>)

lemma views_distinct: "distinct (map ap_id (co_appliers c)) \<Longrightarrow> distinct (map fst (views c t))"
  by (simp add: views_ids)

lemma latest_le: "gworld_ok w \<Longrightarrow> gs_latestSeq (scope_of t (gw_co w)) \<le> co_seq (gw_co w)"
  using tenant_okD(1) [OF gworld_okD(1), of w t] by (simp add: gscope_ok_def)

lemma new_gworld_ok: "gworld_ok new_gworld"
  by (intro gworld_okI tenant_okI)
    (simp_all add: new_gworld_def newCoordinator_def views_def scope_of_def new_gscope_def
      gscope_ok_def current_seq_def fan_ok_def inflight_def todo_def lag_def)

lemma stamps_ok:
  assumes "gworld_ok w" and "stamp (gw_co w) = (c, n)"
  shows "gworld_ok (w\<lparr>gw_co := c, gw_stamped := add_mset (n, pub) (gw_stamped w)\<rparr>)"
proof -
  let ?w' = "w\<lparr>gw_co := c, gw_stamped := add_mset (n, pub) (gw_stamped w)\<rparr>"
  have c: "c = (gw_co w)\<lparr>co_seq := n\<rparr>" and n: "n = co_seq (gw_co w) + 1"
    using assms(2) by (auto simp: stamp_def)
  note ok = gworld_okD [OF assms(1)]
  have "n \<notin># image_mset fst (gw_stamped w)" using ok(7) n by fastforce
  then have "count (image_mset fst (gw_stamped w)) n = 0"
    by (rule not_in_iff [THEN iffD1])
  then have cnt: "count (image_mset fst (gw_stamped ?w')) m \<le> 1" for m using ok(6) [of m] by auto
  have tn: "tenant_ok ?w' t" for t
    using ok(1) [of t] by (rule tenant_frame) (simp_all add: c n)
  have sq: "m \<noteq> 0 \<and> m \<le> co_seq (gw_co ?w') \<and> gs_latestSeq (scope_of t (gw_co ?w')) \<noteq> m"
    if "(m, p) \<in># gw_stamped ?w'" for m p t
  proof (cases "m = n")
    case True
    then show ?thesis using latest_le [OF assms(1), of t] by (simp add: c n)
  next
    case False
    with that ok(7) [of m p t] show ?thesis by (auto simp: c n)
  qed
  show ?thesis
    by (rule gworld_okI) (use tn cnt sq ok in \<open>auto simp: c\<close>)
qed

text \<open>What \<open>commit\<close> makes of its scope: nothing, a spent watermark, or a new observation.\<close>

lemma commit_cases:
  assumes "commit ctx pub n decoded marshaled c = (c', rec)"
  defines "t \<equiv> gp_tenant pub"
  obtains (nothing) "\<not> rec" "core (scope_of t c') = core (scope_of t c)"
  | (failed) er where "rec" "decoded = Inl er" "gs_latestSeq (scope_of t c) \<le> n"
      "core (scope_of t c') = core (observe_failed er n ((scope_of t c)\<lparr>gs_desired := gp_rev pub\<rparr>))"
  | (decoded) v where "rec" "decoded = Inr v" "gs_latestSeq (scope_of t c) \<le> n"
      "core (scope_of t c') = core (observe ctx pub v n ((scope_of t c)\<lparr>gs_desired := gp_rev pub\<rparr>))"
proof -
  obtain sc1 b where d: "dropsAfterSeed marshaled pub (scope_of t c) = (sc1, b)" by fastforce
  have sc1: "gs_current sc1 = gs_current (scope_of t c)" "gs_observed sc1 = gs_observed (scope_of t c)"
    "gs_delivering sc1 = gs_delivering (scope_of t c)" "gs_desired sc1 = gs_desired (scope_of t c)"
    "gs_lastErr sc1 = gs_lastErr (scope_of t c)" "gs_latestSeq sc1 = gs_latestSeq (scope_of t c)"
    using d by (auto simp: dropsAfterSeed_def Let_def split: if_splits option.splits)
  show ?thesis
  proof (cases "n < gs_latestSeq (scope_of t c) \<or> b")
    case True
    then have "\<not> rec \<and> core (scope_of t c') = core (scope_of t c)"
      using assms(1) d sc1 by (auto simp: commit_def Let_def core_def t_def split: if_splits)
    then show ?thesis by (intro that(1)) simp_all
  next
    case False
    show ?thesis
    proof (cases decoded)
      case (Inl er)
      with False assms(1) d sc1 have "rec" "gs_latestSeq (scope_of t c) \<le> n"
        "core (scope_of t c') = core (observe_failed er n ((scope_of t c)\<lparr>gs_desired := gp_rev pub\<rparr>))"
        by (auto simp: commit_def Let_def core_def observe_failed_def t_def)
      with Inl show ?thesis by (intro that(2))
    next
      case (Inr v)
      with False assms(1) d sc1 have "rec" "gs_latestSeq (scope_of t c) \<le> n"
        "core (scope_of t c') = core (observe ctx pub v n ((scope_of t c)\<lparr>gs_desired := gp_rev pub\<rparr>))"
        by (auto simp: commit_def Let_def core_def observe_def t_def)
      with Inr show ?thesis by (intro that(3))
    qed
  qed
qed

lemma commit_same:
  assumes "commit ctx pub n decoded marshaled c = (c', rec)"
  shows "views c' u = views c u" "co_seq c' = co_seq c" "co_nextID c' = co_nextID c"
    "co_appliers c' = co_appliers c" "u \<noteq> gp_tenant pub \<Longrightarrow> scope_of u c' = scope_of u c"
    "gs_latestSeq (scope_of u c') = gs_latestSeq (scope_of u c) \<or> gs_latestSeq (scope_of u c') = n"
  using assms
  by (auto simp: commit_def Let_def dropsAfterSeed_def observe_def observe_failed_def
      split: if_splits option.splits sum.splits prod.splits bool.splits)

lemma commits_ok:
  assumes "gworld_ok w" and mem: "(n, pub) \<in># gw_stamped w"
    and com: "commit ctx pub n decoded marshaled (gw_co w) = (c, rec)"
  shows "gworld_ok (w\<lparr>gw_co := c, gw_stamped := gw_stamped w - {#(n, pub)#},
       gw_drains := (if drains decoded rec then add_mset (gp_tenant pub) (gw_drains w)
                     else gw_drains w)\<rparr>)" (is "gworld_ok ?w'")
proof -
  let ?t = "gp_tenant pub"
  note ok = gworld_okD [OF assms(1)] and same = commit_same [OF com]
  have n: "n \<noteq> 0" "n \<le> co_seq (gw_co w)" "gs_latestSeq (scope_of ?t (gw_co w)) \<noteq> n"
    using ok(7) [OF mem] by blast+
  have own: "tenant_ok ?w' ?t"
  proof (cases rule: commit_cases [OF com])
    case 1
    from ok(1) [of ?t] show ?thesis by (rule tenant_frame) (use 1(2) same(1,2) in auto)
  next
    case (2 er)
    show ?thesis
      by (rule observe_failed_ok [OF ok(1), where n = n and er = er and r = "gp_rev pub"]) (use 2 n same(1,2) in auto)
  next
    case (3 v)
    show ?thesis
      by (rule observe_ok [OF ok(1), where n = n and v = v and ctx = ctx and pub = pub]) (use 3 n same(1,2) in \<open>auto simp: drains_def\<close>)
  qed
  have other: "tenant_ok ?w' u" if "u \<noteq> ?t" for u
    using ok(1) [of u] by (rule tenant_frame) (simp_all add: same that)
  have tn: "tenant_ok ?w' u" for u using own other by (cases "u = ?t") simp_all
  define S where "S = gw_stamped w - {#(n, pub)#}"
  have S: "gw_stamped ?w' = S" by (simp add: S_def)
  have st: "gw_stamped w = add_mset (n, pub) S" using mem by (simp add: S_def)
  have all: "count (image_mset fst (add_mset (n, pub) S)) m \<le> 1" for m
    using ok(6) [of m] by (simp only: st)
  have cnt: "count (image_mset fst (gw_stamped ?w')) m \<le> 1" for m
    using all [of m] unfolding S by (auto split: if_splits)
  have "\<not> n \<in># image_mset fst S"
    using all [of n] by (simp add: count_eq_zero_iff del: set_image_mset)
  then have fresh: "m \<noteq> n" if "(m, p) \<in># gw_stamped ?w'" for m p
    using that unfolding S by force
  have old: "(m, p) \<in># gw_stamped w" if "(m, p) \<in># gw_stamped ?w'" for m p
    using that unfolding S st by simp
  have sq: "m \<noteq> 0 \<and> m \<le> co_seq (gw_co ?w') \<and> gs_latestSeq (scope_of u (gw_co ?w')) \<noteq> m"
    if "(m, p) \<in># gw_stamped ?w'" for m p u
    using ok(7) [OF old [OF that], of u] fresh [OF that] same(2) same(6) [of u] by auto
  show ?thesis
    by (rule gworld_okI) (use tn cnt sq ok same(2-4) in auto)
qed

text \<open>A registration: the seed is an observation of a coordinator that had none.\<close>

lemma anyObserved_iff: "anyObserved c \<longleftrightarrow> (\<exists>t. gs_observed (scope_of t c))"
proof
  assume "\<exists>t. gs_observed (scope_of t c)"
  then obtain t where t: "gs_observed (scope_of t c)" by blast
  then have "t |\<in>| fmdom (co_scopes c)"
    by (auto simp: scope_of_def new_gscope_def fmlookup_dom_iff split: option.splits)
  with t show "anyObserved c" by (auto simp: anyObserved_def)
qed (auto simp: anyObserved_def)

lemma seed_cases:
  assumes "seedLocked bg ans c = (c', r)"
  obtains (same) "c' = c"
  | (seed) pub decoded where "\<And>t. \<not> gs_observed (scope_of t c)" "views c' = views c"
      "co_appliers c' = co_appliers c" "co_nextID c' = co_nextID c"
      "co_seq c' = Suc (co_seq c)" "\<And>u. u \<noteq> gp_tenant pub \<Longrightarrow> scope_of u c' = scope_of u c"
      "core (scope_of (gp_tenant pub) c') = core (case decoded of
         Inl er \<Rightarrow> observe_failed er (Suc (co_seq c)) ((scope_of (gp_tenant pub) c)\<lparr>gs_desired := gp_rev pub\<rparr>)
       | Inr v \<Rightarrow> observe bg pub v (Suc (co_seq c)) ((scope_of (gp_tenant pub) c)\<lparr>gs_desired := gp_rev pub\<rparr>))"
proof (cases "c' = c")
  case False
  with assms obtain pub decoded marshaled where ans: "ans = Seed_Read pub decoded marshaled"
    and no: "\<not> anyObserved c"
    by (auto simp: seedLocked_def split: if_splits seed_answer.splits)
  with assms False have c': "c' = put_scope (gp_tenant pub)
      (case decoded of
         Inl er \<Rightarrow> observe_failed er (Suc (co_seq c)) ((scope_of (gp_tenant pub) c)\<lparr>gs_desired := gp_rev pub\<rparr>)
       | Inr v \<Rightarrow> (observe bg pub v (Suc (co_seq c)) ((scope_of (gp_tenant pub) c)\<lparr>gs_desired := gp_rev pub\<rparr>))
           \<lparr>gs_seedArmed := True, gs_seedRev := gp_rev pub, gs_seedBytes := marshaled\<rparr>)
      (c\<lparr>co_seedTaken := True, co_seq := Suc (co_seq c)\<rparr>)"
    by (auto simp: seedLocked_def Let_def split: if_splits)
  show ?thesis
  proof (rule seed [of pub decoded])
    show "\<not> gs_observed (scope_of t c)" for t using no by (simp add: anyObserved_iff)
    show "views c' = views c" by (simp add: c' views_def fun_eq_iff)
  qed (simp_all add: c' core_def split: sum.split)
qed (rule same)

lemma seeds_ok:
  assumes "gworld_ok w" and "seedLocked bg ans (gw_co w) = (c, r)"
    and "\<And>t. gs_observed (scope_of t c) \<Longrightarrow> t \<in># M"
  shows "gworld_ok (w\<lparr>gw_co := c, gw_drains := gw_drains w + M\<rparr>)" (is "gworld_ok ?w'")
  using assms(2)
proof (cases rule: seed_cases)
  case same
  note ok = gworld_okD [OF assms(1)]
  have "tenant_ok ?w' t" for t
    using ok(1) [of t] by (rule tenant_frame) (auto simp: same)
  then show ?thesis by (intro gworld_okI) (use ok in \<open>auto simp: same\<close>)
next
  case (seed pub decoded)
  note ok = gworld_okD [OF assms(1)]
  let ?t = "gp_tenant pub" and ?n = "Suc (co_seq (gw_co w))"
  have zero: "gs_latestSeq (scope_of t (gw_co w)) = 0" for t
    using tenant_okD(1) [OF ok(1), of t] seed(1) [of t] by (simp add: gscope_ok_def)
  have own: "tenant_ok ?w' ?t"
  proof (cases decoded)
    case (Inl er)
    show ?thesis
      by (rule observe_failed_ok [OF ok(1), where n = ?n and er = er and r = "gp_rev pub"])
        (use seed(2,5,7) Inl zero in auto)
  next
    case (Inr v)
    have "?t \<in># M"
      using seed(7) Inr by (intro assms(3)) (auto simp: core_def observe_def)
    then show ?thesis
      by (intro observe_ok [OF ok(1), where n = ?n and v = v and ctx = bg and pub = pub])
        (use seed(2,5,7) Inr zero in auto)
  qed
  have other: "tenant_ok ?w' u" if "u \<noteq> ?t" for u
    using ok(1) [of u] by (rule tenant_frame) (use seed(2,5,6) that in auto)
  have tn: "tenant_ok ?w' u" for u using own other by (cases "u = ?t") simp_all
  have latest: "gs_latestSeq (scope_of u c) = 0 \<or> gs_latestSeq (scope_of u c) = ?n" for u
    using seed(6) [of u] seed(7) zero [of u]
    by (cases "u = ?t") (auto simp: core_def observe_def observe_failed_def split: sum.splits)
  have sq: "m \<noteq> 0 \<and> m \<le> co_seq (gw_co ?w') \<and> gs_latestSeq (scope_of u (gw_co ?w')) \<noteq> m"
    if "(m, p) \<in># gw_stamped ?w'" for m p u
    using ok(7) [of m p u] that latest [of u] seed(5) by auto
  show ?thesis
    by (rule gworld_okI) (use tn sq ok(2-6,8) seed(3,4) in auto)
qed

lemma done_inflight: "(d, a) \<in> set (fo_done x) \<Longrightarrow> d \<in> set (inflight (Some x))"
  by (force simp: inflight_def)

lemma fan_ok_new:
  assumes "fan_ok sc lg f t V" and "\<And>d. d \<in> set (inflight f) \<Longrightarrow> dl_ap d \<noteq> n"
  shows "fan_ok sc lg f t (V @ [(n, st)])"
proof -
  have "dl_ap d \<notin> fst ` set (V @ [(n, st)])" if "f = Some x" "(d, Skipped) \<in> set (fo_done x)" for x d
  proof -
    have "dl_ap d \<noteq> n" using that(1) done_inflight [OF that(2)] by (intro assms(2)) simp
    moreover have "dl_ap d \<notin> fst ` set V" using assms(1) that by (auto simp: fan_ok_def)
    ultimately show ?thesis by simp
  qed
  moreover have "as_deliveredSeq st' = dl_seq d"
    if "d \<in> set (inflight f)" "(dl_ap d, st') \<in> set (V @ [(n, st)])" for d st'
    using assms that by (auto simp: fan_ok_def)
  ultimately show ?thesis using assms(1) unfolding fan_ok_def by blast
qed

lemma fan_ok_fewer:
  assumes "fan_ok sc lg f t V" and "set V' \<subseteq> set V"
  shows "fan_ok sc lg f t V'"
proof -
  have "fst ` set V' \<subseteq> fst ` set V" using assms(2) by blast
  with assms show ?thesis unfolding fan_ok_def by blast
qed

lemma registers_ok:
  assumes "gworld_ok w" and "add_applier bg ans (gw_co w) = (c, n, ts, r)"
  shows "gworld_ok (w\<lparr>gw_co := c, gw_drains := gw_drains w + mset ts\<rparr>)" (is "gworld_ok ?w'")
proof -
  obtain c1 r1 where s: "seedLocked bg ans (gw_co w) = (c1, r1)" by fastforce
  let ?new = "\<lparr>ap_id = n, ap_state = Map.empty\<rparr> :: 'a applier"
  from assms(2) s have c: "c = c1\<lparr>co_nextID := n, co_appliers := co_appliers c1 @ [?new]\<rparr>"
    and n: "n = co_nextID c1 + 1"
    and ts: "ts = filter (\<lambda>t. gs_observed (scope_of t c)) (sorted_list_of_fset (fmdom (co_scopes c)))"
    by (auto simp: add_applier_def Let_def)
  have sc: "scope_of t c = scope_of t c1" for t by (simp add: c)
  have heard: "t \<in># mset ts" if "gs_observed (scope_of t c1)" for t
  proof -
    have "t |\<in>| fmdom (co_scopes c)"
      using that by (auto simp: scope_of_def c new_gscope_def fmlookup_dom_iff split: option.splits)
    with that show ?thesis by (simp add: ts sc sorted_list_of_fset.rep_eq)
  qed
  let ?w1 = "w\<lparr>gw_co := c1, gw_drains := gw_drains w + mset ts\<rparr>"
  have w1: "gworld_ok ?w1" using assms(1) s by (rule seeds_ok) (rule heard)
  note ok = gworld_okD [OF w1, simplified]
  have v: "views c t = views c1 t @ [(n, new_applierScope)]" for t
    by (simp add: c views_def scopeState_def)
  have tn: "tenant_ok ?w' t" for t
  proof (rule tenant_okI; simp)
    note t = tenant_okD [OF gworld_okD(1) [OF w1, of t], simplified]
    show "gscope_ok (co_seq c) (scope_of t c)" using t(1) by (simp add: c)
    show "gs_delivering (scope_of t c) \<longleftrightarrow> (\<exists>y. gw_fan w t = Some y)" using t(2) by (simp add: c)
    have new: "(n, t, k) \<notin> set (gw_log w)" "n \<notin> dl_ap ` set (inflight (gw_fan w t))" for k
      using ok(5) ok(4) [of _ t] n by fastforce+
    show "ap_ok (scope_of t c) (gw_log w) (gw_fan w t) t i st" if "(i, st) \<in> set (views c t)" for i st
      using that t(3) [of i st] new by (auto simp: v sc ap_ok_def new_applierScope_def)
    show "fan_ok (scope_of t c) (gw_log w) (gw_fan w t) t (views c t)"
    proof -
      have "dl_ap d \<noteq> n" if "d \<in> set (inflight (gw_fan w t))" for d using new(2) that by auto
      with t(4) show ?thesis unfolding v sc by (intro fan_ok_new) auto
    qed
    show "t \<in># gw_drains w \<or> t \<in> set ts \<or> (\<exists>y. gw_fan w t = Some y)"
      if "lag (scope_of t c) (views c t)"
    proof -
      from that have "current_seq (scope_of t c1) \<noteq> 0" by (auto simp: lag_def sc)
      with t(1) have "gs_observed (scope_of t c1)" by (auto simp: gscope_ok_def)
      with heard show ?thesis by simp
    qed
  qed
  have "n \<notin> ap_id ` set (co_appliers c1)" using ok(3) n by fastforce
  then show ?thesis
    by (intro gworld_okI)
      (use tn ok(2-8) n in \<open>auto simp: c le_Suc_eq intro: le_SucI\<close>)
qed

lemma removes_ok:
  assumes "gworld_ok w"
  shows "gworld_ok (w\<lparr>gw_co := remove_applier n (gw_co w)\<rparr>)" (is "gworld_ok ?w'")
proof (cases "n \<in> ap_id ` set (co_appliers (gw_co w))")
  case False
  then have "?w' = w" by (simp add: remove_applier_def)
  with assms show ?thesis by simp
next
  case True
  note ok = gworld_okD [OF assms]
  let ?c = "gw_co w" and ?c' = "remove_applier n (gw_co w)"
  define c1 where "c1 = ?c\<lparr>co_appliers := filter (\<lambda>ap. ap_id ap \<noteq> n) (co_appliers ?c)\<rparr>"
  have c': "?c' = c1\<lparr>co_scopes := fmmap_keys (\<lambda>t sc. clearErrIfConverged t c1 sc) (co_scopes c1)\<rparr>"
    using True by (simp add: remove_applier_def c1_def Let_def)
  have sc: "scope_of t ?c' = clearErrIfConverged t c1 (scope_of t ?c)
      \<or> scope_of t ?c' = scope_of t ?c" for t
    by (auto simp: c' scope_of_def c1_def split: option.splits)
  have v: "views ?c' t = views c1 t" "set (views c1 t) \<subseteq> set (views ?c t)" for t
    by (auto simp: c' c1_def views_def)
  have ids: "map ap_id (co_appliers ?c') = filter (\<lambda>i. i \<noteq> n) (map ap_id (co_appliers ?c))"
    by (simp add: c' c1_def filter_map o_def)
  have same: "co_seq ?c' = co_seq ?c" "co_nextID ?c' = co_nextID ?c" by (simp_all add: c' c1_def)
  have cur: "current_seq (scope_of t ?c') = current_seq (scope_of t ?c)"
    "gs_current (scope_of t ?c') = gs_current (scope_of t ?c)"
    "gs_delivering (scope_of t ?c') = gs_delivering (scope_of t ?c)"
    "gs_latestSeq (scope_of t ?c') = gs_latestSeq (scope_of t ?c)" for t
    using sc [of t] by auto
  have tn: "tenant_ok ?w' t" for t
  proof (rule tenant_okI; simp)
    note t = tenant_okD [OF ok(1) [of t]]
    have ap: "ap_ok (scope_of t ?c) (gw_log w) (gw_fan w t) t i st" if "(i, st) \<in> set (views c1 t)" for i st
      using t(3) [of i st] v(2) [of t] that by blast
    note clear = clear_ok [of "co_seq ?c" "scope_of t ?c" c1 t, OF t(1) ap]
    show "gscope_ok (co_seq ?c') (scope_of t ?c')"
      using sc [of t] clear(1) t(1) by (auto simp: same)
    show "gs_delivering (scope_of t ?c') \<longleftrightarrow> (\<exists>y. gw_fan w t = Some y)" using t(2) by (simp add: cur)
    show "ap_ok (scope_of t ?c') (gw_log w) (gw_fan w t) t i st" if "(i, st) \<in> set (views ?c' t)" for i st
      using that sc [of t] clear(2) [of i st] ap [of i st] by (auto simp: v(1))
    show "fan_ok (scope_of t ?c') (gw_log w) (gw_fan w t) t (views ?c' t)"
      using fan_ok_fewer [OF t(4) v(2)] unfolding v(1) by (simp add: fan_ok_def cur)
    show "t \<in># gw_drains w \<or> (\<exists>y. gw_fan w t = Some y)" if "lag (scope_of t ?c') (views ?c' t)"
      using that t(5) v(2) [of t] by (fastforce simp: lag_def v(1) cur)
  qed
  show ?thesis
  proof (rule gworld_okI)
    have gw: "gw_co ?w' = ?c'" by simp
    show "distinct (map ap_id (co_appliers (gw_co ?w')))" unfolding gw ids by (rule distinct_filter [OF ok(2)])
    show "i \<le> co_nextID (gw_co ?w')" if "i \<in> set (map ap_id (co_appliers (gw_co ?w')))" for i
      using that ok(3) [of i] unfolding gw ids same by simp
  qed (use tn ok(4-8) in \<open>auto simp: same cur\<close>)
qed

lemma in_minus_single: "u \<noteq> t \<Longrightarrow> u \<in># M - {#t#} \<longleftrightarrow> u \<in># M"
  by (auto simp: count_greater_zero_iff [symmetric] simp del: count_greater_zero_iff)

lemma busy_ok:
  assumes "gworld_ok w" and "gs_delivering (scope_of t (gw_co w))"
  shows "gworld_ok (w\<lparr>gw_drains := gw_drains w - {#t#}\<rparr>)" (is "gworld_ok ?w'")
proof -
  note ok = gworld_okD [OF assms(1)]
  have "tenant_ok ?w' u" for u
    using ok(1) [of u]
  proof (rule tenant_frame; simp)
    assume "u \<in># gw_drains w"
    then show "u \<in># gw_drains w - {#t#} \<or> (\<exists>y. gw_fan w u = Some y)"
      using tenant_okD(2) [OF ok(1) [of t]] assms(2) by (cases "u = t") (auto simp: in_minus_single)
  qed
  then show ?thesis by (intro gworld_okI) (use ok in auto)
qed

text \<open>A turn of the drain on a coordinator that is ready for it.\<close>

lemma turn_world_ok:
  assumes "gworld_ok w"
    and "\<And>u. u \<noteq> t \<Longrightarrow> core (scope_of u c) = core (scope_of u (gw_co w)) \<and> views c u = views (gw_co w) u"
    and "co_seq c = co_seq (gw_co w)" and "co_nextID c = co_nextID (gw_co w)"
    and "map ap_id (co_appliers c) = map ap_id (co_appliers (gw_co w))"
    and "\<And>u. gs_latestSeq (scope_of u c) = gs_latestSeq (scope_of u (gw_co w))"
    and ready: "gscope_ok (co_seq c) (scope_of t c)" "gs_delivering (scope_of t c)"
      "\<And>i st. (i, st) \<in> set (views c t) \<Longrightarrow> ap_ok (scope_of t c) (gw_log w) None t i st"
    and w1: "gw_log w1 = gw_log w" "gw_stamped w1 = gw_stamped w" "gw_fan w1 = gw_fan w"
      "\<And>u. u \<noteq> t \<Longrightarrow> u \<in># gw_drains w \<Longrightarrow> u \<in># gw_drains w1"
  shows "gworld_ok (drain_turn t c w1)" (is "gworld_ok ?w'")
proof -
  note ok = gworld_okD [OF assms(1)]
  have dist: "distinct (map fst (views c t))" using ok(2) by (simp add: views_ids assms(5))
  have own: "tenant_ok ?w' t"
    using ready(3) by (intro turn_ok [OF ready(1,2) _ dist]) (simp add: w1(1))
  have other: "tenant_ok ?w' u" if "u \<noteq> t" for u
    using ok(1) [of u]
    by (rule tenant_frame) (use assms(2) [OF that] assms(3) w1 that in \<open>auto simp: turn_frame [OF that]\<close>)
  have tn: "tenant_ok ?w' u" for u using own other by (cases "u = t") simp_all
  have inf: "dl_ap d \<le> co_nextID (gw_co w)" if "d \<in> set (inflight (gw_fan ?w' u))" for u d
  proof (cases "u = t")
    case False
    with that ok(4) [of d u] show ?thesis by (simp add: turn_frame w1(3))
  next
    case True
    show ?thesis
    proof (cases rule: drain_turn_cases [of t c w1])
      case (quiet c')
      with that True show ?thesis by (simp add: inflight_def)
    next
      case (fans c' ds)
      with that True have "d \<in> set ds" by (simp add: inflight_def)
      then have "dl_ap d \<in> set (map dl_ap ds)" by simp
      then have "dl_ap d \<in> set (map fst (views c t))"
        unfolding pending_deliveries(1) [OF fans(1)] by auto
      then show ?thesis unfolding views_ids assms(5) by (rule ok(3))
    qed
  qed
  show ?thesis
  proof (rule gworld_okI)
    show "distinct (map ap_id (co_appliers (gw_co ?w')))" using ok(2) by (simp only: turn_same assms(5))
    show "i \<le> co_nextID (gw_co ?w')" if "i \<in> set (map ap_id (co_appliers (gw_co ?w')))" for i
      using that ok(3) [of i] by (simp only: turn_same assms(4,5))
  qed (use tn inf ok(5-8) in \<open>auto simp: assms(3,4,6) w1\<close>)
qed

lemma starts_ok:
  assumes "gworld_ok w" and "\<not> gs_delivering (scope_of t (gw_co w))"
  shows "gworld_ok (drain_turn t (set_delivering t True (gw_co w))
    (w\<lparr>gw_drains := gw_drains w - {#t#}\<rparr>))"
proof -
  note t = tenant_okD [OF gworld_okD(1) [OF assms(1), of t]]
  have none: "gw_fan w t = None" using t(2) assms(2) by simp
  show ?thesis
  proof (rule turn_world_ok [OF assms(1)])
    show "gscope_ok (co_seq (set_delivering t True (gw_co w))) (scope_of t (set_delivering t True (gw_co w)))"
      using t(1) by (simp add: gscope_ok_def current_seq_def)
    show "ap_ok (scope_of t (set_delivering t True (gw_co w))) (gw_log w) None t i st"
      if "(i, st) \<in> set (views (set_delivering t True (gw_co w)) t)" for i st
      using t(3) [of i st] that none by (simp add: ap_ok_def current_seq_def)
  qed (auto simp: in_minus_single)
qed

lemma records_ok:
  assumes "gworld_ok w" and "gw_fan w t = Some \<lparr>fo_todo = [], fo_running = None, fo_done = ds\<rparr>"
  shows "gworld_ok (drain_turn t (recordLocked t ds (gw_co w)) w)"
proof -
  have dist: "distinct (map fst (views (gw_co w) t))"
    using gworld_okD(2) [OF assms(1)] by (rule views_distinct)
  note ready = record_ready [OF gworld_okD(1) [OF assms(1)] assms(2) dist]
  show ?thesis
    by (rule turn_world_ok [OF assms(1)]) (use ready in \<open>auto simp: record_other simp del: list.map_comp\<close>)
qed

subsubsection \<open>Inside a fan-out\<close>

text \<open>A step of the fan-out: the same deliveries are in flight, one of them further along.\<close>

lemma fan_step_ok:
  assumes "gworld_ok w" and "gw_fan w t = Some x"
    and inf: "inflight (Some y) = inflight (Some x)"
    and todo: "todo (Some y) = todo (Some x) \<and> add = []
       \<or> todo (Some x) = d # todo (Some y) \<and> add = [(dl_ap d, t, dl_seq d)]
       \<or> todo (Some x) = d # todo (Some y) \<and> add = [] \<and> dl_ap d \<notin> ap_id ` set (co_appliers (gw_co w))"
    and skip: "\<And>e. (e, Skipped) \<in> set (fo_done y) \<Longrightarrow>
       (e, Skipped) \<in> set (fo_done x) \<or> dl_ap e \<notin> ap_id ` set (co_appliers (gw_co w))"
  shows "gworld_ok (w\<lparr>gw_fan := (gw_fan w)(t \<mapsto> y), gw_log := gw_log w @ add\<rparr>)" (is "gworld_ok ?w'")
proof -
  note ok = gworld_okD [OF assms(1)]
  let ?V = "views (gw_co w) t" and ?sc = "scope_of t (gw_co w)"
  have ids: "fst ` set ?V = ap_id ` set (co_appliers (gw_co w))" by (auto simp: views_def image_image)
  note own = tenant_okD [OF ok(1) [of t]]
  note fan = own(4) [unfolded assms(2) fan_ok_def]
  have dist: "distinct (map dl_ap (inflight (Some x)))" using fan by blast
  have sub: "set (todo (Some x)) \<subseteq> set (inflight (Some x))" by (auto simp: todo_def inflight_def)
  have dtodo: "distinct (map dl_ap (todo (Some x)))" using dist by (simp add: inflight_def todo_def)
  have new: "d \<in> set (inflight (Some x)) \<and> add = [(dl_ap d, t, dl_seq d)] \<and> d \<in> set (todo (Some x))"
    if "add \<noteq> []" using todo sub that by auto
  have mem: "z \<in> set (gw_log w @ add) \<longleftrightarrow> z \<in> set (gw_log w) \<or> add \<noteq> [] \<and> z = (dl_ap d, t, dl_seq d)" for z
    using new by (cases "add = []") auto
  have tn: "tenant_ok ?w' u" for u
  proof (cases "u = t")
    case False
    show ?thesis
      using ok(1) [of u] by (rule tenant_frame) (use False mem in auto)
  next
    case True
    have t': "tenant_ok ?w' t"
    proof (rule tenant_okI; simp)
      show "gscope_ok (co_seq (gw_co w)) ?sc" by (rule own(1))
      show "gs_delivering ?sc" using own(2) assms(2) by simp
      show "ap_ok ?sc (gw_log w @ add) (Some y) t i st" if "(i, st) \<in> set ?V" for i st
      proof -
        have old: "ap_ok ?sc (gw_log w) (Some x) t i st" using own(3) [OF that] assms(2) by simp
        have del: "as_deliveredSeq st = dl_seq d" if "i = dl_ap d" "add \<noteq> []"
          using fan new [OF that(2)] \<open>(i, st) \<in> set ?V\<close> that(1) by blast
        have i: "i \<in> ap_id ` set (co_appliers (gw_co w))" using that ids by force
        have "n \<le> as_deliveredSeq st" if "(i, t, n) \<in> set (gw_log w @ add)" for n
          using that old del unfolding mem ap_ok_def by auto
        moreover have "(i, t, as_deliveredSeq st) \<in> set (gw_log w @ add) \<or> i \<in> dl_ap ` set (todo (Some y))"
          if "as_deliveredSeq st \<noteq> 0"
        proof -
          from old that have "(i, t, as_deliveredSeq st) \<in> set (gw_log w) \<or> i \<in> dl_ap ` set (todo (Some x))"
            unfolding ap_ok_def by blast
          moreover have "i \<in> dl_ap ` set (todo (Some y)) \<or> add \<noteq> [] \<and> i = dl_ap d"
            if "i \<in> dl_ap ` set (todo (Some x))"
          proof (rule disjE [OF todo])
            assume "todo (Some x) = d # todo (Some y) \<and> add = [(dl_ap d, t, dl_seq d)]
               \<or> todo (Some x) = d # todo (Some y) \<and> add = [] \<and> dl_ap d \<notin> ap_id ` set (co_appliers (gw_co w))"
            moreover from this that have "i = dl_ap d \<or> i \<in> dl_ap ` set (todo (Some y))"
              by (metis image_insert insertE list.simps(15))
            ultimately show ?thesis using i by blast
          qed (use that in simp)
          ultimately show ?thesis using del unfolding mem by auto
        qed
        ultimately show ?thesis using old inf unfolding ap_ok_def by simp
      qed
      show "fan_ok ?sc (gw_log w @ add) (Some y) t ?V"
      proof -
        have "n < dl_seq e" if "e \<in> set (todo (Some y))" "(dl_ap e, t, n) \<in> set (gw_log w @ add)" for e n
        proof -
          have "e \<in> set (todo (Some x))" using that(1) todo by auto
          moreover have "dl_ap e \<noteq> dl_ap d" if "add \<noteq> []"
          proof -
            have "todo (Some x) = d # todo (Some y)" using todo that by blast
            with dtodo have "dl_ap d \<notin> dl_ap ` set (todo (Some y))" by simp
            with \<open>e \<in> set (todo (Some y))\<close> show ?thesis by (metis imageI)
          qed
          ultimately show ?thesis using that(2) fan unfolding mem by auto
        qed
        moreover have "dl_ap e \<notin> fst ` set ?V" if "(e, Skipped) \<in> set (fo_done y)" for e
          using skip [OF that] fan unfolding ids by blast
        ultimately show ?thesis using fan unfolding fan_ok_def inf by simp
      qed
    qed
    with True show ?thesis by simp
  qed
  have ord: "sorted_wrt in_order (gw_log w @ add)"
  proof (cases "add = []")
    case False
    have "in_order z (dl_ap d, t, dl_seq d)" if "z \<in> set (gw_log w)" for z
    proof -
      obtain i u k where z: "z = (i, u, k)" by (cases z)
      show ?thesis using that fan new [OF False] unfolding z in_order_def by auto
    qed
    then show ?thesis using ok(8) new [OF False] by (simp add: sorted_wrt_append)
  qed (use ok(8) in simp)
  have bound: "fst z \<le> co_nextID (gw_co w)" if "z \<in> set (gw_log w @ add)" for z
    using that ok(5) [of z] ok(4) [of d t] new assms(2) unfolding mem by auto
  show ?thesis
  proof (rule gworld_okI)
    show "dl_ap e \<le> co_nextID (gw_co ?w')" if "e \<in> set (inflight (gw_fan ?w' u))" for u e
      using that ok(4) [of e t] ok(4) [of e u] inf assms(2) by (cases "u = t") simp_all
  qed (use tn ord bound ok(2,3,6,7) in auto)
qed

theorem gstep_ok: "gstep w w' \<Longrightarrow> gworld_ok w \<Longrightarrow> gworld_ok w'"
proof (induction rule: gstep.induct)
  case (skips w t d ds ans)
  show ?case
    using fan_step_ok [OF skips(3,1), of "\<lparr>fo_todo = ds, fo_running = None, fo_done = ans @ [(d, Skipped)]\<rparr>" "[]" d]
      skips(2) by (auto simp: inflight_def todo_def)
next
  case (begins w t d ds ans)
  show ?case
    by (rule fan_step_ok [OF begins(3,1)]) (auto simp: inflight_def todo_def)
next
  case (finishes w t ds d ans a)
  show ?case
    using fan_step_ok [OF finishes(3,1), of "\<lparr>fo_todo = ds, fo_running = None, fo_done = ans @ [(d, a)]\<rparr>" "[]" d]
      finishes(2) by (auto simp: inflight_def todo_def)
next
  case (commits n pub w)
  then show ?case by (intro commits_ok)
qed (auto intro: stamps_ok registers_ok removes_ok busy_ok starts_ok records_ok)

lemma gruns_ok: "gruns w \<Longrightarrow> gworld_ok w"
  unfolding gruns_def by (induction rule: rtranclp_induct) (auto intro: new_gworld_ok gstep_ok)

end
