(* ===== verification/Coordinator_Theorems.thy ===== *)
theory Coordinator_Theorems
  imports Coordinator_Runs
begin

text \<open>
  What the coordinator promises in every world its goroutines can reach: an applier's documents come
  in order and once each, the newest reaches every applier, and a status without an error is true.
\<close>

subsection \<open>A run\<close>

text \<open>One applier registers, one document is published and the applier accepts it.\<close>

definition acme_pub :: Publication where
  "acme_pub = \<lparr>gp_tenant = ''acme'', gp_rev = 7, gp_value = JNull\<rparr>"

definition acme_doc :: "string Decoded" where
  "acme_doc = \<lparr>dc_tenant = ''acme'', dc_rev = 7, dc_value = ''on''\<rparr>"

definition acme_delivery :: "string gdelivery" where
  "acme_delivery = \<lparr>dl_ap = 1, dl_seq = 1, dl_current = acme_doc, dl_previous = None\<rparr>"

definition acme_scope :: "bool \<Rightarrow> string gscope" where
  "acme_scope b = \<lparr>gs_current = Some \<lparr>ob_seq = 1, ob_ctx = 0, ob_value = acme_doc\<rparr>, gs_observed = True,
     gs_delivering = b, gs_desired = 7, gs_lastErr = None, gs_latestSeq = 1, gs_seedArmed = False,
     gs_seedRev = 0, gs_seedBytes = None\<rparr>"

definition acme_co :: "string gscope option \<Rightarrow> string applierScope option \<Rightarrow> nat \<Rightarrow> string coordinator" where
  "acme_co sc st n = \<lparr>co_seq = n, co_nextID = 1, co_seedTaken = False,
     co_scopes = (case sc of None \<Rightarrow> fmempty | Some x \<Rightarrow> fmupd ''acme'' x fmempty),
     co_appliers = [\<lparr>ap_id = 1, ap_state = (\<lambda>t. if t = ''acme'' then st else None)\<rparr>]\<rparr>"

definition acme_world :: "string coordinator \<Rightarrow> string fanout option \<Rightarrow> string gworld" where
  "acme_world c f = \<lparr>gw_co = c, gw_stamped = {#}, gw_drains = {#},
     gw_fan = (\<lambda>t. if t = ''acme'' then f else None), gw_log = [(1, ''acme'', 1)]\<rparr>"

definition acme_quiet :: "string gworld" where
  "acme_quiet = acme_world (acme_co (Some (acme_scope False)) (Some \<lparr>as_deliveredSeq = 1,
     as_acceptedSeq = 1, as_appliedRev = 7, as_accepted = Some acme_doc\<rparr>) 1) None"

lemmas acme_defs = acme_pub_def acme_doc_def acme_delivery_def acme_scope_def acme_co_def
  acme_world_def acme_quiet_def

abbreviation (input) acme_begun :: "string fanout \<Rightarrow> string gworld" where
  "acme_begun f \<equiv> acme_world (acme_co (Some (acme_scope True)) (Some \<lparr>as_deliveredSeq = 1,
     as_acceptedSeq = 0, as_appliedRev = 0, as_accepted = None\<rparr>) 1) (Some f)"

lemma fmupd_twice: "fmupd k v (fmupd k u m) = fmupd k v m"
  by (rule fmap_ext) simp

lemma if_if: "(if b then x else if b then y else z) = (if b then x else z)"
  by simp

lemma acme_runs: "gruns acme_quiet"
proof -
  define w1 where "w1 = (new_gworld :: string gworld)\<lparr>gw_co := acme_co None None 0\<rparr>"
  define w2 where "w2 = w1\<lparr>gw_co := acme_co None None 1, gw_stamped := {#(1, acme_pub)#}\<rparr>"
  define w3 where "w3 = w1\<lparr>gw_co := acme_co (Some (acme_scope False)) None 1, gw_drains := {#''acme''#}\<rparr>"
  define f where "f = \<lparr>fo_todo = [acme_delivery], fo_running = None, fo_done = []\<rparr>"
  define g where "g = \<lparr>fo_todo = [], fo_running = Some acme_delivery, fo_done = []\<rparr>"
  define h where "h = \<lparr>fo_todo = [], fo_running = None, fo_done = [(acme_delivery, Accepted)]\<rparr>"
  have empty: "(\<lambda>t. if t = ''acme'' then None else None) = Map.empty" by auto
  have s1: "gstep new_gworld w1"
    using registers [of 0 Seed_Absent "new_gworld :: string gworld" "acme_co None None 0" 1 "[]" None]
    by (simp add: w1_def new_gworld_def newCoordinator_def add_applier_def seedLocked_def anyObserved_def acme_defs
        Let_def empty sorted_list_of_fset.rep_eq)
  have s2: "gstep w1 w2"
    using stamps [of w1 "acme_co None None 1" 1 acme_pub]
    by (simp add: w2_def w1_def new_gworld_def stamp_def acme_defs)
  have s3: "gstep w2 w3"
    using commits [of 1 acme_pub w2 0 "Inr ''on''" None "acme_co (Some (acme_scope False)) None 1" True]
    by (simp add: w3_def w2_def w1_def new_gworld_def commit_def scope_of_def put_scope_def
        dropsAfterSeed_def observe_def drains_def new_gscope_def acme_defs Let_def)
  have t4: "drain_turn ''acme'' (set_delivering ''acme'' True (gw_co w3))
      (w3\<lparr>gw_drains := gw_drains w3 - {#''acme''#}\<rparr>) = (acme_begun f)\<lparr>gw_log := []\<rparr>"
    by (simp add: w3_def w1_def new_gworld_def drain_turn_def pendingLocked_def set_delivering_def
        scope_of_def put_scope_def current_seq_def offer_def scopeState_def new_applierScope_def f_def
        fmupd_twice if_if acme_defs Let_def fun_upd_def cong: if_cong)
  have s4: "gstep w3 ((acme_begun f)\<lparr>gw_log := []\<rparr>)"
    unfolding t4 [symmetric] by (rule starts) (simp_all add: w3_def scope_of_def acme_defs)
  have s5: "gstep ((acme_begun f)\<lparr>gw_log := []\<rparr>) (acme_begun g)"
    by (rule back_subst [where P = "gstep _", OF begins [where t = "''acme''" and d = acme_delivery]])
      (simp_all add: f_def g_def acme_defs fun_upd_def cong: if_cong)
  have s6: "gstep (acme_begun g) (acme_begun h)"
    by (rule back_subst [where P = "gstep _", OF finishes [where t = "''acme''" and a = Accepted]])
      (simp_all add: g_def h_def acme_defs fun_eq_iff)
  have t7: "drain_turn ''acme'' (recordLocked ''acme'' [(acme_delivery, Accepted)] (gw_co (acme_begun h)))
      (acme_begun h) = acme_quiet"
    by (simp add: h_def drain_turn_def pendingLocked_def recordLocked_def record_one_def accept_def
        clearErrIfConverged_def accepted_by_def set_delivering_def scope_of_def put_scope_def
        current_seq_def offer_def scopeState_def fmupd_twice if_if acme_defs Let_def fun_upd_def
        cong: if_cong)
  have s7: "gstep (acme_begun h) acme_quiet"
    unfolding t7 [symmetric] by (rule records) (simp add: h_def acme_world_def)
  show ?thesis unfolding gruns_def
    using s1 s2 s3 s4 s5 s6 s7 by (meson rtranclp.rtrancl_into_rtrancl rtranclp.rtrancl_refl)
qed

subsection \<open>Order\<close>

text \<open>C18. However publishers, registrants and fan-outs interleave, an applier is handed the documents
  of a tenant in strictly increasing publication sequence: never an older one after a newer one, and
  never the same one twice.\<close>

theorem appliers_see_order:
  assumes "gruns w"
  shows "sorted_wrt (\<lambda>(i, t, m) (j, u, n). i = j \<and> t = u \<longrightarrow> m < n) (gw_log w)"
proof -
  have "sorted_wrt in_order (gw_log w)" using gruns_ok [OF assms] by (rule gworld_okD(8))
  then show ?thesis by (rule sorted_wrt_mono_rel [rotated]) (auto simp: in_order_def)
qed

theorem appliers_see_order_witness:
  "gw_log acme_quiet = [(1, ''acme'', 1)]
   \<and> sorted_wrt (\<lambda>(i, t, m) (j, u, n). i = j \<and> t = u \<longrightarrow> m < n) (gw_log acme_quiet)"
  using appliers_see_order [OF acme_runs] by (simp add: acme_quiet_def acme_world_def)

subsection \<open>Delivery\<close>

text \<open>A scope at rest: no call of \<open>drain\<close> is due and no fan-out is under way.\<close>

definition at_rest :: "'v gworld \<Rightarrow> string \<Rightarrow> bool" where
  "at_rest w t \<longleftrightarrow> t \<notin># gw_drains w \<and> gw_fan w t = None"

lemma rest_delivered:
  assumes "gworld_ok w" and "at_rest w t" and "(i, st) \<in> set (views (gw_co w) t)"
  shows "as_deliveredSeq st = current_seq (scope_of t (gw_co w))"
proof -
  note ok = tenant_okD [OF gworld_okD(1) [OF assms(1), of t]]
  have "\<not> lag (scope_of t (gw_co w)) (views (gw_co w) t)" using ok(5) assms(2) by (auto simp: at_rest_def)
  then have "\<not> as_deliveredSeq st < current_seq (scope_of t (gw_co w))"
    using assms(3) by (auto simp: lag_def)
  with ok(3) [OF assms(3)] show ?thesis by (simp add: ap_ok_def)
qed

text \<open>C19. Once a scope is at rest, every applier registered has been handed the newest document that
  decoded, whether it registered before or after the publication and whatever was coalesced on the
  way.\<close>

theorem newest_reaches_everyone:
  assumes "gruns w" and "at_rest w t" and "ap \<in> set (co_appliers (gw_co w))"
    and "gs_current (scope_of t (gw_co w)) = Some ob"
  shows "(ap_id ap, t, ob_seq ob) \<in> set (gw_log w)"
proof -
  note w = gruns_ok [OF assms(1)]
  note ok = tenant_okD [OF gworld_okD(1) [OF w, of t]]
  have v: "(ap_id ap, scopeState ap t) \<in> set (views (gw_co w) t)"
    using assms(3) by (auto simp: views_def)
  have "ob_seq ob \<noteq> 0" using ok(1) assms(4) by (simp add: gscope_ok_def)
  with rest_delivered [OF w assms(2) v] ok(3) [OF v] assms(2,4) show ?thesis
    by (simp add: ap_ok_def at_rest_def todo_def current_seq_def)
qed

lemma acme_rests: "at_rest acme_quiet ''acme''"
  by (simp add: at_rest_def acme_quiet_def acme_world_def)

theorem newest_reaches_everyone_witness:
  "map ap_id (co_appliers (gw_co acme_quiet)) = [1] \<and> (1, ''acme'', 1) \<in> set (gw_log acme_quiet)"
  using newest_reaches_everyone [OF acme_runs acme_rests, of "hd (co_appliers (gw_co acme_quiet))"
      "\<lparr>ob_seq = 1, ob_ctx = 0, ob_value = acme_doc\<rparr>"]
  by (simp add: acme_quiet_def acme_world_def acme_co_def acme_scope_def scope_of_def)

subsection \<open>Status\<close>

lemma furthest_same:
  assumes "\<And>ap. ap \<in> set aps \<Longrightarrow> \<exists>st. ap_state ap t = Some st \<and> as_appliedRev st = r"
    and "aps \<noteq> [] \<or> best \<noteq> None" and "\<And>n q. best = Some (n, q) \<Longrightarrow> q = r"
  shows "furthest t aps best = Some r"
  using assms
proof (induction t aps best rule: furthest.induct)
  case (2 t ap aps best)
  from 2(2) [of ap] obtain st where st: "ap_state ap t = Some st" "as_appliedRev st = r" by auto
  let ?next = "case best of None \<Rightarrow> Some (as_acceptedSeq st, as_appliedRev st)
    | Some (oldest, q) \<Rightarrow> if as_acceptedSeq st < oldest then Some (as_acceptedSeq st, as_appliedRev st) else best"
  have "furthest t aps ?next = Some r"
    by (rule 2(1) [OF st(1)]) (use 2(2,4) st(2) in \<open>auto split: option.splits if_splits\<close>)
  then show ?case by (simp add: st(1))
qed (auto split: option.splits)

text \<open>A status that names no error is true. Once a scope that observed anything is at rest and its
  error is clear, what \<open>Status\<close> reports applied is what it reports desired, that revision is the
  newest publication's, and every registered applier has accepted exactly that document.\<close>

theorem clear_status_is_true:
  assumes "gruns w" and "at_rest w (st_tenant s)" and "s \<in> set (group_Status (gw_co w))"
    and "st_lastErr s = None" and "gs_observed (scope_of (st_tenant s) (gw_co w))"
    and "co_appliers (gw_co w) \<noteq> []"
  shows "st_applied s = st_desired s
    \<and> (\<exists>ob. gs_current (scope_of (st_tenant s) (gw_co w)) = Some ob \<and> dc_rev (ob_value ob) = st_desired s
         \<and> ob_seq ob = gs_latestSeq (scope_of (st_tenant s) (gw_co w))
         \<and> (\<forall>ap \<in> set (co_appliers (gw_co w)).
              as_accepted (scopeState ap (st_tenant s)) = Some (ob_value ob)))"
proof -
  let ?t = "st_tenant s" and ?c = "gw_co w"
  let ?sc = "scope_of ?t ?c"
  note w = gruns_ok [OF assms(1)]
  note ok = tenant_okD [OF gworld_okD(1) [OF w, of ?t]]
  have s: "st_desired s = gs_desired ?sc" "st_applied s = applied_rev ?t ?c" "gs_lastErr ?sc = None"
    using assms(3,4) by (auto simp: group_Status_def)
  have latest: "current_seq ?sc = gs_latestSeq ?sc" "gs_latestSeq ?sc \<noteq> 0"
    using ok(1) s(3) assms(5) by (auto simp: gscope_ok_def)
  then obtain ob where ob: "gs_current ?sc = Some ob" "ob_seq ob = gs_latestSeq ?sc"
    by (auto simp: current_seq_def split: option.splits)
  have rev: "gs_desired ?sc = dc_rev (ob_value ob)"
    using ok(1) ob by (simp add: gscope_ok_def)
  have each: "as_accepted (scopeState ap ?t) = Some (ob_value ob)
      \<and> as_appliedRev (scopeState ap ?t) = dc_rev (ob_value ob) \<and> ap_state ap ?t \<noteq> None"
    if "ap \<in> set (co_appliers ?c)" for ap
  proof -
    have v: "(ap_id ap, scopeState ap ?t) \<in> set (views ?c ?t)" using that by (auto simp: views_def)
    have del: "as_deliveredSeq (scopeState ap ?t) = gs_latestSeq ?sc"
      using rest_delivered [OF w assms(2) v] latest by simp
    with latest(2) have "ap_state ap ?t \<noteq> None"
      by (auto simp: scopeState_def new_applierScope_def split: option.splits)
    with ok(3) [OF v] del latest s(3) ob(1) assms(2) show ?thesis
      by (auto simp: ap_ok_def at_rest_def inflight_def)
  qed
  have "furthest ?t (co_appliers ?c) None = Some (dc_rev (ob_value ob))"
    by (rule furthest_same) (use each assms(6) in \<open>fastforce simp: scopeState_def\<close>)+
  then have "applied_rev ?t ?c = dc_rev (ob_value ob)" using assms(6) by (simp add: applied_rev_def)
  with s rev ob each show ?thesis by auto
qed

theorem clear_status_is_true_witness:
  "group_Status (gw_co acme_quiet) =
     [\<lparr>st_tenant = ''acme'', st_desired = 7, st_applied = 7, st_lastErr = None\<rparr>]
   \<and> as_accepted (scopeState (hd (co_appliers (gw_co acme_quiet))) ''acme'') = Some acme_doc"
proof -
  have st: "group_Status (gw_co acme_quiet) =
     [\<lparr>st_tenant = ''acme'', st_desired = 7, st_applied = 7, st_lastErr = None\<rparr>]"
    by (simp add: group_Status_def acme_quiet_def acme_world_def acme_co_def acme_scope_def scope_of_def
        applied_rev_def sorted_list_of_fset.rep_eq)
  show ?thesis
    using clear_status_is_true [OF acme_runs, of "\<lparr>st_tenant = ''acme'', st_desired = 7,
        st_applied = 7, st_lastErr = None\<rparr>"] acme_rests st
    by (simp add: acme_quiet_def acme_world_def acme_co_def acme_scope_def scope_of_def)
qed

end
