(* ===== verification/Clone.thy ===== *)
theory Clone
  imports Prelude "HOL-Library.Sublist"
begin

text \<open>
  Deep copies (\<^verbatim>\<open>internal/engine/clone.go\<close>). A Go value is a tree whose pointers, slices and maps
  name cells of a heap; a slice names its first element's cell and its length, so elements are cells
  of their own and a sub-slice shares them. A cell is never inside a struct: a pointer to a field is
  not modelled. A copy appends cells to the heap; the numbers it gives them mean nothing.
\<close>

subsection \<open>Values\<close>

datatype gkind = KChan | KFunc | KInterface | KMap | KPointer | KSlice | KArray | KStruct | KScalar

datatype gv =
    GScalar string string
  | GOpaque gkind string nat
  | GNil gkind string
  | GIface string gv
  | GPtr string nat
  | GSlice string nat nat
  | GMap string nat
  | GArray string "gv list"
  | GStruct string "(string \<times> bool \<times> gv) list"

text \<open>A map's cell lists its entries in the order an iteration meets them.\<close>

datatype cell = Var gv | Entries "(gv \<times> gv) list"

type_synonym gheap = "cell list"

fun typ_of :: "gv \<Rightarrow> string" where
  "typ_of (GScalar ty _) = ty"
| "typ_of (GOpaque _ ty _) = ty"
| "typ_of (GNil _ ty) = ty"
| "typ_of (GIface ty _) = ty"
| "typ_of (GPtr ty _) = ty"
| "typ_of (GSlice ty _ _) = ty"
| "typ_of (GMap ty _) = ty"
| "typ_of (GArray ty _) = ty"
| "typ_of (GStruct ty _) = ty"

fun kind_of :: "gv \<Rightarrow> gkind" where
  "kind_of (GScalar _ _) = KScalar"
| "kind_of (GOpaque k _ _) = k"
| "kind_of (GNil k _) = k"
| "kind_of (GIface _ _) = KInterface"
| "kind_of (GPtr _ _) = KPointer"
| "kind_of (GSlice _ _ _) = KSlice"
| "kind_of (GMap _ _) = KMap"
| "kind_of (GArray _ _) = KArray"
| "kind_of (GStruct _ _) = KStruct"

definition deref :: "gheap \<Rightarrow> nat \<Rightarrow> gv option" where
  "deref h a = (if a < length h then case h ! a of Var v \<Rightarrow> Some v | Entries _ \<Rightarrow> None else None)"

definition entries :: "gheap \<Rightarrow> nat \<Rightarrow> (gv \<times> gv) list" where
  "entries h a = (if a < length h then case h ! a of Entries es \<Rightarrow> es | Var _ \<Rightarrow> [] else [])"

definition elems :: "gheap \<Rightarrow> nat \<Rightarrow> nat \<Rightarrow> gv list" where
  "elems h a n = List.map_filter (deref h) [a..<a + n]"

definition pointee :: "gheap \<Rightarrow> nat \<Rightarrow> gv list" where
  "pointee h a = elems h a 1"

subsection \<open>ValidateCloneSafe\<close>

datatype pstep = PIndex nat | PMapValue | PField string

datatype clone_error = Cyclic "pstep list" | Unexported_Mutable "pstep list"

definition mutableCloneKind :: "gkind \<Rightarrow> bool" where
  "mutableCloneKind k \<longleftrightarrow> k \<in> {KChan, KFunc, KInterface, KMap, KPointer, KSlice}"

definition timeType :: string where
  "timeType = ''time.Time''"

text \<open>The references a value holds itself, as the marks the walk makes of them.\<close>

type_synonym visit = "string \<times> nat"

fun marks :: "gv \<Rightarrow> visit set" where
  "marks (GIface _ v) = marks v"
| "marks (GPtr ty a) = {(ty, a)}"
| "marks (GSlice ty a _) = {(ty, a)}"
| "marks (GMap ty a) = {(ty, a)}"
| "marks (GArray _ vs) = (\<Union>v \<in> set vs. marks v)"
| "marks (GStruct _ fs) = (\<Union>(_, _, v) \<in> set fs. marks v)"
| "marks _ = {}"

fun cell_values :: "cell \<Rightarrow> gv list" where
  "cell_values (Var v) = [v]"
| "cell_values (Entries es) = map snd es"

definition heap_marks :: "gheap \<Rightarrow> visit set" where
  "heap_marks h = (\<Union>c \<in> set h. \<Union>v \<in> set (cell_values c). marks v)"

lemma finite_marks [simp]: "finite (marks v)"
  by (induction v rule: marks.induct) auto

lemma finite_heap_marks [simp]: "finite (heap_marks h)"
  by (simp add: heap_marks_def)

lemma cell_marks: "a < length h \<Longrightarrow> v \<in> set (cell_values (h ! a)) \<Longrightarrow> marks v \<subseteq> heap_marks h"
  unfolding heap_marks_def using nth_mem [of a h] by blast

lemma deref_marks: "deref h a = Some v \<Longrightarrow> marks v \<subseteq> heap_marks h"
  by (rule cell_marks [of a]) (auto simp: deref_def split: if_splits cell.splits)

lemma elems_marks: "v \<in> set (elems h a n) \<Longrightarrow> marks v \<subseteq> heap_marks h"
  using deref_marks [of h] unfolding elems_def List.map_filter_def by fastforce

lemma entries_marks: "(k, v) \<in> set (entries h a) \<Longrightarrow> marks v \<subseteq> heap_marks h"
proof -
  assume e: "(k, v) \<in> set (entries h a)"
  then have a: "a < length h" by (cases "a < length h") (simp_all add: entries_def)
  with e have "\<exists>es. h ! a = Entries es \<and> (k, v) \<in> set es"
    by (cases "h ! a") (auto simp: entries_def)
  then have "v \<in> set (cell_values (h ! a))" by force
  with a show ?thesis by (rule cell_marks)
qed

fun gsize :: "gv \<Rightarrow> nat" where
  "gsize (GIface _ v) = Suc (gsize v)"
| "gsize (GArray _ vs) = Suc (sum_list (map (\<lambda>v. Suc (gsize v)) vs))"
| "gsize (GStruct _ fs) = Suc (sum_list (map (\<lambda>(_, _, v). Suc (gsize v)) fs))"
| "gsize _ = 1"

text \<open>
  The walk's set \<open>seen\<close> holds the references on the path to the value: each is deleted when its
  call returns. \<open>validate_all\<close> is the loop over elements, entries or fields, and \<open>Some\<close> of a field
  says it is unexported.
\<close>

function (sequential) validate :: "gheap \<Rightarrow> visit set \<Rightarrow> pstep list \<Rightarrow> gv \<Rightarrow> clone_error option"
  and validate_all :: "gheap \<Rightarrow> visit set \<Rightarrow> pstep list \<Rightarrow> (pstep \<times> bool \<times> gv) list \<Rightarrow> clone_error option"
where
  "validate h seen path (GIface _ v) = validate h seen path v"
| "validate h seen path (GPtr ty a) =
     (if (ty, a) \<in> seen then Some (Cyclic path)
      else case deref h a of None \<Rightarrow> None | Some v \<Rightarrow> validate h (insert (ty, a) seen) path v)"
| "validate h seen path (GSlice ty a n) =
     (if (ty, a) \<in> seen then Some (Cyclic path)
      else validate_all h (insert (ty, a) seen) path
        (map (\<lambda>(i, v). (PIndex i, True, v)) (List.enumerate 0 (elems h a n))))"
| "validate h seen path (GMap ty a) =
     (if (ty, a) \<in> seen then Some (Cyclic path)
      else validate_all h (insert (ty, a) seen) path
        (map (\<lambda>(k, v). (PMapValue, True, v)) (entries h a)))"
| "validate h seen path (GArray _ vs) =
     validate_all h seen path (map (\<lambda>(i, v). (PIndex i, True, v)) (List.enumerate 0 vs))"
| "validate h seen path (GStruct ty fs) =
     (if ty = timeType then None
      else validate_all h seen path (map (\<lambda>(f, exported, v). (PField f, exported, v)) fs))"
| "validate h seen path _ = None"
| "validate_all h seen path [] = None"
| "validate_all h seen path ((p, exported, v) # vs) =
     (if \<not> exported \<and> mutableCloneKind (kind_of v) then Some (Unexported_Mutable (path @ [p]))
      else case validate h seen (path @ [p]) v of
        Some e \<Rightarrow> Some e
      | None \<Rightarrow> validate_all h seen path vs)"
  by pat_completeness auto

text \<open>Each reference followed leaves one fewer to follow; between two of them the value shrinks.\<close>

definition left :: "gheap \<Rightarrow> visit set \<Rightarrow> visit set \<Rightarrow> nat" where
  "left h seen m = card ((heap_marks h \<union> m) - seen)"

lemma left_mono: "m \<subseteq> m' \<Longrightarrow> finite m' \<Longrightarrow> left h seen m \<le> left h seen m'"
  unfolding left_def by (rule card_mono) auto

lemma left_less:
  assumes "x \<notin> seen" and "m' \<subseteq> heap_marks h"
  shows "left h (insert x seen) m' < left h seen {x}"
  unfolding left_def by (rule psubset_card_mono) (use assms in auto)

definition loop_marks :: "(pstep \<times> bool \<times> gv) list \<Rightarrow> visit set" where
  "loop_marks vs = (\<Union>(_, _, v) \<in> set vs. marks v)"

definition loop_size :: "(pstep \<times> bool \<times> gv) list \<Rightarrow> nat" where
  "loop_size vs = sum_list (map (\<lambda>(_, _, v). Suc (gsize v)) vs)"

lemma finite_loop_marks [simp]: "finite (loop_marks vs)"
  by (auto simp: loop_marks_def)

lemma loop_simps [simp]:
  "loop_marks [] = {}" "loop_marks ((p, e, v) # vs) = marks v \<union> loop_marks vs"
  "loop_size [] = 0" "loop_size ((p, e, v) # vs) = Suc (gsize v + loop_size vs)"
  by (auto simp: loop_marks_def loop_size_def)

lemma enumerate_map: "map (\<lambda>(i, v). g v) (List.enumerate n vs) = map g vs"
  by (induction vs arbitrary: n) auto

lemma loop_array:
  "loop_marks (map (\<lambda>(i, v). (PIndex i, True, v)) (List.enumerate n vs)) = (\<Union>v \<in> set vs. marks v)"
  "loop_size (map (\<lambda>(i, v). (PIndex i, True, v)) (List.enumerate n vs)) = sum_list (map (\<lambda>v. Suc (gsize v)) vs)"
  by (induction vs arbitrary: n) (auto simp: loop_marks_def loop_size_def)

lemma loop_struct:
  "loop_marks (map (\<lambda>(f, e, v). (PField f, e, v)) fs) = (\<Union>(_, _, v) \<in> set fs. marks v)"
  "loop_size (map (\<lambda>(f, e, v). (PField f, e, v)) fs) = sum_list (map (\<lambda>(_, _, v). Suc (gsize v)) fs)"
  "loop_marks (map (\<lambda>(f, y). (PField f, y)) fs) = (\<Union>(_, _, v) \<in> set fs. marks v)"
  "loop_size (map (\<lambda>(f, y). (PField f, y)) fs) = sum_list (map (\<lambda>(_, _, v). Suc (gsize v)) fs)"
  by (induction fs) (auto simp: loop_marks_def loop_size_def)

lemma loop_elems: "(\<Union>v \<in> set (elems h a k). marks v) \<subseteq> heap_marks h"
  using elems_marks by blast

lemma loop_entries: "loop_marks (map (\<lambda>(k, v). (PMapValue, True, v)) (entries h a)) \<subseteq> heap_marks h"
  using entries_marks by (fastforce simp: loop_marks_def)

lemma left_loop:
  "left h seen (marks v) \<noteq> left h seen (marks v \<union> loop_marks vs) \<Longrightarrow>
     left h seen (marks v) < left h seen (marks v \<union> loop_marks vs)"
  "left h seen (loop_marks vs) \<noteq> left h seen (marks v \<union> loop_marks vs) \<Longrightarrow>
     left h seen (loop_marks vs) < left h seen (marks v \<union> loop_marks vs)"
  by (intro le_neq_implies_less left_mono; simp)+

termination validate
  by (relation "inv_image (less_than <*lex*> less_than) (case_sum
    (\<lambda>(h, seen, _, v). (left h seen (marks v), gsize v))
    (\<lambda>(h, seen, _, vs). (left h seen (loop_marks vs), loop_size vs)))")
    (auto simp: loop_array loop_struct left_less deref_marks loop_elems loop_entries left_loop)

definition ValidateCloneSafe :: "gheap \<Rightarrow> gv \<Rightarrow> clone_error option" where
  "ValidateCloneSafe h v = validate h {} [] v"

subsection \<open>Clone\<close>

text \<open>
  The walk has no guard of its own, so it takes fuel, one unit per call, and \<open>None\<close> is a walk that
  needs more. \<open>copy_all\<close> is the loop over elements, entries and fields. \<open>AssignableTo\<close> holds when the
  types agree. A field is copied when it is exported, and otherwise stays what \<open>Set\<close> put there.
\<close>

definition set_cloned :: "gv \<Rightarrow> gv \<Rightarrow> gv" where
  "set_cloned cloned src = (if typ_of cloned = typ_of src then cloned else src)"

fun cloneReflectValue :: "nat \<Rightarrow> gheap \<Rightarrow> gv \<Rightarrow> (gheap \<times> gv) option"
  and copy_all :: "nat \<Rightarrow> gheap \<Rightarrow> (bool \<times> gv) list \<Rightarrow> (gheap \<times> gv list) option"
where
  "cloneReflectValue 0 h v = None"
| "cloneReflectValue (Suc n) h (GIface ty v) =
     (case cloneReflectValue n h v of None \<Rightarrow> None
      | Some (h', w) \<Rightarrow> Some (h', GIface ty (set_cloned w v)))"
| "cloneReflectValue (Suc n) h (GPtr ty a) =
     (case deref h a of None \<Rightarrow> Some (h, GPtr ty a)
      | Some v \<Rightarrow> (case cloneReflectValue n h v of None \<Rightarrow> None
          | Some (h', w) \<Rightarrow> if typ_of w = typ_of v then Some (h' @ [Var w], GPtr ty (length h'))
                            else Some (h', GPtr ty a)))"
| "cloneReflectValue (Suc n) h (GSlice ty a k) =
     (case copy_all n h (map (Pair True) (elems h a k)) of None \<Rightarrow> None
      | Some (h', ws) \<Rightarrow> Some (h' @ map Var ws, GSlice ty (length h') (length ws)))"
| "cloneReflectValue (Suc n) h (GMap ty a) =
     (let es = entries h a in
      case copy_all n h (map (\<lambda>(k, v). (True, v)) es) of None \<Rightarrow> None
      | Some (h', ws) \<Rightarrow> Some (h' @ [Entries (zip (map fst es) ws)], GMap ty (length h')))"
| "cloneReflectValue (Suc n) h (GArray ty vs) =
     (case copy_all n h (map (Pair True) vs) of None \<Rightarrow> None | Some (h', ws) \<Rightarrow> Some (h', GArray ty ws))"
| "cloneReflectValue (Suc n) h (GStruct ty fs) =
     (case copy_all n h (map snd fs) of None \<Rightarrow> None
      | Some (h', ws) \<Rightarrow> Some (h', GStruct ty (map2 (\<lambda>(f, exported, _) w. (f, exported, w)) fs ws)))"
| "cloneReflectValue (Suc n) h v = Some (h, v)"
| "copy_all 0 h vs = None"
| "copy_all (Suc n) h [] = Some (h, [])"
| "copy_all (Suc n) h ((settable, v) # vs) =
     (case (if settable then cloneReflectValue n h v else Some (h, v)) of None \<Rightarrow> None
      | Some (h', w) \<Rightarrow> (case copy_all n h' vs of None \<Rightarrow> None
          | Some (h'', ws) \<Rightarrow> Some (h'', set_cloned w v # ws)))"

text \<open>\<open>Clone\<close> itself: what a JSON decoder produces takes the short way, the rest the walk.\<close>

definition json_object :: string where "json_object = ''map[string]interface {}''"
definition json_array :: string where "json_array = ''[]interface {}''"
definition any_type :: string where "any_type = ''interface {}''"

fun Clone :: "nat \<Rightarrow> gheap \<Rightarrow> gv \<Rightarrow> (gheap \<times> gv) option"
  and clone_each :: "nat \<Rightarrow> gheap \<Rightarrow> gv list \<Rightarrow> (gheap \<times> gv list) option"
where
  "Clone 0 h v = None"
| "Clone (Suc n) h (GIface ty (GMap mty a)) =
     (if mty = json_object then
        (let es = entries h a in
         case clone_each n h (map snd es) of None \<Rightarrow> None
         | Some (h', ws) \<Rightarrow> Some (h' @ [Entries (zip (map fst es) ws)], GIface ty (GMap mty (length h'))))
      else map_option (map_prod id (GIface ty)) (cloneReflectValue n h (GMap mty a)))"
| "Clone (Suc n) h (GIface ty (GSlice sty a k)) =
     (if sty = json_array then
        (case clone_each n h (elems h a k) of None \<Rightarrow> None
         | Some (h', ws) \<Rightarrow> Some (h' @ map Var ws, GIface ty (GSlice sty (length h') (length ws))))
      else map_option (map_prod id (GIface ty)) (cloneReflectValue n h (GSlice sty a k)))"
| "Clone (Suc n) h (GIface ty (GScalar sty x)) = Some (h, GIface ty (GScalar sty x))"
| "Clone (Suc n) h (GIface ty (GNil k nty)) = Some (h, GIface ty (GNil k nty))"
| "Clone (Suc n) h (GIface ty v) = map_option (map_prod id (GIface ty)) (cloneReflectValue n h v)"
| "Clone (Suc n) h v = Some (h, v)"
| "clone_each 0 h vs = None"
| "clone_each (Suc n) h [] = Some (h, [])"
| "clone_each (Suc n) h (v # vs) =
     (case Clone n h v of None \<Rightarrow> None
      | Some (h', w) \<Rightarrow> (case clone_each n h' vs of None \<Rightarrow> None
          | Some (h'', ws) \<Rightarrow> Some (h'', w # ws)))"

end
