(* ===== verification/Clone_Theorems.thy ===== *)
theory Clone_Theorems
  imports Clone
begin

text \<open>
  What the copy promises: it ends on every value the validator accepts, and what it answers is equal
  to the value and shares no cell with it, where nothing mutable hides behind an unexported field.
\<close>

subsection \<open>Values that fit their heap\<close>

fun cells :: "gv \<Rightarrow> nat set" where
  "cells (GIface _ v) = cells v"
| "cells (GPtr _ a) = {a}"
| "cells (GSlice _ a n) = {a..<a + n}"
| "cells (GMap _ a) = {a}"
| "cells (GArray _ vs) = (\<Union>v \<in> set vs. cells v)"
| "cells (GStruct _ fs) = (\<Union>(_, _, v) \<in> set fs. cells v)"
| "cells _ = {}"

text \<open>
  References point at cells of their kind, a \<open>map[string]any\<close> and a \<open>[]any\<close> hold interface values,
  and a \<open>time.Time\<close> has no exported field.
\<close>

fun fits :: "gheap \<Rightarrow> gv \<Rightarrow> bool" where
  "fits h (GIface _ v) \<longleftrightarrow> fits h v"
| "fits h (GPtr _ a) \<longleftrightarrow> deref h a \<noteq> None"
| "fits h (GSlice ty a n) \<longleftrightarrow> (\<forall>i < n. deref h (a + i) \<noteq> None)
     \<and> (ty = json_array \<longrightarrow> (\<forall>v \<in> set (elems h a n). kind_of v = KInterface))"
| "fits h (GMap ty a) \<longleftrightarrow> a < length h \<and> (\<exists>es. h ! a = Entries es)
     \<and> (ty = json_object \<longrightarrow> (\<forall>(_, v) \<in> set (entries h a). kind_of v = KInterface))"
| "fits h (GArray _ vs) \<longleftrightarrow> (\<forall>v \<in> set vs. fits h v)"
| "fits h (GStruct ty fs) \<longleftrightarrow> (\<forall>(_, _, v) \<in> set fs. fits h v)
     \<and> (ty = timeType \<longrightarrow> (\<forall>(_, exported, _) \<in> set fs. \<not> exported))"
| "fits h (GOpaque k _ _) \<longleftrightarrow> k \<in> {KChan, KFunc}"
| "fits h _ \<longleftrightarrow> True"

definition fits_heap :: "gheap \<Rightarrow> bool" where
  "fits_heap h \<longleftrightarrow> (\<forall>c \<in> set h. \<forall>v \<in> set (cell_values c). fits h v)"

text \<open>A longer heap reads the same where the shorter one reached.\<close>

lemma deref_ext: "prefix h h' \<Longrightarrow> deref h a \<noteq> None \<Longrightarrow> deref h' a = deref h a"
  by (auto simp: deref_def prefix_def nth_append split: if_splits)

lemma map_filter_cong: "(\<And>x. x \<in> set xs \<Longrightarrow> f x = g x) \<Longrightarrow> List.map_filter f xs = List.map_filter g xs"
  by (induction xs) (auto simp: List.map_filter_simps split: option.splits)

lemma elems_ext:
  assumes "prefix h h'" and "\<forall>i < n. deref h (a + i) \<noteq> None"
  shows "elems h' a n = elems h a n"
  unfolding elems_def
proof (rule map_filter_cong)
  fix x assume "x \<in> set [a..<a + n]"
  then have "x - a < n" "x = a + (x - a)" by auto
  with assms show "deref h' x = deref h x" by (metis deref_ext)
qed

lemma entries_ext: "prefix h h' \<Longrightarrow> a < length h \<Longrightarrow> entries h' a = entries h a"
  by (auto simp: entries_def prefix_def nth_append)

lemma fits_deref: "fits_heap h \<Longrightarrow> deref h a = Some v \<Longrightarrow> fits h v"
  by (fastforce simp: fits_heap_def deref_def split: if_splits cell.splits dest: nth_mem)

lemma fits_elems: "fits_heap h \<Longrightarrow> v \<in> set (elems h a n) \<Longrightarrow> fits h v"
  using fits_deref [of h] unfolding elems_def List.map_filter_def by fastforce

lemma fits_entries: "fits_heap h \<Longrightarrow> (k, v) \<in> set (entries h a) \<Longrightarrow> fits h v"
proof -
  assume ok: "fits_heap h" and e: "(k, v) \<in> set (entries h a)"
  then have a: "a < length h" by (cases "a < length h") (simp_all add: entries_def)
  with e have "\<exists>es. h ! a = Entries es \<and> (k, v) \<in> set es"
    by (cases "h ! a") (auto simp: entries_def)
  then have "v \<in> set (cell_values (h ! a))" by force
  with ok a show ?thesis by (auto simp: fits_heap_def)
qed

subsection \<open>The walk\<close>

lemma walk_typ: "cloneReflectValue n h v = Some (h', w) \<Longrightarrow> typ_of w = typ_of v"
  by (induction n h v rule: cloneReflectValue_copy_all.induct(1) [where Q = "\<lambda>_ _ _. True"])
    (auto split: option.splits prod.splits if_splits simp: Let_def)

lemma set_cloned_walk: "cloneReflectValue n h v = Some (h', w) \<Longrightarrow> set_cloned w v = w"
  by (simp add: set_cloned_def walk_typ)

lemma set_cloned_self [simp]: "set_cloned v v = v"
  by (simp add: set_cloned_def)

lemma walk_extends:
  "cloneReflectValue n h v = Some (h', w) \<Longrightarrow> prefix h h'"
  "copy_all n h vs = Some (h', ws) \<Longrightarrow> prefix h h'"
proof (induction n h v and n h vs arbitrary: h' w and h' ws rule: cloneReflectValue_copy_all.induct)
  case (11 n h settable v vs)
  then show ?case
    by (auto split: option.splits prod.splits if_splits intro: prefix_order.trans)
qed (auto split: option.splits prod.splits if_splits simp: Let_def intro: prefix_order.trans prefixI)

lemma walk_more:
  "cloneReflectValue n h v = Some r \<Longrightarrow> cloneReflectValue (Suc n) h v = Some r"
  "copy_all n h vs = Some q \<Longrightarrow> copy_all (Suc n) h vs = Some q"
proof (induction n h v and n h vs arbitrary: r and q rule: cloneReflectValue_copy_all.induct)
qed (auto split: option.splits prod.splits if_splits simp: Let_def)

lemma walk_fuel:
  "cloneReflectValue n h v = Some r \<Longrightarrow> n \<le> m \<Longrightarrow> cloneReflectValue m h v = Some r"
  "copy_all n h vs = Some q \<Longrightarrow> n \<le> m \<Longrightarrow> copy_all m h vs = Some q"
proof -
  have "cloneReflectValue n h v = Some r \<Longrightarrow> cloneReflectValue (n + k) h v = Some r" for k
    by (induction k) (auto dest: walk_more)
  then show "cloneReflectValue n h v = Some r \<Longrightarrow> n \<le> m \<Longrightarrow> cloneReflectValue m h v = Some r"
    by (metis le_add_diff_inverse)
  have "copy_all n h vs = Some q \<Longrightarrow> copy_all (n + k) h vs = Some q" for k
    by (induction k) (auto dest: walk_more)
  then show "copy_all n h vs = Some q \<Longrightarrow> n \<le> m \<Longrightarrow> copy_all m h vs = Some q"
    by (metis le_add_diff_inverse)
qed

subsection \<open>It ends on what the validator accepts\<close>

definition ends :: "gheap \<Rightarrow> gv \<Rightarrow> bool" where
  "ends h v \<longleftrightarrow> (\<exists>n. \<forall>h'. prefix h h' \<longrightarrow> (\<exists>r. cloneReflectValue n h' v = Some r))"

definition ends_all :: "gheap \<Rightarrow> (bool \<times> gv) list \<Rightarrow> bool" where
  "ends_all h vs \<longleftrightarrow> (\<exists>n. \<forall>h'. prefix h h' \<longrightarrow> (\<exists>r. copy_all n h' vs = Some r))"

lemma ends_all_Nil: "ends_all h []"
proof -
  have "copy_all 1 h' [] = Some (h', [])" for h' by simp
  then show ?thesis unfolding ends_all_def by blast
qed

lemma ends_all_Cons:
  assumes "s \<Longrightarrow> ends h v" and "ends_all h vs"
  shows "ends_all h ((s, v) # vs)"
proof -
  obtain n where n: "\<And>h'. s \<Longrightarrow> prefix h h' \<Longrightarrow> \<exists>r. cloneReflectValue n h' v = Some r"
    using assms(1) unfolding ends_def by blast
  obtain m where m: "\<And>h'. prefix h h' \<Longrightarrow> \<exists>r. copy_all m h' vs = Some r"
    using assms(2) unfolding ends_all_def by blast
  have "\<exists>r. copy_all (Suc (n + m)) h' ((s, v) # vs) = Some r" if h': "prefix h h'" for h'
  proof -
    have "\<exists>r. (if s then cloneReflectValue (n + m) h' v else Some (h', v)) = Some r"
      using n [OF _ h'] walk_fuel(1) [of n h' v _ "n + m"] by (cases s) auto
    then obtain h1 w where one: "(if s then cloneReflectValue (n + m) h' v else Some (h', v)) = Some (h1, w)"
      by auto
    then have "prefix h' h1" by (auto split: if_splits dest: walk_extends)
    with h' have "prefix h h1" by auto
    from m [OF this] walk_fuel(2) [of m h1 vs _ "n + m"] obtain q where "copy_all (n + m) h1 vs = Some q"
      by auto
    with one show ?thesis by (cases q) auto
  qed
  then show ?thesis unfolding ends_all_def by blast
qed

lemma ends_Suc:
  assumes "ends h' u" and "\<And>n g r. prefix h g \<Longrightarrow> cloneReflectValue n g u = Some r \<Longrightarrow>
    \<exists>q. cloneReflectValue (Suc n) g v = Some q" and "h' = h"
  shows "ends h v"
  using assms unfolding ends_def by metis

lemma ends_loop:
  assumes "ends_all h vs" and "\<And>n g r. prefix h g \<Longrightarrow> copy_all n g vs = Some r \<Longrightarrow>
    \<exists>q. cloneReflectValue (Suc n) g v = Some q"
  shows "ends h v"
  using assms unfolding ends_def ends_all_def by metis

lemma ends_leaf:
  assumes "\<And>g. \<exists>q. cloneReflectValue 1 g v = Some q"
  shows "ends h v"
  using assms unfolding ends_def by metis

lemma enumerate_snd: "map (\<lambda>x. (True, snd x)) (List.enumerate n vs) = map (Pair True) vs"
  by (induction vs arbitrary: n) auto

lemma validated_ends:
  "validate h seen path v = None \<Longrightarrow> fits_heap h \<Longrightarrow> fits h v \<Longrightarrow> ends h v"
  "validate_all h seen path vs = None \<Longrightarrow> fits_heap h \<Longrightarrow> \<forall>(_, _, v) \<in> set vs. fits h v \<Longrightarrow>
     ends_all h (map snd vs)"
proof (induction h seen path v and h seen path vs rule: validate_validate_all.induct)
  case (1 h seen path ty v)
  then have "ends h v" by simp
  then show ?case by (rule ends_Suc) auto
next
  case (2 h seen path ty a)
  then obtain v where v: "deref h a = Some v" by auto
  with 2 have "ends h v" by (auto split: if_splits intro: fits_deref)
  then show ?case
  proof (rule ends_Suc)
    fix n g r assume "prefix h g" "cloneReflectValue n g v = Some r"
    with deref_ext [of h g a] v show "\<exists>q. cloneReflectValue (Suc n) g (GPtr ty a) = Some q"
      by (auto split: prod.splits)
  qed simp
next
  case (3 h seen path ty a n)
  let ?vs = "map (\<lambda>(i, v). (PIndex i, True, v)) (List.enumerate 0 (elems h a n))"
  have "\<forall>(_, _, v) \<in> set ?vs. fits h v"
    by (auto simp: in_set_enumerate_eq intro!: fits_elems [OF 3(3)] nth_mem)
  with 3 have "ends_all h (map snd ?vs)" by (auto split: if_splits)
  moreover have "map snd ?vs = map (Pair True) (elems h a n)"
    by (simp add: o_def case_prod_beta enumerate_snd)
  ultimately have "ends_all h (map (Pair True) (elems h a n))" by simp
  then show ?case
  proof (rule ends_loop)
    fix m g r assume "prefix h g" "copy_all m g (map (Pair True) (elems h a n)) = Some r"
    with elems_ext [of h g n a] 3(4) show "\<exists>q. cloneReflectValue (Suc m) g (GSlice ty a n) = Some q"
      by (cases r) auto
  qed
next
  case (4 h seen path ty a)
  let ?vs = "map (\<lambda>(k, v). (PMapValue, True, v)) (entries h a)"
  have "\<forall>(_, _, v) \<in> set ?vs. fits h v" using 4(3) by (auto intro: fits_entries)
  with 4 have "ends_all h (map snd ?vs)" by (auto split: if_splits)
  moreover have "map snd ?vs = map (\<lambda>(k, v). (True, v)) (entries h a)" by auto
  ultimately have "ends_all h (map (\<lambda>(k, v). (True, v)) (entries h a))" by (simp only:)
  then show ?case
  proof (rule ends_loop)
    fix m g r assume "prefix h g" "copy_all m g (map (\<lambda>(k, v). (True, v)) (entries h a)) = Some r"
    with entries_ext [of h g a] 4(4) show "\<exists>q. cloneReflectValue (Suc m) g (GMap ty a) = Some q"
      by (cases r) (auto simp: Let_def)
  qed
next
  case (5 h seen path ty vs)
  let ?vs = "map (\<lambda>(i, v). (PIndex i, True, v)) (List.enumerate 0 vs)"
  have "\<forall>(_, _, v) \<in> set ?vs. fits h v" using 5(4) by (auto simp: in_set_enumerate_eq)
  with 5 have "ends_all h (map snd ?vs)" by auto
  moreover have "map snd ?vs = map (Pair True) vs"
    by (simp add: o_def case_prod_beta enumerate_snd)
  ultimately have "ends_all h (map (Pair True) vs)" by simp
  then show ?case by (rule ends_loop) auto
next
  case (6 h seen path ty fs)
  have "ends_all h (map snd fs)"
  proof (cases "ty = timeType")
    case True
    with 6(4) have "\<forall>(s, v) \<in> set (map snd fs). \<not> s" by auto
    then show ?thesis
      by (induction fs) (auto intro!: ends_all_Nil ends_all_Cons)
  next
    case False
    let ?vs = "map (\<lambda>(f, exported, v). (PField f, exported, v)) fs"
    have "\<forall>(_, _, v) \<in> set ?vs. fits h v" using 6(4) by auto
    with 6 False have "ends_all h (map snd ?vs)" by simp
    moreover have "map snd ?vs = map snd fs" by (simp add: o_def case_prod_beta)
    ultimately show ?thesis by (simp only:)
  qed
  then show ?case by (rule ends_loop) auto
next
  case (8 h seen path)
  show ?case by (simp add: ends_all_Nil)
next
  case (9 h seen path p exported v vs)
  then show ?case by (auto intro!: ends_all_Cons split: if_splits option.splits)
qed (auto intro!: ends_leaf)

subsection \<open>The short way is the walk\<close>

lemma clone_more:
  "Clone n h v = Some r \<Longrightarrow> Clone (Suc n) h v = Some r"
  "clone_each n h vs = Some q \<Longrightarrow> clone_each (Suc n) h vs = Some q"
proof (induction n h v and n h vs arbitrary: r and q rule: Clone_clone_each.induct)
qed (auto split: option.splits prod.splits if_splits simp: Let_def map_option_case dest: walk_more(1) simp del: cloneReflectValue.simps)

lemma kind_interface: "kind_of v = KInterface \<Longrightarrow> (\<exists>ty w. v = GIface ty w) \<or> (\<exists>ty. v = GNil KInterface ty) \<or> (\<exists>ty a. v = GOpaque KInterface ty a)"
  by (cases v) auto

lemma walk_iface:
  assumes "map_option (map_prod id (GIface ty)) (cloneReflectValue n h v) = Some r"
  shows "cloneReflectValue (Suc (Suc (2 * n))) h (GIface ty v) = Some r"
proof -
  obtain h' w where c: "cloneReflectValue n h v = Some (h', w)" "r = (h', GIface ty w)"
    using assms by auto
  from walk_fuel(1) [OF c(1), of "Suc (2 * n)"] set_cloned_walk [OF c(1)] c(2) show ?thesis by simp
qed

text \<open>On interface values that fit a heap read so far, with twice the fuel.\<close>

lemma short_way:
  "Clone n h v = Some r \<Longrightarrow> prefix b h \<Longrightarrow> fits_heap b \<Longrightarrow> fits b v \<Longrightarrow> kind_of v = KInterface \<Longrightarrow>
     cloneReflectValue (2 * n) h v = Some r"
  "clone_each n h vs = Some q \<Longrightarrow> prefix b h \<Longrightarrow> fits_heap b \<Longrightarrow>
     \<forall>v \<in> set vs. fits b v \<and> kind_of v = KInterface \<Longrightarrow> copy_all (2 * n) h (map (Pair True) vs) = Some q"
proof (induction n h v and n h vs arbitrary: r and q rule: Clone_clone_each.induct)
  case (2 n h ty mty a)
  note fit = 2(4,5)
  have es: "entries h a = entries b a" using entries_ext [OF 2(3)] 2(5) by simp
  show ?case
  proof (cases "mty = json_object")
    case True
    then obtain h' ws where c: "clone_each n h (map snd (entries h a)) = Some (h', ws)"
      using 2(2) by (auto simp: Let_def split: option.splits)
    have "\<forall>v \<in> set (map snd (entries h a)). fits b v \<and> kind_of v = KInterface"
      using 2(4,5) True by (auto simp: es intro: fits_entries)
    from 2(1) [OF True refl c 2(3,4) this]
    have "copy_all (2 * n) h (map (\<lambda>(k, v). (True, v)) (entries h a)) = Some (h', ws)"
      by (simp add: o_def split_beta')
    with c 2(2) True show ?thesis by (simp add: Let_def set_cloned_def)
  next
    case False
    with 2(2) walk_iface [of ty n h "GMap mty a" r] show ?thesis by simp
  qed
next
  case (3 n h ty sty a k)
  have es: "elems h a k = elems b a k" using elems_ext [OF 3(3)] 3(5) by simp
  show ?case
  proof (cases "sty = json_array")
    case True
    then obtain h' ws where c: "clone_each n h (elems h a k) = Some (h', ws)"
      using 3(2) by (auto split: option.splits)
    have "\<forall>v \<in> set (elems h a k). fits b v \<and> kind_of v = KInterface"
      using 3(4,5) True by (auto simp: es intro: fits_elems)
    from 3(1) [OF True c 3(3,4) this] c 3(2) True show ?thesis by (simp add: set_cloned_def)
  next
    case False
    with 3(2) walk_iface [of ty n h "GSlice sty a k" r] show ?thesis by simp
  qed
next
  case (10 n h v vs)
  then obtain h' w where one: "Clone n h v = Some (h', w)" by (auto split: option.splits)
  with 10(3) obtain h'' ws where rest: "clone_each n h' vs = Some (h'', ws)" "q = (h'', w # ws)"
    by (auto split: option.splits)
  from 10(1) [OF one 10(4,5)] 10(6) have w1: "cloneReflectValue (2 * n) h v = Some (h', w)" by simp
  have "prefix b h'" using walk_extends(1) [OF w1] 10(4) by auto
  from 10(2) [OF one refl rest(1) this 10(5)] 10(6)
  have "copy_all (2 * n) h' (map (Pair True) vs) = Some (h'', ws)" by simp
  with w1 rest(2) set_cloned_walk [OF w1] have "copy_all (Suc (2 * n)) h (map (Pair True) (v # vs)) = Some q"
    by simp
  from walk_more(2) [OF this] show ?case by simp
next
  case (4 n h ty sty x)
  then show ?case by (simp add: set_cloned_def)
next
  case (5 n h ty k nty)
  then show ?case by (simp add: set_cloned_def)
qed (simp_all add: set_cloned_def walk_iface del: map_option_eq_Some cloneReflectValue.simps(2))

subsection \<open>The copy is equal and shares nothing\<close>

text \<open>What the walk can copy through: no channel or function, and nothing with a cell of its own
  behind an unexported field or in a map's key.\<close>

fun refless :: "gv \<Rightarrow> bool" where
  "refless (GScalar _ _) \<longleftrightarrow> True"
| "refless (GNil _ _) \<longleftrightarrow> True"
| "refless (GIface _ v) \<longleftrightarrow> refless v"
| "refless (GSlice _ _ n) \<longleftrightarrow> n = 0"
| "refless (GArray _ vs) \<longleftrightarrow> (\<forall>v \<in> set vs. refless v)"
| "refless (GStruct _ fs) \<longleftrightarrow> (\<forall>(_, _, v) \<in> set fs. refless v)"
| "refless _ \<longleftrightarrow> False"

fun plain :: "gv \<Rightarrow> bool" where
  "plain (GOpaque _ _ _) \<longleftrightarrow> False"
| "plain (GIface _ v) \<longleftrightarrow> plain v"
| "plain (GArray _ vs) \<longleftrightarrow> (\<forall>v \<in> set vs. plain v)"
| "plain (GStruct _ fs) \<longleftrightarrow> (\<forall>(_, exported, v) \<in> set fs. if exported then plain v else refless v)"
| "plain _ \<longleftrightarrow> True"

fun plain_cell :: "cell \<Rightarrow> bool" where
  "plain_cell (Var v) \<longleftrightarrow> plain v"
| "plain_cell (Entries es) \<longleftrightarrow> (\<forall>(k, v) \<in> set es. refless k \<and> plain v)"

definition plain_heap :: "gheap \<Rightarrow> bool" where
  "plain_heap h \<longleftrightarrow> (\<forall>c \<in> set h. plain_cell c)"

text \<open>Equal up to the cells' numbers, however deep.\<close>

inductive copy_of :: "gheap \<Rightarrow> gheap \<Rightarrow> gv \<Rightarrow> gv \<Rightarrow> bool" for h h' where
  of_scalar: "copy_of h h' (GScalar ty x) (GScalar ty x)"
| of_nil: "copy_of h h' (GNil k ty) (GNil k ty)"
| of_iface: "copy_of h h' v w \<Longrightarrow> copy_of h h' (GIface ty v) (GIface ty w)"
| of_ptr: "deref h a = Some v \<Longrightarrow> deref h' b = Some w \<Longrightarrow> copy_of h h' v w \<Longrightarrow>
     copy_of h h' (GPtr ty a) (GPtr ty b)"
| of_slice: "\<forall>i < n. deref h' (b + i) \<noteq> None \<Longrightarrow>
     list_all2 (copy_of h h') (elems h a n) (elems h' b n) \<Longrightarrow>
     copy_of h h' (GSlice ty a n) (GSlice ty b n)"
| of_map: "b < length h' \<Longrightarrow>
     list_all2 (\<lambda>x y. fst x = fst y \<and> copy_of h h' (snd x) (snd y)) (entries h a) (entries h' b) \<Longrightarrow>
     copy_of h h' (GMap ty a) (GMap ty b)"
| of_array: "list_all2 (copy_of h h') vs ws \<Longrightarrow> copy_of h h' (GArray ty vs) (GArray ty ws)"
| of_struct: "list_all2 (\<lambda>x y. fst x = fst y \<and> fst (snd x) = fst (snd y) \<and>
       copy_of h h' (snd (snd x)) (snd (snd y))) fs gs \<Longrightarrow>
     copy_of h h' (GStruct ty fs) (GStruct ty gs)"

lemma copy_mono: "copy_of h h' v w \<Longrightarrow> prefix h' g \<Longrightarrow> copy_of h g v w"
proof (induction rule: copy_of.induct)
  case (of_ptr a v b w ty)
  then show ?case using deref_ext [of h' g b] by (auto intro: copy_of.of_ptr)
next
  case (of_slice n b a ty)
  then have "elems g b n = elems h' b n" "\<forall>i < n. deref g (b + i) \<noteq> None"
    using elems_ext [of h' g n b] deref_ext [of h' g] by auto
  with of_slice show ?case by (auto intro!: copy_of.of_slice elim: list_all2_mono)
next
  case (of_map b a ty)
  then have "entries g b = entries h' b" "b < length g"
    using entries_ext [of h' g b] prefix_length_le [of h' g] by auto
  with of_map show ?case by (auto intro!: copy_of.of_map elim: list_all2_mono)
qed (auto intro: copy_of.intros elim: list_all2_mono)

lemma elems_0 [simp]: "elems h a 0 = []"
  by (simp add: elems_def List.map_filter_simps)

lemma refless_copy: "refless v \<Longrightarrow> copy_of h h' v v"
  by (induction v rule: refless.induct)
    (force intro: copy_of.intros simp: list_all2_same)+

lemma refless_cells: "refless v \<Longrightarrow> cells v = {}"
  by (induction v rule: refless.induct) auto

fun all_values :: "cell \<Rightarrow> gv list" where
  "all_values (Var v) = [v]"
| "all_values (Entries es) = map fst es @ map snd es"

definition above :: "nat \<Rightarrow> cell \<Rightarrow> bool" where
  "above k c \<longleftrightarrow> (\<forall>v \<in> set (all_values c). cells v \<subseteq> {k..})"

definition fresh_part :: "nat \<Rightarrow> gheap \<Rightarrow> gheap \<Rightarrow> bool" where
  "fresh_part k h h' \<longleftrightarrow> (\<forall>c \<in> set (drop (length h) h'). above k c)"

lemma fresh_part_simps [simp]:
  "fresh_part k h h"
  "prefix h h' \<Longrightarrow> fresh_part k h (h' @ cs) \<longleftrightarrow> fresh_part k h h' \<and> (\<forall>c \<in> set cs. above k c)"
  by (auto simp: fresh_part_def prefix_def)

lemma fresh_part_trans: "fresh_part k h h1 \<Longrightarrow> fresh_part k h1 h2 \<Longrightarrow> prefix h h1 \<Longrightarrow> prefix h1 h2 \<Longrightarrow> fresh_part k h h2"
  by (auto simp: fresh_part_def prefix_def)

lemma elems_append: "elems (h @ map Var ws) (length h) (length ws) = ws"
proof -
  have "List.map_filter (deref (h @ map Var ws)) [length h..<length h + k] = take k ws" if "k \<le> length ws" for k
    using that
  proof (induction k)
    case (Suc k)
    then have "deref (h @ map Var ws) (length h + k) = Some (ws ! k)"
      by (simp add: deref_def nth_append)
    with Suc show ?case by (simp add: List.map_filter_def take_Suc_conv_app_nth)
  qed (simp add: List.map_filter_simps)
  then show ?thesis by (simp add: elems_def)
qed

lemma elems_length: "\<forall>i < n. deref h (a + i) \<noteq> None \<Longrightarrow> length (elems h a n) = n"
  by (induction n) (auto simp: elems_def List.map_filter_def)

lemma entries_append: "entries (h @ [Entries es]) (length h) = es"
  by (simp add: entries_def)

lemma plain_deref: "plain_heap h \<Longrightarrow> deref h a = Some v \<Longrightarrow> plain v"
  by (fastforce simp: plain_heap_def deref_def split: if_splits cell.splits dest: nth_mem)

lemma plain_elems: "plain_heap h \<Longrightarrow> v \<in> set (elems h a n) \<Longrightarrow> plain v"
  using plain_deref [of h] unfolding elems_def List.map_filter_def by fastforce

lemma plain_entries: "plain_heap h \<Longrightarrow> (k, v) \<in> set (entries h a) \<Longrightarrow> refless k \<and> plain v"
proof -
  assume ok: "plain_heap h" and e: "(k, v) \<in> set (entries h a)"
  then have a: "a < length h" by (cases "a < length h") (simp_all add: entries_def)
  with e obtain es where es: "h ! a = Entries es" "(k, v) \<in> set es"
    by (cases "h ! a") (auto simp: entries_def)
  from ok a have "plain_cell (h ! a)" by (simp add: plain_heap_def)
  with es show ?thesis by auto
qed

lemma walk_copies:
  "cloneReflectValue n h v = Some (h', w) \<Longrightarrow> prefix b h \<Longrightarrow> fits_heap b \<Longrightarrow> plain_heap b \<Longrightarrow>
     fits b v \<Longrightarrow> plain v \<Longrightarrow>
     fresh_part (length b) h h' \<and> cells w \<subseteq> {length b..} \<and> copy_of b h' v w"
  "copy_all n h vs = Some (h', ws) \<Longrightarrow> prefix b h \<Longrightarrow> fits_heap b \<Longrightarrow> plain_heap b \<Longrightarrow>
     \<forall>(s, v) \<in> set vs. fits b v \<and> (if s then plain v else refless v) \<Longrightarrow>
     fresh_part (length b) h h' \<and> (\<forall>w \<in> set ws. cells w \<subseteq> {length b..})
       \<and> list_all2 (\<lambda>x w. copy_of b h' (snd x) w) vs ws"
proof (induction n h v and n h vs arbitrary: h' w and h' ws rule: cloneReflectValue_copy_all.induct)
  case (2 n h ty v)
  then obtain u where u: "cloneReflectValue n h v = Some (h', u)" "w = GIface ty u"
    by (auto split: option.splits simp: set_cloned_walk)
  with 2 show ?case by (auto intro: of_iface)
next
  case (3 n h ty a)
  then obtain v where v: "deref b a = Some v" by auto
  with 3(3) deref_ext [of b h a] have hv: "deref h a = Some v" by simp
  with 3(2) obtain h1 u where u: "cloneReflectValue n h v = Some (h1, u)"
    "h' = h1 @ [Var u]" "w = GPtr ty (length h1)"
    by (auto split: option.splits if_splits dest: walk_typ)
  have pre: "prefix h h1" using walk_extends(1) [OF u(1)] .
  then have len: "length b \<le> length h1" using 3(3) by (meson prefix_length_le prefix_order.trans)
  from 3(1) [OF hv u(1) 3(3-5)] fits_deref [OF 3(4) v] plain_deref [OF 3(5) v]
  have ih: "fresh_part (length b) h h1" "cells u \<subseteq> {length b..}" "copy_of b h1 v u" by auto
  have "deref h' (length h1) = Some u" by (simp add: u(2) deref_def)
  moreover have "copy_of b h' v u" using ih(3) by (rule copy_mono) (simp add: u(2))
  ultimately have "copy_of b h' (GPtr ty a) w" unfolding u(3) using v by (intro of_ptr)
  with ih len pre show ?case by (auto simp: u(2,3) above_def)
next
  case (4 n h ty a k)
  have es: "elems h a k = elems b a k" using elems_ext [OF 4(3)] 4(6) by simp
  from 4(2) obtain h1 ws where u: "copy_all n h (map (Pair True) (elems h a k)) = Some (h1, ws)"
    "h' = h1 @ map Var ws" "w = GSlice ty (length h1) (length ws)"
    by (auto split: option.splits)
  have pre: "prefix h h1" using walk_extends(2) [OF u(1)] .
  then have len: "length b \<le> length h1" using 4(3) by (meson prefix_length_le prefix_order.trans)
  from 4(1) [OF u(1) 4(3-5)] fits_elems [OF 4(4)] plain_elems [OF 4(5)]
  have ih: "fresh_part (length b) h h1" "\<forall>u \<in> set ws. cells u \<subseteq> {length b..}"
    "list_all2 (copy_of b h1) (elems b a k) ws"
    by (auto simp: es list_all2_map1)
  have el: "elems h' (length h1) (length ws) = ws" unfolding u(2) by (rule elems_append)
  have "length (elems b a k) = k" using 4(6) by (simp add: elems_length)
  then have k: "length ws = k" using list_all2_lengthD [OF ih(3)] by simp
  have "list_all2 (copy_of b h') (elems b a k) (elems h' (length h1) k)"
    using ih(3) el k by (auto simp: u(2) intro: copy_mono elim!: list_all2_mono)
  moreover have "deref h' (length h1 + i) \<noteq> None" if "i < k" for i
    using that k by (simp add: u(2) deref_def nth_append)
  ultimately have "copy_of b h' (GSlice ty a k) w" unfolding u(3) k by (intro of_slice) auto
  with ih len pre show ?case by (auto simp: u(2,3) above_def)
next
  case (5 n h ty a)
  have es: "entries h a = entries b a" using entries_ext [OF 5(3)] 5(6) by simp
  from 5(2) obtain h1 ws where u: "copy_all n h (map (\<lambda>(k, v). (True, v)) (entries h a)) = Some (h1, ws)"
    "h' = h1 @ [Entries (zip (map fst (entries b a)) ws)]" "w = GMap ty (length h1)"
    by (auto simp: Let_def es split: option.splits)
  have pre: "prefix h h1" using walk_extends(2) [OF u(1)] .
  then have len: "length b \<le> length h1" using 5(3) by (meson prefix_length_le prefix_order.trans)
  have pl: "\<forall>(s, v) \<in> set (map (\<lambda>(k, v). (True, v)) (entries h a)). fits b v \<and> (if s then plain v else refless v)"
    using fits_entries [OF 5(4)] plain_entries [OF 5(5)] by (auto simp: es)
  from 5(1) [OF refl u(1) 5(3-5) pl]
  have ih: "fresh_part (length b) h h1" "\<forall>u \<in> set ws. cells u \<subseteq> {length b..}"
    "list_all2 (\<lambda>x u. copy_of b h1 (snd x) u) (entries b a) ws"
    by (auto simp: es list_all2_map1 case_prod_beta)
  have lw: "length ws = length (entries b a)" using list_all2_lengthD [OF ih(3)] by simp
  have ext: "prefix h1 h'" by (simp add: u(2))
  have "list_all2 (\<lambda>x y. fst x = fst y \<and> copy_of b h' (snd x) (snd y)) (entries b a) (entries h' (length h1))"
    unfolding u(2) entries_append
    using ih(3) lw copy_mono [OF _ ext] by (auto simp: list_all2_conv_all_nth u(2))
  then have "copy_of b h' (GMap ty a) w" unfolding u(3) by (intro of_map) (simp_all add: u(2))
  moreover have "above (length b) (Entries (zip (map fst (entries b a)) ws))"
    unfolding above_def
  proof
    fix x assume "x \<in> set (all_values (Entries (zip (map fst (entries b a)) ws)))"
    then have "x \<in> fst ` set (entries b a) \<or> x \<in> set ws"
      using lw by (auto dest: set_zip_leftD set_zip_rightD)
    then show "cells x \<subseteq> {length b..}"
      using ih(2) plain_entries [OF 5(5)] refless_cells by fastforce
  qed
  ultimately show ?case using ih len pre by (simp add: u(2,3))
next
  case (6 n h ty vs)
  then obtain ws where u: "copy_all n h (map (Pair True) vs) = Some (h', ws)" "w = GArray ty ws"
    by (auto split: option.splits)
  from 6(1) [OF u(1) 6(3-5)] 6(6,7) show ?case by (auto simp: u(2) list_all2_map1 intro: of_array)
next
  case (7 n h ty fs)
  then obtain ws where u: "copy_all n h (map snd fs) = Some (h', ws)"
    "w = GStruct ty (map2 (\<lambda>(f, exported, _) w. (f, exported, w)) fs ws)"
    by (auto split: option.splits)
  have "\<forall>(s, v) \<in> set (map snd fs). fits b v \<and> (if s then plain v else refless v)"
    using 7(6,7) by auto
  from 7(1) [OF u(1) 7(3-5) this]
  have ih: "fresh_part (length b) h h'" "\<forall>u \<in> set ws. cells u \<subseteq> {length b..}"
    "list_all2 (\<lambda>x u. copy_of b h' (snd (snd x)) u) fs ws"
    by (auto simp: list_all2_map1)
  then have "copy_of b h' (GStruct ty fs) w" unfolding u(2)
    by (intro of_struct) (auto simp: list_all2_conv_all_nth case_prod_beta)
  moreover have "cells w \<subseteq> {length b..}"
  proof
    fix x assume "x \<in> cells w"
    then obtain u where "u \<in> set ws" "x \<in> cells u" by (auto simp: u(2) dest: set_zip_rightD)
    with ih(2) show "x \<in> {length b..}" by blast
  qed
  ultimately show ?case using ih(1) by simp
next
  case (11 n h settable v vs)
  then obtain h1 u h2 us where u: "(if settable then cloneReflectValue n h v else Some (h, v)) = Some (h1, u)"
    "copy_all n h1 vs = Some (h', us)" "ws = set_cloned u v # us"
    by (auto split: option.splits)
  have pre: "prefix h h1" "prefix h1 h'" using u walk_extends by (auto split: if_splits)
  have one: "fresh_part (length b) h h1 \<and> cells u \<subseteq> {length b..} \<and> copy_of b h1 v u \<and> set_cloned u v = u"
  proof (cases settable)
    case True
    with u(1) 11(1) [OF True _ 11(4-6)] 11(7) show ?thesis by (auto simp: set_cloned_walk)
  next
    case False
    with u(1) 11(7) show ?thesis by (auto simp: refless_cells intro: refless_copy)
  qed
  have "prefix b h1" using 11(4) pre(1) by auto
  from 11(2) [OF u(1) refl u(2) this 11(5,6)] 11(7)
  have rest: "fresh_part (length b) h1 h'" "\<forall>w \<in> set us. cells w \<subseteq> {length b..}"
    "list_all2 (\<lambda>x w. copy_of b h' (snd x) w) vs us" by auto
  with one pre u(3) show ?case by (auto intro: fresh_part_trans copy_mono)
qed (auto intro: copy_of.intros)

lemma long_way:
  "cloneReflectValue n h v = Some r \<Longrightarrow> prefix b h \<Longrightarrow> fits_heap b \<Longrightarrow> fits b v \<Longrightarrow> kind_of v = KInterface \<Longrightarrow>
     Clone n h v = Some r"
  "copy_all n h (map (Pair True) vs) = Some q \<Longrightarrow> prefix b h \<Longrightarrow> fits_heap b \<Longrightarrow>
     \<forall>v \<in> set vs. fits b v \<and> kind_of v = KInterface \<Longrightarrow> clone_each n h vs = Some q"
proof (induction n arbitrary: h v r vs q rule: less_induct)
  case (less n)
  case 1
  then obtain m where n: "n = Suc m" by (cases n) auto
  show ?case
  proof (cases v)
    case (GIface ty u)
    then obtain h' w where c: "cloneReflectValue m h u = Some (h', w)" "r = (h', GIface ty w)"
      using 1(1) n by (auto split: option.splits simp: set_cloned_walk)
    have other: "Clone (Suc m) h (GIface ty u) = map_option (map_prod id (GIface ty)) (cloneReflectValue m h u)
        \<Longrightarrow> ?thesis"
      using c n GIface by simp
    obtain k where m: "m = Suc k" using c(1) by (cases m) auto
    show ?thesis
    proof (cases u)
      case (GMap mty a)
      show ?thesis
      proof (cases "mty = json_object")
        case True
        have es: "entries h a = entries b a" using entries_ext [OF 1(2)] 1(4) GIface GMap by simp
        obtain g ws where u: "copy_all k h (map (\<lambda>(k, v). (True, v)) (entries h a)) = Some (g, ws)"
          "h' = g @ [Entries (zip (map fst (entries h a)) ws)]" "w = GMap mty (length g)"
          using c(1) m GMap by (auto simp: Let_def split: option.splits)
        have "\<forall>v \<in> set (map snd (entries h a)). fits b v \<and> kind_of v = KInterface"
          using 1(3,4) True GIface GMap by (auto simp: es intro: fits_entries)
        moreover have "copy_all k h (map (Pair True) (map snd (entries h a))) = Some (g, ws)"
          using u(1) by (simp add: o_def split_beta')
        ultimately have "clone_each k h (map snd (entries h a)) = Some (g, ws)"
          using less(2) [of k h "map snd (entries h a)"] 1(2,3) n m by simp
        from clone_more(2) [OF this] show ?thesis using u c n m GIface GMap True by (simp add: Let_def)
      qed (rule other, simp add: GMap)
    next
      case (GSlice sty a l)
      show ?thesis
      proof (cases "sty = json_array")
        case True
        have es: "elems h a l = elems b a l" using elems_ext [OF 1(2)] 1(4) GIface GSlice by simp
        obtain g ws where u: "copy_all k h (map (Pair True) (elems h a l)) = Some (g, ws)"
          "h' = g @ map Var ws" "w = GSlice sty (length g) (length ws)"
          using c(1) m GSlice by (auto split: option.splits)
        have "\<forall>v \<in> set (elems h a l). fits b v \<and> kind_of v = KInterface"
          using 1(3,4) True GIface GSlice by (auto simp: es intro: fits_elems)
        then have "clone_each k h (elems h a l) = Some (g, ws)"
          using less(2) [of k h "elems h a l"] u(1) 1(2,3) n m by simp
        from clone_more(2) [OF this] show ?thesis using u c n m GIface GSlice True by simp
      qed (rule other, simp add: GSlice)
    qed (use c n m GIface in auto)
  qed (use 1 n in auto)
next
  case (less n)
  case 2
  then obtain m where n: "n = Suc m" by (cases n) auto
  show ?case
  proof (cases vs)
    case (Cons v us)
    obtain h1 w h2 ws where one: "cloneReflectValue m h v = Some (h1, w)"
      and rest: "copy_all m h1 (map (Pair True) us) = Some (h2, ws)" and q: "q = (h2, w # ws)"
      using 2(1) n Cons by (auto split: option.splits simp: set_cloned_walk)
    have "Clone m h v = Some (h1, w)" using less(1) [OF _ one 2(2,3)] 2(4) n Cons by simp
    moreover have "prefix b h1" using walk_extends(1) [OF one] 2(2) by auto
    then have "clone_each m h1 us = Some (h2, ws)" using less(2) [OF _ rest _ 2(3)] 2(4) n Cons by simp
    ultimately show ?thesis using n Cons q by simp
  qed (use 2 n in auto)
qed

lemma Clone_walk:
  assumes "Clone n h v = Some r" and "fits_heap h" and "fits h v" and "kind_of v = KInterface"
  shows "cloneReflectValue (2 * n) h v = Some r"
  using short_way(1) [OF assms(1) prefix_order.refl assms(2-4)] .

subsection \<open>What Clone promises\<close>

definition sample_doc_heap :: gheap where
  "sample_doc_heap = [Var (GIface any_type (GScalar ''float64'' ''1'')),
     Entries [(GScalar ''string'' ''limits'', GIface any_type (GSlice json_array 0 1))]]"

definition sample_doc :: gv where
  "sample_doc = GIface any_type (GMap json_object 1)"

lemmas sample_defs = sample_doc_heap_def sample_doc_def any_type_def json_object_def json_array_def

lemma sample_doc_ok: "fits_heap sample_doc_heap" "fits sample_doc_heap sample_doc"
  "plain_heap sample_doc_heap" "plain sample_doc" "kind_of sample_doc = KInterface"
  by (simp_all add: fits_heap_def plain_heap_def sample_defs deref_def entries_def elems_def
      List.map_filter_simps)

text \<open>C20. Clone ends on every value ValidateCloneSafe accepts, whatever its pointers, slices and maps
  share and however deep they nest: the registered default whose copy every read takes can never hang
  the reader.\<close>

theorem clone_ends:
  assumes "ValidateCloneSafe h v = None" and "fits_heap h" and "fits h v" and "kind_of v = KInterface"
  shows "\<exists>n h' w. Clone n h v = Some (h', w)"
proof -
  have "ends h v"
    using assms(1) unfolding ValidateCloneSafe_def by (rule validated_ends(1)) (rule assms(2,3))+
  then obtain n r where "cloneReflectValue n h v = Some r" unfolding ends_def by auto
  from long_way(1) [OF this prefix_order.refl assms(2-4)] show ?thesis by (cases r) auto
qed

theorem clone_ends_witness: "\<exists>n h' w. Clone n sample_doc_heap sample_doc = Some (h', w)"
proof (rule clone_ends)
  show "ValidateCloneSafe sample_doc_heap sample_doc = None"
    by (simp add: ValidateCloneSafe_def sample_defs deref_def entries_def elems_def List.map_filter_simps)
qed (rule sample_doc_ok)+

text \<open>The guard is needed: a list holding itself is refused, and its copy never ends.\<close>

lemma cyclic_never_ends:
  defines "h \<equiv> [Var (GIface any_type (GSlice json_array 0 1))]"
  shows "ValidateCloneSafe h (GIface any_type (GSlice json_array 0 1)) = Some (Cyclic [PIndex 0])"
    and "Clone n h (GIface any_type (GSlice json_array 0 1)) = None"
proof -
  let ?v = "GIface any_type (GSlice json_array 0 1)"
  have e: "elems h 0 1 = [?v]" by (simp add: h_def elems_def deref_def List.map_filter_simps)
  show "ValidateCloneSafe h ?v = Some (Cyclic [PIndex 0])"
    by (simp add: ValidateCloneSafe_def e [simplified] mutableCloneKind_def)
  show "Clone n h ?v = None"
  proof (induction n rule: less_induct)
    case (less n)
    show ?case
    proof (cases n)
      case (Suc m)
      have "clone_each m h [?v] = None" using less [of "m - 1"] Suc by (cases m) auto
      with Suc e show ?thesis by simp
    qed simp
  qed
qed

inductive reach :: "gheap \<Rightarrow> gv \<Rightarrow> nat \<Rightarrow> bool" for h v where
  reach_here: "a \<in> cells v \<Longrightarrow> reach h v a"
| reach_in: "reach h v a \<Longrightarrow> a < length h \<Longrightarrow> w \<in> set (all_values (h ! a)) \<Longrightarrow> b \<in> cells w \<Longrightarrow> reach h v b"

text \<open>C21. A copy is independent. Where Clone answers, on a well-formed heap, it leaves every cell of the original as it was, answers a value that
  reads the same as the original at every depth, and no cell that can be reached from the copy existed
  before: whatever a subscriber does to what it received, the cache does not see it. This holds of
  every JSON document and of every Go value that keeps nothing shareable behind an unexported field or
  in a map key and holds no channel or function; \<open>accepted_but_aliased\<close> shows a value without that.\<close>

theorem clone_independent:
  assumes "Clone n h v = Some (h', w)" and "fits_heap h" and "fits h v" and "kind_of v = KInterface"
    and "plain_heap h" and "plain v"
  shows "prefix h h' \<and> copy_of h h' v w \<and> (\<forall>a. reach h' w a \<longrightarrow> length h \<le> a)"
proof -
  have c: "cloneReflectValue (2 * n) h v = Some (h', w)" by (rule Clone_walk [OF assms(1-4)])
  have pre: "prefix h h'" by (rule walk_extends(1) [OF c])
  from walk_copies(1) [OF c prefix_order.refl assms(2,5,3,6)]
  have new: "fresh_part (length h) h h'" "cells w \<subseteq> {length h..}" and eq: "copy_of h h' v w" by auto
  have "length h \<le> a" if "reach h' w a" for a
    using that
  proof (induction rule: reach.induct)
    case (reach_in a u b)
    then have "h' ! a = drop (length h) h' ! (a - length h)" "a - length h < length (drop (length h) h')"
      by auto
    then have "h' ! a \<in> set (drop (length h) h')" by (metis nth_mem)
    with new(1) reach_in(3,4) show ?case by (auto simp: fresh_part_def above_def)
  qed (use new(2) in auto)
  with pre eq show ?thesis by blast
qed

theorem clone_independent_witness:
  "Clone 6 sample_doc_heap sample_doc = Some (sample_doc_heap @
       [Var (GIface any_type (GScalar ''float64'' ''1'')),
        Entries [(GScalar ''string'' ''limits'', GIface any_type (GSlice json_array 2 1))]],
      GIface any_type (GMap json_object 3))
   \<and> Collect (reach (sample_doc_heap @ [Var (GIface any_type (GScalar ''float64'' ''1'')),
        Entries [(GScalar ''string'' ''limits'', GIface any_type (GSlice json_array 2 1))]])
      (GIface any_type (GMap json_object 3))) \<subseteq> {2..}"
proof -
  have c: "Clone 6 sample_doc_heap sample_doc = Some (sample_doc_heap @
       [Var (GIface any_type (GScalar ''float64'' ''1'')),
        Entries [(GScalar ''string'' ''limits'', GIface any_type (GSlice json_array 2 1))]],
      GIface any_type (GMap json_object 3))"
    by (simp add: sample_defs deref_def entries_def elems_def List.map_filter_simps eval_nat_numeral)
  have "length sample_doc_heap = 2" by (simp add: sample_doc_heap_def)
  with clone_independent [OF c sample_doc_ok(1,2,5,3,4)] c show ?thesis by (auto simp only: Collect_mono_iff mem_Collect_eq subset_iff atLeast_iff)
qed

text \<open>C22. ValidateCloneSafe accepts a value whose copy shares its cells. Here a struct has an unexported
  struct field that in turn has an exported map: the unexported field is itself of no mutable kind, so
  the walk goes on to the map and finds it exported; Clone cannot set the unexported field and leaves
  the original's map in the copy.\<close>

theorem accepted_but_aliased:
  "ValidateCloneSafe [Entries [(GScalar ''string'' ''rps'', GScalar ''int'' ''10'')]]
     (GIface any_type (GStruct ''Config'' [(''inner'', False,
        GStruct ''limits'' [(''ByTenant'', True, GMap ''map[string]int'' 0)])])) = None
   \<and> (\<exists>h' w. Clone 5 [Entries [(GScalar ''string'' ''rps'', GScalar ''int'' ''10'')]]
        (GIface any_type (GStruct ''Config'' [(''inner'', False,
           GStruct ''limits'' [(''ByTenant'', True, GMap ''map[string]int'' 0)])])) = Some (h', w)
      \<and> reach h' w 0)"
  by (auto simp: ValidateCloneSafe_def timeType_def mutableCloneKind_def entries_def set_cloned_def
      eval_nat_numeral intro: reach_here)

end
