(* ===== verification/Typed_Groups.thy ===== *)
theory Typed_Groups
  imports Client_Theorems Coordinator
begin

text \<open>
  Typed groups (\<^verbatim>\<open>api_group.go\<close>, \<^verbatim>\<open>internal/group/codec.go\<close>): one registered key whose value is the
  JSON document of a Go type T. What encoding/json does at T is the record \<open>go_type\<close>, what it does
  to a document is \<open>to_json\<close> and the engine's own decoder. A group is never nil here.
\<close>

subsection \<open>The conversion between a type and its document\<close>

text \<open>\<open>gt_cast\<close> is the assertion \<open>v.(T)\<close> on a document, which holds for some T (a map, an interface).\<close>

record 'v go_type =
  gt_marshal :: "'v \<Rightarrow> err + bytes"
  gt_unmarshal :: "bytes \<Rightarrow> err + 'v"
  gt_cast :: "json \<Rightarrow> 'v option"
  gt_zero :: 'v

type_synonym to_json = "json \<Rightarrow> err + bytes"

definition Canonical :: "(bytes \<Rightarrow> json option) \<Rightarrow> err + bytes \<Rightarrow> err + json" where
  "Canonical um marshaled =
     (case marshaled of
        Inl er \<Rightarrow> Inl (Wrap NoNote [er])
      | Inr data \<Rightarrow>
          (case um data of None \<Rightarrow> Inl (Wrap NoNote [Sentinel ErrDecode]) | Some document \<Rightarrow> Inr document))"

definition Decode :: "'v go_type \<Rightarrow> to_json \<Rightarrow> json \<Rightarrow> err + 'v" where
  "Decode gt dm v =
     (if v = JNull then Inr (gt_zero gt)
      else case gt_cast gt v of
        Some typed \<Rightarrow> Inr typed
      | None \<Rightarrow>
      (case dm v of
         Inl er \<Rightarrow> Inl (Wrap NoNote [er])
       | Inr data \<Rightarrow>
           (case gt_unmarshal gt data of Inl er \<Rightarrow> Inl (Wrap NoNote [er]) | Inr decoded \<Rightarrow> Inr decoded)))"

subsection \<open>Bind\<close>

record 'v group =
  gr_ns :: string
  gr_key :: string
  gr_multiTenant :: bool
  gr_coordinator :: "'v coordinator"
  gr_subscribeErr :: "err option"

definition nullIsDocument :: "'v go_type \<Rightarrow> (bytes \<Rightarrow> json option) \<Rightarrow> bool" where
  "nullIsDocument gt um \<longleftrightarrow> Canonical um (gt_marshal gt (gt_zero gt)) = Inr JNull"

definition bind_ingress ::
  "'v go_type \<Rightarrow> to_json \<Rightarrow> (bytes \<Rightarrow> json option) \<Rightarrow> ('v \<Rightarrow> vres) option \<Rightarrow> json \<Rightarrow> vres"
where
  "bind_ingress gt dm um validate value =
     (case Canonical um (dm value) of
        Inl er \<Rightarrow> VErr er
      | Inr document \<Rightarrow>
          if document = JNull \<and> \<not> nullIsDocument gt um then VErr (Sentinel (Foreign ''null document''))
          else case Decode gt dm document of
            Inl er \<Rightarrow> VErr er
          | Inr decoded \<Rightarrow> (case validate of None \<Rightarrow> VOk | Some f \<Rightarrow> f decoded))"

text \<open>
  \<open>opts\<close> is what the caller's options leave behind; Bind's own validator goes last. A document is
  always cloneable. The subscription is the group's one, and the coordinator is fresh.
\<close>

definition bind_options ::
  "'v go_type \<Rightarrow> to_json \<Rightarrow> (bytes \<Rightarrow> json option) \<Rightarrow> ('v \<Rightarrow> vres) option \<Rightarrow> json \<Rightarrow>
     registration \<Rightarrow> registration"
where
  "bind_options gt dm um validate canonical opts =
     opts\<lparr>rg_cloneSafe := None, rg_validator := Some (\<lambda>_. bind_ingress gt dm um validate),
       rg_marshaled := dm canonical\<rparr>"

definition Bind ::
  "'v go_type \<Rightarrow> to_json \<Rightarrow> string \<Rightarrow> string \<Rightarrow> 'v \<Rightarrow> ('v \<Rightarrow> vres) option \<Rightarrow> registration \<Rightarrow> client \<Rightarrow>
     client \<times> (err + 'v group \<times> subscription option)"
where
  "Bind gt dm ns key defaults validate opts c =
     (let um = e_unmarshal (cl_engine c) in
      case Canonical um (gt_marshal gt defaults) of
        Inl er \<Rightarrow> (c, Inl (validation [er]))
      | Inr canonical \<Rightarrow>
      (case Register ns key (bind_options gt dm um validate canonical opts) c of
         (c1, Some er) \<Rightarrow> (c1, Inl er)
       | (c1, None) \<Rightarrow>
           (case client_OnChange ns key True c1 of
              (c2, sub, subscribeErr) \<Rightarrow>
                (c2, Inr (\<lparr>gr_ns = ns, gr_key = key, gr_multiTenant = cl_multiTenant c1,
                           gr_coordinator = newCoordinator, gr_subscribeErr = subscribeErr\<rparr>, sub)))))"

subsection \<open>Reads and writes\<close>

record 'v Snapshot =
  sn_value :: 'v
  sn_rev :: int
  sn_tenant :: string
  sn_stale :: bool

definition snapshot_of ::
  "'v go_type \<Rightarrow> to_json \<Rightarrow> ctx option \<Rightarrow> 'v group \<Rightarrow> reading \<Rightarrow> err + 'v Snapshot"
where
  "snapshot_of gt dm x g r =
     (case r of (ent, ok, er) \<Rightarrow>
        (case er of
           Some e \<Rightarrow> Inl e
         | None \<Rightarrow>
             if \<not> ok then Inl (wrap_key ErrUnknownKey (NSKey (gr_ns g) (gr_key g)))
             else case Decode gt dm (pe_value ent) of
               Inl e \<Rightarrow> Inl (Wrap (AtKey (gr_ns g) (gr_key g)) [Sentinel ErrValidation, e])
             | Inr v \<Rightarrow> Inr \<lparr>sn_value = v, sn_rev = pe_rev ent,
                 sn_tenant = (if gr_multiTenant g then (case x of None \<Rightarrow> [] | Some xx \<Rightarrow> ctx_tenant xx) else []),
                 sn_stale = pe_stale ent\<rparr>))"

definition group_Snapshot ::
  "'v go_type \<Rightarrow> to_json \<Rightarrow> time \<Rightarrow> ctx option \<Rightarrow> read_answer \<Rightarrow> 'v group \<Rightarrow> client \<Rightarrow>
     client \<times> bool \<times> (err + 'v Snapshot)"
where
  "group_Snapshot gt dm now x ans g c =
     (case getEntry now x (gr_ns g) (gr_key g) ans c of
        (c', started, r) \<Rightarrow> (c', started, snapshot_of gt dm x g r))"

definition group_Set ::
  "'v go_type \<Rightarrow> ctx option \<Rightarrow> 'v \<Rightarrow> string \<Rightarrow> time \<Rightarrow> (client \<Rightarrow> client) \<Rightarrow> set_answer \<Rightarrow> 'v group \<Rightarrow>
     client \<Rightarrow> client \<times> bool \<times> err option"
where
  "group_Set gt x value actor now during ans g c =
     client_Set x (gr_ns g) (gr_key g) (gt_marshal gt value) actor now during ans c"

subsection \<open>Deliveries\<close>

definition group_publish :: "change \<Rightarrow> Publication" where
  "group_publish ch = \<lparr>gp_tenant = ch_tenant ch, gp_rev = ch_rev ch, gp_value = ch_value ch\<rparr>"

text \<open>The seed, with what the coordinator makes of the entry it reads.\<close>

definition seedCurrentEntry :: "'v go_type \<Rightarrow> to_json \<Rightarrow> 'v group \<Rightarrow> client \<Rightarrow> 'v seed_answer" where
  "seedCurrentEntry gt dm g c =
     (if gr_multiTenant g then Seed_Absent
      else case snd (snd (getEntry 0 (Some background) (gr_ns g) (gr_key g) Row_Missing c)) of
        (ent, ok, er) \<Rightarrow>
          (case er of
             Some e \<Rightarrow> Seed_Failed e
           | None \<Rightarrow>
               if \<not> ok \<or> pe_stale ent then Seed_Absent
               else Seed_Read \<lparr>gp_tenant = [], gp_rev = pe_rev ent, gp_value = pe_value ent\<rparr>
                 (Decode gt dm (pe_value ent))
                 (case dm (pe_value ent) of Inl _ \<Rightarrow> None | Inr b \<Rightarrow> Some b)))"

text \<open>\<open>OnApply\<close> up to the replay: the applier's identifier and the scopes to drain.\<close>

definition OnApply ::
  "bool \<Rightarrow> nat \<Rightarrow> 'v seed_answer \<Rightarrow> 'v group \<Rightarrow> 'v group \<times> (nat \<times> string list) option \<times> err option"
where
  "OnApply hasFn bg seed g =
     (case gr_subscribeErr g of
        Some er \<Rightarrow> (g, None, Some er)
      | None \<Rightarrow>
          if \<not> hasFn then (g, None, None)
          else case add_applier bg seed (gr_coordinator g) of
            (co, n, ts, readErr) \<Rightarrow> (g\<lparr>gr_coordinator := co\<rparr>, Some (n, ts), readErr))"

definition appliedSnapshot :: "'v Decoded \<Rightarrow> 'v Snapshot" where
  "appliedSnapshot d =
     \<lparr>sn_value = dc_value d, sn_rev = dc_rev d, sn_tenant = dc_tenant d, sn_stale = False\<rparr>"

definition visible_status :: "client \<Rightarrow> 'v group \<Rightarrow> Status list" where
  "visible_status c g =
     filter (\<lambda>st. \<not> TenantBlocked (st_tenant st) c) (group_Status (gr_coordinator g))"

subsection \<open>A write comes back\<close>

text \<open>What encoding/json owes a value: its document, marshalled again, reads back as the value.\<close>

definition faithful :: "'v go_type \<Rightarrow> to_json \<Rightarrow> (bytes \<Rightarrow> json option) \<Rightarrow> 'v \<Rightarrow> bool" where
  "faithful gt dm um v \<longleftrightarrow>
     (case Canonical um (gt_marshal gt v) of Inl _ \<Rightarrow> False | Inr d \<Rightarrow> Decode gt dm d = Inr v)"

lemma faithfulE:
  assumes "faithful gt dm um v"
  obtains raw d where "gt_marshal gt v = Inr raw" and "um raw = Some d" and "Decode gt dm d = Inr v"
  using assms by (auto simp: faithful_def Canonical_def split: sum.splits option.splits)

text \<open>A typed group gives back what was written. When Set of a document answers nil, the caller's
  next Snapshot in the same scope, served by the cache or by the store, answers without an error and
  is that document at the revision the store gave it, or it is of a newer revision. It rests on the
  document being one that JSON carries whole.\<close>

theorem group_set_then_snapshot:
  assumes "group_Set gt (Some x) value actor now during (Stored n) g c = (c', called, None)"
    and "faithful gt dm (e_unmarshal (cl_engine c)) value"
    and "same_setup c (during c)" and "serving (cl_engine (during c))" and "\<not> cl_closed c'"
    and "gt_marshal gt value = Inr (row_value r)" and "row_rev r = n"
  shows "\<exists>ent. snd (snd (getEntry later (Some x) (gr_ns g) (gr_key g) (Row_Found r) c')) = (ent, True, None)
    \<and> (n < pe_rev ent
       \<or> (\<exists>s. snd (snd (group_Snapshot gt dm later (Some x) (Row_Found r) g c')) = Inr s
             \<and> sn_value s = value \<and> sn_rev s = n))"
proof -
  from assms(2) obtain raw d where d: "gt_marshal gt value = Inr raw"
    "e_unmarshal (cl_engine c) raw = Some d" "Decode gt dm d = Inr value" by (rule faithfulE)
  have set: "client_Set (Some x) (gr_ns g) (gr_key g) (Inr raw) actor now during (Stored n) c = (c', called, None)"
    using assms(1) d(1) by (simp add: group_Set_def)
  have "row_value r = raw" using assms(6) d(1) by simp
  from Set_read_back [OF set assms(3-5) d(2) this assms(7)]
  obtain ent where ent: "snd (snd (getEntry later (Some x) (gr_ns g) (gr_key g) (Row_Found r) c')) = (ent, True, None)"
    and val: "pe_rev ent = n \<and> pe_value ent = d \<or> n < pe_rev ent" by auto
  obtain c2 l q where "getEntry later (Some x) (gr_ns g) (gr_key g) (Row_Found r) c' = (c2, l, q)"
    by (cases "getEntry later (Some x) (gr_ns g) (gr_key g) (Row_Found r) c'")
  with ent have read: "getEntry later (Some x) (gr_ns g) (gr_key g) (Row_Found r) c' = (c2, l, ent, True, None)"
    by simp
  show ?thesis using ent val d(3) by (auto simp: group_Snapshot_def read snapshot_of_def)
qed

text \<open>On the sample client the document of a string is its bytes.\<close>

definition text_type :: "string go_type" where
  "text_type = \<lparr>gt_marshal = Inr, gt_unmarshal = Inr,
     gt_cast = (\<lambda>v. case v of JStr s \<Rightarrow> Some s | _ \<Rightarrow> None), gt_zero = []\<rparr>"

definition text_json :: to_json where
  "text_json v = (case v of JStr s \<Rightarrow> Inr s | _ \<Rightarrow> Inl (Sentinel (Foreign ''not a text'')))"

definition sample_group :: "string group" where
  "sample_group = \<lparr>gr_ns = ''app'', gr_key = ''limit'', gr_multiTenant = False,
     gr_coordinator = newCoordinator, gr_subscribeErr = None\<rparr>"

theorem group_set_then_snapshot_witness:
  "\<exists>c' ent. group_Set text_type (Some acme) ''6'' ''op'' 7 (\<lambda>c. c) (Stored 4) sample_group
       (sample_client False) = (c', True, None)
    \<and> snd (snd (getEntry 9 (Some acme) ''app'' ''limit'' (Row_Found (sample_row ''6'' 4)) c')) = (ent, True, None)
    \<and> (4 < pe_rev ent
       \<or> (\<exists>s. snd (snd (group_Snapshot text_type text_json 9 (Some acme) (Row_Found (sample_row ''6'' 4))
               sample_group c')) = Inr s \<and> sn_value s = ''6'' \<and> sn_rev s = 4))"
proof -
  from sample_Set obtain c' where c': "client_Set (Some acme) ''app'' ''limit'' (Inr ''6'') ''op'' 7
      (\<lambda>c. c) (Stored 4) (sample_client False) = (c', True, None)" "\<not> cl_closed c'" by blast
  then have set: "group_Set text_type (Some acme) ''6'' ''op'' 7 (\<lambda>c. c) (Stored 4) sample_group
      (sample_client False) = (c', True, None)"
    by (simp add: group_Set_def sample_group_def text_type_def)
  have f: "faithful text_type text_json (e_unmarshal (cl_engine (sample_client False))) ''6''"
    by (simp add: faithful_def Canonical_def Decode_def text_type_def sample_decoder_def)
  from group_set_then_snapshot [OF set f _ _ c'(2), of "sample_row ''6'' 4" 9] set
  show ?thesis by (simp add: sample_group_def text_type_def)
qed

subsection \<open>What Bind leaves behind\<close>

definition bound_def ::
  "'v go_type \<Rightarrow> to_json \<Rightarrow> (bytes \<Rightarrow> json option) \<Rightarrow> ('v \<Rightarrow> vres) option \<Rightarrow> json \<Rightarrow> string \<Rightarrow>
     client_keydef"
where
  "bound_def gt dm um validate d description =
     \<lparr>cd_default = d, cd_description = description,
      cd_validator = Some (\<lambda>_. bind_ingress gt dm um validate), cd_writeValidator = None\<rparr>"

lemma Bind_registers:
  assumes "Bind gt dm ns key defaults validate opts c = (c', Inr (g, sub))"
    and "e_unmarshal (cl_engine c) = um"
  obtains canonical raw d where "Canonical um (gt_marshal gt defaults) = Inr canonical"
    and "dm canonical = Inr raw" and "um raw = Some d"
    and "bind_ingress gt dm um validate d = VOk"
    and "fmlookup (cl_registry c') (NSKey ns key) = Some (bound_def gt dm um validate d (rg_description opts))"
    and "gr_ns g = ns" and "gr_key g = key" and "gr_multiTenant g = cl_multiTenant c"
    and "\<not> cl_closed c'" and "cl_multiTenant c' = cl_multiTenant c"
    and "e_scopes (cl_engine c') = e_scopes (cl_engine c)" and "e_unmarshal (cl_engine c') = um"
    and "e_registry (cl_engine c') = Some (engine_view (cl_registry c'))"
proof -
  from assms obtain canonical where can: "Canonical um (gt_marshal gt defaults) = Inr canonical"
    by (auto simp: Bind_def Let_def split: sum.splits)
  let ?rg = "bind_options gt dm um validate canonical opts"
  obtain c1 where reg: "Register ns key ?rg c = (c1, None)"
    using assms can by (auto simp: Bind_def Let_def split: sum.splits prod.splits option.splits)
  have wv: "rg_writeValidator opts = None"
    using reg by (auto simp: Register_def bind_options_def split: if_splits option.splits)
  obtain raw d where raw: "dm canonical = Inr raw" "um raw = Some d"
    and ok: "runValidator background (Some (\<lambda>_. bind_ingress gt dm um validate)) d = None"
    and c1: "\<not> cl_closed c" "c1 = c\<lparr>cl_registry := fmupd (NSKey ns key)
        (bound_def gt dm um validate d (rg_description opts)) (cl_registry c),
      cl_engine := (cl_engine c)\<lparr>e_registry := Some (engine_view (fmupd (NSKey ns key)
        (bound_def gt dm um validate d (rg_description opts)) (cl_registry c)))\<rparr>\<rparr>"
    using reg assms(2) wv
    by (auto simp: Register_def bind_options_def bound_def_def canonicalValue_def Let_def
        split: if_splits option.splits sum.splits)
  from assms(1,2) can reg obtain serr where oc: "client_OnChange ns key True c1 = (c', sub, serr)"
    and g: "g = \<lparr>gr_ns = ns, gr_key = key, gr_multiTenant = cl_multiTenant c1,
      gr_coordinator = newCoordinator, gr_subscribeErr = serr\<rparr>"
    by (auto simp: Bind_def Let_def split: prod.splits)
  have c': "cl_registry c' = cl_registry c1" "cl_closed c' = cl_closed c1"
    "cl_multiTenant c' = cl_multiTenant c1" "e_scopes (cl_engine c') = e_scopes (cl_engine c1)"
    "e_unmarshal (cl_engine c') = e_unmarshal (cl_engine c1)"
    "e_registry (cl_engine c') = e_registry (cl_engine c1)"
    using oc by (auto simp: client_OnChange_def eng_OnChange_def Let_def split: if_splits)
  from ok have "bind_ingress gt dm um validate d = VOk"
    by (auto simp: runValidator_def split: vres.splits)
  then show ?thesis
    by (intro that [OF can raw]) (use c1 c' g assms(2) in simp_all)
qed

text \<open>What Bind puts in force. When Bind answers a group on a client that is not serving yet, Snapshot
  of a single-tenant group answers at once: the type's value of the defaults' document, at revision 0
  and stale. That value passed the consumer's own validator, and is no null unless null is a document
  of the type. The defaults' document is assumed to read back as itself, as decoded JSON does.\<close>

theorem bind_serves_defaults:
  assumes "Bind gt dm ns key defaults validate opts c = (c', Inr (g, sub))"
    and "Canonical (e_unmarshal (cl_engine c)) (gt_marshal gt defaults) = Inr d"
    and "Canonical (e_unmarshal (cl_engine c)) (dm d) = Inr d"
    and "\<not> cl_multiTenant c" and "e_scopes (cl_engine c) (Scope []) = None"
  shows "\<exists>v. snd (snd (group_Snapshot gt dm now (Some x) ans g c'))
        = Inr \<lparr>sn_value = v, sn_rev = 0, sn_tenant = [], sn_stale = True\<rparr>
      \<and> Decode gt dm d = Inr v \<and> (\<forall>f. validate = Some f \<longrightarrow> f v = VOk)
      \<and> (d = JNull \<longrightarrow> nullIsDocument gt (e_unmarshal (cl_engine c)))"
proof -
  let ?um = "e_unmarshal (cl_engine c)"
  obtain raw d' where raw: "dm d = Inr raw" "?um raw = Some d'"
    and ok: "bind_ingress gt dm ?um validate d' = VOk"
    and reg: "fmlookup (cl_registry c') (NSKey ns key) = Some (bound_def gt dm ?um validate d' (rg_description opts))"
    and g: "gr_ns g = ns" "gr_key g = key" "gr_multiTenant g = cl_multiTenant c"
    and c': "\<not> cl_closed c'" "cl_multiTenant c' = cl_multiTenant c" "e_scopes (cl_engine c') = e_scopes (cl_engine c)"
    using Bind_registers [OF assms(1) refl] assms(2) by (metis sum.inject(2))
  have d': "d' = d" using assms(3) raw by (simp add: Canonical_def)
  from ok d' assms(3) obtain v where v: "Decode gt dm d = Inr v"
    "\<forall>f. validate = Some f \<longrightarrow> f v = VOk" "d = JNull \<longrightarrow> nullIsDocument gt ?um"
    by (auto simp: bind_ingress_def split: if_splits sum.splits option.splits)
  have "trackedScope (cl_engine c') (Scope []) = None" using c'(3) assms(5) by (simp add: trackedScope_def)
  then have "snd (snd (getEntry now (Some x) ns key ans c')) = ((zero_Entry\<lparr>pe_value := d, pe_stale := True\<rparr>), True, None)"
    using c' reg assms(4)
    by (simp add: getEntry_def singleTenantEntry_def Lookup_def default_Entry_def bound_def_def d')
  then have "snd (snd (group_Snapshot gt dm now (Some x) ans g c'))
      = Inr \<lparr>sn_value = v, sn_rev = 0, sn_tenant = [], sn_stale = True\<rparr>"
    using g assms(4) v(1)
    by (auto simp: group_Snapshot_def snapshot_of_def zero_Entry_def split: prod.splits)
  with v show ?thesis by blast
qed

text \<open>C23. A null never blanks a typed group. On a key Bind registered for a type whose zero value is not
  null, no ingress lets a document that is null through: Set refuses it with ErrValidation before the
  store is called, a per-request read of such a row serves the defaults, and the engine's ingress of
  such a row, from a reconcile or a change event, publishes nothing.\<close>

theorem null_never_blanks:
  assumes "Bind gt dm ns key defaults validate opts c = (c', Inr (g, sub))"
    and "\<not> nullIsDocument gt (e_unmarshal (cl_engine c))"
    and "Canonical (e_unmarshal (cl_engine c)) (dm JNull) = Inr JNull"
    and "e_unmarshal (cl_engine c) raw = Some JNull"
  shows "(\<exists>er. client_Set x ns key (Inr raw) actor now during ans c' = (c', False, Some er)
        \<and> (cl_started c' \<longrightarrow> x \<noteq> None \<longrightarrow> err_is er ErrValidation))
    \<and> (\<exists>def. fmlookup (cl_registry c') (NSKey ns key) = Some def
        \<and> readThrough xx (NSKey ns key) def raw c' = Inr (cd_default def, False))
    \<and> (\<forall>se. row_nk se = NSKey ns key \<and> row_value se = raw \<longrightarrow>
        (\<exists>er. prepare xx sco se False (cl_engine c') = Inl er))"
proof -
  let ?um = "e_unmarshal (cl_engine c)"
  obtain d where reg: "fmlookup (cl_registry c') (NSKey ns key)
        = Some (bound_def gt dm ?um validate d (rg_description opts))"
    and c': "\<not> cl_closed c'" "e_unmarshal (cl_engine c') = ?um"
      "e_registry (cl_engine c') = Some (engine_view (cl_registry c'))"
    using Bind_registers [OF assms(1) refl] by metis
  have bad: "\<exists>er. runValidator y (Some (\<lambda>_. bind_ingress gt dm ?um validate)) JNull = Some er" for y
    using assms(2,3) by (simp add: runValidator_def bind_ingress_def)
  have set: "\<exists>er. set_row x ns key (Inr raw) actor now c' = Inl er
      \<and> (cl_started c' \<longrightarrow> x \<noteq> None \<longrightarrow> err_is er ErrValidation)"
  proof (cases x)
    case (Some y)
    from bad [of y] obtain er where "runValidator y (Some (\<lambda>_. bind_ingress gt dm ?um validate)) JNull = Some er" ..
    with Some c' reg assms(4) show ?thesis
      by (simp add: set_row_def bound_def_def Let_def validation_def)
  qed (use c' in \<open>simp add: set_row_def\<close>)
  have "runValidator xx (readBackValidator (bound_def gt dm ?um validate d (rg_description opts))) JNull \<noteq> None"
    using bad [of xx] by (auto simp: readBackValidator_def bound_def_def)
  then have read: "readThrough xx (NSKey ns key) (bound_def gt dm ?um validate d (rg_description opts)) raw c'
      = Inr (d, False)"
    using assms(4) c'(2) by (auto simp: readThrough_def bound_def_def)
  have prep: "\<exists>er. prepare xx sco se False (cl_engine c') = Inl er"
    if "row_nk se = NSKey ns key" "row_value se = raw" for se
  proof -
    from bad [of "validatorCtx (cl_engine c') xx sco"] obtain er
      where "runValidator (validatorCtx (cl_engine c') xx sco)
        (Some (\<lambda>_. bind_ingress gt dm ?um validate)) JNull = Some er" ..
    with that c' reg assms(4) show ?thesis
      by (simp add: prepare_def eng_lookup_def client_Lookup_def readBackValidator_def bound_def_def)
  qed
  show ?thesis using set read prep reg by (auto simp: client_Set_def bound_def_def)
qed

text \<open>A single-tenant client before Start, and a group of texts bound on it.\<close>

definition fresh_client :: client where
  "fresh_client = newClient True False False sample_decoder True"

definition plain_options :: registration where
  "plain_options = \<lparr>rg_cloneSafe = None, rg_description = ''a text'', rg_validator = None,
     rg_writeValidator = None, rg_catalogSafe = None, rg_marshaled = Inl (Sentinel ErrDecode)\<rparr>"

lemma sample_Bind:
  "\<exists>c' g sub. Bind text_type text_json ''app'' ''motd'' ''hi'' None plain_options fresh_client = (c', Inr (g, sub))"
  by (simp add: Bind_def Canonical_def text_type_def text_json_def fresh_client_def newClient_def
      new_engine_def sample_decoder_def Register_def bind_options_def plain_options_def canonicalValue_def
      isReservedCatalogKey_def runValidator_def bind_ingress_def Decode_def Let_def split: prod.split)

theorem bind_serves_defaults_witness:
  "\<exists>c' g sub. Bind text_type text_json ''app'' ''motd'' ''hi'' None plain_options fresh_client = (c', Inr (g, sub))
    \<and> snd (snd (group_Snapshot text_type text_json 9 (Some acme) Row_Missing g c'))
        = Inr \<lparr>sn_value = ''hi'', sn_rev = 0, sn_tenant = [], sn_stale = True\<rparr>"
proof -
  obtain c' g sub where b: "Bind text_type text_json ''app'' ''motd'' ''hi'' None plain_options fresh_client
      = (c', Inr (g, sub))" using sample_Bind by blast
  have "Canonical (e_unmarshal (cl_engine fresh_client)) (gt_marshal text_type ''hi'') = Inr (JStr ''hi'')"
    "Canonical (e_unmarshal (cl_engine fresh_client)) (text_json (JStr ''hi'')) = Inr (JStr ''hi'')"
    "\<not> cl_multiTenant fresh_client" "e_scopes (cl_engine fresh_client) (Scope []) = None"
    by (simp_all add: Canonical_def text_type_def text_json_def fresh_client_def newClient_def
        new_engine_def sample_decoder_def)
  from bind_serves_defaults [OF b this, of 9 acme Row_Missing] b show ?thesis
    by (auto simp: Decode_def text_type_def)
qed

end
