(* ===== verification/Decimals.thy ===== *)
theory Decimals
  imports Prelude
begin

text \<open>Decimal digits, as \<^verbatim>\<open>strconv\<close> and \<^verbatim>\<open>fmt\<close>'s \<open>%d\<close> write them and as they are read back.\<close>

fun print_nat :: "nat \<Rightarrow> string" where
  "print_nat n = (if n < 10 then [char_of (48 + n)] else print_nat (n div 10) @ [char_of (48 + n mod 10)])"

declare print_nat.simps [simp del]

definition digit :: "char \<Rightarrow> nat option" where
  "digit c = (let d = of_char c :: nat in if 48 \<le> d \<and> d < 58 then Some (d - 48) else None)"

fun parse_digits :: "nat \<Rightarrow> string \<Rightarrow> nat option" where
  "parse_digits acc [] = Some acc"
| "parse_digits acc (c # cs) =
     (case digit c of None \<Rightarrow> None | Some d \<Rightarrow> parse_digits (10 * acc + d) cs)"

definition parse_nat :: "string \<Rightarrow> nat option" where
  "parse_nat s = (if s = [] then None else parse_digits 0 s)"

definition minus_sign :: char where "minus_sign = CHR ''-''"

definition print_int :: "int \<Rightarrow> string" where
  "print_int k = (if k < 0 then minus_sign # print_nat (nat (- k)) else print_nat (nat k))"

definition parse_int :: "string \<Rightarrow> int option" where
  "parse_int s =
     (case s of [] \<Rightarrow> None
      | c # cs \<Rightarrow> if c = minus_sign then map_option (\<lambda>n. - int n) (parse_nat cs)
                 else map_option int (parse_nat s))"

lemma digit_char: "d < 10 \<Longrightarrow> digit (char_of (48 + d)) = Some d"
  by (simp add: digit_def Let_def)

lemma parse_digits_append:
  "parse_digits acc (s @ t) = (case parse_digits acc s of None \<Rightarrow> None | Some n \<Rightarrow> parse_digits n t)"
  by (induction s arbitrary: acc) (auto split: option.splits)

lemma print_nat_ne: "print_nat n \<noteq> []"
  by (subst print_nat.simps) simp

lemma parse_print_nat: "parse_digits 0 (print_nat n) = Some n"
proof (induction n rule: less_induct)
  case (less n)
  show ?case
  proof (cases "n < 10")
    case True
    then show ?thesis by (subst print_nat.simps) (simp add: digit_char)
  next
    case False
    with less [of "n div 10"] have "parse_digits 0 (print_nat (n div 10)) = Some (n div 10)" by simp
    with False show ?thesis
      by (subst print_nat.simps) (simp add: parse_digits_append digit_char)
  qed
qed

lemma print_nat_no_minus: "hd (print_nat n) \<noteq> minus_sign"
proof -
  have "\<exists>d < 10. hd (print_nat n) = char_of (48 + d :: nat)"
  proof (induction n rule: less_induct)
    case (less n)
    show ?case
    proof (cases "n < 10")
      case True
      then show ?thesis by (subst print_nat.simps) auto
    next
      case False
      with less [of "n div 10"] show ?thesis
        by (subst print_nat.simps) (simp add: hd_append2 print_nat_ne)
    qed
  qed
  then obtain d :: nat where d: "d < 10" "hd (print_nat n) = char_of (48 + d)" by blast
  have "char_of (48 + d) \<noteq> minus_sign"
  proof
    assume "char_of (48 + d) = minus_sign"
    then have "(of_char (char_of (48 + d)) :: nat) = of_char minus_sign" by simp
    with d(1) show False by (simp add: minus_sign_def)
  qed
  with d(2) show ?thesis by simp
qed

lemma parse_print_int: "parse_int (print_int k) = Some k"
proof (cases "k < 0")
  case True
  then show ?thesis
    by (simp add: print_int_def parse_int_def parse_nat_def print_nat_ne parse_print_nat)
next
  case False
  obtain c cs where p: "print_nat (nat k) = c # cs" using print_nat_ne by (cases "print_nat (nat k)") auto
  with print_nat_no_minus [of "nat k"] have "c \<noteq> minus_sign" by simp
  with False p parse_print_nat [of "nat k"] show ?thesis
    by (simp add: print_int_def parse_int_def parse_nat_def)
qed

text \<open>The characters of a number.\<close>

lemma print_nat_digits: "c \<in> set (print_nat n) \<Longrightarrow> \<exists>d. digit c = Some d"
proof (induction n arbitrary: c rule: less_induct)
  case (less n)
  show ?case
  proof (cases "n < 10")
    case True
    with less.prems have "c = char_of (48 + n)" by (subst (asm) print_nat.simps) simp
    with True show ?thesis using digit_char by blast
  next
    case False
    with less.prems have "c \<in> set (print_nat (n div 10)) \<or> c = char_of (48 + n mod 10)"
      by (subst (asm) print_nat.simps) auto
    then show ?thesis
    proof
      assume "c \<in> set (print_nat (n div 10))"
      with less.IH [of "n div 10"] False show ?thesis by simp
    next
      assume "c = char_of (48 + n mod 10)"
      then show ?thesis using digit_char [of "n mod 10"] by auto
    qed
  qed
qed

lemma print_int_chars: "c \<in> set (print_int k) \<Longrightarrow> c = minus_sign \<or> (\<exists>d. digit c = Some d)"
  by (auto simp: print_int_def dest: print_nat_digits split: if_splits)

lemma print_int_inj: "print_int j = print_int k \<Longrightarrow> j = k"
  using parse_print_int by (metis option.inject)

end
