(* ===== verification/Typed_Groups_Int.thy ===== *)
theory Typed_Groups_Int
  imports Typed_Groups Typed_Reads Decimals
begin

text \<open>
  A typed group of an int64, with encoding/json on it written out: an int64 is marshalled to its
  decimal digits, a number read into an \<open>any\<close> is a float64, and a float64 that is an integer of at
  most 53 bits is marshalled to the digits again (\<open>far\<close> is what the larger ones become).
\<close>

subsection \<open>encoding/json at int64\<close>

definition null_text :: string where "null_text = ''null''"

definition int64_type :: "64 word go_type" where
  "int64_type =
     \<lparr>gt_marshal = (\<lambda>w. Inr (print_int (sint w))),
      gt_unmarshal = (\<lambda>s. case parse_int s of
          None \<Rightarrow> Inl (Sentinel (Foreign ''not an integer''))
        | Some k \<Rightarrow> if - (2 ^ 63) \<le> k \<and> k < 2 ^ 63 then Inr (word_of_int k)
                   else Inl (Sentinel (Foreign ''out of range''))),
      gt_cast = (\<lambda>_. None), gt_zero = 0\<rparr>"

definition number_decoder :: "bytes \<Rightarrow> json option" where
  "number_decoder s =
     (if s = null_text then Some JNull else map_option (\<lambda>k. JNum (of_int (round53 k))) (parse_int s))"

definition number_json :: "(rat \<Rightarrow> bytes) \<Rightarrow> to_json" where
  "number_json far v =
     (case v of
        JNum q \<Rightarrow> Inr (if q \<in> \<int> \<and> \<bar>q\<bar> \<le> 2 ^ 53 then print_int \<lfloor>q\<rfloor> else far q)
      | JNull \<Rightarrow> Inr null_text
      | _ \<Rightarrow> Inl (Sentinel (Foreign ''not a number'')))"

lemma print_int_not_null: "print_int k \<noteq> null_text"
proof
  assume "print_int k = null_text"
  then have "parse_int null_text = Some k" using parse_print_int [of k] by simp
  moreover have "parse_int null_text = None"
    by (simp add: parse_int_def null_text_def minus_sign_def parse_nat_def digit_def)
  ultimately show False by simp
qed

lemma int64_document: "Canonical number_decoder (gt_marshal int64_type w) = Inr (JNum (of_int (round53 (sint w))))"
  by (simp add: Canonical_def int64_type_def number_decoder_def print_int_not_null parse_print_int)

lemma int64_decode:
  assumes "\<bar>k\<bar> \<le> 2 ^ 53"
  shows "Decode int64_type (number_json far) (JNum (of_int k)) = Inr (word_of_int k)"
proof -
  have "\<bar>of_int k :: rat\<bar> = of_int \<bar>k\<bar>" by simp
  also have "\<dots> \<le> of_int (2 ^ 53)" using assms by (simp only: of_int_le_iff)
  finally have "\<bar>of_int k :: rat\<bar> \<le> 2 ^ 53" by simp
  then have "number_json far (JNum (of_int k)) = Inr (print_int k)" by (simp add: number_json_def)
  moreover have "- (2 ^ 63) \<le> k" "k < 2 ^ 63" using assms by auto
  ultimately show ?thesis
    by (simp add: Decode_def int64_type_def parse_print_int)
qed

lemma sint_small: "\<bar>k\<bar> \<le> 2 ^ 53 \<Longrightarrow> sint (word_of_int k :: 64 word) = k"
  by (rule sint_in_range) auto

lemma round53_edge: "round53 (2 ^ 53) = 2 ^ 53" "round53 (- (2 ^ 53)) = - (2 ^ 53)" "round53 (2 ^ 53 + 1) = 2 ^ 53"
proof -
  show "round53 (2 ^ 53) = 2 ^ 53" by (rule round53_exact [of _ 1 53]) simp_all
  show "round53 (- (2 ^ 53)) = - (2 ^ 53)" by (rule round53_exact [of _ "-1" 53]) simp_all
  have "bitlen (2 ^ 53 + 1) = 54" by code_simp
  then show "round53 (2 ^ 53 + 1) = 2 ^ 53" by (simp add: round53_def Let_def)
qed

lemma round53_upto: "\<bar>k\<bar> \<le> 2 ^ 53 \<Longrightarrow> round53 k = k"
proof -
  assume "\<bar>k\<bar> \<le> 2 ^ 53"
  then consider "\<bar>k\<bar> < 2 ^ 53" | "k = 2 ^ 53" | "k = - (2 ^ 53)" by linarith
  then show ?thesis by cases (simp_all only: round53_small round53_edge)
qed

lemma word_of_int_sint_eq: "word_of_int (sint (w :: 64 word)) = w"
  by simp

text \<open>C24. How far a typed group of integers is exact. Every int64 of magnitude at most \<open>2 ^ 53\<close> comes back
  as itself from the document a write leaves (so \<open>group_set_then_snapshot\<close> applies to it). The very
  next one does not: \<open>2 ^ 53 + 1\<close> is persisted with all its digits and read, without an error, as
  \<open>2 ^ 53\<close>.\<close>

theorem int64_groups_exact:
  "(\<forall>w. \<bar>sint w\<bar> \<le> 2 ^ 53 \<longrightarrow> faithful int64_type (number_json far) number_decoder w)
   \<and> gt_marshal int64_type (2 ^ 53 + 1) = Inr (print_int (2 ^ 53 + 1))
   \<and> Canonical number_decoder (gt_marshal int64_type (2 ^ 53 + 1)) = Inr (JNum (2 ^ 53))
   \<and> Decode int64_type (number_json far) (JNum (2 ^ 53)) = Inr (2 ^ 53)"
proof (intro conjI allI impI)
  fix w :: "64 word" assume "\<bar>sint w\<bar> \<le> 2 ^ 53"
  then show "faithful int64_type (number_json far) number_decoder w"
    using int64_decode [of "sint w"] word_of_int_sint_eq [of w]
    by (simp add: faithful_def int64_document round53_upto del: of_int_sint)
next
  have s: "sint (2 ^ 53 + 1 :: 64 word) = 2 ^ 53 + 1" by code_simp
  then show "gt_marshal int64_type (2 ^ 53 + 1) = Inr (print_int (2 ^ 53 + 1))"
    by (simp add: int64_type_def)
  have "(of_int (2 ^ 53) :: rat) = 2 ^ 53" by simp
  with s round53_edge(3) show "Canonical number_decoder (gt_marshal int64_type (2 ^ 53 + 1)) = Inr (JNum (2 ^ 53))"
    by (simp only: int64_document)
  have "Decode int64_type (number_json far) (JNum (of_int (2 ^ 53))) = Inr (word_of_int (2 ^ 53))"
    by (rule int64_decode) simp
  then show "Decode int64_type (number_json far) (JNum (2 ^ 53)) = Inr (2 ^ 53)" by simp
qed

theorem int64_groups_exact_witness: "faithful int64_type (number_json (\<lambda>_. [])) number_decoder (-5)"
proof -
  have "\<bar>sint (-5 :: 64 word)\<bar> \<le> 2 ^ 53" by code_simp
  with int64_groups_exact [of "\<lambda>_. []"] show ?thesis by blast
qed

subsection \<open>A group of integers on a client\<close>

definition number_client :: client where
  "number_client = newClient True False False number_decoder True"

lemma number_Bind:
  "\<exists>c' g sub. Bind int64_type (number_json (\<lambda>_. [])) ''app'' ''quota'' 5 None plain_options number_client
     = (c', Inr (g, sub))"
proof -
  have s: "sint (5 :: 64 word) = 5" by code_simp
  have "round53 5 = 5" by (rule round53_small) simp
  with int64_document [of 5] s have can: "Canonical number_decoder (gt_marshal int64_type 5) = Inr (JNum 5)" by simp
  have q: "number_json (\<lambda>_. []) (JNum 5) = Inr (print_int 5)" by (simp add: number_json_def)
  have um: "number_decoder (print_int 5) = Some (JNum 5)"
    using \<open>round53 5 = 5\<close> by (simp add: number_decoder_def print_int_not_null parse_print_int)
  have "Decode int64_type (number_json (\<lambda>_. [])) (JNum 5) = Inr 5" using int64_decode [of 5] by simp
  then have "bind_ingress int64_type (number_json (\<lambda>_. [])) number_decoder None (JNum 5) = VOk"
    by (simp add: bind_ingress_def Canonical_def q um)
  then show ?thesis
    by (simp add: Bind_def number_client_def newClient_def new_engine_def can Register_def bind_options_def
        plain_options_def canonicalValue_def q um isReservedCatalogKey_def runValidator_def Let_def
        split: prod.split)
qed

theorem null_never_blanks_witness:
  "\<exists>c' g sub. Bind int64_type (number_json (\<lambda>_. [])) ''app'' ''quota'' 5 None plain_options number_client
       = (c', Inr (g, sub))
    \<and> (\<exists>er. client_Set (Some acme) ''app'' ''quota'' (Inr null_text) ''op'' 7 (\<lambda>c. c) (Stored 4) c'
          = (c', False, Some er))
    \<and> (\<exists>def. readThrough acme (NSKey ''app'' ''quota'') def null_text c' = Inr (cd_default def, False))"
proof -
  obtain c' g sub where b: "Bind int64_type (number_json (\<lambda>_. [])) ''app'' ''quota'' 5 None plain_options
      number_client = (c', Inr (g, sub))" using number_Bind by blast
  have "\<not> nullIsDocument int64_type (e_unmarshal (cl_engine number_client))"
    using int64_document [of 0]
    by (simp add: nullIsDocument_def number_client_def newClient_def new_engine_def int64_type_def)
  moreover have "Canonical (e_unmarshal (cl_engine number_client)) (number_json (\<lambda>_. []) JNull) = Inr JNull"
    "e_unmarshal (cl_engine number_client) null_text = Some JNull"
    by (simp_all add: Canonical_def number_client_def newClient_def new_engine_def number_json_def number_decoder_def)
  ultimately show ?thesis
    using null_never_blanks [OF b, of null_text "Some acme" "''op''" 7 "\<lambda>c. c" "Stored 4" acme] b by blast
qed

end
