(* ===== verification/Pg_Feed.thy ===== *)
theory Pg_Feed
  imports Store_Types "HOL-Library.Multiset"
begin

text \<open>
  One Postgres changefeed and its subscribers (\<^verbatim>\<open>internal/postgres/postgres_listen.go\<close>,
  \<^verbatim>\<open>postgres_notify.go\<close>): what the reader goroutine announces and fans out, what a joining subscriber
  is told, and the signal of a teardown. The connection is outside: when it is lost, when a reconnect
  succeeds and which payloads arrive are choices of the environment. A callback is the event it was
  handed, and holds its subscription's mutex as long as it runs.
\<close>

subsection \<open>The feed\<close>

record feed =
  fd_scope :: scope
  fd_subs :: "nat list"
  fd_nextID :: nat
  fd_connected :: bool
  fd_disconnected :: bool
  fd_closing :: bool
  fd_dispatching :: nat
  fd_reader :: bool

definition newFeed :: "scope \<Rightarrow> feed" where
  "newFeed sco = \<lparr>fd_scope = sco, fd_subs = [], fd_nextID = 0, fd_connected = False,
     fd_disconnected = False, fd_closing = False, fd_dispatching = 0, fd_reader = False\<rparr>"

text \<open>\<open>snapshotLocked\<close> walks a map: the subscribers in any order.\<close>

definition snapshotLocked :: "feed \<Rightarrow> nat list \<Rightarrow> bool" where
  "snapshotLocked f order \<longleftrightarrow> mset order = mset (fd_subs f)"

definition beginDisconnect :: "feed \<Rightarrow> feed \<times> bool" where
  "beginDisconnect f =
     (if fd_closing f \<or> fd_disconnected f then (f, False)
      else (f\<lparr>fd_connected := False, fd_disconnected := True\<rparr>, True))"

definition beginResync :: "feed \<Rightarrow> feed \<times> bool" where
  "beginResync f =
     (if fd_closing f then (f, False)
      else (f\<lparr>fd_connected := True, fd_disconnected := False\<rparr>, True))"

definition joiningOpLocked :: "feed \<Rightarrow> string" where
  "joiningOpLocked f =
     (if fd_connected f then OpResync else if fd_disconnected f then OpDisconnect else [])"

definition beginDispatch :: "feed \<Rightarrow> feed" where
  "beginDispatch f = f\<lparr>fd_dispatching := fd_dispatching f + 1\<rparr>"

definition endDispatch :: "feed \<Rightarrow> feed" where
  "endDispatch f = f\<lparr>fd_dispatching := fd_dispatching f - 1\<rparr>"

text \<open>The one hold of \<open>Subscribe\<close>: the new subscriber and the marker it must be told.\<close>

definition join_feed :: "feed \<Rightarrow> feed \<times> nat \<times> string" where
  "join_feed f =
     (let i = fd_nextID f + 1
      in (f\<lparr>fd_nextID := i, fd_subs := fd_subs f @ [i]\<rparr>, i, joiningOpLocked f))"

definition leave_feed :: "nat \<Rightarrow> feed \<Rightarrow> feed" where
  "leave_feed i f = f\<lparr>fd_subs := filter (\<lambda>j. j \<noteq> i) (fd_subs f)\<rparr>"

text \<open>What a teardown does after its signal: nothing to wait for, not wait for itself, or wait.\<close>

datatype teardown_wait = Nothing_To_Wait | Self_Teardown | Wait_Reader

definition signalFeed :: "bool \<Rightarrow> feed \<Rightarrow> feed \<times> teardown_wait" where
  "signalFeed skipSelfWait f =
     (if fd_closing f then (f, Nothing_To_Wait)
      else (f\<lparr>fd_closing := True\<rparr>,
        if skipSelfWait \<and> 0 < fd_dispatching f then Self_Teardown
        else if fd_reader f then Wait_Reader else Nothing_To_Wait))"

subsection \<open>Payloads\<close>

record notifyPayload =
  np_namespace :: string
  np_key :: string
  np_op :: string
  np_rev :: int

text \<open>\<open>None\<close> is a payload encoding/json does not read; \<open>dispatch\<close> stamps the feed's scope.\<close>

definition parseNotifyPayload :: "notifyPayload option \<Rightarrow> event option" where
  "parseNotifyPayload p =
     (case p of None \<Rightarrow> None
      | Some q \<Rightarrow>
          if np_namespace q = [] \<or> np_key q = [] then None
          else if np_op q \<noteq> OpUpsert \<and> np_op q \<noteq> OpDelete then None
          else Some \<lparr>ev_scope = Scope [], ev_ns = np_namespace q, ev_key = np_key q, ev_op = np_op q,
            ev_rev = np_rev q\<rparr>)"

definition stamp_scope :: "feed \<Rightarrow> event \<Rightarrow> event" where
  "stamp_scope f ev = ev\<lparr>ev_scope := fd_scope f\<rparr>"

definition marker :: "feed \<Rightarrow> string \<Rightarrow> event" where
  "marker f op = \<lparr>ev_scope = fd_scope f, ev_ns = [], ev_key = [], ev_op = op, ev_rev = 0\<rparr>"

subsection \<open>The reader and its subscribers\<close>

text \<open>
  Where the reader goroutine is: not launched; at the top of \<open>runFeed\<close>'s loop; fanning one event out
  to the subscribers still to be called; waiting for notifications; past a lost connection;
  reconnecting; returned.
\<close>

datatype pc = Idle | Top | Fanning event "nat list" | Consuming | Cleaning | Reconnecting | Returned

record feed_world =
  fw_feed :: feed
  fw_pc :: pc
  fw_joining :: "nat \<Rightarrow> string option"
  fw_log :: "(nat \<times> event) list"

definition new_feed_world :: "scope \<Rightarrow> feed_world" where
  "new_feed_world sco =
     \<lparr>fw_feed = newFeed sco, fw_pc = Idle, fw_joining = Map.empty, fw_log = []\<rparr>"

text \<open>Where the reader goes when a fan-out is over.\<close>

definition after_fan :: "event \<Rightarrow> pc" where
  "after_fan ev = (if ev_op ev = OpDisconnect then Cleaning else Consuming)"

inductive feed_step :: "feed_world \<Rightarrow> feed_world \<Rightarrow> bool" where
  joins: "join_feed (fw_feed w) = (f, i, op) \<Longrightarrow>
     feed_step w (w\<lparr>fw_feed := f, fw_joining := (fw_joining w)(i := if op = [] then None else Some op)\<rparr>)"
| told: "fw_joining w i = Some op \<Longrightarrow>
     feed_step w (w\<lparr>fw_joining := (fw_joining w)(i := None),
       fw_log := fw_log w @ [(i, marker (fw_feed w) op)]\<rparr>)"
| leaves: "feed_step w (w\<lparr>fw_feed := leave_feed i (fw_feed w)\<rparr>)"
| signals: "signalFeed skip (fw_feed w) = (f, r) \<Longrightarrow> feed_step w (w\<lparr>fw_feed := f\<rparr>)"
| launches: "fw_pc w = Idle \<Longrightarrow>
     feed_step w (w\<lparr>fw_feed := (fw_feed w)\<lparr>fd_reader := True\<rparr>, fw_pc := Top\<rparr>)"
| resyncs: "fw_pc w = Top \<Longrightarrow> beginResync (fw_feed w) = (f, True) \<Longrightarrow> snapshotLocked f order \<Longrightarrow>
     feed_step w (w\<lparr>fw_feed := beginDispatch f, fw_pc := Fanning (marker f OpResync) order\<rparr>)"
| resync_refused: "fw_pc w = Top \<Longrightarrow> beginResync (fw_feed w) = (f, False) \<Longrightarrow>
     feed_step w (w\<lparr>fw_pc := Consuming\<rparr>)"
| delivers: "fw_pc w = Fanning ev (i # is) \<Longrightarrow> fw_joining w i = None \<Longrightarrow>
     feed_step w (w\<lparr>fw_pc := Fanning ev is, fw_log := fw_log w @ [(i, ev)]\<rparr>)"
| fanned: "fw_pc w = Fanning ev [] \<Longrightarrow>
     feed_step w (w\<lparr>fw_feed := endDispatch (fw_feed w), fw_pc := after_fan ev\<rparr>)"
| notified: "fw_pc w = Consuming \<Longrightarrow> parseNotifyPayload p = Some ev \<Longrightarrow>
     snapshotLocked (fw_feed w) order \<Longrightarrow>
     feed_step w (w\<lparr>fw_feed := beginDispatch (fw_feed w),
       fw_pc := Fanning (stamp_scope (fw_feed w) ev) order\<rparr>)"
| loses: "fw_pc w = Consuming \<Longrightarrow> beginDisconnect (fw_feed w) = (f, True) \<Longrightarrow> snapshotLocked f order \<Longrightarrow>
     feed_step w (w\<lparr>fw_feed := beginDispatch f, fw_pc := Fanning (marker f OpDisconnect) order\<rparr>)"
| lost_quietly: "fw_pc w = Consuming \<Longrightarrow> beginDisconnect (fw_feed w) = (f, False) \<Longrightarrow>
     feed_step w (w\<lparr>fw_pc := Cleaning\<rparr>)"
| cleaned: "fw_pc w = Cleaning \<Longrightarrow>
     feed_step w (w\<lparr>fw_pc := (if fd_closing (fw_feed w) then Returned else Reconnecting)\<rparr>)"
| reconnected: "fw_pc w = Reconnecting \<Longrightarrow> feed_step w (w\<lparr>fw_pc := Top\<rparr>)"
| gives_up: "fw_pc w = Reconnecting \<Longrightarrow> feed_step w (w\<lparr>fw_pc := Returned\<rparr>)"

definition feed_runs :: "scope \<Rightarrow> feed_world \<Rightarrow> bool" where
  "feed_runs sco w \<longleftrightarrow> feed_step\<^sup>*\<^sup>* (new_feed_world sco) w"

subsection \<open>The backoff between reconnects\<close>

text \<open>\<open>grow\<close> is lib-commons' exponential backoff, \<open>jitter\<close> its draw below the ceiling; durations in
  nanoseconds.\<close>

definition backoffBase :: int where "backoffBase = 500000000"
definition backoffCap :: int where "backoffCap = 30000000000"

definition ceiling_of :: "(int \<Rightarrow> nat \<Rightarrow> int) \<Rightarrow> nat \<Rightarrow> int" where
  "ceiling_of grow attempt = min (grow backoffBase attempt) backoffCap"

definition next_delay :: "(int \<Rightarrow> nat \<Rightarrow> int) \<Rightarrow> (int \<Rightarrow> int) \<Rightarrow> nat \<Rightarrow> nat \<times> int" where
  "next_delay grow jitter attempt = (attempt + 1, jitter (ceiling_of grow attempt))"

definition connectionEnded :: "bool \<Rightarrow> int \<Rightarrow> nat \<Rightarrow> nat" where
  "connectionEnded consumed lifetime attempt =
     (if consumed \<or> backoffCap \<le> lifetime then 0 else attempt)"

end
