(* ===== verification/Pg_Feed_Theorems.thy ===== *)
theory Pg_Feed_Theorems
  imports Pg_Feed
begin

text \<open>What a subscriber of a changefeed hears, in every interleaving of the reader, the joiners and
  the leavers.\<close>

subsection \<open>The protocol a subscriber sees\<close>

text \<open>A subscriber's view is the last marker it was told. A resync is news to it and so is a
  disconnect; a key event only comes while the last marker is a resync.\<close>

definition hears :: "string option \<Rightarrow> string \<Rightarrow> bool" where
  "hears s op \<longleftrightarrow>
     (if op = OpResync \<or> op = OpDisconnect then s \<noteq> Some op else s = Some OpResync)"

definition view_after :: "string option \<Rightarrow> string \<Rightarrow> string option" where
  "view_after s op = (if op = OpResync \<or> op = OpDisconnect then Some op else s)"

fun protocol :: "string option \<Rightarrow> string list \<Rightarrow> bool" where
  "protocol s [] \<longleftrightarrow> True"
| "protocol s (op # ops) \<longleftrightarrow> hears s op \<and> protocol (view_after s op) ops"

definition view :: "string option \<Rightarrow> string list \<Rightarrow> string option" where
  "view s ops = foldl view_after s ops"

lemma view_simps [simp]:
  "view s [] = s" "view s (op # ops) = view (view_after s op) ops"
  "view s (xs @ ys) = view (view s xs) ys"
  by (simp_all add: view_def)

lemma protocol_append [simp]: "protocol s (xs @ ys) \<longleftrightarrow> protocol s xs \<and> protocol (view s xs) ys"
  by (induction xs arbitrary: s) auto

lemma ops_distinct [simp]:
  "OpResync \<noteq> OpDisconnect" "OpDisconnect \<noteq> OpResync" "OpUpsert \<noteq> OpResync" "OpUpsert \<noteq> OpDisconnect"
  "OpDelete \<noteq> OpResync" "OpDelete \<noteq> OpDisconnect" "OpResync \<noteq> []" "OpDisconnect \<noteq> []"
  by (simp_all add: op_defs)

lemma parsed_is_key_event:
  "parseNotifyPayload p = Some ev \<Longrightarrow> ev_op ev = OpUpsert \<or> ev_op ev = OpDelete"
  by (auto simp: parseNotifyPayload_def split: option.splits if_splits)

subsection \<open>The invariant\<close>

definition heard_by :: "feed_world \<Rightarrow> nat \<Rightarrow> string list" where
  "heard_by w i = map (ev_op \<circ> snd) (filter (\<lambda>x. fst x = i) (fw_log w))"

text \<open>What is on its way to a subscriber: its joining marker, then the event being fanned out.\<close>

definition coming_to :: "feed_world \<Rightarrow> nat \<Rightarrow> string list" where
  "coming_to w i =
     (case fw_joining w i of None \<Rightarrow> [] | Some op \<Rightarrow> [op])
     @ (case fw_pc w of Fanning ev is \<Rightarrow> if i \<in> set is then [ev_op ev] else [] | _ \<Rightarrow> [])"

definition whole :: "feed_world \<Rightarrow> nat \<Rightarrow> string list" where
  "whole w i = heard_by w i @ coming_to w i"

definition announced :: "feed \<Rightarrow> string option" where
  "announced f = (if fd_connected f then Some OpResync
     else if fd_disconnected f then Some OpDisconnect else None)"

lemma announced_same [simp]:
  "announced (f\<lparr>fd_subs := l\<rparr>) = announced f" "announced (f\<lparr>fd_dispatching := n\<rparr>) = announced f"
  "announced (f\<lparr>fd_reader := b\<rparr>) = announced f" "announced (f\<lparr>fd_nextID := n\<rparr>) = announced f"
  by (simp_all add: announced_def)

text \<open>The reader's position fixes what has been announced, while no teardown has begun.\<close>

definition pc_ok :: "feed \<Rightarrow> pc \<Rightarrow> bool" where
  "pc_ok f p \<longleftrightarrow>
     (case p of
        Idle \<Rightarrow> announced f = None
      | Top \<Rightarrow> announced f \<noteq> Some OpResync
      | Fanning ev is \<Rightarrow> distinct is \<and> (\<forall>i \<in> set is. i \<le> fd_nextID f)
          \<and> announced f = Some (if ev_op ev = OpDisconnect then OpDisconnect else OpResync)
      | Consuming \<Rightarrow> announced f = Some OpResync
      | Cleaning \<Rightarrow> announced f = Some OpDisconnect
      | Reconnecting \<Rightarrow> announced f = Some OpDisconnect
      | Returned \<Rightarrow> True)"

definition feed_ok :: "feed_world \<Rightarrow> bool" where
  "feed_ok w \<longleftrightarrow>
     pc_ok (fw_feed w) (fw_pc w) \<and> (fd_connected (fw_feed w) \<longrightarrow> \<not> fd_disconnected (fw_feed w))
     \<and> distinct (fd_subs (fw_feed w)) \<and> (\<forall>i \<in> set (fd_subs (fw_feed w)). i \<le> fd_nextID (fw_feed w))
     \<and> (\<forall>i. fd_nextID (fw_feed w) < i \<longrightarrow> whole w i = [])
     \<and> (\<forall>i. protocol None (whole w i)
          \<and> (i \<in> set (fd_subs (fw_feed w)) \<longrightarrow> view None (whole w i) = announced (fw_feed w)))"

lemma feed_okI:
  assumes "pc_ok (fw_feed w) (fw_pc w)" and "fd_connected (fw_feed w) \<Longrightarrow> \<not> fd_disconnected (fw_feed w)"
    and "distinct (fd_subs (fw_feed w))" and "\<And>i. i \<in> set (fd_subs (fw_feed w)) \<Longrightarrow> i \<le> fd_nextID (fw_feed w)"
    and "\<And>i. fd_nextID (fw_feed w) < i \<Longrightarrow> whole w i = []"
    and "\<And>i. protocol None (whole w i)"
    and "\<And>i. i \<in> set (fd_subs (fw_feed w)) \<Longrightarrow> view None (whole w i) = announced (fw_feed w)"
  shows "feed_ok w"
  using assms by (auto simp: feed_ok_def)

text \<open>A step that moves what is on its way into the log, or nothing at all, changes no whole.\<close>

lemma same_total:
  assumes "feed_ok w" and "\<And>i. whole w' i = whole w i" and "fw_feed w' = fw_feed w"
    and "pc_ok (fw_feed w) (fw_pc w')"
  shows "feed_ok w'"
  using assms by (auto simp: feed_ok_def)

text \<open>A fan-out that begins: one more event on its way to every subscriber.\<close>

lemma fan_begins:
  assumes "feed_ok w" and "snapshotLocked f order" and "mset (fd_subs f) = mset (fd_subs (fw_feed w))"
    and "fd_nextID f = fd_nextID (fw_feed w)" and "fd_connected f \<Longrightarrow> \<not> fd_disconnected f"
    and "\<not> (\<exists>ev is. fw_pc w = Fanning ev is)"
    and "hears (announced (fw_feed w)) (ev_op ev)"
    and "announced f = view_after (announced (fw_feed w)) (ev_op ev)"
    and "announced f = Some (if ev_op ev = OpDisconnect then OpDisconnect else OpResync)"
  shows "feed_ok (w\<lparr>fw_feed := beginDispatch f, fw_pc := Fanning ev order\<rparr>)" (is "feed_ok ?w'")
proof -
  have ord: "set order = set (fd_subs (fw_feed w))" "distinct order"
    using assms(1-3) mset_eq_setD [of order] mset_eq_imp_distinct_iff [of order]
    by (auto simp: snapshotLocked_def feed_ok_def)
  have subs: "set (fd_subs f) = set (fd_subs (fw_feed w))" "distinct (fd_subs f)"
    using assms(1,3) mset_eq_setD mset_eq_imp_distinct_iff by (auto simp: feed_ok_def) blast+
  have ann: "announced (beginDispatch f) = announced f" by (simp add: announced_def beginDispatch_def)
  have tot: "whole ?w' i = whole w i @ (if i \<in> set (fd_subs (fw_feed w)) then [ev_op ev] else [])" for i
    using assms(6) ord by (auto simp: whole_def coming_to_def heard_by_def split: pc.splits option.splits)
  have old: "protocol None (whole w i)"
    "i \<in> set (fd_subs (fw_feed w)) \<Longrightarrow> view None (whole w i) = announced (fw_feed w)"
    "i \<in> set (fd_subs (fw_feed w)) \<Longrightarrow> i \<le> fd_nextID (fw_feed w)"
    "fd_nextID (fw_feed w) < i \<Longrightarrow> whole w i = []" for i
    using assms(1) by (auto simp: feed_ok_def)
  show ?thesis
  proof (rule feed_okI)
    show "pc_ok (fw_feed ?w') (fw_pc ?w')"
      using ord old(3) assms(4,9) by (simp add: pc_ok_def ann) (simp add: beginDispatch_def)
    show "\<not> fd_disconnected (fw_feed ?w')" if "fd_connected (fw_feed ?w')"
      using that assms(5) by (simp add: beginDispatch_def)
    show "distinct (fd_subs (fw_feed ?w'))" using subs(2) by (simp add: beginDispatch_def)
    show "i \<le> fd_nextID (fw_feed ?w')" if "i \<in> set (fd_subs (fw_feed ?w'))" for i
      using that subs(1) old(3) assms(4) by (simp add: beginDispatch_def)
    show "whole ?w' i = []" if "fd_nextID (fw_feed ?w') < i" for i
    proof -
      have "fd_nextID (fw_feed w) < i" using that assms(4) by (simp add: beginDispatch_def)
      with old(3,4) [of i] show ?thesis unfolding tot by auto
    qed
    show "protocol None (whole ?w' i)" for i
      using old(1,2) [of i] assms(7) by (auto simp: tot)
    show "view None (whole ?w' i) = announced (fw_feed ?w')" if "i \<in> set (fd_subs (fw_feed ?w'))" for i
    proof -
      have "i \<in> set (fd_subs (fw_feed w))" using that subs(1) by (simp add: beginDispatch_def)
      with old(2) [of i] assms(8) show ?thesis by (simp add: tot ann)
    qed
  qed
qed

lemma new_feed_ok: "feed_ok (new_feed_world sco)"
  by (rule feed_okI)
    (simp_all add: new_feed_world_def newFeed_def pc_ok_def announced_def whole_def heard_by_def coming_to_def)

lemma joins_ok:
  assumes "feed_ok w" and "join_feed (fw_feed w) = (f, i, op)"
  shows "feed_ok (w\<lparr>fw_feed := f, fw_joining := (fw_joining w)(i := if op = [] then None else Some op)\<rparr>)"
    (is "feed_ok ?w'")
proof -
  have f: "f = (fw_feed w)\<lparr>fd_nextID := i, fd_subs := fd_subs (fw_feed w) @ [i]\<rparr>"
    and i: "i = Suc (fd_nextID (fw_feed w))" and op: "op = joiningOpLocked (fw_feed w)"
    using assms(2) by (auto simp: join_feed_def Let_def)
  have ann: "announced f = announced (fw_feed w)" by (simp add: f announced_def)
  have none: "whole w i = []" using assms(1) i by (simp add: feed_ok_def)
  have other: "whole ?w' j = whole w j" if "j \<noteq> i" for j
    using that by (simp add: whole_def heard_by_def coming_to_def)
  have own: "whole ?w' i = (if op = [] then [] else [op])"
    using none by (auto simp: whole_def heard_by_def coming_to_def split: pc.splits option.splits if_splits)
  have told: "protocol None (whole ?w' i)" "view None (whole ?w' i) = announced (fw_feed w)"
    unfolding own by (auto simp: op joiningOpLocked_def hears_def view_after_def announced_def)
  have new: "i \<notin> set (fd_subs (fw_feed w))" using assms(1) i by (auto simp: feed_ok_def)
  show ?thesis
  proof (rule feed_okI)
    show "pc_ok (fw_feed ?w') (fw_pc ?w')"
      using assms(1) i by (auto simp: feed_ok_def pc_ok_def f split: pc.splits)
    show "whole ?w' j = []" if "fd_nextID (fw_feed ?w') < j" for j
      using that assms(1) i other [of j] by (simp add: f feed_ok_def)
    show "protocol None (whole ?w' j)" for j
      using told(1) other [of j] assms(1) by (cases "j = i") (simp_all add: feed_ok_def)
    show "view None (whole ?w' j) = announced (fw_feed ?w')" if "j \<in> set (fd_subs (fw_feed ?w'))" for j
      using told(2) other [of j] assms(1) that by (cases "j = i") (simp_all add: feed_ok_def ann f announced_def)
  qed (use assms(1) i new in \<open>auto simp: feed_ok_def f\<close>)
qed

lemma moves_ok:
  assumes "feed_ok w" and "\<And>ev is. fw_pc w \<noteq> Fanning ev is" and "\<And>ev is. p \<noteq> Fanning ev is"
    and "pc_ok (fw_feed w) p"
  shows "feed_ok (w\<lparr>fw_pc := p\<rparr>)"
  using assms(1)
proof (rule same_total)
  show "whole (w\<lparr>fw_pc := p\<rparr>) i = whole w i" for i
    using assms(2,3) by (auto simp: whole_def heard_by_def coming_to_def split: pc.splits)
qed (use assms(4) in simp_all)

lemma feed_step_closing: "feed_step w w' \<Longrightarrow> fd_closing (fw_feed w) \<Longrightarrow> fd_closing (fw_feed w')"
  by (induction rule: feed_step.induct)
    (auto simp: join_feed_def leave_feed_def signalFeed_def beginResync_def beginDisconnect_def
      beginDispatch_def endDispatch_def Let_def split: if_splits)

lemma feed_step_ok: "feed_step w w' \<Longrightarrow> \<not> fd_closing (fw_feed w') \<Longrightarrow> feed_ok w \<Longrightarrow> feed_ok w'"
proof (induction rule: feed_step.induct)
  case (joins w f i op)
  then show ?case by (intro joins_ok)
next
  case (told w i op)
  show ?case
  proof (rule same_total [OF told(3)])
    show "whole (w\<lparr>fw_joining := (fw_joining w)(i := None), fw_log := fw_log w @ [(i, marker (fw_feed w) op)]\<rparr>) j
        = whole w j" for j
      using told(1) by (auto simp: whole_def heard_by_def coming_to_def marker_def split: pc.splits)
  qed (use told(3) in \<open>simp_all add: feed_ok_def\<close>)
next
  case (leaves w i)
  have "whole (w\<lparr>fw_feed := leave_feed i (fw_feed w)\<rparr>) j = whole w j" for j
    by (simp add: whole_def heard_by_def coming_to_def)
  with leaves show ?case
    by (auto simp: feed_ok_def leave_feed_def pc_ok_def split: pc.splits)
next
  case (signals skip w f r)
  then show ?case by (auto simp: signalFeed_def split: if_splits)
next
  case (launches w)
  have "whole (w\<lparr>fw_feed := (fw_feed w)\<lparr>fd_reader := True\<rparr>, fw_pc := Top\<rparr>) j = whole w j" for j
    using launches(1) by (simp add: whole_def heard_by_def coming_to_def)
  with launches show ?case by (auto simp: feed_ok_def pc_ok_def)
next
  case (resyncs w f order)
  then have f: "f = (fw_feed w)\<lparr>fd_connected := True, fd_disconnected := False\<rparr>"
    by (auto simp: beginResync_def split: if_splits)
  have "announced (fw_feed w) \<noteq> Some OpResync" using resyncs(1,5) by (auto simp: feed_ok_def pc_ok_def)
  with resyncs show ?case
    by (intro fan_begins) (auto simp: f hears_def view_after_def announced_def marker_def)
next
  case (resync_refused w f)
  then show ?case by (auto simp: beginResync_def split: if_splits)
next
  case (delivers w ev i "is")
  show ?case
  proof (rule same_total [OF delivers(4)])
    show "whole (w\<lparr>fw_pc := Fanning ev is, fw_log := fw_log w @ [(i, ev)]\<rparr>) j = whole w j" for j
      using delivers(1,2,4)
      by (auto simp: whole_def heard_by_def coming_to_def feed_ok_def pc_ok_def split: option.splits)
  qed (use delivers(1,4) in \<open>auto simp: feed_ok_def pc_ok_def\<close>)
next
  case (fanned w ev)
  have "whole (w\<lparr>fw_feed := endDispatch (fw_feed w), fw_pc := after_fan ev\<rparr>) j = whole w j" for j
    using fanned(1) by (auto simp: whole_def heard_by_def coming_to_def after_fan_def)
  with fanned show ?case
    by (auto simp: feed_ok_def pc_ok_def endDispatch_def after_fan_def split: if_splits)
next
  case (notified w p ev order)
  from parsed_is_key_event [OF notified(2)] have op: "ev_op ev \<noteq> OpResync" "ev_op ev \<noteq> OpDisconnect"
    by (metis ops_distinct(3-6))+
  have "announced (fw_feed w) = Some OpResync" using notified(1,5) by (simp add: feed_ok_def pc_ok_def)
  with notified op show ?case
    by (intro fan_begins) (auto simp: hears_def view_after_def stamp_scope_def feed_ok_def)
next
  case (loses w f order)
  then have f: "f = (fw_feed w)\<lparr>fd_connected := False, fd_disconnected := True\<rparr>"
    by (auto simp: beginDisconnect_def split: if_splits)
  have "announced (fw_feed w) = Some OpResync" using loses(1,5) by (simp add: feed_ok_def pc_ok_def)
  with loses show ?case
    by (intro fan_begins) (auto simp: f hears_def view_after_def announced_def marker_def split: if_splits)
next
  case (lost_quietly w f)
  then have "fd_disconnected (fw_feed w)" by (auto simp: beginDisconnect_def split: if_splits)
  with lost_quietly(1,4) show ?case by (auto simp: feed_ok_def pc_ok_def announced_def split: if_splits)
next
  case (cleaned w)
  then show ?case by (intro moves_ok) (auto simp: feed_ok_def pc_ok_def)
next
  case (reconnected w)
  then show ?case by (intro moves_ok) (auto simp: feed_ok_def pc_ok_def)
next
  case (gives_up w)
  then show ?case by (intro moves_ok) (auto simp: feed_ok_def pc_ok_def)
qed

lemma feed_runs_ok:
  assumes "feed_runs sco w" and "\<not> fd_closing (fw_feed w)"
  shows "feed_ok w"
  using assms unfolding feed_runs_def
proof (induction rule: rtranclp_induct)
  case base
  show ?case by (rule new_feed_ok)
next
  case (step w w')
  then show ?case using feed_step_closing [OF step(2)] feed_step_ok [OF step(2)] by blast
qed

subsection \<open>What a subscriber hears\<close>

text \<open>A subscriber joins, the reader connects and announces it, and one notification arrives.\<close>

definition acme_feed :: "bool \<Rightarrow> nat \<Rightarrow> feed" where
  "acme_feed up n = \<lparr>fd_scope = Scope ''acme'', fd_subs = [1], fd_nextID = 1, fd_connected = up,
     fd_disconnected = False, fd_closing = False, fd_dispatching = n, fd_reader = True\<rparr>"

definition acme_payload :: notifyPayload where
  "acme_payload = \<lparr>np_namespace = ''app'', np_key = ''limit'', np_op = OpUpsert, np_rev = 4\<rparr>"

definition acme_event :: event where
  "acme_event = \<lparr>ev_scope = Scope ''acme'', ev_ns = ''app'', ev_key = ''limit'', ev_op = OpUpsert, ev_rev = 4\<rparr>"

definition acme_resync :: event where
  "acme_resync = \<lparr>ev_scope = Scope ''acme'', ev_ns = [], ev_key = [], ev_op = OpResync, ev_rev = 0\<rparr>"

definition acme_at :: "feed \<Rightarrow> pc \<Rightarrow> (nat \<times> event) list \<Rightarrow> feed_world" where
  "acme_at f p lg = \<lparr>fw_feed = f, fw_pc = p, fw_joining = Map.empty, fw_log = lg\<rparr>"

lemmas acme_feed_defs = acme_feed_def acme_payload_def acme_event_def acme_resync_def acme_at_def

lemma acme_feed_runs:
  "feed_runs (Scope ''acme'') (acme_at (acme_feed True 0) Consuming [(1, acme_resync)])"
  "feed_runs (Scope ''acme'') (acme_at (acme_feed True 0) Consuming [(1, acme_resync), (1, acme_event)])"
proof -
  let ?step = "feed_step :: feed_world \<Rightarrow> feed_world \<Rightarrow> bool"
  have s1: "?step (new_feed_world (Scope ''acme'')) (acme_at ((acme_feed False 0)\<lparr>fd_reader := False\<rparr>) Idle [])"
    using joins [of "new_feed_world (Scope ''acme'')"]
    by (simp add: acme_feed_defs new_feed_world_def newFeed_def join_feed_def joiningOpLocked_def fun_upd_idem)
  have s2: "?step (acme_at ((acme_feed False 0)\<lparr>fd_reader := False\<rparr>) Idle []) (acme_at (acme_feed False 0) Top [])"
    using launches [of "acme_at ((acme_feed False 0)\<lparr>fd_reader := False\<rparr>) Idle []"] by (simp add: acme_feed_defs)
  have s3: "?step (acme_at (acme_feed False 0) Top []) (acme_at (acme_feed True 1) (Fanning acme_resync [1]) [])"
    using resyncs [of "acme_at (acme_feed False 0) Top []" "acme_feed True 0" "[1]"]
    by (simp add: acme_feed_defs beginResync_def snapshotLocked_def beginDispatch_def marker_def)
  have s4: "?step (acme_at (acme_feed True 1) (Fanning acme_resync [1]) [])
      (acme_at (acme_feed True 1) (Fanning acme_resync []) [(1, acme_resync)])"
    using delivers [of "acme_at (acme_feed True 1) (Fanning acme_resync [1]) []"] by (simp add: acme_at_def)
  have s5: "?step (acme_at (acme_feed True 1) (Fanning ev []) lg) (acme_at (acme_feed True 0) Consuming lg)"
    if "ev_op ev \<noteq> OpDisconnect" for ev lg
    using fanned [of "acme_at (acme_feed True 1) (Fanning ev []) lg"] that
    by (simp add: acme_feed_defs endDispatch_def after_fan_def)
  have s6: "?step (acme_at (acme_feed True 0) Consuming [(1, acme_resync)])
      (acme_at (acme_feed True 1) (Fanning acme_event [1]) [(1, acme_resync)])"
    using notified [of "acme_at (acme_feed True 0) Consuming [(1, acme_resync)]" "Some acme_payload" _ "[1]"]
    by (simp add: acme_feed_defs parseNotifyPayload_def snapshotLocked_def beginDispatch_def stamp_scope_def)
  have s7: "?step (acme_at (acme_feed True 1) (Fanning acme_event [1]) [(1, acme_resync)])
      (acme_at (acme_feed True 1) (Fanning acme_event []) [(1, acme_resync), (1, acme_event)])"
    using delivers [of "acme_at (acme_feed True 1) (Fanning acme_event [1]) [(1, acme_resync)]"]
    by (simp add: acme_at_def)
  have up: "?step\<^sup>*\<^sup>* (new_feed_world (Scope ''acme'')) (acme_at (acme_feed True 0) Consuming [(1, acme_resync)])"
    using s1 s2 s3 s4 s5 [of acme_resync "[(1, acme_resync)]"]
    by (simp add: acme_resync_def)
  then show "feed_runs (Scope ''acme'') (acme_at (acme_feed True 0) Consuming [(1, acme_resync)])"
    by (simp add: feed_runs_def)
  from up s6 s7 s5 [of acme_event "[(1, acme_resync), (1, acme_event)]"]
  show "feed_runs (Scope ''acme'') (acme_at (acme_feed True 0) Consuming [(1, acme_resync), (1, acme_event)])"
    unfolding feed_runs_def
    by (simp add: acme_event_def)
qed

text \<open>C25. Until its feed is torn down, every subscriber hears a well-formed story, whenever it joined and
  whatever else joined, left or was lost: a marker before any key event, never the same marker twice
  in a row, and a key event only between a resync and the next disconnect. No payload can forge a
  marker.\<close>

theorem subscribers_hear_protocol:
  assumes "feed_runs sco w" and "\<not> fd_closing (fw_feed w)"
  shows "protocol None (heard_by w i)"
  using feed_runs_ok [OF assms] by (auto simp: feed_ok_def whole_def)

theorem subscribers_hear_protocol_witness:
  "heard_by (acme_at (acme_feed True 0) Consuming [(1, acme_resync), (1, acme_event)]) 1 = [OpResync, OpUpsert]
   \<and> protocol None [OpResync, OpUpsert]"
proof -
  have h: "heard_by (acme_at (acme_feed True 0) Consuming [(1, acme_resync), (1, acme_event)]) 1 = [OpResync, OpUpsert]"
    by (simp add: heard_by_def acme_feed_defs)
  from subscribers_hear_protocol [OF acme_feed_runs(2), of 1] h show ?thesis
    by (simp add: acme_at_def acme_feed_def)
qed

text \<open>No subscriber is left with a wrong picture. While the feed is not torn down, a subscriber whose
  joining call has returned and that no fan-out still has to call was last told a resync if the reader
  is consuming from a live connection, and a disconnect if the connection is lost: an outage is never
  read as freshness, and a recovery never missed.\<close>

theorem subscribers_know_the_feed:
  assumes "feed_runs sco w" and "\<not> fd_closing (fw_feed w)" and "i \<in> set (fd_subs (fw_feed w))"
    and "fw_joining w i = None"
  shows "(fw_pc w = Consuming \<longrightarrow> view None (heard_by w i) = Some OpResync)
    \<and> (fw_pc w = Cleaning \<or> fw_pc w = Reconnecting \<longrightarrow> view None (heard_by w i) = Some OpDisconnect)"
  using feed_runs_ok [OF assms(1,2)] assms(3,4)
  by (auto simp: feed_ok_def whole_def coming_to_def pc_ok_def)

theorem subscribers_know_the_feed_witness:
  "view None (heard_by (acme_at (acme_feed True 0) Consuming [(1, acme_resync)]) 1) = Some OpResync"
  using subscribers_know_the_feed [OF acme_feed_runs(1), of 1]
  by (simp add: acme_at_def acme_feed_def)

text \<open>After a teardown's signal the joiners are not held to it: a subscriber that joins a connected feed
  just as Close signals it is still told a resync of a feed whose reader is going away.\<close>

lemma joins_closed_feed:
  "joiningOpLocked (fst (signalFeed False (acme_feed True 0))) = OpResync"
  by (simp add: joiningOpLocked_def signalFeed_def acme_feed_def)

text \<open>A teardown reached from inside a callback of the reader never waits for the reader.\<close>

lemma self_teardown_does_not_wait:
  "0 < fd_dispatching f \<Longrightarrow> snd (signalFeed True f) \<noteq> Wait_Reader"
  by (simp add: signalFeed_def)

lemma fanning_is_marked:
  assumes "feed_step\<^sup>*\<^sup>* (new_feed_world sco) w"
  shows "fd_dispatching (fw_feed w) = (case fw_pc w of Fanning _ _ \<Rightarrow> 1 | _ \<Rightarrow> 0)"
  using assms
proof (induction rule: rtranclp_induct)
  case (step w w')
  from step(2,3) show ?case
    by (induction rule: feed_step.induct)
      (auto simp: join_feed_def leave_feed_def signalFeed_def beginResync_def beginDisconnect_def
        beginDispatch_def endDispatch_def after_fan_def Let_def split: if_splits pc.splits)
qed (simp add: new_feed_world_def newFeed_def)

end
