(* ===== verification/Pg_Store.thy ===== *)
theory Pg_Store
  imports Store_Types Decimals "HOL-Library.Multiset"
begin

text \<open>
  The life of the Postgres store's changefeeds (\<^verbatim>\<open>internal/postgres/postgres_listen.go\<close>): the map of
  feeds, who holds one, and the creators that connect outside the map's mutex. One definition per
  hold of \<open>feedsMu\<close>. What the connector, the server and the caller's context answer is an argument. A
  feed is a number; a feed of the zero scope has no \<open>ready\<close> channel.
\<close>

subsection \<open>State\<close>

record pfeed =
  pf_tenant :: string
  pf_dbKey :: string
  pf_err :: "err option"
  pf_readyClosed :: bool
  pf_refs :: int
  pf_reader :: bool
  pf_signalled :: bool

definition new_pfeed :: "string \<Rightarrow> pfeed" where
  "new_pfeed tenant = \<lparr>pf_tenant = tenant, pf_dbKey = [], pf_err = None, pf_readyClosed = False,
     pf_refs = 0, pf_reader = False, pf_signalled = False\<rparr>"

record pgstore =
  pg_feeds :: "string \<Rightarrow> nat option"
  pg_feed :: "nat \<Rightarrow> pfeed"
  pg_next :: nat
  pg_closing :: bool

definition new_pgstore :: pgstore where
  "new_pgstore = \<lparr>pg_feeds = Map.empty, pg_feed = (\<lambda>_. new_pfeed []), pg_next = 0, pg_closing = False\<rparr>"

definition upd_feed :: "nat \<Rightarrow> (pfeed \<Rightarrow> pfeed) \<Rightarrow> pgstore \<Rightarrow> pgstore" where
  "upd_feed f g s = s\<lparr>pg_feed := modify (pg_feed s) f g\<rparr>"

definition reserve :: "pfeed \<Rightarrow> pgstore \<Rightarrow> pgstore \<times> nat" where
  "reserve x s =
     (let f = pg_next s
      in (s\<lparr>pg_feeds := (pg_feeds s)(pf_tenant x \<mapsto> f), pg_feed := (pg_feed s)(f := x), pg_next := f + 1\<rparr>, f))"

subsection \<open>Construction and admission\<close>

text \<open>The configuration \<open>New\<close> and \<open>Subscribe\<close> decide on: what is nil, and what is empty.\<close>

record pg_config =
  pc_hasDB :: bool
  pc_ListenDSN :: string
  pc_MultiTenantEnabled :: bool
  pc_Module :: string
  pc_hasConnector :: bool

definition pg_normalizeConfig :: "pg_config \<Rightarrow> err + pg_config" where
  "pg_normalizeConfig cfg =
     (let cfg = (if pc_Module cfg = [] then cfg\<lparr>pc_Module := ''systemplane''\<rparr> else cfg) in
      if pc_MultiTenantEnabled cfg then Inr cfg
      else if \<not> pc_hasDB cfg then Inl (Sentinel Store_ErrNilBackend)
      else if pc_ListenDSN cfg = [] then Inl (Sentinel (Foreign ''ListenDSN is required''))
      else Inr cfg)"

text \<open>What \<open>Subscribe\<close> answers before any feed work; a nil callback is the last test.\<close>

datatype admission = Admit_Refused err | Admit_Nothing | Admit_Feed

definition pg_admission :: "pg_config \<Rightarrow> bool \<Rightarrow> string \<Rightarrow> bool \<Rightarrow> admission" where
  "pg_admission cfg shut tenant nil_fn =
     (if shut then Admit_Refused (Sentinel Store_ErrClosed)
      else if tenant = [] \<and> pc_MultiTenantEnabled cfg
      then Admit_Refused (Sentinel ErrNotSupportedInMultiTenant)
      else if tenant \<noteq> [] \<and> \<not> pc_hasConnector cfg then Admit_Refused (Sentinel ErrTenantConnectorMissing)
      else if nil_fn then Admit_Nothing else Admit_Feed)"

subsection \<open>Acquiring\<close>

definition zeroFeedSlotLocked :: "pgstore \<Rightarrow> pgstore \<times> (err + nat)" where
  "zeroFeedSlotLocked s =
     (if pg_closing s then (s, Inl (Sentinel Store_ErrClosed))
      else case pg_feeds s [] of
        Some f \<Rightarrow> (s, Inr f)
      | None \<Rightarrow> let (s', f) = reserve (new_pfeed []) s in (s', Inr f))"

definition zeroFeedForStart :: "pgstore \<Rightarrow> pgstore \<times> (err + nat)" where
  "zeroFeedForStart s =
     (case zeroFeedSlotLocked s of
        (s', Inl er) \<Rightarrow> (s', Inl er)
      | (s', Inr f) \<Rightarrow> (upd_feed f (\<lambda>x. x\<lparr>pf_err := None\<rparr>) s', Inr f))"

definition zeroFeedLocked :: "pgstore \<Rightarrow> pgstore \<times> (err + nat)" where
  "zeroFeedLocked s =
     (case zeroFeedSlotLocked s of
        (s', Inl er) \<Rightarrow> (s', Inl er)
      | (s', Inr f) \<Rightarrow> (case pf_err (pg_feed s' f) of Some er \<Rightarrow> (s', Inl er) | None \<Rightarrow> (s', Inr f)))"

text \<open>The first hold of \<open>acquireFeed\<close>: refused, attached, to wait for a creator, or creating.\<close>

datatype acquired = Refused err | Attached nat | Joined nat | Creating nat

definition hold_feed :: "nat \<Rightarrow> pgstore \<Rightarrow> pgstore" where
  "hold_feed f s = upd_feed f (\<lambda>x. x\<lparr>pf_refs := pf_refs x + 1\<rparr>) s"

definition acquireFeed :: "string \<Rightarrow> pgstore \<Rightarrow> pgstore \<times> acquired" where
  "acquireFeed tenant s =
     (if pg_closing s then (s, Refused (Sentinel Store_ErrClosed))
      else if tenant = [] then
        (case zeroFeedLocked s of
           (s', Inl er) \<Rightarrow> (s', Refused er)
         | (s', Inr f) \<Rightarrow> (hold_feed f s', Attached f))
      else case pg_feeds s tenant of
        Some f \<Rightarrow> (hold_feed f s, Joined f)
      | None \<Rightarrow>
          let (s', f) = reserve ((new_pfeed tenant)\<lparr>pf_refs := 1\<rparr>) s in (s', Creating f))"

subsection \<open>Connecting\<close>

text \<open>
  The key two feeds are compared on, made from what the server answers; \<open>parse_host\<close> is pgconn's reading
  of a DSN.
\<close>

definition formatServerDatabaseKey ::
  "(string \<Rightarrow> err + string) \<Rightarrow> string \<Rightarrow> string \<Rightarrow> int \<Rightarrow> string \<Rightarrow> string \<Rightarrow> err + string" where
  "formatServerDatabaseKey parse_host database addr port startedAt dsn =
     (let server = ''started:'' @ startedAt in
      if addr \<noteq> [] then Inr (server @ ''/tcp:'' @ addr @ '':'' @ print_int port @ ''/'' @ database)
      else case parse_host dsn of
        Inl er \<Rightarrow> Inl er
      | Inr host \<Rightarrow> Inr (server @ ''/unix:'' @ host @ ''/'' @ database))"

text \<open>
  One open: the answers of the dial, of the identity query and of \<open>LISTEN\<close>, each an error or not; with the
  outcome, whether a connection is left open.
\<close>

definition openListen :: "bool \<Rightarrow> err option \<Rightarrow> err + string \<Rightarrow> err option \<Rightarrow> (err + string) \<times> bool" where
  "openListen closing dial identity listen =
     (if closing then (Inl (Sentinel Store_ErrClosed), False)
      else case dial of
        Some er \<Rightarrow> (Inl er, False)
      | None \<Rightarrow>
          (case identity of
             Inl er \<Rightarrow> (Inl er, False)
           | Inr dbKey \<Rightarrow> (case listen of Some er \<Rightarrow> (Inl er, False) | None \<Rightarrow> (Inr dbKey, True))))"

definition dialAndListen :: "err option \<Rightarrow> err option \<Rightarrow> err option \<times> bool" where
  "dialAndListen dial listen =
     (case dial of
        Some er \<Rightarrow> (Some er, False)
      | None \<Rightarrow> (case listen of Some er \<Rightarrow> (Some er, False) | None \<Rightarrow> (None, True)))"

text \<open>A tenant's creator: the connector's DSN, then the open.\<close>

definition createFeed_dial :: "err + string \<Rightarrow> (string \<Rightarrow> (err + string) \<times> bool) \<Rightarrow> (err + string) \<times> bool" where
  "createFeed_dial resolved opens =
     (case resolved of
        Inl er \<Rightarrow> (Inl er, False)
      | Inr dsn \<Rightarrow> if dsn = [] then (Inl (Sentinel ErrTenantConnectorMissing), False) else opens dsn)"

text \<open>What a caller that found the slot taken learns of it; its context may end first.\<close>

datatype awaited = Await_Open | Await_Ready | Await_Failed err

definition awaitFeed :: "nat \<Rightarrow> pgstore \<Rightarrow> awaited" where
  "awaitFeed f s =
     (if \<not> pf_readyClosed (pg_feed s f) then Await_Open
      else case pf_err (pg_feed s f) of Some er \<Rightarrow> Await_Failed er | None \<Rightarrow> Await_Ready)"

text \<open>\<open>Start\<close>, under its own mutex: refused, running already, or opening the zero feed.\<close>

datatype starting = Start_Refused err | Start_Running | Start_Opens nat

definition startListener :: "pgstore \<Rightarrow> pgstore \<times> starting" where
  "startListener s =
     (case zeroFeedForStart s of
        (s', Inl er) \<Rightarrow> (s', Start_Refused er)
      | (s', Inr f) \<Rightarrow> (s', if pf_reader (pg_feed s' f) then Start_Running else Start_Opens f))"

subsection \<open>Creating\<close>

definition closeReadyLocked :: "nat \<Rightarrow> pgstore \<Rightarrow> pgstore" where
  "closeReadyLocked f s =
     upd_feed f (\<lambda>x. if pf_tenant x = [] then x else x\<lparr>pf_readyClosed := True\<rparr>) s"

definition failLocked :: "nat \<Rightarrow> err \<Rightarrow> pgstore \<Rightarrow> pgstore \<times> err" where
  "failLocked f er s =
     (let cause = (case pf_err (pg_feed s f) of Some er' \<Rightarrow> er' | None \<Rightarrow> er);
          s1 = upd_feed f (\<lambda>x. x\<lparr>pf_err := Some cause\<rparr>) s;
          tenant = pf_tenant (pg_feed s f)
      in (if tenant \<noteq> [] \<and> pg_feeds s tenant = Some f
          then s1\<lparr>pg_feeds := (pg_feeds s1)(tenant := None)\<rparr> else s1, cause))"

definition retractFeed :: "nat \<Rightarrow> err \<Rightarrow> pgstore \<Rightarrow> pgstore \<times> err" where
  "retractFeed f er s = (let (s1, cause) = failLocked f er s in (closeReadyLocked f s1, cause))"

definition ErrSharedDatabaseUnsupported :: err where
  "ErrSharedDatabaseUnsupported = Sentinel (Foreign ''shared database'')"

definition sharedDatabase :: "nat \<Rightarrow> string \<Rightarrow> pgstore \<Rightarrow> bool" where
  "sharedDatabase f dbKey s \<longleftrightarrow>
     (\<exists>t g. pg_feeds s t = Some g \<and> g \<noteq> f \<and> pf_dbKey (pg_feed s g) \<noteq> [] \<and> pf_dbKey (pg_feed s g) = dbKey)"

text \<open>The error says the connection the creator holds is thrown away.\<close>

definition publishFeed :: "nat \<Rightarrow> string \<Rightarrow> pgstore \<Rightarrow> pgstore \<times> err option" where
  "publishFeed f dbKey s =
     (let refusal = (if pg_closing s then Some (Sentinel Store_ErrClosed)
                     else if sharedDatabase f dbKey s then Some ErrSharedDatabaseUnsupported else None)
      in case refusal of
        Some er \<Rightarrow> let (s1, cause) = failLocked f er s in (closeReadyLocked f s1, Some cause)
      | None \<Rightarrow>
          (closeReadyLocked f (upd_feed f (\<lambda>x. x\<lparr>pf_dbKey := dbKey, pf_reader := True\<rparr>) s), None))"

subsection \<open>Releasing and stopping\<close>

text \<open>The flag says the caller goes on to \<open>stopFeed\<close>.\<close>

definition releaseFeed :: "nat \<Rightarrow> pgstore \<Rightarrow> pgstore \<times> bool" where
  "releaseFeed f s =
     (let s1 = upd_feed f (\<lambda>x. x\<lparr>pf_refs := pf_refs x - 1\<rparr>) s; x = pg_feed s1 f in
      if pf_tenant x = [] \<or> 0 < pf_refs x \<or> pg_feeds s1 (pf_tenant x) \<noteq> Some f then (s1, False)
      else (s1\<lparr>pg_feeds := (pg_feeds s1)(pf_tenant x := None)\<rparr>, True))"

definition signal_pfeed :: "nat \<Rightarrow> pgstore \<Rightarrow> pgstore" where
  "signal_pfeed f s = upd_feed f (\<lambda>x. x\<lparr>pf_signalled := True\<rparr>) s"

text \<open>
  The hold of \<open>stopFeeds\<close>: a slot whose creator is still connecting is failed, the others are left to
  signal; the answer says whether a feed is one of those.
\<close>

definition tracked :: "pgstore \<Rightarrow> nat \<Rightarrow> bool" where
  "tracked s f \<longleftrightarrow> (\<exists>t. pg_feeds s t = Some f)"

definition connecting :: "pfeed \<Rightarrow> bool" where
  "connecting x \<longleftrightarrow> pf_tenant x \<noteq> [] \<and> \<not> pf_readyClosed x"

definition stopFeeds :: "pgstore \<Rightarrow> pgstore \<times> (nat \<Rightarrow> bool)" where
  "stopFeeds s =
     (s\<lparr>pg_closing := True, pg_feeds := Map.empty,
        pg_feed := (\<lambda>f. let x = pg_feed s f in
          if tracked s f \<and> connecting x
          then x\<lparr>pf_err := Some (case pf_err x of Some er \<Rightarrow> er | None \<Rightarrow> Sentinel Store_ErrClosed),
                 pf_readyClosed := True\<rparr>
          else x)\<rparr>,
      \<lambda>f. tracked s f \<and> \<not> connecting (pg_feed s f))"

subsection \<open>The store under concurrency\<close>

text \<open>
  A creator is dialling, or holds an open connection it has yet to publish; Start is the creator of
  the zero feed. A world carries the creators, the subscriptions that hold a feed, the callers waiting
  for one, and the feeds somebody is about to signal.
\<close>

datatype creator = Dialling | Connected string

record pg_world =
  pw_store :: pgstore
  pw_creator :: "nat \<Rightarrow> creator option"
  pw_holders :: "nat multiset"
  pw_waiters :: "nat multiset"
  pw_stops :: "nat set"

definition new_pg_world :: pg_world where
  "new_pg_world = \<lparr>pw_store = new_pgstore, pw_creator = Map.empty, pw_holders = {#}, pw_waiters = {#},
     pw_stops = {}\<rparr>"

inductive pg_step :: "pg_world \<Rightarrow> pg_world \<Rightarrow> bool" where
  refused: "acquireFeed tenant (pw_store w) = (s, Refused er) \<Longrightarrow> pg_step w (w\<lparr>pw_store := s\<rparr>)"
| attached: "acquireFeed tenant (pw_store w) = (s, Attached f) \<Longrightarrow>
     pg_step w (w\<lparr>pw_store := s, pw_holders := add_mset f (pw_holders w)\<rparr>)"
| joined: "acquireFeed tenant (pw_store w) = (s, Joined f) \<Longrightarrow>
     pg_step w (w\<lparr>pw_store := s, pw_waiters := add_mset f (pw_waiters w)\<rparr>)"
| creating: "acquireFeed tenant (pw_store w) = (s, Creating f) \<Longrightarrow>
     pg_step w (w\<lparr>pw_store := s, pw_creator := (pw_creator w)(f \<mapsto> Dialling)\<rparr>)"
| woken: "f \<in># pw_waiters w \<Longrightarrow> awaitFeed f (pw_store w) = Await_Ready \<Longrightarrow>
     pg_step w (w\<lparr>pw_waiters := pw_waiters w - {#f#}, pw_holders := add_mset f (pw_holders w)\<rparr>)"
| gives_up: "f \<in># pw_waiters w \<Longrightarrow> releaseFeed f (pw_store w) = (s, stop) \<Longrightarrow>
     pg_step w (w\<lparr>pw_store := s, pw_waiters := pw_waiters w - {#f#},
       pw_stops := (if stop then insert f (pw_stops w) else pw_stops w)\<rparr>)"
| dial_fails: "pw_creator w f = Some Dialling \<Longrightarrow> retractFeed f er (pw_store w) = (s, cause) \<Longrightarrow>
     pg_step w (w\<lparr>pw_store := s, pw_creator := (pw_creator w)(f := None)\<rparr>)"
| dials: "pw_creator w f = Some Dialling \<Longrightarrow>
     pg_step w (w\<lparr>pw_creator := (pw_creator w)(f \<mapsto> Connected dbKey)\<rparr>)"
| publishes: "pw_creator w f = Some (Connected dbKey) \<Longrightarrow> publishFeed f dbKey (pw_store w) = (s, None) \<Longrightarrow>
     pg_step w (w\<lparr>pw_store := s, pw_creator := (pw_creator w)(f := None),
       pw_holders := (if pf_tenant (pg_feed s f) = [] then pw_holders w else add_mset f (pw_holders w))\<rparr>)"
| publish_fails: "pw_creator w f = Some (Connected dbKey) \<Longrightarrow>
     publishFeed f dbKey (pw_store w) = (s, Some cause) \<Longrightarrow>
     pg_step w (w\<lparr>pw_store := s, pw_creator := (pw_creator w)(f := None)\<rparr>)"
| start_refused: "startListener (pw_store w) = (s, Start_Refused er) \<Longrightarrow> pg_step w (w\<lparr>pw_store := s\<rparr>)"
| start_running: "startListener (pw_store w) = (s, Start_Running) \<Longrightarrow> pg_step w (w\<lparr>pw_store := s\<rparr>)"
| starts: "startListener (pw_store w) = (s, Start_Opens f) \<Longrightarrow> pw_creator w f = None \<Longrightarrow>
     pg_step w (w\<lparr>pw_store := s, pw_creator := (pw_creator w)(f \<mapsto> Dialling)\<rparr>)"
| releases: "f \<in># pw_holders w \<Longrightarrow> releaseFeed f (pw_store w) = (s, stop) \<Longrightarrow>
     pg_step w (w\<lparr>pw_store := s, pw_holders := pw_holders w - {#f#},
       pw_stops := (if stop then insert f (pw_stops w) else pw_stops w)\<rparr>)"
| stops: "f \<in> pw_stops w \<Longrightarrow>
     pg_step w (w\<lparr>pw_store := signal_pfeed f (pw_store w), pw_stops := pw_stops w - {f}\<rparr>)"
| closes: "\<not> pg_closing (pw_store w) \<Longrightarrow> stopFeeds (pw_store w) = (s, left) \<Longrightarrow>
     pg_step w (w\<lparr>pw_store := s, pw_stops := pw_stops w \<union> {f. left f}\<rparr>)"

definition pg_runs :: "pg_world \<Rightarrow> bool" where
  "pg_runs w \<longleftrightarrow> pg_step\<^sup>*\<^sup>* new_pg_world w"

end
