(* ===== verification/Pg_Store_Theorems.thy ===== *)
theory Pg_Store_Theorems
  imports Pg_Store
begin

text \<open>What the feeds of a Postgres store keep in every interleaving of subscribing, connecting,
  releasing and closing.\<close>

subsection \<open>The invariant\<close>

text \<open>
  Of one feed: whether the store is closing, whether the map holds the feed, its creator, how many
  subscriptions hold it, how many callers wait for it, whether a stop is pending, and the feed itself.
\<close>

definition slot :: "bool \<Rightarrow> bool \<Rightarrow> creator option \<Rightarrow> nat \<Rightarrow> nat \<Rightarrow> bool \<Rightarrow> pfeed \<Rightarrow> bool" where
  "slot cl tr c h wt st x \<longleftrightarrow>
     (tr \<longrightarrow> \<not> cl \<and> \<not> st \<and> \<not> pf_signalled x)
     \<and> (tr \<and> pf_tenant x \<noteq> [] \<longrightarrow> pf_refs x = int h + int wt + (if c = None then 0 else 1) \<and> pf_err x = None
         \<and> (if c = None then pf_readyClosed x \<and> pf_reader x \<and> 0 < pf_refs x
            else \<not> pf_readyClosed x \<and> \<not> pf_reader x))
     \<and> (c \<noteq> None \<longrightarrow> \<not> pf_reader x
         \<and> (tr \<or> cl \<and> (pf_tenant x \<noteq> [] \<longrightarrow> pf_readyClosed x \<and> pf_err x \<noteq> None)))
     \<and> (0 < wt \<longrightarrow> pf_tenant x \<noteq> [] \<and> (pf_readyClosed x \<or> c \<noteq> None) \<and> (cl \<or> pf_err x \<noteq> None \<or> tr))
     \<and> (0 < h \<and> pf_tenant x \<noteq> [] \<longrightarrow> pf_readyClosed x \<and> (tr \<or> cl))
     \<and> (pf_tenant x \<noteq> [] \<and> pf_readyClosed x \<longrightarrow> pf_err x \<noteq> None \<or> pf_reader x)
     \<and> (pf_reader x \<and> \<not> pf_signalled x \<longrightarrow> st \<or> tr)"

definition fresh :: "pg_world \<Rightarrow> nat \<Rightarrow> bool" where
  "fresh w f \<longleftrightarrow> pw_creator w f = None \<and> f \<notin># pw_holders w \<and> f \<notin># pw_waiters w \<and> f \<notin> pw_stops w
     \<and> \<not> pf_reader (pg_feed (pw_store w) f)"

definition in_map :: "pgstore \<Rightarrow> nat \<Rightarrow> bool" where
  "in_map s f \<longleftrightarrow> pg_feeds s (pf_tenant (pg_feed s f)) = Some f"

definition place :: "pg_world \<Rightarrow> nat \<Rightarrow> bool" where
  "place w f \<longleftrightarrow>
     (if f < pg_next (pw_store w)
      then slot (pg_closing (pw_store w)) (in_map (pw_store w) f) (pw_creator w f)
             (count (pw_holders w) f) (count (pw_waiters w) f) (f \<in> pw_stops w) (pg_feed (pw_store w) f)
      else fresh w f)"

definition map_ok :: "pgstore \<Rightarrow> bool" where
  "map_ok s \<longleftrightarrow> (\<forall>t f. pg_feeds s t = Some f \<longrightarrow> f < pg_next s \<and> pf_tenant (pg_feed s f) = t)"

definition keys_ok :: "pgstore \<Rightarrow> bool" where
  "keys_ok s \<longleftrightarrow> (\<forall>t u f g. pg_feeds s t = Some f \<longrightarrow> pg_feeds s u = Some g \<longrightarrow> f \<noteq> g \<longrightarrow>
     pf_dbKey (pg_feed s f) \<noteq> [] \<longrightarrow> pf_dbKey (pg_feed s f) \<noteq> pf_dbKey (pg_feed s g))"

definition pg_ok :: "pg_world \<Rightarrow> bool" where
  "pg_ok w \<longleftrightarrow> map_ok (pw_store w) \<and> keys_ok (pw_store w) \<and> (\<forall>f. place w f)"

lemma pg_okD:
  assumes "pg_ok w"
  shows "map_ok (pw_store w)" and "keys_ok (pw_store w)" and "place w f"
  using assms by (auto simp: pg_ok_def)

lemma map_okD: "map_ok s \<Longrightarrow> pg_feeds s t = Some f \<Longrightarrow> f < pg_next s \<and> pf_tenant (pg_feed s f) = t"
  by (simp add: map_ok_def)

lemma tracked_in_map: "map_ok s \<Longrightarrow> tracked s f \<longleftrightarrow> in_map s f"
  by (auto simp: tracked_def in_map_def dest: map_okD)

lemma slotD:
  assumes "pg_ok w" and "f < pg_next (pw_store w)"
  shows "slot (pg_closing (pw_store w)) (in_map (pw_store w) f) (pw_creator w f)
           (count (pw_holders w) f) (count (pw_waiters w) f) (f \<in> pw_stops w) (pg_feed (pw_store w) f)"
  using pg_okD(3) [OF assms(1), of f] assms(2) by (simp add: place_def)

lemma known:
  assumes "pg_ok w" and "pw_creator w f \<noteq> None \<or> f \<in># pw_holders w \<or> f \<in># pw_waiters w \<or> f \<in> pw_stops w"
  shows "f < pg_next (pw_store w)"
  using pg_okD(3) [OF assms(1), of f] assms(2) by (auto simp: place_def fresh_def split: if_splits)

lemma new_pg_ok: "pg_ok new_pg_world"
  by (simp add: pg_ok_def map_ok_def keys_ok_def place_def fresh_def new_pg_world_def new_pgstore_def new_pfeed_def)

subsection \<open>Changing one feed\<close>

text \<open>Most steps change one feed, what is known of it, and its entry in the map.\<close>

lemma upd_feed_simps [simp]:
  "pg_feeds (upd_feed f g s) = pg_feeds s" "pg_next (upd_feed f g s) = pg_next s"
  "pg_closing (upd_feed f g s) = pg_closing s"
  "pg_feed (upd_feed f g s) h = (if h = f then g (pg_feed s f) else pg_feed s h)"
  by (simp_all add: upd_feed_def modify_def)

lemma one_feed:
  assumes ok: "pg_ok w" and f: "f < pg_next (pw_store w)"
    and nxt: "pg_next (pw_store w') = pg_next (pw_store w)"
    and cl: "pg_closing (pw_store w') = pg_closing (pw_store w)"
    and ten: "pf_tenant (pg_feed (pw_store w') f) = pf_tenant (pg_feed (pw_store w) f)"
    and others: "\<And>g. g \<noteq> f \<Longrightarrow> pg_feed (pw_store w') g = pg_feed (pw_store w) g
        \<and> pw_creator w' g = pw_creator w g \<and> count (pw_holders w') g = count (pw_holders w) g
        \<and> count (pw_waiters w') g = count (pw_waiters w) g \<and> (g \<in> pw_stops w' \<longleftrightarrow> g \<in> pw_stops w)"
    and fm: "pg_feeds (pw_store w') = pg_feeds (pw_store w)
        \<or> in_map (pw_store w) f \<and> pg_feeds (pw_store w') = (pg_feeds (pw_store w))(pf_tenant (pg_feed (pw_store w) f) := None)"
    and key: "pf_dbKey (pg_feed (pw_store w') f) = pf_dbKey (pg_feed (pw_store w) f)
        \<or> \<not> sharedDatabase f (pf_dbKey (pg_feed (pw_store w') f)) (pw_store w)"
    and here: "slot (pg_closing (pw_store w)) (in_map (pw_store w') f) (pw_creator w' f)
           (count (pw_holders w') f) (count (pw_waiters w') f) (f \<in> pw_stops w') (pg_feed (pw_store w') f)"
  shows "pg_ok w'"
proof -
  have maps: "pg_feeds (pw_store w') t = Some g \<Longrightarrow> pg_feeds (pw_store w) t = Some g" for t g
    using fm by (auto split: if_splits)
  have tenants: "pf_tenant (pg_feed (pw_store w') g) = pf_tenant (pg_feed (pw_store w) g)" for g
    using others ten by (cases "g = f") auto
  have m: "map_ok (pw_store w')"
    using pg_okD(1) [OF ok] maps tenants nxt unfolding map_ok_def by metis
  have k: "keys_ok (pw_store w')"
    unfolding keys_ok_def
  proof (intro allI impI)
    fix t u a b
    assume a: "pg_feeds (pw_store w') t = Some a" and b: "pg_feeds (pw_store w') u = Some b" and ab: "a \<noteq> b"
      and ne: "pf_dbKey (pg_feed (pw_store w') a) \<noteq> []"
    have old: "pf_dbKey (pg_feed (pw_store w) a) \<noteq> [] \<Longrightarrow>
        pf_dbKey (pg_feed (pw_store w) a) \<noteq> pf_dbKey (pg_feed (pw_store w) b)"
      using pg_okD(2) [OF ok] maps [OF a] maps [OF b] ab unfolding keys_ok_def by blast
    have new: "\<not> sharedDatabase f d (pw_store w) \<Longrightarrow> g \<noteq> f \<Longrightarrow> pg_feeds (pw_store w) v = Some g \<Longrightarrow>
        d \<noteq> [] \<Longrightarrow> pf_dbKey (pg_feed (pw_store w) g) \<noteq> d" for d g v
      by (auto simp: sharedDatabase_def)
    show "pf_dbKey (pg_feed (pw_store w') a) \<noteq> pf_dbKey (pg_feed (pw_store w') b)"
    proof (cases "pf_dbKey (pg_feed (pw_store w') f) = pf_dbKey (pg_feed (pw_store w) f)")
      case True
      then have "pf_dbKey (pg_feed (pw_store w') g) = pf_dbKey (pg_feed (pw_store w) g)" for g
        using others by (cases "g = f") auto
      with old ne show ?thesis by simp
    next
      case False
      with key have nk: "\<not> sharedDatabase f (pf_dbKey (pg_feed (pw_store w') f)) (pw_store w)" by simp
      consider "a = f" "b \<noteq> f" | "b = f" "a \<noteq> f" | "a \<noteq> f" "b \<noteq> f" using ab by blast
      then show ?thesis
        by cases (use new [OF nk] others maps [OF a] maps [OF b] ne old in \<open>metis+\<close>)
    qed
  qed
  have "place w' g" for g
  proof (cases "g = f")
    case True
    then show ?thesis using here f nxt cl by (simp add: place_def)
  next
    case False
    have im: "in_map (pw_store w') g = in_map (pw_store w) g"
      using fm False by (auto simp: in_map_def tenants split: if_splits)
    show ?thesis
      using pg_okD(3) [OF ok, of g] others [OF False] im nxt cl
      by (auto simp: place_def fresh_def simp flip: count_greater_zero_iff)
  qed
  with m k show ?thesis by (simp add: pg_ok_def)
qed

text \<open>A step that reserves a slot adds one new feed, known to its creator and to the map.\<close>

lemma reserved:
  assumes ok: "pg_ok w" and x: "x = (new_pfeed t)\<lparr>pf_refs := n\<rparr>" and r: "reserve x (pw_store w) = (s, f)"
    and free: "pg_feeds (pw_store w) t = None" and opened: "\<not> pg_closing (pw_store w)"
    and c: "t \<noteq> [] \<Longrightarrow> c = Some Dialling \<and> n = 1"
  shows "pg_ok (w\<lparr>pw_store := s, pw_creator := (pw_creator w)(f := c)\<rparr>)" (is "pg_ok ?w'")
proof -
  have f: "f = pg_next (pw_store w)" and s: "pg_feeds s = (pg_feeds (pw_store w))(t \<mapsto> f)"
    "pg_feed s = (pg_feed (pw_store w))(f := x)" "pg_next s = f + 1" "pg_closing s = False"
    using r opened by (auto simp: reserve_def Let_def x new_pfeed_def)
  have xs: "pf_tenant x = t" "pf_dbKey x = []" "pf_err x = None" "\<not> pf_readyClosed x" "\<not> pf_reader x"
    "\<not> pf_signalled x" "pf_refs x = n" by (simp_all add: x new_pfeed_def)
  have old: "pg_feeds (pw_store w) u = Some g \<Longrightarrow> g < f \<and> pf_tenant (pg_feed (pw_store w) g) = u" for u g
    using map_okD [OF pg_okD(1) [OF ok]] f by simp
  have m: "map_ok s" using old by (fastforce simp: map_ok_def s xs)
  have k: "keys_ok s" using pg_okD(2) [OF ok] old by (fastforce simp: keys_ok_def s xs split: if_splits)
  have frsh: "fresh w f" using pg_okD(3) [OF ok, of f] f by (simp add: place_def)
  have "place ?w' g" for g
  proof (cases "g = f")
    case True
    have "count (pw_holders w) f = 0" "count (pw_waiters w) f = 0" "f \<notin> pw_stops w"
      using frsh by (auto simp: fresh_def count_eq_zero_iff)
    with True show ?thesis using c
      by (cases "t = []"; cases c) (simp_all add: place_def slot_def in_map_def s xs)
  next
    case False
    have im: "g < f \<Longrightarrow> in_map s g = in_map (pw_store w) g"
      using False old free by (auto simp: in_map_def s)
    show ?thesis using pg_okD(3) [OF ok, of g] False im f opened
      by (auto simp: place_def fresh_def s)
  qed
  with m k show ?thesis by (simp add: pg_ok_def)
qed

subsection \<open>The operations\<close>

text \<open>The slot of the zero scope, found or reserved, keeps the invariant.\<close>

lemma slot_found:
  assumes "zeroFeedSlotLocked s = (s', Inr f)"
  shows "\<not> pg_closing s \<and> (s' = s \<and> pg_feeds s [] = Some f
           \<or> pg_feeds s [] = None \<and> reserve (new_pfeed []) s = (s', f))"
  using assms by (auto simp: zeroFeedSlotLocked_def split: if_splits option.splits prod.splits)

lemma zero_slot_ok:
  assumes ok: "pg_ok w" and z: "zeroFeedSlotLocked (pw_store w) = (s, Inr f)"
  shows "pg_ok (w\<lparr>pw_store := s\<rparr>) \<and> pg_feeds s [] = Some f \<and> f < pg_next s \<and> pf_tenant (pg_feed s f) = []
     \<and> \<not> pg_closing s"
proof -
  from slot_found [OF z] have op: "\<not> pg_closing (pw_store w)" by blast
  from slot_found [OF z] consider (old) "s = pw_store w" "pg_feeds (pw_store w) [] = Some f"
    | (new) "pg_feeds (pw_store w) [] = None" "reserve (new_pfeed []) (pw_store w) = (s, f)" by metis
  then show ?thesis
  proof cases
    case old
    with ok op map_okD [OF pg_okD(1) [OF ok]] show ?thesis by auto
  next
    case new
    have f: "f = pg_next (pw_store w)" using new by (auto simp: reserve_def Let_def)
    then have n: "pw_creator w f = None" using pg_okD(3) [OF ok, of f] by (simp add: place_def fresh_def)
    then have c: "(pw_creator w)(f := None) = pw_creator w" by auto
    have "pg_ok (w\<lparr>pw_store := s, pw_creator := (pw_creator w)(f := None)\<rparr>)"
      by (rule reserved [OF ok _ new(2) new(1) op, where n = 0]) (simp_all add: new_pfeed_def)
    then show ?thesis using new op by (auto simp: c reserve_def Let_def new_pfeed_def)
  qed
qed

lemma slot_refused: "zeroFeedSlotLocked s = (s', Inl er) \<Longrightarrow> s' = s"
  by (auto simp: zeroFeedSlotLocked_def split: if_splits option.splits prod.splits)

lemma zero_start_ok:
  assumes ok: "pg_ok w" and z: "zeroFeedForStart (pw_store w) = (s, Inr f)"
  shows "pg_ok (w\<lparr>pw_store := s\<rparr>) \<and> pg_feeds s [] = Some f \<and> f < pg_next s \<and> pf_tenant (pg_feed s f) = []
     \<and> \<not> pg_closing s"
proof -
  from z obtain s' where s': "zeroFeedSlotLocked (pw_store w) = (s', Inr f)"
    and s: "s = upd_feed f (\<lambda>x. x\<lparr>pf_err := None\<rparr>) s'"
    by (auto simp: zeroFeedForStart_def split: prod.splits sum.splits)
  note zs = zero_slot_ok [OF ok s']
  have "pg_ok (w\<lparr>pw_store := s\<rparr>)"
  proof (rule one_feed [where w = "w\<lparr>pw_store := s'\<rparr>" and f = f])
    show "pg_ok (w\<lparr>pw_store := s'\<rparr>)" using zs by blast
    with zs show "slot (pg_closing (pw_store (w\<lparr>pw_store := s'\<rparr>))) (in_map (pw_store (w\<lparr>pw_store := s\<rparr>)) f)
        (pw_creator (w\<lparr>pw_store := s\<rparr>) f) (count (pw_holders (w\<lparr>pw_store := s\<rparr>)) f)
        (count (pw_waiters (w\<lparr>pw_store := s\<rparr>)) f) (f \<in> pw_stops (w\<lparr>pw_store := s\<rparr>))
        (pg_feed (pw_store (w\<lparr>pw_store := s\<rparr>)) f)"
      using slotD [of "w\<lparr>pw_store := s'\<rparr>" f] by (simp add: s slot_def in_map_def)
  qed (use zs in \<open>auto simp: s\<close>)
  with zs show ?thesis by (simp add: s)
qed

lemma acquire_ok:
  assumes ok: "pg_ok w" and a: "acquireFeed t (pw_store w) = (s, r)"
  shows "case r of
      Refused er \<Rightarrow> pg_ok (w\<lparr>pw_store := s\<rparr>)
    | Attached f \<Rightarrow> pg_ok (w\<lparr>pw_store := s, pw_holders := add_mset f (pw_holders w)\<rparr>)
    | Joined f \<Rightarrow> pg_ok (w\<lparr>pw_store := s, pw_waiters := add_mset f (pw_waiters w)\<rparr>)
    | Creating f \<Rightarrow> pg_ok (w\<lparr>pw_store := s, pw_creator := (pw_creator w)(f \<mapsto> Dialling)\<rparr>)"
proof -
  consider (closing) er where "pg_closing (pw_store w)" "s = pw_store w" "r = Refused er"
    | (zero) s' z where "t = []" "zeroFeedSlotLocked (pw_store w) = (s', z)"
        "(\<exists>er. s = s' \<and> r = Refused er) \<or> (\<exists>f. z = Inr f \<and> s = hold_feed f s' \<and> r = Attached f)"
    | (found) f where "t \<noteq> []" "pg_feeds (pw_store w) t = Some f" "s = hold_feed f (pw_store w)" "r = Joined f"
        "\<not> pg_closing (pw_store w)"
    | (new) f where "t \<noteq> []" "pg_feeds (pw_store w) t = None" "\<not> pg_closing (pw_store w)"
        "reserve ((new_pfeed t)\<lparr>pf_refs := 1\<rparr>) (pw_store w) = (s, f)" "r = Creating f"
    using a by (auto simp: acquireFeed_def zeroFeedLocked_def split: if_splits prod.splits sum.splits option.splits)
  then show ?thesis
  proof cases
    case closing
    then show ?thesis using ok by simp
  next
    case zero
    show ?thesis
    proof (cases z)
      case (Inl er)
      then show ?thesis using zero slot_refused [of "pw_store w" s' er] ok by auto
    next
      case (Inr f)
      note zs = zero_slot_ok [OF ok zero(2) [unfolded Inr]]
      have "pg_ok (w\<lparr>pw_store := hold_feed f s', pw_holders := add_mset f (pw_holders w)\<rparr>)" (is "pg_ok ?w'")
      proof (rule one_feed [where w = "w\<lparr>pw_store := s'\<rparr>" and f = f])
        show "slot (pg_closing (pw_store (w\<lparr>pw_store := s'\<rparr>))) (in_map (pw_store ?w') f)
            (pw_creator ?w' f) (count (pw_holders ?w') f) (count (pw_waiters ?w') f) (f \<in> pw_stops ?w')
            (pg_feed (pw_store ?w') f)"
          using slotD [of "w\<lparr>pw_store := s'\<rparr>" f] zs by (simp add: hold_feed_def slot_def in_map_def)
      qed (use zs in \<open>auto simp: hold_feed_def\<close>)
      then show ?thesis using zero(3) zs Inr by auto
    qed
  next
    case found
    note fm = map_okD [OF pg_okD(1) [OF ok] found(2)]
    have "pg_ok (w\<lparr>pw_store := s, pw_waiters := add_mset f (pw_waiters w)\<rparr>)" (is "pg_ok ?w'")
    proof (rule one_feed [OF ok, where f = f])
      show "slot (pg_closing (pw_store w)) (in_map (pw_store ?w') f)
          (pw_creator ?w' f) (count (pw_holders ?w') f) (count (pw_waiters ?w') f) (f \<in> pw_stops ?w')
          (pg_feed (pw_store ?w') f)"
        using slotD [OF ok, of f] fm found by (simp add: hold_feed_def slot_def in_map_def split: if_splits)
    qed (use fm found in \<open>auto simp: hold_feed_def\<close>)
    then show ?thesis using found by simp
  next
    case new
    have "pg_ok (w\<lparr>pw_store := s, pw_creator := (pw_creator w)(f := Some Dialling)\<rparr>)"
      by (rule reserved [OF ok refl new(4,2,3)]) simp
    then show ?thesis using new by simp
  qed
qed

lemma slot_left:
  assumes "slot cl tr c h wt st x" and "h' + wt' + 1 = h + wt" and "h' \<le> h" and "wt' \<le> wt"
    and "pf_tenant x = [] \<or> 1 < pf_refs x \<or> \<not> tr"
  shows "slot cl tr c h' wt' st (x\<lparr>pf_refs := pf_refs x - 1\<rparr>)"
proof -
  have "int h' + int wt' + 1 = int h + int wt" "0 < h' \<Longrightarrow> 0 < h" "0 < wt' \<Longrightarrow> 0 < wt"
    using assms(2-4) by linarith+
  with assms(1,5) show ?thesis by (cases tr; cases c) (auto simp: slot_def)
qed

lemma slot_last_left:
  assumes "slot cl True c h wt st x" and "h' + wt' + 1 = h + wt" and "pf_tenant x \<noteq> []" and "pf_refs x \<le> 1"
  shows "slot cl False c h' wt' True (x\<lparr>pf_refs := pf_refs x - 1\<rparr>)"
proof -
  have "int h' + int wt' + 1 = int h + int wt" using assms(2) by linarith
  moreover have "pf_refs x = int h + int wt + (if c = None then 0 else 1)" using assms(1,3) by (simp add: slot_def)
  ultimately have "h' = 0" "wt' = 0" "c = None" using assms(4) by (auto split: if_splits)
  with assms(1,3) show ?thesis by (simp add: slot_def)
qed

text \<open>A caller that leaves, a waiter or a holder, keeps the invariant.\<close>

lemma release_ok:
  assumes ok: "pg_ok w" and r: "releaseFeed f (pw_store w) = (s, stop)"
    and c: "f \<in># pw_waiters w \<and> ws = pw_waiters w - {#f#} \<and> hs = pw_holders w
        \<or> f \<in># pw_holders w \<and> hs = pw_holders w - {#f#} \<and> ws = pw_waiters w"
  shows "pg_ok (w\<lparr>pw_store := s, pw_waiters := ws, pw_holders := hs,
     pw_stops := (if stop then insert f (pw_stops w) else pw_stops w)\<rparr>)" (is "pg_ok ?w'")
proof -
  define s1 where "s1 = upd_feed f (\<lambda>x. x\<lparr>pf_refs := pf_refs x - 1\<rparr>) (pw_store w)"
  have f: "f < pg_next (pw_store w)" using known [OF ok] c by blast
  note sl = slotD [OF ok f]
  have n: "count hs f + count ws f + 1 = count (pw_holders w) f + count (pw_waiters w) f"
    "count hs f \<le> count (pw_holders w) f" "count ws f \<le> count (pw_waiters w) f"
    using c by (auto simp flip: count_greater_zero_iff)
  have s: "s = s1 \<and> \<not> stop \<and> (pf_tenant (pg_feed (pw_store w) f) = [] \<or> 1 < pf_refs (pg_feed (pw_store w) f)
        \<or> \<not> in_map (pw_store w) f)
      \<or> s = s1\<lparr>pg_feeds := (pg_feeds (pw_store w))(pf_tenant (pg_feed (pw_store w) f) := None)\<rparr> \<and> stop
        \<and> pf_tenant (pg_feed (pw_store w) f) \<noteq> [] \<and> pf_refs (pg_feed (pw_store w) f) \<le> 1
        \<and> in_map (pw_store w) f"
    using r by (auto simp: releaseFeed_def Let_def s1_def in_map_def split: if_splits)
  show ?thesis
  proof (rule one_feed [OF ok f])
    show "slot (pg_closing (pw_store w)) (in_map (pw_store ?w') f) (pw_creator ?w' f) (count (pw_holders ?w') f)
        (count (pw_waiters ?w') f) (f \<in> pw_stops ?w') (pg_feed (pw_store ?w') f)"
      using s
    proof
      assume "s = s1 \<and> \<not> stop \<and> (pf_tenant (pg_feed (pw_store w) f) = [] \<or> 1 < pf_refs (pg_feed (pw_store w) f)
        \<or> \<not> in_map (pw_store w) f)"
      then show ?thesis using slot_left [OF sl n] by (auto simp: s1_def in_map_def)
    next
      assume "s = s1\<lparr>pg_feeds := (pg_feeds (pw_store w))(pf_tenant (pg_feed (pw_store w) f) := None)\<rparr> \<and> stop
        \<and> pf_tenant (pg_feed (pw_store w) f) \<noteq> [] \<and> pf_refs (pg_feed (pw_store w) f) \<le> 1
        \<and> in_map (pw_store w) f"
      then show ?thesis using slot_last_left [OF _ n(1)] sl by (simp add: s1_def in_map_def)
    qed
  qed (use s c in \<open>auto simp: s1_def\<close>)
qed

text \<open>A creator that fails, at dialling or at publishing.\<close>

lemma slot_failed:
  assumes "slot cl tr (Some k) h wt st x"
  shows "slot cl (tr \<and> pf_tenant x = []) None h wt st
     (x\<lparr>pf_err := Some e, pf_readyClosed := (pf_tenant x \<noteq> [] \<or> pf_readyClosed x)\<rparr>)"
  using assms by (cases "pf_tenant x = []"; cases tr) (auto simp: slot_def)

lemma retract_ok:
  assumes ok: "pg_ok w" and r: "retractFeed f er (pw_store w) = (s, cause)" and k: "pw_creator w f = Some k"
  shows "pg_ok (w\<lparr>pw_store := s, pw_creator := (pw_creator w)(f := None)\<rparr>)" (is "pg_ok ?w'")
proof -
  let ?x = "pg_feed (pw_store w) f"
  have f: "f < pg_next (pw_store w)" using known [OF ok] k by blast
  have x: "pg_feed s = (pg_feed (pw_store w))(f := ?x\<lparr>pf_err := Some cause,
      pf_readyClosed := (pf_tenant ?x \<noteq> [] \<or> pf_readyClosed ?x)\<rparr>)"
    and m: "pg_feeds s = (if pf_tenant ?x \<noteq> [] \<and> in_map (pw_store w) f
      then (pg_feeds (pw_store w))(pf_tenant ?x := None) else pg_feeds (pw_store w))"
    and o: "pg_next s = pg_next (pw_store w)" "pg_closing s = pg_closing (pw_store w)"
    using r by (auto simp: retractFeed_def failLocked_def closeReadyLocked_def in_map_def Let_def fun_eq_iff
        split: if_splits)
  show ?thesis
  proof (rule one_feed [OF ok f])
    have "in_map s f \<longleftrightarrow> in_map (pw_store w) f \<and> pf_tenant ?x = []"
      by (auto simp: in_map_def x m)
    then show "slot (pg_closing (pw_store w)) (in_map (pw_store ?w') f) (pw_creator ?w' f) (count (pw_holders ?w') f)
        (count (pw_waiters ?w') f) (f \<in> pw_stops ?w') (pg_feed (pw_store ?w') f)"
      using slot_failed [OF slotD [OF ok f, unfolded k], of cause] by (simp add: x)
  qed (auto simp: x m o)
qed

lemma publish_failed:
  assumes "publishFeed f d s = (s', Some cause)"
  shows "\<exists>er. retractFeed f er s = (s', cause)"
proof -
  have "retractFeed f (if pg_closing s then Sentinel Store_ErrClosed else ErrSharedDatabaseUnsupported) s = (s', cause)"
    using assms by (auto simp: publishFeed_def retractFeed_def Let_def split: if_splits option.splits prod.splits)
  then show ?thesis by blast
qed

text \<open>A creator that publishes.\<close>

lemma slot_published:
  assumes "slot False tr (Some k) h wt st x"
  shows "slot False tr None (if pf_tenant x = [] then h else h + 1) wt st
     (x\<lparr>pf_dbKey := d, pf_reader := True, pf_readyClosed := (pf_tenant x \<noteq> [] \<or> pf_readyClosed x)\<rparr>)"
  using assms by (cases "pf_tenant x = []"; cases tr) (auto simp: slot_def)

lemma publish_ok:
  assumes ok: "pg_ok w" and r: "publishFeed f d (pw_store w) = (s, None)" and k: "pw_creator w f = Some k"
  shows "pg_ok (w\<lparr>pw_store := s, pw_creator := (pw_creator w)(f := None),
       pw_holders := (if pf_tenant (pg_feed s f) = [] then pw_holders w else add_mset f (pw_holders w))\<rparr>)"
    (is "pg_ok ?w'")
proof -
  let ?x = "pg_feed (pw_store w) f"
  have f: "f < pg_next (pw_store w)" using known [OF ok] k by blast
  have cl: "\<not> pg_closing (pw_store w)" and sh: "\<not> sharedDatabase f d (pw_store w)"
    using r by (auto simp: publishFeed_def Let_def split: if_splits option.splits prod.splits)
  have s: "s = closeReadyLocked f (upd_feed f (\<lambda>x. x\<lparr>pf_dbKey := d, pf_reader := True\<rparr>) (pw_store w))"
    using r cl sh by (simp add: publishFeed_def)
  have x: "pg_feed s = (pg_feed (pw_store w))(f := ?x\<lparr>pf_dbKey := d, pf_reader := True,
      pf_readyClosed := (pf_tenant ?x \<noteq> [] \<or> pf_readyClosed ?x)\<rparr>)"
    by (auto simp: s closeReadyLocked_def fun_eq_iff)
  have o: "pg_feeds s = pg_feeds (pw_store w)" "pg_next s = pg_next (pw_store w)"
    "pg_closing s = pg_closing (pw_store w)" by (simp_all add: s closeReadyLocked_def)
  show ?thesis
  proof (rule one_feed [OF ok f])
    have "slot False (in_map (pw_store w) f) (Some k) (count (pw_holders w) f) (count (pw_waiters w) f)
        (f \<in> pw_stops w) ?x"
      using slotD [OF ok f] k cl by simp
    from slot_published [OF this, of d]
    show "slot (pg_closing (pw_store w)) (in_map (pw_store ?w') f) (pw_creator ?w' f) (count (pw_holders ?w') f)
        (count (pw_waiters ?w') f) (f \<in> pw_stops ?w') (pg_feed (pw_store ?w') f)"
      using cl by (cases "pf_tenant ?x = []") (simp_all add: x o in_map_def)
  qed (use sh in \<open>auto simp: x o\<close>)
qed

text \<open>A signal, and Close.\<close>

lemma signal_ok:
  assumes ok: "pg_ok w" and f: "f \<in> pw_stops w"
  shows "pg_ok (w\<lparr>pw_store := signal_pfeed f (pw_store w), pw_stops := pw_stops w - {f}\<rparr>)" (is "pg_ok ?w'")
proof -
  have n: "f < pg_next (pw_store w)" using known [OF ok] f by blast
  show ?thesis
  proof (rule one_feed [OF ok n])
    show "slot (pg_closing (pw_store w)) (in_map (pw_store ?w') f) (pw_creator ?w' f) (count (pw_holders ?w') f)
        (count (pw_waiters ?w') f) (f \<in> pw_stops ?w') (pg_feed (pw_store ?w') f)"
      using slotD [OF ok n] f by (auto simp: slot_def signal_pfeed_def in_map_def)
  qed (auto simp: signal_pfeed_def)
qed

lemma slot_closed:
  assumes "slot cl tr c h wt st x"
  shows "slot True False c h wt (st \<or> tr \<and> \<not> connecting x)
    (if tr \<and> connecting x
     then x\<lparr>pf_err := Some e, pf_readyClosed := True\<rparr> else x)"
  using assms by (cases tr; cases c; cases "pf_tenant x = []") (auto simp: slot_def connecting_def split: if_splits)

lemma pg_close_ok:
  assumes ok: "pg_ok w" and c: "stopFeeds (pw_store w) = (s, left)"
  shows "pg_ok (w\<lparr>pw_store := s, pw_stops := pw_stops w \<union> {f. left f}\<rparr>)" (is "pg_ok ?w'")
proof -
  have s: "pg_feeds s = Map.empty" "pg_next s = pg_next (pw_store w)" "pg_closing s"
    and l: "left f \<longleftrightarrow> in_map (pw_store w) f \<and> \<not> connecting (pg_feed (pw_store w) f)"
    and x: "\<exists>e. pg_feed s f = (if in_map (pw_store w) f \<and> connecting (pg_feed (pw_store w) f)
        then (pg_feed (pw_store w) f)\<lparr>pf_err := Some e, pf_readyClosed := True\<rparr>
        else pg_feed (pw_store w) f)" for f
    using c by (auto simp: stopFeeds_def Let_def tracked_in_map [OF pg_okD(1) [OF ok]])
  have "place ?w' f" for f
  proof -
    obtain e where e: "pg_feed s f = (if in_map (pw_store w) f \<and> connecting (pg_feed (pw_store w) f)
        then (pg_feed (pw_store w) f)\<lparr>pf_err := Some e, pf_readyClosed := True\<rparr>
        else pg_feed (pw_store w) f)" using x by blast
    have im: "\<not> in_map s f" by (simp add: in_map_def s)
    show ?thesis
    proof (cases "f < pg_next (pw_store w)")
      case True
      from slot_closed [OF slotD [OF ok True], of e] show ?thesis
        using True im s l [of f] e by (simp add: place_def)
    next
      case False
      then have "\<not> in_map (pw_store w) f" using map_okD [OF pg_okD(1) [OF ok]] by (auto simp: in_map_def)
      with False show ?thesis using pg_okD(3) [OF ok, of f] s l [of f] e by (simp add: place_def fresh_def)
    qed
  qed
  then show ?thesis by (simp add: pg_ok_def map_ok_def keys_ok_def s)
qed

subsection \<open>Every run\<close>

lemma pg_step_ok:
  assumes "pg_step w w'" and "pg_ok w"
  shows "pg_ok w'"
  using assms
proof (cases rule: pg_step.cases)
  case refused
  with acquire_ok [OF assms(2)] show ?thesis by fastforce
next
  case attached
  with acquire_ok [OF assms(2)] show ?thesis by fastforce
next
  case joined
  with acquire_ok [OF assms(2)] show ?thesis by fastforce
next
  case creating
  with acquire_ok [OF assms(2)] show ?thesis by fastforce
next
  case (woken f)
  have f: "f < pg_next (pw_store w)" using known [OF assms(2)] woken(2) by blast
  have a: "pf_readyClosed (pg_feed (pw_store w) f)" "pf_err (pg_feed (pw_store w) f) = None"
    using woken(3) by (auto simp: awaitFeed_def split: if_splits option.splits)
  show ?thesis unfolding woken(1)
  proof (rule one_feed [OF assms(2) f], goal_cases)
    case 7
    have "int (count (pw_waiters w) f) = int (count (pw_waiters w - {#f#}) f) + 1"
      using woken(2) by (simp flip: count_greater_zero_iff)
    then show ?case using slotD [OF assms(2) f] woken(2) a by (auto simp: slot_def split: if_splits)
  qed auto
next
  case (gives_up f s stop)
  from release_ok [OF assms(2) gives_up(3), where ws = "pw_waiters w - {#f#}" and hs = "pw_holders w"] gives_up(2)
  show ?thesis unfolding gives_up(1) by (cases w) simp
next
  case (dial_fails f er s cause)
  from retract_ok [OF assms(2) dial_fails(3,2)] show ?thesis by (simp add: dial_fails(1))
next
  case (dials f d)
  have f: "f < pg_next (pw_store w)" using known [OF assms(2)] dials(2) by blast
  show ?thesis unfolding dials(1)
    by (rule one_feed [OF assms(2) f]) (use slotD [OF assms(2) f] dials(2) in \<open>auto simp: slot_def\<close>)
next
  case (publishes f d s)
  from publish_ok [OF assms(2) publishes(3,2)] show ?thesis by (simp add: publishes(1))
next
  case (publish_fails f d s cause)
  from publish_failed [OF publish_fails(3)] obtain er where "retractFeed f er (pw_store w) = (s, cause)" by blast
  from retract_ok [OF assms(2) this publish_fails(2)] show ?thesis by (simp add: publish_fails(1))
next
  case (start_refused s er)
  have "s = pw_store w"
    using start_refused(2)
    by (auto simp: startListener_def zeroFeedForStart_def dest: slot_refused split: prod.splits sum.splits if_splits)
  then show ?thesis using assms(2) by (simp add: start_refused(1))
next
  case (start_running s)
  then obtain f where "zeroFeedForStart (pw_store w) = (s, Inr f)"
    by (auto simp: startListener_def split: prod.splits sum.splits if_splits)
  from zero_start_ok [OF assms(2) this] show ?thesis by (simp add: start_running(1))
next
  case (starts s f)
  from starts(2) have z: "zeroFeedForStart (pw_store w) = (s, Inr f)" and r: "\<not> pf_reader (pg_feed s f)"
    by (auto simp: startListener_def split: prod.splits sum.splits if_splits)
  note zs = zero_start_ok [OF assms(2) z]
  show ?thesis unfolding starts(1)
  proof (rule one_feed [where w = "w\<lparr>pw_store := s\<rparr>" and f = f], goal_cases)
    case 9
    from slotD [of "w\<lparr>pw_store := s\<rparr>" f] zs r show ?case by (simp add: slot_def in_map_def)
  qed (use zs in auto)
next
  case (releases f s stop)
  from release_ok [OF assms(2) releases(3), where ws = "pw_waiters w" and hs = "pw_holders w - {#f#}"] releases(2)
  show ?thesis unfolding releases(1) by (cases w) simp
next
  case (stops f)
  from signal_ok [OF assms(2) stops(2)] show ?thesis by (simp add: stops(1))
next
  case (closes s left)
  from pg_close_ok [OF assms(2) closes(3)] show ?thesis by (simp add: closes(1))
qed

lemma pg_runs_ok: "pg_runs w \<Longrightarrow> pg_ok w"
proof -
  assume "pg_runs w"
  then have "pg_step\<^sup>*\<^sup>* new_pg_world w" by (simp add: pg_runs_def)
  then show ?thesis by (induction rule: rtranclp_induct) (auto intro: new_pg_ok pg_step_ok)
qed

lemma run_slot:
  assumes "pg_runs w" and "pw_creator w f \<noteq> None \<or> f \<in># pw_holders w \<or> f \<in># pw_waiters w
    \<or> pf_reader (pg_feed (pw_store w) f)"
  shows "slot (pg_closing (pw_store w)) (in_map (pw_store w) f) (pw_creator w f)
           (count (pw_holders w) f) (count (pw_waiters w) f) (f \<in> pw_stops w) (pg_feed (pw_store w) f)"
  using pg_okD(3) [OF pg_runs_ok [OF assms(1)], of f] assms(2)
  by (auto simp: place_def fresh_def split: if_splits)

subsection \<open>What a run keeps\<close>

text \<open>In every interleaving, a changefeed that a subscription of a tenant holds, in a store that is not
  closing, is the one the map tracks for that tenant: no other subscriber's failure, retraction or release
  tears it down, its reader runs, nobody has signalled it, and its reference count is what its holders and
  its waiters add up to.\<close>

theorem held_feeds_stay:
  assumes "pg_runs w" and "f \<in># pw_holders w" and "\<not> pg_closing (pw_store w)"
    and "pf_tenant (pg_feed (pw_store w) f) \<noteq> []"
  shows "pg_feeds (pw_store w) (pf_tenant (pg_feed (pw_store w) f)) = Some f
    \<and> pf_reader (pg_feed (pw_store w) f) \<and> \<not> pf_signalled (pg_feed (pw_store w) f)
    \<and> pf_refs (pg_feed (pw_store w) f) = int (count (pw_holders w) f) + int (count (pw_waiters w) f)"
  using run_slot [OF assms(1), of f] assms(2-4) by (auto simp: slot_def in_map_def split: if_splits)

text \<open>C26. No listener outlives its subscribers: once no stop is pending, a reader that nobody has signalled
  belongs to a feed the map tracks in a store that is open, and a tenant's such feed is held or awaited by
  somebody, so that its connection is released when they leave.\<close>

theorem no_orphan_listener:
  assumes "pg_runs w" and "pw_stops w = {}" and "pf_reader (pg_feed (pw_store w) f)"
    and "\<not> pf_signalled (pg_feed (pw_store w) f)"
  shows "\<not> pg_closing (pw_store w) \<and> pg_feeds (pw_store w) (pf_tenant (pg_feed (pw_store w) f)) = Some f
    \<and> (pf_tenant (pg_feed (pw_store w) f) = [] \<or> f \<in># pw_holders w \<or> f \<in># pw_waiters w)"
  using run_slot [OF assms(1), of f] assms(2-4)
  by (auto simp: slot_def in_map_def split: if_splits simp flip: count_greater_zero_iff)

text \<open>One listener per tenant and per recorded database: two feeds that both have an unsignalled reader, with
  no stop pending, are of different tenants and have recorded different database keys, or none, whichever of
  two tenants that share one connected first. The keys name servers as they were reached, so two routes to one
  database are two keys; and between a release and its stop both readers of a tenant run.\<close>

theorem one_listener_per_database:
  assumes "pg_runs w" and "pw_stops w = {}" and "f \<noteq> g"
    and "pf_reader (pg_feed (pw_store w) f)" and "\<not> pf_signalled (pg_feed (pw_store w) f)"
    and "pf_reader (pg_feed (pw_store w) g)" and "\<not> pf_signalled (pg_feed (pw_store w) g)"
  shows "pf_tenant (pg_feed (pw_store w) f) \<noteq> pf_tenant (pg_feed (pw_store w) g)
    \<and> (pf_dbKey (pg_feed (pw_store w) f) = []
       \<or> pf_dbKey (pg_feed (pw_store w) f) \<noteq> pf_dbKey (pg_feed (pw_store w) g))"
proof -
  have "in_map (pw_store w) f" and "in_map (pw_store w) g"
    using run_slot [OF assms(1), of f] run_slot [OF assms(1), of g] assms(2-) by (auto simp: slot_def)
  then have f: "pg_feeds (pw_store w) (pf_tenant (pg_feed (pw_store w) f)) = Some f"
    and g: "pg_feeds (pw_store w) (pf_tenant (pg_feed (pw_store w) g)) = Some g" by (simp_all add: in_map_def)
  have "keys_ok (pw_store w)" by (rule pg_okD(2) [OF pg_runs_ok [OF assms(1)]])
  with f g assms(3) have "pf_dbKey (pg_feed (pw_store w) f) \<noteq> [] \<Longrightarrow>
      pf_dbKey (pg_feed (pw_store w) f) \<noteq> pf_dbKey (pg_feed (pw_store w) g)"
    unfolding keys_ok_def by blast
  then show ?thesis using f g assms(3) by auto
qed

text \<open>C27. A caller that waits for another one's changefeed is never stranded: either the creator is still at
  work, or the feed's channel is closed, and then the feed carries the cause of its failure or a reader that
  runs.\<close>

theorem no_stranded_waiter:
  assumes "pg_runs w" and "f \<in># pw_waiters w"
  shows "pw_creator w f \<noteq> None
    \<or> pf_readyClosed (pg_feed (pw_store w) f)
      \<and> (pf_err (pg_feed (pw_store w) f) \<noteq> None \<or> pf_reader (pg_feed (pw_store w) f))"
  using run_slot [OF assms(1), of f] assms(2) by (auto simp: slot_def)

subsection \<open>A run\<close>

text \<open>Tenant \<open>a\<close> is subscribed to twice, the second caller waiting for the first, then tenant \<open>b\<close>.\<close>

definition run_asked :: pg_world where
  "run_asked = new_pg_world\<lparr>pw_store := fst (acquireFeed ''a'' new_pgstore),
     pw_creator := [0 \<mapsto> Dialling]\<rparr>"

definition run_waiting :: pg_world where
  "run_waiting = run_asked\<lparr>pw_store := fst (acquireFeed ''a'' (pw_store run_asked)), pw_waiters := {#0#}\<rparr>"

definition run_dialled :: pg_world where
  "run_dialled = run_waiting\<lparr>pw_creator := [0 \<mapsto> Connected ''db1'']\<rparr>"

definition run_published :: pg_world where
  "run_published = run_dialled\<lparr>pw_store := fst (publishFeed 0 ''db1'' (pw_store run_dialled)),
     pw_creator := Map.empty, pw_holders := {#0#}\<rparr>"

definition run_other :: pg_world where
  "run_other = run_published\<lparr>pw_store := fst (acquireFeed ''b'' (pw_store run_published)),
     pw_creator := [1 \<mapsto> Dialling]\<rparr>"

definition run_other_dialled :: pg_world where
  "run_other_dialled = run_other\<lparr>pw_creator := [1 \<mapsto> Connected ''db2'']\<rparr>"

definition run_both :: pg_world where
  "run_both = run_other_dialled\<lparr>pw_store := fst (publishFeed 1 ''db2'' (pw_store run_other_dialled)),
     pw_creator := Map.empty, pw_holders := {#0, 1#}\<rparr>"

lemmas run_defs = run_asked_def run_waiting_def run_dialled_def run_published_def run_other_def
  run_other_dialled_def run_both_def new_pg_world_def new_pgstore_def new_pfeed_def

lemma run_stores:
  "pw_store run_asked = \<lparr>pg_feeds = [''a'' \<mapsto> 0],
     pg_feed = (\<lambda>_. new_pfeed [])(0 := (new_pfeed ''a'')\<lparr>pf_refs := 1\<rparr>), pg_next = 1, pg_closing = False\<rparr>"
  "pw_store run_waiting = \<lparr>pg_feeds = [''a'' \<mapsto> 0],
     pg_feed = (\<lambda>_. new_pfeed [])(0 := (new_pfeed ''a'')\<lparr>pf_refs := 2\<rparr>), pg_next = 1, pg_closing = False\<rparr>"
  "pw_store run_published = \<lparr>pg_feeds = [''a'' \<mapsto> 0],
     pg_feed = (\<lambda>_. new_pfeed [])(0 := (new_pfeed ''a'')\<lparr>pf_refs := 2, pf_dbKey := ''db1'', pf_reader := True,
       pf_readyClosed := True\<rparr>), pg_next = 1, pg_closing = False\<rparr>"
  "pw_store run_both = \<lparr>pg_feeds = [''a'' \<mapsto> 0, ''b'' \<mapsto> 1],
     pg_feed = (\<lambda>_. new_pfeed [])(0 := (new_pfeed ''a'')\<lparr>pf_refs := 2, pf_dbKey := ''db1'', pf_reader := True,
       pf_readyClosed := True\<rparr>, 1 := (new_pfeed ''b'')\<lparr>pf_refs := 1, pf_dbKey := ''db2'', pf_reader := True,
       pf_readyClosed := True\<rparr>), pg_next = 2, pg_closing = False\<rparr>"
  by (simp_all add: run_defs acquireFeed_def reserve_def hold_feed_def upd_feed_def modify_def publishFeed_def
      sharedDatabase_def closeReadyLocked_def Let_def)

lemmas run_ops = acquireFeed_def reserve_def hold_feed_def upd_feed_def modify_def publishFeed_def
  sharedDatabase_def closeReadyLocked_def Let_def

lemma run_steps:
  "pg_step new_pg_world run_asked" "pg_step run_asked run_waiting" "pg_step run_waiting run_dialled"
  "pg_step run_dialled run_published" "pg_step run_published run_other" "pg_step run_other run_other_dialled"
  "pg_step run_other_dialled run_both"
proof -
  have 1: "run_asked = new_pg_world\<lparr>pw_store := fst (acquireFeed ''a'' (pw_store new_pg_world)),
      pw_creator := (pw_creator new_pg_world)(0 \<mapsto> Dialling)\<rparr>"
    by (simp add: run_asked_def new_pg_world_def)
  show "pg_step new_pg_world run_asked"
    unfolding 1 by (rule pg_step.creating [where tenant = "''a''"]) (simp add: run_defs run_ops)
  have 2: "run_waiting = run_asked\<lparr>pw_store := fst (acquireFeed ''a'' (pw_store run_asked)),
      pw_waiters := add_mset 0 (pw_waiters run_asked)\<rparr>"
    by (simp add: run_waiting_def) (simp add: run_asked_def new_pg_world_def)
  show "pg_step run_asked run_waiting"
    unfolding 2 by (rule pg_step.joined [where tenant = "''a''"]) (simp add: run_stores run_ops)
  have 3: "run_dialled = run_waiting\<lparr>pw_creator := (pw_creator run_waiting)(0 \<mapsto> Connected ''db1'')\<rparr>"
    by (simp add: run_dialled_def) (simp add: run_waiting_def run_asked_def)
  show "pg_step run_waiting run_dialled"
    unfolding 3 by (rule pg_step.dials) (simp add: run_waiting_def run_asked_def)
  have 4: "run_published = run_dialled\<lparr>pw_store := pw_store run_published,
      pw_creator := (pw_creator run_dialled)(0 := None),
      pw_holders := (if pf_tenant (pg_feed (pw_store run_published) 0) = [] then pw_holders run_dialled
        else add_mset 0 (pw_holders run_dialled))\<rparr>"
    by (simp add: run_stores new_pfeed_def) (simp add: run_defs run_ops)
  show "pg_step run_dialled run_published"
    by (rule back_subst [of "pg_step run_dialled", OF pg_step.publishes [where f = 0 and dbKey = "''db1''"] 4 [symmetric]])
      (simp_all add: run_defs run_ops)
  have 5: "run_other = run_published\<lparr>pw_store := fst (acquireFeed ''b'' (pw_store run_published)),
      pw_creator := (pw_creator run_published)(1 \<mapsto> Dialling)\<rparr>"
    by (simp add: run_other_def) (simp add: run_published_def)
  show "pg_step run_published run_other"
    unfolding 5 by (rule pg_step.creating [where tenant = "''b''"]) (simp add: run_stores run_ops)
  have 6: "run_other_dialled = run_other\<lparr>pw_creator := (pw_creator run_other)(1 \<mapsto> Connected ''db2'')\<rparr>"
    by (simp add: run_other_dialled_def) (simp add: run_other_def)
  show "pg_step run_other run_other_dialled"
    unfolding 6 by (rule pg_step.dials) (simp add: run_other_def)
  have 7: "run_both = run_other_dialled\<lparr>pw_store := pw_store run_both,
      pw_creator := (pw_creator run_other_dialled)(1 := None),
      pw_holders := (if pf_tenant (pg_feed (pw_store run_both) 1) = [] then pw_holders run_other_dialled
        else add_mset 1 (pw_holders run_other_dialled))\<rparr>"
    by (simp add: run_stores new_pfeed_def) (simp add: run_defs run_ops)
  show "pg_step run_other_dialled run_both"
    by (rule back_subst [of "pg_step run_other_dialled",
          OF pg_step.publishes [where f = 1 and dbKey = "''db2''"] 7 [symmetric]])
      (simp_all add: run_defs run_ops)
qed

lemma run_reached: "pg_runs run_waiting" "pg_runs run_published" "pg_runs run_both"
  using run_steps unfolding pg_runs_def by (meson rtranclp.rtrancl_into_rtrancl rtranclp.rtrancl_refl)+

text \<open>The properties at that run.\<close>

lemma run_held:
  "pw_holders run_both = {#0, 1#}" "pw_waiters run_waiting = {#0#}" "pw_stops run_both = {}"
  "pw_creator run_waiting = [0 \<mapsto> Dialling]" "pw_waiters run_both = {#0#}"
  by (simp_all add: run_defs)

theorem held_feeds_stay_witness:
  "pf_reader (pg_feed (pw_store run_both) 0) \<and> \<not> pf_signalled (pg_feed (pw_store run_both) 0)
    \<and> pf_refs (pg_feed (pw_store run_both) 0) = 2"
  using held_feeds_stay [OF run_reached(3), of 0]
  by (simp add: run_held) (simp add: run_stores new_pfeed_def)

theorem no_orphan_listener_witness:
  "pg_feeds (pw_store run_both) ''b'' = Some 1 \<and> 1 \<in># pw_holders run_both"
  using no_orphan_listener [OF run_reached(3), of 1]
  by (simp add: run_held) (simp add: run_stores new_pfeed_def)

theorem one_listener_per_database_witness:
  "pf_tenant (pg_feed (pw_store run_both) 0) \<noteq> pf_tenant (pg_feed (pw_store run_both) 1)
    \<and> pf_dbKey (pg_feed (pw_store run_both) 0) \<noteq> pf_dbKey (pg_feed (pw_store run_both) 1)"
  using one_listener_per_database [OF run_reached(3), of 0 1]
  by (simp add: run_held) (simp add: run_stores new_pfeed_def)

theorem no_stranded_waiter_witness:
  "pw_creator run_waiting 0 \<noteq> None \<and> \<not> pf_readyClosed (pg_feed (pw_store run_waiting) 0)"
  using no_stranded_waiter [OF run_reached(1), of 0]
  by (simp add: run_held run_stores new_pfeed_def)

subsection \<open>Connections and keys\<close>

text \<open>A connection is left open exactly when the open answers a key.\<close>

lemma no_connection_left:
  "openListen c d i l = (r, opened) \<Longrightarrow> opened \<longleftrightarrow> is_ok r"
  "dialAndListen d l = (e, opened) \<Longrightarrow> opened \<longleftrightarrow> e = None"
  by (auto simp: openListen_def dialAndListen_def split: if_splits option.splits sum.splits)

lemma split_at_slash:
  assumes "s @ CHR ''/'' # x = t @ CHR ''/'' # y" and "CHR ''/'' \<notin> set s" and "CHR ''/'' \<notin> set t"
  shows "s = t \<and> x = y"
proof -
  have "takeWhile (\<lambda>c. c \<noteq> CHR ''/'') (s @ CHR ''/'' # x) = s"
    "takeWhile (\<lambda>c. c \<noteq> CHR ''/'') (t @ CHR ''/'' # y) = t"
    using assms(2,3) by (auto simp: takeWhile_append)
  with assms(1) show ?thesis by auto
qed

lemma split_at_port:
  assumes "a @ CHR '':'' # print_int p = b @ CHR '':'' # print_int q"
  shows "a = b \<and> p = q"
proof -
  have no: "CHR '':'' \<notin> set (print_int k)" for k
    using print_int_chars [of "CHR '':''" k] by (auto simp: digit_def Let_def minus_sign_def)
  have "takeWhile (\<lambda>c. c \<noteq> CHR '':'') (rev (a @ CHR '':'' # print_int p)) = rev (print_int p)"
    "takeWhile (\<lambda>c. c \<noteq> CHR '':'') (rev (b @ CHR '':'' # print_int q)) = rev (print_int q)"
    using no by (auto simp: takeWhile_append)
  with assms have "print_int p = print_int q" by simp
  with assms show ?thesis by (auto dest: print_int_inj)
qed

text \<open>Two routes over TCP have one key exactly when the server says the same of itself on both.\<close>

lemma tcp_keys_faithful:
  assumes "a \<noteq> []" and "b \<noteq> []" and "CHR ''/'' \<notin> set a" and "CHR ''/'' \<notin> set b"
    and "CHR ''/'' \<notin> set s" and "CHR ''/'' \<notin> set t"
  shows "formatServerDatabaseKey ph d a p s x = formatServerDatabaseKey ph e b q t y
    \<longleftrightarrow> d = e \<and> a = b \<and> p = q \<and> s = t"
proof
  assume "formatServerDatabaseKey ph d a p s x = formatServerDatabaseKey ph e b q t y"
  then have "s @ CHR ''/'' # ''tcp:'' @ a @ CHR '':'' # print_int p @ CHR ''/'' # d
      = t @ CHR ''/'' # ''tcp:'' @ b @ CHR '':'' # print_int q @ CHR ''/'' # e"
    using assms(1,2) by (simp add: formatServerDatabaseKey_def)
  from split_at_slash [OF this assms(5,6)]
  have st: "s = t" and r: "(a @ CHR '':'' # print_int p) @ CHR ''/'' # d = (b @ CHR '':'' # print_int q) @ CHR ''/'' # e"
    by simp_all
  have no: "CHR ''/'' \<notin> set (print_int k)" for k
    using print_int_chars [of "CHR ''/''" k] by (auto simp: digit_def Let_def minus_sign_def)
  from split_at_slash [OF r] no assms(3,4)
  have "a @ CHR '':'' # print_int p = b @ CHR '':'' # print_int q" and "d = e" by auto
  with split_at_port st show "d = e \<and> a = b \<and> p = q \<and> s = t" by blast
next
  assume "d = e \<and> a = b \<and> p = q \<and> s = t"
  then show "formatServerDatabaseKey ph d a p s x = formatServerDatabaseKey ph e b q t y"
    using assms(1,2) by (simp add: formatServerDatabaseKey_def)
qed

end
