(* ===== verification/Backend.thy ===== *)
theory Backend
  imports Store_Types
begin

text \<open>
  What a backend's rows promise the engine, whichever database holds them (the contract of \<open>Set\<close>,
  \<open>Delete\<close>, \<open>Get\<close> and \<open>List\<close> in \<^verbatim>\<open>internal/store/store.go\<close>): the last write wins, and a revision, once
  a key has carried it, means one value of that key for ever. A backend stores values and times at its
  own precision (\<open>canon\<close>, \<open>grain\<close>).
\<close>

subsection \<open>Writes\<close>

text \<open>
  A write carries the moment it runs at, on the writer's clock and on the server's; a row without a time
  is stamped with the writer's.
\<close>

type_synonym moment = "time \<times> time"

datatype db_write = Put moment row | Remove moment nskey string

definition stamped :: "moment \<Rightarrow> row \<Rightarrow> row" where
  "stamped now e = (if row_at e = zero_time then e\<lparr>row_at := fst now\<rparr> else e)"

lemma stamped_same [simp]:
  "row_value (stamped now e) = row_value e" "row_ns (stamped now e) = row_ns e"
  "row_key (stamped now e) = row_key e" "row_by (stamped now e) = row_by e" "row_nk (stamped now e) = row_nk e"
  by (simp_all add: stamped_def row_nk_def)

text \<open>The specification: a map of rows without revisions, the last write of a key wins.\<close>

definition unrevised :: "row \<Rightarrow> row" where
  "unrevised r = r\<lparr>row_rev := 0\<rparr>"

fun last_write :: "(bytes \<Rightarrow> bytes) \<Rightarrow> (time \<Rightarrow> time) \<Rightarrow> db_write list \<Rightarrow> nskey \<Rightarrow> row option" where
  "last_write canon grain [] nk = None"
| "last_write canon grain (Put now e # ws) nk =
     (if row_nk e = nk
      then Some (let x = stamped now e
                 in x\<lparr>row_value := canon (row_value x), row_at := grain (row_at x), row_rev := 0\<rparr>)
      else last_write canon grain ws nk)"
| "last_write canon grain (Remove now nk' actor # ws) nk =
     (if nk' = nk then None else last_write canon grain ws nk)"

subsection \<open>The contract\<close>

text \<open>\<open>high s nk\<close> bounds every revision the key has had, deleted or not.\<close>

locale backend =
  fixes ok :: "'s \<Rightarrow> bool"
    and fetch :: "'s \<Rightarrow> nskey \<Rightarrow> row option"
    and accepts :: "row \<Rightarrow> bool"
    and put :: "moment \<Rightarrow> row \<Rightarrow> 's \<Rightarrow> 's \<times> int"
    and remove :: "moment \<Rightarrow> nskey \<Rightarrow> string \<Rightarrow> 's \<Rightarrow> 's"
    and high :: "'s \<Rightarrow> nskey \<Rightarrow> int"
    and canon :: "bytes \<Rightarrow> bytes" and same :: "bytes \<Rightarrow> bytes \<Rightarrow> bool" and grain :: "time \<Rightarrow> time"
  assumes same_refl: "same v v"
    and same_trans: "same u v \<Longrightarrow> same v x \<Longrightarrow> same u x"
    and put_ok: "ok s \<Longrightarrow> accepts e \<Longrightarrow> ok (fst (put now e s))"
    and remove_ok: "ok s \<Longrightarrow> ok (remove now nk actor s)"
    and fetch_put: "ok s \<Longrightarrow> accepts e \<Longrightarrow> fetch (fst (put now e s)) nk =
        (if nk = row_nk e
         then Some (let x = stamped now e
                    in x\<lparr>row_value := canon (row_value x), row_at := grain (row_at x), row_rev := snd (put now e s)\<rparr>)
         else fetch s nk)"
    and fetch_remove: "ok s \<Longrightarrow> fetch (remove now nk actor s) nk' = (if nk' = nk then None else fetch s nk')"
    and high_fetch: "ok s \<Longrightarrow> fetch s nk = Some r \<Longrightarrow> row_rev r \<le> high s nk"
    and high_put: "ok s \<Longrightarrow> accepts e \<Longrightarrow> high s nk \<le> high (fst (put now e s)) nk"
    and high_remove: "ok s \<Longrightarrow> high s nk \<le> high (remove now nk' actor s) nk"
    and put_same: "ok s \<Longrightarrow> accepts e \<Longrightarrow> fetch s (row_nk e) = Some r \<Longrightarrow>
        same (row_value r) (canon (row_value e)) \<Longrightarrow>
        snd (put now e s) = row_rev r"
    and put_new: "ok s \<Longrightarrow> accepts e \<Longrightarrow>
        (\<And>r. fetch s (row_nk e) = Some r \<Longrightarrow> \<not> same (row_value r) (canon (row_value e))) \<Longrightarrow>
        high s (row_nk e) < snd (put now e s)"
begin

text \<open>A history, newest write first.\<close>

fun run :: "db_write list \<Rightarrow> 's \<Rightarrow> 's" where
  "run [] s = s"
| "run (Put now e # ws) s = fst (put now e (run ws s))"
| "run (Remove now nk actor # ws) s = remove now nk actor (run ws s)"

definition accepted :: "db_write list \<Rightarrow> bool" where
  "accepted ws \<longleftrightarrow> (\<forall>w \<in> set ws. case w of Put now e \<Rightarrow> accepts e | Remove now nk actor \<Rightarrow> True)"

lemma accepted_simps [simp]:
  "accepted []" "accepted (Put now e # ws) \<longleftrightarrow> accepts e \<and> accepted ws"
  "accepted (Remove now nk actor # ws) \<longleftrightarrow> accepted ws"
  by (auto simp: accepted_def)

lemma accepted_append [simp]: "accepted (ws @ vs) \<longleftrightarrow> accepted ws \<and> accepted vs"
  by (auto simp: accepted_def)

lemma run_append: "run (ws @ vs) s = run ws (run vs s)"
  by (induction ws s rule: run.induct) simp_all

lemma history_ok: "ok s \<Longrightarrow> accepted ws \<Longrightarrow> ok (run ws s)"
  by (induction ws s rule: run.induct) (auto intro: put_ok remove_ok)

text \<open>Reading: the last write of the key, up to the revision.\<close>

lemma reads_last_write:
  assumes "ok s" and "\<And>nk. fetch s nk = None" and "accepted ws"
  shows "map_option unrevised (fetch (run ws s) nk) = last_write canon grain ws nk"
  using assms(3)
proof (induction ws)
  case Nil
  then show ?case by (simp add: assms(2))
next
  case (Cons w ws)
  show ?case
  proof (cases w)
    case (Put now e)
    with Cons have "ok (run ws s)" by (auto intro: history_ok assms(1))
    with Put Cons show ?thesis by (auto simp: fetch_put unrevised_def Let_def)
  next
    case (Remove now nk' actor)
    with Cons have "ok (run ws s)" by (auto intro: history_ok assms(1))
    with Remove Cons show ?thesis by (auto simp: fetch_remove)
  qed
qed

text \<open>What a read established stands: a later read answers the same value at the same revision, or a
  newer revision.\<close>

definition follows :: "row \<Rightarrow> row \<Rightarrow> bool" where
  "follows r r' \<longleftrightarrow> row_rev r < row_rev r' \<or> row_rev r' = row_rev r \<and> same (row_value r) (row_value r')"

lemma put_follows:
  assumes "ok s" and "accepts e" and "row_rev r \<le> high s (row_nk e)"
    and "\<And>r'. fetch s (row_nk e) = Some r' \<Longrightarrow> follows r r'"
    and "fetch (fst (put now e s)) (row_nk e) = Some x"
  shows "follows r x"
proof -
  from assms(5) have x: "row_rev x = snd (put now e s)" "row_value x = canon (row_value e)"
    by (auto simp: fetch_put [OF assms(1,2)] Let_def)
  show ?thesis
  proof (cases "\<exists>r'. fetch s (row_nk e) = Some r' \<and> same (row_value r') (canon (row_value e))")
    case True
    then obtain r' where r': "fetch s (row_nk e) = Some r'" "same (row_value r') (canon (row_value e))" by blast
    from assms(4) [OF r'(1)] put_same [OF assms(1,2) r'] r'(2) x show ?thesis
      by (auto simp: follows_def intro: same_trans)
  next
    case False
    then have "high s (row_nk e) < snd (put now e s)" by (intro put_new [OF assms(1,2)]) auto
    with assms(3) x show ?thesis by (simp add: follows_def)
  qed
qed

lemma high_run: "ok s \<Longrightarrow> accepted ws \<Longrightarrow> high s nk \<le> high (run ws s) nk"
proof (induction ws)
  case (Cons w ws)
  then show ?case
    by (cases w) (auto intro: order_trans [OF _ high_put] order_trans [OF _ high_remove] history_ok)
qed simp

lemma revisions_stand:
  assumes "ok s" and "accepted ws" and "fetch s nk = Some r" and "fetch (run ws s) nk = Some r'"
  shows "follows r r'"
proof -
  have "\<forall>x. fetch (run ws s) nk = Some x \<longrightarrow> follows r x"
    using assms(2)
  proof (induction ws)
    case Nil
    from assms(3) show ?case by (simp add: follows_def same_refl)
  next
    case (Cons w ws)
    show ?case
    proof (cases w)
      case (Put now e)
      with Cons.prems have ok: "ok (run ws s)" and a: "accepts e" and as: "accepted ws"
        by (auto intro: history_ok assms(1))
      show ?thesis
      proof (cases "nk = row_nk e")
        case True
        have "row_rev r \<le> high (run ws s) (row_nk e)"
          using high_fetch [OF assms(1,3)] high_run [OF assms(1) as, of nk] True by simp
        with Cons.IH [OF as] put_follows [OF ok a] True Put show ?thesis by auto
      next
        case False
        with Cons.IH [OF as] Put show ?thesis by (simp add: fetch_put [OF ok a])
      qed
    next
      case (Remove now nk' actor)
      with Cons.prems have "ok (run ws s)" by (auto intro: history_ok assms(1))
      with Cons Remove show ?thesis by (auto simp: fetch_remove)
    qed
  qed
  with assms(4) show ?thesis by blast
qed

text \<open>A key that was deleted comes back above every revision it had.\<close>

lemma recreated_above:
  assumes "ok s" and "accepted ws" and "accepts e"
    and "fetch s (row_nk e) = Some r" and "fetch (run ws s) (row_nk e) = None"
  shows "row_rev r < snd (put now e (run ws s))"
proof -
  have "high (run ws s) (row_nk e) < snd (put now e (run ws s))"
    by (rule put_new [OF history_ok [OF assms(1,2)] assms(3)]) (simp add: assms)
  with high_run [OF assms(1,2), of "row_nk e"] high_fetch [OF assms(1,4)] show ?thesis by simp
qed

end

end
