(* ===== verification/Pg_Table.thy ===== *)
theory Pg_Table
  imports Backend Pg_Feed Pg_Store
begin

text \<open>
  The rows of a Postgres backend: the table, the revision sequence and the triggers of
  \<^verbatim>\<open>ddl/schema.sql\<close>, and the reads and writes of \<^verbatim>\<open>internal/postgres/postgres.go\<close> over them. What
  Postgres makes of a document (\<open>JSONB\<close> in and out, its equality) and of a time is an argument; a
  statement that fails in transit is an answer. The sequence is not followed past its \<open>BIGINT\<close> bound.
\<close>

subsection \<open>The table and its triggers\<close>

text \<open>
  \<open>se_jsonb\<close> is the text a document reads back as; two documents are one \<open>JSONB\<close> value when
  \<open>se_value\<close> agrees on their texts (\<open>1\<close> and \<open>1.0\<close> read back apart and are one value).
\<close>

record sql_env =
  se_jsonb :: "bytes \<Rightarrow> bytes option"
  se_value :: "bytes \<Rightarrow> bytes"
  se_time :: "time \<Rightarrow> time"

definition se_same :: "sql_env \<Rightarrow> bytes \<Rightarrow> bytes \<Rightarrow> bool" where
  "se_same env u v \<longleftrightarrow> se_value env u = se_value env v"

text \<open>A fresh sequence has answered 1 to \<open>setval\<close>; \<open>pt_notices\<close> is what was notified, oldest first.\<close>

record pg_table =
  pt_rows :: "nskey \<Rightarrow> row option"
  pt_seq :: int
  pt_notices :: "notifyPayload list"

definition fresh_table :: pg_table where
  "fresh_table = \<lparr>pt_rows = Map.empty, pt_seq = 1, pt_notices = []\<rparr>"

definition nextval :: "pg_table \<Rightarrow> pg_table \<times> int" where
  "nextval t = (t\<lparr>pt_seq := pt_seq t + 1\<rparr>, pt_seq t + 1)"

text \<open>The \<open>BEFORE INSERT OR UPDATE\<close> trigger; \<open>None\<close> is an insert.\<close>

definition bump_revision :: "sql_env \<Rightarrow> row option \<Rightarrow> row \<Rightarrow> pg_table \<Rightarrow> pg_table \<times> row" where
  "bump_revision env before after t =
     (case before of
        Some x \<Rightarrow>
          if se_same env (row_value x) (row_value after) then (t, after\<lparr>row_rev := row_rev x\<rparr>)
          else (let (t', n) = nextval t in (t', after\<lparr>row_rev := n\<rparr>))
      | None \<Rightarrow> (let (t', n) = nextval t in (t', after\<lparr>row_rev := n\<rparr>)))"

text \<open>The two \<open>AFTER\<close> triggers: an update that changes no column is not announced.\<close>

definition same_row :: "sql_env \<Rightarrow> row \<Rightarrow> row \<Rightarrow> bool" where
  "same_row env x y \<longleftrightarrow> se_same env (row_value x) (row_value y) \<and> row_rev x = row_rev y
     \<and> row_at x = row_at y \<and> row_by x = row_by y"

definition notify_upsert :: "sql_env \<Rightarrow> row option \<Rightarrow> row \<Rightarrow> pg_table \<Rightarrow> pg_table" where
  "notify_upsert env before after t =
     (if (case before of None \<Rightarrow> False | Some x \<Rightarrow> same_row env x after) then t
      else t\<lparr>pt_notices := pt_notices t
        @ [\<lparr>np_namespace = row_ns after, np_key = row_key after, np_op = ''upsert'', np_rev = row_rev after\<rparr>]\<rparr>)"

definition notify_delete :: "nskey \<Rightarrow> pg_table \<Rightarrow> pg_table" where
  "notify_delete nk t = t\<lparr>pt_notices := pt_notices t
     @ [\<lparr>np_namespace = Namespace nk, np_key = Key nk, np_op = ''delete'', np_rev = 0\<rparr>]\<rparr>"

subsection \<open>Statements\<close>

text \<open>
  \<open>INSERT \<dots> ON CONFLICT DO UPDATE \<dots> RETURNING revision\<close>; \<open>None\<close> is a document Postgres refuses. The insert
  trigger runs on the proposed row before the conflict is found, so a write over a row draws a number it may
  not use; the update trigger then runs on the row the conflict leaves.
\<close>

definition pg_upsert :: "sql_env \<Rightarrow> row \<Rightarrow> pg_table \<Rightarrow> (pg_table \<times> int) option" where
  "pg_upsert env e t =
     (case se_jsonb env (row_value e) of
        None \<Rightarrow> None
      | Some v \<Rightarrow>
          let before = pt_rows t (row_nk e);
              (t1, excluded) = bump_revision env None (e\<lparr>row_value := v, row_at := se_time env (row_at e)\<rparr>) t;
              (t2, after) = (case before of None \<Rightarrow> (t1, excluded) | Some x \<Rightarrow> bump_revision env (Some x) excluded t1);
              t3 = t2\<lparr>pt_rows := (pt_rows t2)(row_nk e \<mapsto> after)\<rparr>
          in Some (notify_upsert env before after t3, row_rev after))"

definition pg_remove :: "nskey \<Rightarrow> pg_table \<Rightarrow> pg_table" where
  "pg_remove nk t =
     (if pt_rows t nk = None then t else notify_delete nk (t\<lparr>pt_rows := (pt_rows t)(nk := None)\<rparr>))"

definition pg_select :: "nskey \<Rightarrow> pg_table \<Rightarrow> row option" where
  "pg_select nk t = pt_rows t nk"

definition pg_select_all :: "pg_table \<Rightarrow> row list" where
  "pg_select_all t = map (the \<circ> pt_rows t) (sorted_list_of_set (dom (pt_rows t)))"

subsection \<open>Which database a call reaches\<close>

text \<open>
  A resolver is its primaries and an identity; an executor is one database, or a resolver that has no
  primary to pin. \<open>own\<close> is the handle of the constructor, \<open>carried\<close> the one the context carries.
\<close>

record resolver =
  rs_id :: nat
  rs_primaries :: "nat list"

datatype executor = Plain nat | Balanced nat

definition pinPrimary :: "resolver \<Rightarrow> executor" where
  "pinPrimary r = (case rs_primaries r of p # ps \<Rightarrow> Plain p | [] \<Rightarrow> Balanced (rs_id r))"

definition pg_resolveDB ::
  "pg_config \<Rightarrow> nat \<Rightarrow> (string \<Rightarrow> err + resolver option) \<Rightarrow> resolver option \<Rightarrow> string \<Rightarrow> err + executor" where
  "pg_resolveDB cfg own connector carried tenant =
     (if tenant \<noteq> [] then
        (if \<not> pc_hasConnector cfg then Inl (Sentinel ErrTenantConnectorMissing)
         else case connector tenant of
           Inl er \<Rightarrow> Inl er
         | Inr None \<Rightarrow> Inl (Sentinel ErrTenantConnectorMissing)
         | Inr (Some r) \<Rightarrow> Inr (pinPrimary r))
      else if \<not> pc_MultiTenantEnabled cfg then Inr (Plain own)
      else case carried of
        None \<Rightarrow> Inl (Sentinel ErrTenantConnectionMissing)
      | Some r \<Rightarrow> Inr (pinPrimary r))"

subsection \<open>The operations\<close>

text \<open>
  One call: whether the store is closed, what \<open>resolveDB\<close> answers, and whether the statement fails on
  the way. Every executor has its table.
\<close>

type_synonym tables = "executor \<Rightarrow> pg_table"

definition pg_Get :: "bool \<Rightarrow> err + executor \<Rightarrow> err option \<Rightarrow> nskey \<Rightarrow> tables \<Rightarrow> err + row option" where
  "pg_Get shut db fails nk ts =
     (if shut then Inl (Sentinel Store_ErrClosed)
      else case db of
        Inl er \<Rightarrow> Inl er
      | Inr x \<Rightarrow> (case fails of Some er \<Rightarrow> Inl er | None \<Rightarrow> Inr (pg_select nk (ts x))))"

definition pg_List :: "bool \<Rightarrow> err + executor \<Rightarrow> err option \<Rightarrow> tables \<Rightarrow> err + row list" where
  "pg_List shut db fails ts =
     (if shut then Inl (Sentinel Store_ErrClosed)
      else case db of
        Inl er \<Rightarrow> Inl er
      | Inr x \<Rightarrow> (case fails of Some er \<Rightarrow> Inl er | None \<Rightarrow> Inr (pg_select_all (ts x))))"

definition pg_Set ::
  "sql_env \<Rightarrow> bool \<Rightarrow> err + executor \<Rightarrow> err option \<Rightarrow> moment \<Rightarrow> row \<Rightarrow> tables \<Rightarrow> tables \<times> (err + int)" where
  "pg_Set env shut db fails now e ts =
     (if shut then (ts, Inl (Sentinel Store_ErrClosed))
      else if row_ns e = [] then (ts, Inl (Sentinel ErrValidation))
      else if row_key e = [] then (ts, Inl (Sentinel ErrValidation))
      else case db of
        Inl er \<Rightarrow> (ts, Inl er)
      | Inr x \<Rightarrow>
          (case fails of
             Some er \<Rightarrow> (ts, Inl er)
           | None \<Rightarrow>
               (case pg_upsert env (stamped now e) (ts x) of
                  None \<Rightarrow> (ts, Inl (Sentinel (Foreign ''invalid input syntax for type json'')))
                | Some (t, n) \<Rightarrow> (ts(x := t), Inr n))))"

definition pg_Delete :: "bool \<Rightarrow> err + executor \<Rightarrow> err option \<Rightarrow> nskey \<Rightarrow> tables \<Rightarrow> tables \<times> err option" where
  "pg_Delete shut db fails nk ts =
     (if shut then (ts, Some (Sentinel Store_ErrClosed))
      else if Namespace nk = [] then (ts, Some (Sentinel ErrValidation))
      else if Key nk = [] then (ts, Some (Sentinel ErrValidation))
      else case db of
        Inl er \<Rightarrow> (ts, Some er)
      | Inr x \<Rightarrow>
          (case fails of
             Some er \<Rightarrow> (ts, Some er)
           | None \<Rightarrow> (ts(x := pg_remove nk (ts x)), None)))"

end
