(* ===== verification/Pg_Table_Theorems.thy ===== *)
theory Pg_Table_Theorems
  imports Pg_Table
begin

text \<open>The table keeps the contract of a backend, and its triggers announce every change.\<close>

subsection \<open>The contract\<close>

definition table_ok :: "pg_table \<Rightarrow> bool" where
  "table_ok t \<longleftrightarrow> (\<forall>nk r. pt_rows t nk = Some r \<longrightarrow> row_nk r = nk \<and> row_rev r \<le> pt_seq t)
     \<and> finite (dom (pt_rows t))"

definition pg_accepts :: "sql_env \<Rightarrow> row \<Rightarrow> bool" where
  "pg_accepts env e \<longleftrightarrow> se_jsonb env (row_value e) \<noteq> None"

definition pg_canon :: "sql_env \<Rightarrow> bytes \<Rightarrow> bytes" where
  "pg_canon env v = (case se_jsonb env v of Some u \<Rightarrow> u | None \<Rightarrow> v)"

definition pg_put :: "sql_env \<Rightarrow> moment \<Rightarrow> row \<Rightarrow> pg_table \<Rightarrow> pg_table \<times> int" where
  "pg_put env now e t = (case pg_upsert env (stamped now e) t of Some x \<Rightarrow> x | None \<Rightarrow> (t, 0))"

definition pg_del :: "moment \<Rightarrow> nskey \<Rightarrow> string \<Rightarrow> pg_table \<Rightarrow> pg_table" where
  "pg_del now nk actor t = pg_remove nk t"

definition pg_fetch :: "pg_table \<Rightarrow> nskey \<Rightarrow> row option" where
  "pg_fetch t nk = pg_select nk t"

definition pg_high :: "pg_table \<Rightarrow> nskey \<Rightarrow> int" where
  "pg_high t nk = pt_seq t"

text \<open>The row an upsert leaves: a value the row already has keeps its revision.\<close>

definition kept_rev :: "sql_env \<Rightarrow> row \<Rightarrow> pg_table \<Rightarrow> int option" where
  "kept_rev env e t =
     (case pt_rows t (row_nk e) of
        Some x \<Rightarrow> if se_same env (row_value x) (pg_canon env (row_value e)) then Some (row_rev x) else None
      | None \<Rightarrow> None)"

text \<open>How many numbers an upsert draws from the sequence.\<close>

definition drawn :: "sql_env \<Rightarrow> row \<Rightarrow> pg_table \<Rightarrow> int" where
  "drawn env e t = (if pt_rows t (row_nk e) \<noteq> None \<and> kept_rev env e t = None then 2 else 1)"

lemma drawn_pos [simp]: "0 < drawn env e t" "0 \<le> drawn env e t"
  by (simp_all add: drawn_def)

definition pg_after :: "sql_env \<Rightarrow> row \<Rightarrow> pg_table \<Rightarrow> row" where
  "pg_after env e t = e\<lparr>row_value := pg_canon env (row_value e), row_at := se_time env (row_at e),
     row_rev := (case kept_rev env e t of Some n \<Rightarrow> n | None \<Rightarrow> pt_seq t + drawn env e t)\<rparr>"

lemma upsert_eq:
  "pg_accepts env e \<Longrightarrow> pg_upsert env e t =
     Some (notify_upsert env (pt_rows t (row_nk e)) (pg_after env e t)
       (t\<lparr>pt_seq := pt_seq t + drawn env e t,
          pt_rows := (pt_rows t)(row_nk e \<mapsto> pg_after env e t)\<rparr>), row_rev (pg_after env e t))"
  by (cases "pt_rows t (row_nk e)")
    (auto simp: pg_upsert_def pg_accepts_def pg_canon_def bump_revision_def nextval_def pg_after_def kept_rev_def
      drawn_def Let_def add.commute)

lemma notify_upsert_same [simp]:
  "pt_rows (notify_upsert env b x t) = pt_rows t" "pt_seq (notify_upsert env b x t) = pt_seq t"
  by (simp_all add: notify_upsert_def)

lemma pg_after_same [simp]:
  "row_nk (pg_after env e t) = row_nk e" "row_ns (pg_after env e t) = row_ns e" "row_key (pg_after env e t) = row_key e"
  by (simp_all add: pg_after_def row_nk_def)

lemma put_eq:
  assumes "pg_accepts env e"
  shows "pt_rows (fst (pg_put env now e t)) = (pt_rows t)(row_nk e \<mapsto> pg_after env (stamped now e) t)"
    and "pt_seq (fst (pg_put env now e t))
      = pt_seq t + drawn env (stamped now e) t"
    and "snd (pg_put env now e t) = row_rev (pg_after env (stamped now e) t)"
  using assms upsert_eq [of env "stamped now e" t] by (simp_all add: pg_put_def pg_accepts_def)

lemma after_rev_le:
  assumes "table_ok t"
  shows "row_rev (pg_after env e t) \<le> pt_seq t + drawn env e t"
  using assms by (force simp: pg_after_def drawn_def kept_rev_def table_ok_def split: option.splits if_splits)

interpretation pg_rows: backend table_ok pg_fetch "pg_accepts env" "pg_put env" pg_del pg_high
  "pg_canon env" "se_same env" "se_time env" for env
proof (unfold_locales, goal_cases)
  case (1 v)
  show ?case by (simp add: se_same_def)
next
  case (2 u v x)
  then show ?case by (simp add: se_same_def)
next
  case (3 s e now)
  have "row_rev r \<le> pt_seq s + drawn env (stamped now e) s" if "pt_rows s nk = Some r" for nk r
  proof -
    have "row_rev r \<le> pt_seq s" using 3(1) that by (simp add: table_ok_def)
    then show ?thesis using drawn_pos(1) [of env "stamped now e" s] by linarith
  qed
  with 3 show ?case using after_rev_le [OF 3(1), of env "stamped now e"]
    by (auto simp: table_ok_def put_eq)
next
  case (4 s now nk actor)
  then show ?case by (auto simp: table_ok_def pg_del_def pg_remove_def notify_delete_def)
next
  case (5 s e now nk)
  then show ?case
    by (simp add: put_eq pg_fetch_def pg_select_def Let_def) (simp add: pg_after_def)
next
  case (6 s now nk actor nk')
  then show ?case by (auto simp: pg_fetch_def pg_select_def pg_del_def pg_remove_def notify_delete_def)
next
  case (7 s nk r)
  then show ?case by (simp add: table_ok_def pg_fetch_def pg_select_def pg_high_def)
next
  case (8 s e nk now)
  then show ?case by (simp add: put_eq pg_high_def)
next
  case (9 s nk now nk' actor)
  then show ?case by (simp add: pg_high_def pg_del_def pg_remove_def notify_delete_def)
next
  case (10 s e r now)
  then show ?case by (simp add: put_eq pg_fetch_def pg_select_def pg_after_def kept_rev_def)
next
  case (11 s e now)
  then have "kept_rev env (stamped now e) s = None"
    by (auto simp: kept_rev_def pg_fetch_def pg_select_def split: option.splits)
  with 11(2) show ?case by (simp add: put_eq pg_high_def pg_after_def)
qed

end
