(* ===== verification/Mongo_Docs.thy ===== *)
theory Mongo_Docs
  imports Backend Pg_Store
begin

text \<open>
  The documents of a MongoDB backend: the update pipelines of \<^verbatim>\<open>internal/mongodb/mongodb_crud.go\<close>, the
  reads and writes of \<^verbatim>\<open>mongodb.go\<close> and the change events of \<^verbatim>\<open>mongodb_events.go\<close>. A document is its
  fields beside \<open>_id\<close>, the collection maps the compound \<open>_id\<close> to it, and an aggregation expression is
  evaluated on the fields before its stage. Two numbers are compared by \<open>$max\<close>; its order across other
  types is not followed.
\<close>

subsection \<open>Documents\<close>

text \<open>A date counts milliseconds.\<close>

datatype bson = BNull | BStr string | BInt int | BBool bool | BDate int | BOther

type_synonym doc = "string \<Rightarrow> bson option"
type_synonym collection = "nskey \<Rightarrow> doc option"

definition fieldNamespace :: string where "fieldNamespace = ''namespace''"
definition fieldKey :: string where "fieldKey = ''key''"
definition fieldValue :: string where "fieldValue = ''value''"
definition fieldRevision :: string where "fieldRevision = ''revision''"
definition fieldUpdatedAt :: string where "fieldUpdatedAt = ''updated_at''"
definition fieldUpdatedBy :: string where "fieldUpdatedBy = ''updated_by''"
definition fieldDeleted :: string where "fieldDeleted = ''deleted''"

lemmas field_defs = fieldNamespace_def fieldKey_def fieldValue_def fieldRevision_def fieldUpdatedAt_def
  fieldUpdatedBy_def fieldDeleted_def

definition millis :: "time \<Rightarrow> int" where
  "millis t = t div 1000000"

definition of_millis :: "int \<Rightarrow> time" where
  "of_millis k = k * 1000000"

subsection \<open>Aggregation\<close>

datatype expr =
    Field string
  | Literal bson
  | IfNull expr expr
  | Eq expr expr
  | Cond expr expr expr
  | Add expr expr
  | Max expr expr
  | ToLongNow

text \<open>\<open>None\<close> is a command the server refuses; a missing field is null.\<close>

fun eval :: "int \<Rightarrow> doc \<Rightarrow> expr \<Rightarrow> bson option" where
  "eval ms d (Field f) = Some (case d f of Some v \<Rightarrow> v | None \<Rightarrow> BNull)"
| "eval ms d (Literal v) = Some v"
| "eval ms d (IfNull a b) = (case eval ms d a of None \<Rightarrow> None | Some v \<Rightarrow> if v = BNull then eval ms d b else Some v)"
| "eval ms d (Eq a b) =
     (case eval ms d a of None \<Rightarrow> None
      | Some x \<Rightarrow> (case eval ms d b of None \<Rightarrow> None | Some y \<Rightarrow> Some (BBool (x = y))))"
| "eval ms d (Cond c a b) =
     (case eval ms d c of None \<Rightarrow> None
      | Some v \<Rightarrow> if v = BNull \<or> v = BBool False \<or> v = BInt 0 then eval ms d b else eval ms d a)"
| "eval ms d (Add a b) =
     (case eval ms d a of None \<Rightarrow> None
      | Some x \<Rightarrow>
          (case eval ms d b of None \<Rightarrow> None
           | Some y \<Rightarrow>
               (case (x, y) of
                  (BInt i, BInt j) \<Rightarrow> Some (BInt (i + j))
                | _ \<Rightarrow> if x = BNull \<or> y = BNull then Some BNull else None)))"
| "eval ms d (Max a b) =
     (case eval ms d a of None \<Rightarrow> None
      | Some x \<Rightarrow>
          (case eval ms d b of None \<Rightarrow> None
           | Some y \<Rightarrow>
               (case (x, y) of
                  (BInt i, BInt j) \<Rightarrow> Some (BInt (max i j))
                | _ \<Rightarrow> if x = BNull then Some y else if y = BNull then Some x else None)))"
| "eval ms d ToLongNow = Some (BInt ms)"

datatype stage = Set_Fields "(string \<times> expr) list" | Unset_Field string

fun eval_fields :: "int \<Rightarrow> doc \<Rightarrow> (string \<times> expr) list \<Rightarrow> doc \<Rightarrow> doc option" where
  "eval_fields ms d [] acc = Some acc"
| "eval_fields ms d ((f, x) # fs) acc =
     (case eval ms d x of None \<Rightarrow> None | Some v \<Rightarrow> eval_fields ms d fs (acc(f \<mapsto> v)))"

fun run_stages :: "int \<Rightarrow> stage list \<Rightarrow> doc \<Rightarrow> doc option" where
  "run_stages ms [] d = Some d"
| "run_stages ms (Set_Fields fs # st) d =
     (case eval_fields ms d fs d of None \<Rightarrow> None | Some d' \<Rightarrow> run_stages ms st d')"
| "run_stages ms (Unset_Field f # st) d = run_stages ms st (d(f := None))"

subsection \<open>The pipelines\<close>

definition bumpRevisionExpr :: expr where
  "bumpRevisionExpr = Max (Add (IfNull (Field fieldRevision) (Literal (BInt 0))) (Literal (BInt 1))) ToLongNow"

definition upsertPipeline :: "row \<Rightarrow> stage list" where
  "upsertPipeline e =
     [Set_Fields [(fieldRevision,
        Cond (Eq (IfNull (Field fieldValue) (Literal BNull)) (Literal (BStr (row_value e))))
          (IfNull (Field fieldRevision) (Literal (BInt 1)))
          bumpRevisionExpr)],
      Set_Fields
       [(fieldNamespace, Literal (BStr (row_ns e))),
        (fieldKey, Literal (BStr (row_key e))),
        (fieldValue, Literal (BStr (row_value e))),
        (fieldUpdatedAt, Literal (BDate (millis (row_at e)))),
        (fieldUpdatedBy, Literal (BStr (row_by e)))],
      Unset_Field fieldDeleted]"

definition tombstonePipeline :: "string \<Rightarrow> time \<Rightarrow> stage list" where
  "tombstonePipeline actor now =
     [Set_Fields [(fieldRevision, bumpRevisionExpr)],
      Set_Fields
       [(fieldDeleted, Literal (BBool True)),
        (fieldUpdatedAt, Literal (BDate (millis now))),
        (fieldUpdatedBy, Literal (BStr actor))],
      Unset_Field fieldValue]"

definition notDeleted :: "doc \<Rightarrow> bool" where
  "notDeleted d \<longleftrightarrow> d fieldDeleted \<noteq> Some (BBool True)"

subsection \<open>Decoding\<close>

text \<open>\<open>entryDoc\<close>: an absent or null field is its zero value, another type fails the document.\<close>

definition str_field :: "string \<Rightarrow> doc \<Rightarrow> string option" where
  "str_field f d = (case d f of None \<Rightarrow> Some [] | Some BNull \<Rightarrow> Some [] | Some (BStr s) \<Rightarrow> Some s | _ \<Rightarrow> None)"

definition int_field :: "string \<Rightarrow> doc \<Rightarrow> int option" where
  "int_field f d = (case d f of None \<Rightarrow> Some 0 | Some BNull \<Rightarrow> Some 0 | Some (BInt k) \<Rightarrow> Some k | _ \<Rightarrow> None)"

definition date_field :: "string \<Rightarrow> doc \<Rightarrow> time option" where
  "date_field f d = (case d f of None \<Rightarrow> Some zero_time | Some BNull \<Rightarrow> Some zero_time
     | Some (BDate k) \<Rightarrow> Some (of_millis k) | _ \<Rightarrow> None)"

definition bool_field :: "string \<Rightarrow> doc \<Rightarrow> bool option" where
  "bool_field f d = (case d f of None \<Rightarrow> Some False | Some BNull \<Rightarrow> Some False | Some (BBool b) \<Rightarrow> Some b | _ \<Rightarrow> None)"

record entryDoc =
  ed_Namespace :: string
  ed_Key :: string
  ed_Value :: string
  ed_Revision :: int
  ed_UpdatedAt :: time
  ed_UpdatedBy :: string
  ed_Deleted :: bool

definition decode_doc :: "doc \<Rightarrow> entryDoc option" where
  "decode_doc d =
     (case (str_field fieldNamespace d, str_field fieldKey d, str_field fieldValue d, int_field fieldRevision d,
            date_field fieldUpdatedAt d, str_field fieldUpdatedBy d, bool_field fieldDeleted d) of
        (Some ns, Some k, Some v, Some n, Some t, Some a, Some b) \<Rightarrow>
          Some \<lparr>ed_Namespace = ns, ed_Key = k, ed_Value = v, ed_Revision = n, ed_UpdatedAt = t,
            ed_UpdatedBy = a, ed_Deleted = b\<rparr>
      | _ \<Rightarrow> None)"

definition toEntry :: "entryDoc \<Rightarrow> row" where
  "toEntry d = \<lparr>row_ns = ed_Namespace d, row_key = ed_Key d, row_value = ed_Value d, row_rev = ed_Revision d,
     row_at = ed_UpdatedAt d, row_by = ed_UpdatedBy d\<rparr>"

subsection \<open>Statements\<close>

text \<open>
  \<open>findOneAndUpdate\<close> with an upsert, answering the revision of the document it leaves. A pipeline the
  server refuses writes nothing; a document the driver cannot decode has been written all the same.
\<close>

definition upsertReturningRevision :: "int \<Rightarrow> row \<Rightarrow> collection \<Rightarrow> collection \<times> int option" where
  "upsertReturningRevision ms e c =
     (let d = (case c (row_nk e) of Some d \<Rightarrow> d | None \<Rightarrow> Map.empty)
      in case run_stages ms (upsertPipeline e) d of
        None \<Rightarrow> (c, None)
      | Some d' \<Rightarrow> (c(row_nk e \<mapsto> d'), map_option ed_Revision (decode_doc d')))"

text \<open>\<open>updateOne\<close> under the tombstone guard: nothing matches, or the pipeline runs.\<close>

definition tombstone :: "moment \<Rightarrow> nskey \<Rightarrow> string \<Rightarrow> collection \<Rightarrow> collection option" where
  "tombstone now nk actor c =
     (case c nk of
        None \<Rightarrow> Some c
      | Some d \<Rightarrow>
          if \<not> notDeleted d then Some c
          else map_option (\<lambda>d'. c(nk \<mapsto> d')) (run_stages (millis (snd now)) (tombstonePipeline actor (fst now)) d))"

definition find_entry :: "nskey \<Rightarrow> collection \<Rightarrow> row option" where
  "find_entry nk c =
     (case c nk of
        None \<Rightarrow> None
      | Some d \<Rightarrow> if notDeleted d then map_option toEntry (decode_doc d) else None)"

text \<open>\<open>List\<close> sorts by the fields, which an unreadable document need not have; those are skipped anyway.\<close>

definition find_entries :: "collection \<Rightarrow> row list" where
  "find_entries c =
     sort_key row_nk (List.map_filter (\<lambda>nk. find_entry nk c) (sorted_list_of_set (dom c)))"

subsection \<open>Change events\<close>

text \<open>The after-image is what the collection holds when the event is looked up.\<close>

record changeEvent =
  ce_OperationType :: string
  ce_Namespace :: string
  ce_Key :: string
  ce_FullDocument :: "doc option"

definition afterImage :: "doc option \<Rightarrow> int \<times> bool" where
  "afterImage raw =
     (case raw of
        None \<Rightarrow> (0, False)
      | Some d \<Rightarrow>
          (case d fieldRevision of Some (BInt n) \<Rightarrow> n | _ \<Rightarrow> 0,
           case d fieldDeleted of Some (BBool b) \<Rightarrow> b | _ \<Rightarrow> False))"

definition eventFromChange :: "changeEvent \<Rightarrow> event option" where
  "eventFromChange ce =
     (if ce_Namespace ce = [] \<or> ce_Key ce = [] then None
      else let (revision, deleted) = afterImage (ce_FullDocument ce) in
        if ce_OperationType ce = ''delete'' \<or> deleted
        then Some \<lparr>ev_scope = Scope [], ev_ns = ce_Namespace ce, ev_key = ce_Key ce, ev_op = OpDelete, ev_rev = 0\<rparr>
        else Some \<lparr>ev_scope = Scope [], ev_ns = ce_Namespace ce, ev_key = ce_Key ce, ev_op = OpUpsert,
          ev_rev = revision\<rparr>)"

subsection \<open>Which collection a call reaches\<close>

text \<open>
  A collection is named by its server, its database and its own name. The bootstrap of a tenant's
  database runs once per tenant and database, again after a failure, and on every call that carries a
  database without a tenant.
\<close>

record schema_memo =
  sm_once :: "string set"
  sm_err :: "string \<Rightarrow> err option"

definition schemaCacheKey :: "string \<Rightarrow> string \<Rightarrow> string \<Rightarrow> string" where
  "schemaCacheKey tenant db coll = tenant @ ''/'' @ db @ ''/'' @ coll"

definition ensureSchemaByKey :: "string \<Rightarrow> err option \<Rightarrow> schema_memo \<Rightarrow> schema_memo \<times> err option" where
  "ensureSchemaByKey k bootstrap m =
     (if k \<in> sm_once m then (m, sm_err m k)
      else case bootstrap of
        Some er \<Rightarrow> (m\<lparr>sm_err := (sm_err m)(k \<mapsto> er)\<rparr>, Some er)
      | None \<Rightarrow> (m\<lparr>sm_once := insert k (sm_once m), sm_err := (sm_err m)(k := None)\<rparr>, None))"

definition ensureSchema ::
  "string \<Rightarrow> string \<Rightarrow> string \<Rightarrow> bool \<Rightarrow> err option \<Rightarrow> schema_memo \<Rightarrow> schema_memo \<times> err option" where
  "ensureSchema tenant db coll tenantScoped bootstrap m =
     (if tenantScoped \<and> tenant = [] then (m, bootstrap)
      else ensureSchemaByKey (schemaCacheKey tenant db coll) bootstrap m)"

text \<open>\<open>runSchema\<close>: what materializing the collection, or listing its indexes, answers; a failed creation of the
  polling indexes is only logged.\<close>

definition runSchema :: "bool \<Rightarrow> bool \<Rightarrow> err option \<Rightarrow> (err \<Rightarrow> bool) \<Rightarrow> err option \<Rightarrow> err option" where
  "runSchema multiTenant tenantScoped created isNamespaceExists listed =
     (if multiTenant \<or> tenantScoped
      then (case created of Some er \<Rightarrow> if isNamespaceExists er then None else Some er | None \<Rightarrow> None)
      else listed)"

record mg_config =
  mc_hasClient :: bool
  mc_Database :: string
  mc_PollInterval :: int
  mc_MultiTenantEnabled :: bool
  mc_Module :: string
  mc_hasConnector :: bool

definition mg_New :: "mg_config \<Rightarrow> err + mg_config" where
  "mg_New cfg =
     (let cfg = (if mc_Module cfg = [] then cfg\<lparr>mc_Module := ''systemplane''\<rparr> else cfg) in
      if \<not> mc_MultiTenantEnabled cfg \<and> \<not> mc_hasClient cfg then Inl (Sentinel Store_ErrNilBackend)
      else if \<not> mc_MultiTenantEnabled cfg \<and> mc_Database cfg = [] then Inl (Sentinel Store_ErrNilBackend)
      else Inr cfg)"

definition collectionName :: string where "collectionName = ''systemplane_entries''"

text \<open>\<open>own\<close> is the constructor's database; a database is its server and its name; \<open>carried\<close> is the database of the
  context and its tenant, two independent keys.\<close>

type_synonym database = "string \<times> string"

definition mg_resolveCollection ::
  "mg_config \<Rightarrow> database \<Rightarrow> (string \<Rightarrow> err + database option) \<Rightarrow> database option \<Rightarrow> string \<Rightarrow>
   (database \<Rightarrow> err option) \<Rightarrow> string \<Rightarrow> schema_memo \<Rightarrow> schema_memo \<times> (err + database)"
where
  "mg_resolveCollection cfg own connector carried carried_id bootstrap tenant m =
     (if tenant \<noteq> [] then
        (if \<not> mc_hasConnector cfg then (m, Inl (Sentinel ErrTenantConnectorMissing))
         else case connector tenant of
           Inl er \<Rightarrow> (m, Inl er)
         | Inr None \<Rightarrow> (m, Inl (Sentinel ErrTenantConnectorMissing))
         | Inr (Some db) \<Rightarrow>
             (case ensureSchema tenant (snd db) collectionName True (bootstrap db) m of
                (m', Some er) \<Rightarrow> (m', Inl er)
              | (m', None) \<Rightarrow> (m', Inr db)))
      else if \<not> mc_MultiTenantEnabled cfg then (m, Inr own)
      else case carried of
        None \<Rightarrow> (m, Inl (Sentinel ErrTenantConnectionMissing))
      | Some db \<Rightarrow>
          (case ensureSchema carried_id (snd db) collectionName True (bootstrap db) m of
             (m', Some er) \<Rightarrow> (m', Inl er)
           | (m', None) \<Rightarrow> (m', Inr db)))"

subsection \<open>The operations\<close>

text \<open>One call: whether the store is closed, what \<open>resolveCollection\<close> answers, and whether the command fails on
  the way.\<close>

type_synonym collections = "database \<Rightarrow> collection"

definition mg_Get :: "bool \<Rightarrow> err + database \<Rightarrow> err option \<Rightarrow> nskey \<Rightarrow> collections \<Rightarrow> err + row option" where
  "mg_Get shut db fails nk cs =
     (if shut then Inl (Sentinel Store_ErrClosed)
      else case db of
        Inl er \<Rightarrow> Inl er
      | Inr x \<Rightarrow> (case fails of Some er \<Rightarrow> Inl er | None \<Rightarrow> Inr (find_entry nk (cs x))))"

definition mg_List :: "bool \<Rightarrow> err + database \<Rightarrow> err option \<Rightarrow> collections \<Rightarrow> err + row list" where
  "mg_List shut db fails cs =
     (if shut then Inl (Sentinel Store_ErrClosed)
      else case db of
        Inl er \<Rightarrow> Inl er
      | Inr x \<Rightarrow> (case fails of Some er \<Rightarrow> Inl er | None \<Rightarrow> Inr (find_entries (cs x))))"

definition mg_Set ::
  "bool \<Rightarrow> err + database \<Rightarrow> err option \<Rightarrow> moment \<Rightarrow> row \<Rightarrow> collections \<Rightarrow> collections \<times> (err + int)" where
  "mg_Set shut db fails now e cs =
     (if shut then (cs, Inl (Sentinel Store_ErrClosed))
      else if row_ns e = [] \<or> row_key e = [] then (cs, Inl (Sentinel ErrValidation))
      else case db of
        Inl er \<Rightarrow> (cs, Inl er)
      | Inr x \<Rightarrow>
          (case fails of
             Some er \<Rightarrow> (cs, Inl er)
           | None \<Rightarrow>
               (case upsertReturningRevision (millis (snd now)) (stamped now e) (cs x) of
                  (c, None) \<Rightarrow> (cs(x := c), Inl (Sentinel (Foreign ''command or decode error'')))
                | (c, Some n) \<Rightarrow> (cs(x := c), Inr n))))"

definition mg_Delete ::
  "bool \<Rightarrow> err + database \<Rightarrow> err option \<Rightarrow> moment \<Rightarrow> nskey \<Rightarrow> string \<Rightarrow> collections \<Rightarrow> collections \<times> err option" where
  "mg_Delete shut db fails now nk actor cs =
     (if shut then (cs, Some (Sentinel Store_ErrClosed))
      else if Namespace nk = [] \<or> Key nk = [] then (cs, Some (Sentinel ErrValidation))
      else case db of
        Inl er \<Rightarrow> (cs, Some er)
      | Inr x \<Rightarrow>
          (case fails of
             Some er \<Rightarrow> (cs, Some er)
           | None \<Rightarrow>
               (case tombstone now nk actor (cs x) of
                  None \<Rightarrow> (cs, Some (Sentinel (Foreign ''command error'')))
                | Some c \<Rightarrow> (cs(x := c), None))))"

end
