(* ===== verification/Mongo_Docs_Theorems.thy ===== *)
theory Mongo_Docs_Theorems
  imports Mongo_Docs
begin

text \<open>The documents the store writes keep the contract of a backend.\<close>

subsection \<open>Well-formed documents\<close>

definition doc_rev :: "doc \<Rightarrow> int" where
  "doc_rev d = (case d fieldRevision of Some (BInt n) \<Rightarrow> n | _ \<Rightarrow> 0)"

text \<open>What the two pipelines leave: a live document with a value, or a tombstone without one.\<close>

definition doc_ok :: "nskey \<Rightarrow> doc \<Rightarrow> bool" where
  "doc_ok nk d \<longleftrightarrow>
     d fieldNamespace = Some (BStr (Namespace nk)) \<and> d fieldKey = Some (BStr (Key nk))
     \<and> d fieldRevision = Some (BInt (doc_rev d)) \<and> 0 < doc_rev d
     \<and> (\<exists>k. d fieldUpdatedAt = Some (BDate k)) \<and> (\<exists>a. d fieldUpdatedBy = Some (BStr a))
     \<and> (d fieldDeleted = None \<and> (\<exists>v. d fieldValue = Some (BStr v))
        \<or> d fieldDeleted = Some (BBool True) \<and> d fieldValue = None)"

definition coll_ok :: "collection \<Rightarrow> bool" where
  "coll_ok c \<longleftrightarrow> (\<forall>nk d. c nk = Some d \<longrightarrow> doc_ok nk d) \<and> finite (dom c)"

lemma fields_distinct [simp]:
  "fieldNamespace \<noteq> fieldKey" "fieldNamespace \<noteq> fieldValue" "fieldNamespace \<noteq> fieldRevision"
  "fieldNamespace \<noteq> fieldUpdatedAt" "fieldNamespace \<noteq> fieldUpdatedBy" "fieldNamespace \<noteq> fieldDeleted"
  "fieldKey \<noteq> fieldNamespace" "fieldKey \<noteq> fieldValue" "fieldKey \<noteq> fieldRevision" "fieldKey \<noteq> fieldUpdatedAt"
  "fieldKey \<noteq> fieldUpdatedBy" "fieldKey \<noteq> fieldDeleted" "fieldValue \<noteq> fieldNamespace" "fieldValue \<noteq> fieldKey"
  "fieldValue \<noteq> fieldRevision" "fieldValue \<noteq> fieldUpdatedAt" "fieldValue \<noteq> fieldUpdatedBy" "fieldValue \<noteq> fieldDeleted"
  "fieldRevision \<noteq> fieldNamespace" "fieldRevision \<noteq> fieldKey" "fieldRevision \<noteq> fieldValue"
  "fieldRevision \<noteq> fieldUpdatedAt" "fieldRevision \<noteq> fieldUpdatedBy" "fieldRevision \<noteq> fieldDeleted"
  "fieldUpdatedAt \<noteq> fieldNamespace" "fieldUpdatedAt \<noteq> fieldKey" "fieldUpdatedAt \<noteq> fieldValue"
  "fieldUpdatedAt \<noteq> fieldRevision" "fieldUpdatedAt \<noteq> fieldUpdatedBy" "fieldUpdatedAt \<noteq> fieldDeleted"
  "fieldUpdatedBy \<noteq> fieldNamespace" "fieldUpdatedBy \<noteq> fieldKey" "fieldUpdatedBy \<noteq> fieldValue"
  "fieldUpdatedBy \<noteq> fieldRevision" "fieldUpdatedBy \<noteq> fieldUpdatedAt" "fieldUpdatedBy \<noteq> fieldDeleted"
  "fieldDeleted \<noteq> fieldNamespace" "fieldDeleted \<noteq> fieldKey" "fieldDeleted \<noteq> fieldValue"
  "fieldDeleted \<noteq> fieldRevision" "fieldDeleted \<noteq> fieldUpdatedAt" "fieldDeleted \<noteq> fieldUpdatedBy"
  by (simp_all add: field_defs)

text \<open>The pipelines, run.\<close>

definition bumped :: "int \<Rightarrow> doc \<Rightarrow> int" where
  "bumped ms d = max (doc_rev d + 1) ms"

lemma eval_bump:
  assumes "d fieldRevision = None \<or> d fieldRevision = Some (BInt n)"
  shows "eval ms d bumpRevisionExpr = Some (BInt (bumped ms d))"
  using assms by (auto simp: bumpRevisionExpr_def bumped_def doc_rev_def)

definition upserted :: "int \<Rightarrow> row \<Rightarrow> doc \<Rightarrow> doc" where
  "upserted ms e d = d
     (fieldRevision \<mapsto> BInt (if d fieldValue = Some (BStr (row_value e)) then doc_rev d else bumped ms d),
      fieldNamespace \<mapsto> BStr (row_ns e), fieldKey \<mapsto> BStr (row_key e), fieldValue \<mapsto> BStr (row_value e),
      fieldUpdatedAt \<mapsto> BDate (millis (row_at e)), fieldUpdatedBy \<mapsto> BStr (row_by e), fieldDeleted := None)"

lemma run_upsert:
  assumes "d = Map.empty \<or> doc_ok nk d"
  shows "run_stages ms (upsertPipeline e) d = Some (upserted ms e d)"
proof -
  have r: "d fieldRevision = None \<and> d fieldValue = None \<or> d fieldRevision = Some (BInt (doc_rev d))"
    using assms by (auto simp: doc_ok_def)
  have v: "d fieldValue = None \<or> (\<exists>u. d fieldValue = Some (BStr u))"
    using assms by (auto simp: doc_ok_def)
  have b: "eval ms d bumpRevisionExpr = Some (BInt (bumped ms d))"
    using r eval_bump by auto
  have "eval ms d (Cond (Eq (IfNull (Field fieldValue) (Literal BNull)) (Literal (BStr (row_value e))))
      (IfNull (Field fieldRevision) (Literal (BInt 1))) bumpRevisionExpr)
    = Some (BInt (if d fieldValue = Some (BStr (row_value e)) then doc_rev d else bumped ms d))"
    using r v b by auto
  then show ?thesis by (simp add: upsertPipeline_def upserted_def)
qed

definition tombstoned :: "moment \<Rightarrow> string \<Rightarrow> doc \<Rightarrow> doc" where
  "tombstoned now actor d = d
     (fieldRevision \<mapsto> BInt (bumped (millis (snd now)) d), fieldDeleted \<mapsto> BBool True,
      fieldUpdatedAt \<mapsto> BDate (millis (fst now)), fieldUpdatedBy \<mapsto> BStr actor, fieldValue := None)"

lemma run_tombstone:
  assumes "doc_ok nk d"
  shows "run_stages (millis (snd now)) (tombstonePipeline actor (fst now)) d = Some (tombstoned now actor d)"
  using eval_bump [of d "doc_rev d" "millis (snd now)"] assms
  by (simp add: tombstonePipeline_def tombstoned_def doc_ok_def)

lemma upserted_ok:
  assumes "d = Map.empty \<or> doc_ok (row_nk e) d"
  shows "doc_ok (row_nk e) (upserted ms e d)"
proof -
  have "0 < doc_rev d + 1" using assms by (auto simp: doc_ok_def doc_rev_def)
  moreover have "0 < doc_rev d" if "d fieldValue = Some (BStr (row_value e))"
    using assms that by (auto simp: doc_ok_def)
  ultimately show ?thesis by (auto simp: doc_ok_def upserted_def doc_rev_def bumped_def row_nk_def)
qed

lemma tombstoned_ok: "doc_ok nk d \<Longrightarrow> doc_ok nk (tombstoned now actor d)"
  by (auto simp: doc_ok_def tombstoned_def doc_rev_def bumped_def)

text \<open>Reading a well-formed document.\<close>

definition doc_row :: "doc \<Rightarrow> row" where
  "doc_row d = (case decode_doc d of Some ed \<Rightarrow> toEntry ed
     | None \<Rightarrow> \<lparr>row_ns = [], row_key = [], row_value = [], row_rev = 0, row_at = 0, row_by = []\<rparr>)"

lemma decode_ok:
  assumes "doc_ok nk d"
  shows "\<exists>ed. decode_doc d = Some ed \<and> ed_Revision ed = doc_rev d \<and> doc_row d = toEntry ed
    \<and> row_nk (toEntry ed) = nk"
  using assms
  by (auto simp: doc_ok_def decode_doc_def str_field_def int_field_def date_field_def bool_field_def toEntry_def
      doc_row_def row_nk_def split: option.splits)

subsection \<open>The contract\<close>

definition mg_fetch :: "collection \<Rightarrow> nskey \<Rightarrow> row option" where
  "mg_fetch c nk = find_entry nk c"

definition mg_put :: "moment \<Rightarrow> row \<Rightarrow> collection \<Rightarrow> collection \<times> int" where
  "mg_put now e c =
     (case upsertReturningRevision (millis (snd now)) (stamped now e) c of
        (c', Some n) \<Rightarrow> (c', n) | (c', None) \<Rightarrow> (c', 0))"

definition mg_del :: "moment \<Rightarrow> nskey \<Rightarrow> string \<Rightarrow> collection \<Rightarrow> collection" where
  "mg_del now nk actor c = (case tombstone now nk actor c of Some c' \<Rightarrow> c' | None \<Rightarrow> c)"

definition mg_high :: "collection \<Rightarrow> nskey \<Rightarrow> int" where
  "mg_high c nk = (case c nk of None \<Rightarrow> 0 | Some d \<Rightarrow> doc_rev d)"

definition ms_grain :: "time \<Rightarrow> time" where
  "ms_grain t = of_millis (millis t)"

definition before :: "nskey \<Rightarrow> collection \<Rightarrow> doc" where
  "before nk c = (case c nk of Some d \<Rightarrow> d | None \<Rightarrow> Map.empty)"

lemma before_ok: "coll_ok c \<Longrightarrow> before nk c = Map.empty \<or> doc_ok nk (before nk c)"
  by (auto simp: before_def coll_ok_def split: option.splits)

lemma mg_upsert_eq:
  assumes "coll_ok c"
  shows "upsertReturningRevision ms e c
    = (c(row_nk e \<mapsto> upserted ms e (before (row_nk e) c)), Some (doc_rev (upserted ms e (before (row_nk e) c))))"
proof -
  let ?u = "upserted ms e (before (row_nk e) c)"
  have r: "run_stages ms (upsertPipeline e) (before (row_nk e) c) = Some ?u"
    by (rule run_upsert [OF before_ok [OF assms]])
  have "map_option ed_Revision (decode_doc ?u) = Some (doc_rev ?u)"
    using decode_ok [OF upserted_ok [OF before_ok [OF assms]], of ms] by auto
  with r show ?thesis by (simp add: upsertReturningRevision_def before_def Let_def)
qed

lemma mg_put_eq:
  assumes "coll_ok c"
  shows "fst (mg_put now e c) = c(row_nk e \<mapsto> upserted (millis (snd now)) (stamped now e) (before (row_nk e) c))"
    and "snd (mg_put now e c) = doc_rev (upserted (millis (snd now)) (stamped now e) (before (row_nk e) c))"
  using mg_upsert_eq [OF assms, of "millis (snd now)" "stamped now e"] by (simp_all add: mg_put_def)

lemma mg_del_eq:
  assumes "coll_ok c"
  shows "mg_del now nk actor c =
    (case c nk of Some d \<Rightarrow> if notDeleted d then c(nk \<mapsto> tombstoned now actor d) else c | None \<Rightarrow> c)"
proof (cases "c nk")
  case (Some d)
  with assms have "doc_ok nk d" by (simp add: coll_ok_def)
  from run_tombstone [OF this] Some show ?thesis by (simp add: mg_del_def tombstone_def)
qed (simp add: mg_del_def tombstone_def)

lemma fetch_ok:
  assumes "coll_ok c"
  shows "mg_fetch c nk = (case c nk of Some d \<Rightarrow> if notDeleted d then Some (doc_row d) else None | None \<Rightarrow> None)"
  using assms decode_ok
  by (fastforce simp: mg_fetch_def find_entry_def coll_ok_def split: option.splits)

lemma doc_row_fields:
  assumes "doc_ok nk d"
  shows "row_nk (doc_row d) = nk" and "row_rev (doc_row d) = doc_rev d"
    and "notDeleted d \<Longrightarrow> d fieldValue = Some (BStr (row_value (doc_row d)))"
  using assms decode_ok [OF assms]
  by (auto simp: toEntry_def notDeleted_def doc_ok_def decode_doc_def str_field_def split: option.splits prod.splits)

lemma doc_row_upserted:
  assumes "d = Map.empty \<or> doc_ok (row_nk e) d"
  shows "doc_row (upserted ms e d) = e\<lparr>row_at := ms_grain (row_at e), row_rev := doc_rev (upserted ms e d)\<rparr>"
  by (simp add: doc_row_def decode_doc_def str_field_def int_field_def date_field_def bool_field_def upserted_def
      toEntry_def doc_rev_def ms_grain_def)

lemma upserted_live [simp]: "notDeleted (upserted ms e d)" "\<not> notDeleted (tombstoned now actor d)"
  by (simp_all add: notDeleted_def upserted_def tombstoned_def)

lemma rev_grows:
  "doc_rev d \<le> doc_rev (upserted ms e d)" "doc_rev d \<le> doc_rev (tombstoned now actor d)"
  by (auto simp: upserted_def tombstoned_def doc_rev_def bumped_def)

lemma before_rev: "doc_rev (before nk c) = mg_high c nk"
  by (auto simp: before_def mg_high_def doc_rev_def split: option.splits)

interpretation mg_rows: backend coll_ok mg_fetch "\<lambda>_. True" mg_put mg_del mg_high "\<lambda>v. v" "(=)" ms_grain
proof (unfold_locales, goal_cases)
  case (1 v)
  show ?case by simp
next
  case (2 u v x)
  then show ?case by simp
next
  case (3 s e now)
  then show ?case
    using upserted_ok [of "before (row_nk e) s" "stamped now e" "millis (snd now)"] before_ok [of s "row_nk e"]
    by (auto simp: mg_put_eq coll_ok_def)
next
  case (4 s now nk actor)
  then show ?case using tombstoned_ok by (auto simp: mg_del_eq coll_ok_def split: option.splits)
next
  case (5 s e now nk)
  let ?u = "upserted (millis (snd now)) (stamped now e) (before (row_nk e) s)"
  have "coll_ok (s(row_nk e \<mapsto> ?u))"
    using 5(1) upserted_ok [of "before (row_nk e) s" "stamped now e" "millis (snd now)"] before_ok [of s "row_nk e"]
    by (auto simp: coll_ok_def)
  from fetch_ok [OF this] fetch_ok [OF 5(1)] doc_row_upserted [of "before (row_nk e) s" "stamped now e"] before_ok [OF 5(1), of "row_nk e"]
  show ?case by (simp add: mg_put_eq [OF 5(1)] Let_def)
next
  case (6 s now nk actor nk')
  have "coll_ok (mg_del now nk actor s)"
    using 6 tombstoned_ok by (auto simp: mg_del_eq coll_ok_def split: option.splits)
  from fetch_ok [OF this] fetch_ok [OF 6] show ?case by (auto simp: mg_del_eq [OF 6] split: option.splits)
next
  case (7 s nk r)
  then show ?case using doc_row_fields(2)
    by (fastforce simp: fetch_ok mg_high_def coll_ok_def split: option.splits if_splits)
next
  case (8 s e nk now)
  then show ?case using rev_grows(1) by (auto simp: mg_put_eq mg_high_def before_def split: option.splits)
      (auto simp: upserted_def doc_rev_def bumped_def)
next
  case (9 s nk now nk' actor)
  then show ?case using rev_grows(2) by (auto simp: mg_del_eq mg_high_def split: option.splits)
next
  case (10 s e r now)
  then obtain d where d: "s (row_nk e) = Some d" "notDeleted d" "r = doc_row d"
    by (auto simp: fetch_ok split: option.splits if_splits)
  then have o: "doc_ok (row_nk e) d" using 10(1) by (simp add: coll_ok_def)
  from doc_row_fields [OF o] d 10(4) show ?case
    by (simp add: mg_put_eq [OF 10(1)] before_def) (simp add: upserted_def doc_rev_def)
next
  case (11 s e now)
  let ?d = "before (row_nk e) s"
  have "?d fieldValue \<noteq> Some (BStr (row_value e))"
  proof
    assume v: "?d fieldValue = Some (BStr (row_value e))"
    then obtain d where d: "s (row_nk e) = Some d" "?d = d" by (auto simp: before_def split: option.splits)
    then have o: "doc_ok (row_nk e) d" using 11(1) by (simp add: coll_ok_def)
    then have n: "notDeleted d" using v d by (auto simp: doc_ok_def notDeleted_def)
    from doc_row_fields(3) [OF o n] v d n 11(3) [of "doc_row d"] show False by (simp add: fetch_ok [OF 11(1)])
  qed
  then show ?case
    by (simp add: mg_put_eq [OF 11(1)] flip: before_rev) (simp add: upserted_def doc_rev_def bumped_def)
qed

end
