(* ===== verification/Backend_Theorems.thy ===== *)
theory Backend_Theorems
  imports Pg_Table_Theorems Mongo_Docs_Theorems
begin

text \<open>The two backends side by side, and what they announce of a write.\<close>

subsection \<open>Histories\<close>

text \<open>A history of writes, newest first, on an empty database.\<close>

definition pg_after_writes :: "sql_env \<Rightarrow> db_write list \<Rightarrow> pg_table" where
  "pg_after_writes env ws = pg_rows.run env ws fresh_table"

definition mg_after_writes :: "db_write list \<Rightarrow> collection" where
  "mg_after_writes ws = mg_rows.run ws Map.empty"

lemma fresh_ok [simp]: "table_ok fresh_table" "coll_ok Map.empty" "pg_fetch fresh_table nk = None" "mg_fetch Map.empty nk = None"
  by (simp_all add: table_ok_def fresh_table_def coll_ok_def pg_fetch_def pg_select_def mg_fetch_def find_entry_def)

lemma mg_accepts [simp]: "mg_rows.accepted ws"
  by (auto simp: mg_rows.accepted_def split: db_write.splits)

text \<open>C28. On both backends a revision, once a key has shown it, stands for one value of that key: after any
  further writes and deletes, whatever the clocks of the writers and of the server say, a read of the key
  shows the same value at the same revision or a greater revision.\<close>

theorem revisions_identify_values:
  assumes "pg_rows.accepted env ws" and "pg_rows.accepted env vs"
  shows "(pg_fetch (pg_after_writes env vs) nk = Some r \<and> pg_fetch (pg_after_writes env (ws @ vs)) nk = Some r'
      \<longrightarrow> row_rev r < row_rev r' \<or> row_rev r' = row_rev r \<and> se_same env (row_value r) (row_value r'))
    \<and> (mg_fetch (mg_after_writes vs) nk = Some r \<and> mg_fetch (mg_after_writes (ws @ vs)) nk = Some r'
      \<longrightarrow> row_rev r < row_rev r' \<or> row_rev r' = row_rev r \<and> row_value r = row_value r')"
proof -
  have "table_ok (pg_after_writes env vs)" "coll_ok (mg_after_writes vs)"
    using pg_rows.history_ok [OF fresh_ok(1) assms(2)] mg_rows.history_ok [OF fresh_ok(2), of vs]
    by (simp_all add: pg_after_writes_def mg_after_writes_def)
  then show ?thesis
    using pg_rows.revisions_stand [of "pg_after_writes env vs" env ws nk r r'] assms(1)
      mg_rows.revisions_stand [of "mg_after_writes vs" ws nk r r']
    by (simp add: pg_after_writes_def mg_after_writes_def pg_rows.run_append mg_rows.run_append
        pg_rows.follows_def mg_rows.follows_def)
qed

text \<open>C29. The two backends are one store: after the same history of writes and deletes, a key is present in
  both or in neither, with the same document (as Postgres prints it) and the same author.\<close>

theorem backends_agree:
  assumes "pg_rows.accepted env ws"
  shows "map_option (\<lambda>r. (row_nk r, row_value r, row_by r)) (pg_fetch (pg_after_writes env ws) nk)
    = map_option (\<lambda>r. (row_nk r, pg_canon env (row_value r), row_by r)) (mg_fetch (mg_after_writes ws) nk)"
proof -
  have pg: "map_option unrevised (pg_fetch (pg_after_writes env ws) nk) = last_write (pg_canon env) (se_time env) ws nk"
    using pg_rows.reads_last_write [OF fresh_ok(1) fresh_ok(3) assms] by (simp add: pg_after_writes_def)
  have mg: "map_option unrevised (mg_fetch (mg_after_writes ws) nk) = last_write (\<lambda>v. v) ms_grain ws nk"
    using mg_rows.reads_last_write [OF fresh_ok(2) fresh_ok(4), of ws] by (simp add: mg_after_writes_def)
  have lw: "map_option (\<lambda>r. (row_nk r, row_value r, row_by r)) (last_write c g ws nk)
      = map_option (\<lambda>r. (row_nk r, c (row_value r), row_by r)) (last_write (\<lambda>v. v) h ws nk)" for c g h
  proof (induction ws)
    case (Cons w ws)
    then show ?case by (cases w) (simp_all add: Let_def row_nk_def)
  qed simp
  have u: "map_option (\<lambda>r. (row_nk r, f (row_value r), row_by r)) (map_option unrevised x)
      = map_option (\<lambda>r. (row_nk r, f (row_value r), row_by r)) x" for f x
    by (cases x) (simp_all add: unrevised_def row_nk_def)
  show ?thesis
    using u [of "\<lambda>v. v" "pg_fetch (pg_after_writes env ws) nk"] u [of "pg_canon env" "mg_fetch (mg_after_writes ws) nk"]
      lw [of "pg_canon env" "se_time env" ms_grain] by (simp add: pg mg)
qed

subsection \<open>What is announced\<close>

text \<open>C30. What a Postgres \<open>Set\<close> answers is what it stored and what the triggers announce. The key now reads as
  the row written (its document as Postgres prints it, its author, its time at Postgres' grain) at the answered
  revision, in that database and no other, and no other key moves. The revision is the one the key had when its
  value was that JSONB value already, and otherwise above every number the sequence had given out. Either the
  notification of this write decodes to an upsert of the key at that revision, or the statement changed no column.\<close>

theorem pg_set_announced:
  assumes "pg_Set env shut db fails now e ts = (ts', Inr n)"
  shows "\<exists>x r. db = Inr x \<and> ts' = ts(x := ts' x)
    \<and> pg_Get False db None (row_nk e) ts' = Inr (Some r) \<and> row_rev r = n
    \<and> row_nk r = row_nk e \<and> se_jsonb env (row_value e) = Some (row_value r)
    \<and> row_by r = row_by e \<and> row_at r = se_time env (row_at (stamped now e))
    \<and> (\<forall>nk. nk \<noteq> row_nk e \<longrightarrow> pg_select nk (ts' x) = pg_select nk (ts x))
    \<and> (case pg_select (row_nk e) (ts x) of
         Some b \<Rightarrow> if se_same env (row_value b) (row_value r) then n = row_rev b else pt_seq (ts x) < n
       | None \<Rightarrow> pt_seq (ts x) < n)
    \<and> ((\<exists>b. pg_select (row_nk e) (ts x) = Some b \<and> same_row env b r) \<and> pt_notices (ts' x) = pt_notices (ts x)
      \<or> (\<exists>p. pt_notices (ts' x) = pt_notices (ts x) @ [p]
          \<and> parseNotifyPayload (Some p) = Some \<lparr>ev_scope = Scope [], ev_ns = row_ns e, ev_key = row_key e,
              ev_op = OpUpsert, ev_rev = n\<rparr>))"
proof -
  from assms obtain x t where x: "db = Inr x" and u: "pg_upsert env (stamped now e) (ts x) = Some (t, n)"
    and ts: "ts' = ts(x := t)" and ne: "row_ns e \<noteq> []" "row_key e \<noteq> []"
    by (auto simp: pg_Set_def split: if_splits sum.splits option.splits)
  from u have a: "pg_accepts env (stamped now e)" by (auto simp: pg_upsert_def pg_accepts_def split: option.splits)
  let ?r = "pg_after env (stamped now e) (ts x)"
  from u upsert_eq [OF a, of "ts x"] have n: "n = row_rev ?r"
    and t: "t = notify_upsert env (pt_rows (ts x) (row_nk e)) ?r
      ((ts x)\<lparr>pt_seq := pt_seq (ts x) + drawn env (stamped now e) (ts x),
         pt_rows := (pt_rows (ts x))(row_nk e \<mapsto> ?r)\<rparr>)" by simp_all
  show ?thesis
  proof (intro exI conjI allI impI)
    show "db = Inr x" "ts' = ts(x := ts' x)" by (simp_all add: x ts)
    show "pg_Get False db None (row_nk e) ts' = Inr (Some ?r)" by (simp add: pg_Get_def x ts pg_select_def t)
    show "row_rev ?r = n" by (simp add: n)
    show "row_nk ?r = row_nk e" "row_by ?r = row_by e" "row_at ?r = se_time env (row_at (stamped now e))"
      by (simp_all add: pg_after_def row_nk_def)
    show "se_jsonb env (row_value e) = Some (row_value ?r)"
      using a by (auto simp: pg_after_def pg_canon_def pg_accepts_def)
    show "pg_select nk (ts' x) = pg_select nk (ts x)" if "nk \<noteq> row_nk e" for nk
      using that by (simp add: ts t pg_select_def)
    show "case pg_select (row_nk e) (ts x) of
         Some b \<Rightarrow> if se_same env (row_value b) (row_value ?r) then n = row_rev b else pt_seq (ts x) < n
       | None \<Rightarrow> pt_seq (ts x) < n"
      by (simp add: n pg_after_def kept_rev_def pg_select_def split: option.splits)
    show "(\<exists>b. pg_select (row_nk e) (ts x) = Some b \<and> same_row env b ?r) \<and> pt_notices (ts' x) = pt_notices (ts x)
      \<or> (\<exists>p. pt_notices (ts' x) = pt_notices (ts x) @ [p]
          \<and> parseNotifyPayload (Some p) = Some \<lparr>ev_scope = Scope [], ev_ns = row_ns e, ev_key = row_key e,
              ev_op = OpUpsert, ev_rev = n\<rparr>)"
    proof (cases "pt_rows (ts x) (row_nk e)")
      case None
      then show ?thesis using ne by (simp add: ts t notify_upsert_def parseNotifyPayload_def op_defs n)
    next
      case (Some b)
      then show ?thesis using ne
        by (cases "same_row env b ?r") (simp_all add: ts t notify_upsert_def parseNotifyPayload_def op_defs n pg_select_def)
    qed
  qed
qed

text \<open>A change of a MongoDB document is announced for what a read of the key would find: an upsert at the
  revision of the row, or a delete at revision 0 for a tombstone, whichever operation changed it.\<close>

theorem mg_change_announced:
  assumes "coll_ok c" and "c nk = Some d" and "Namespace nk \<noteq> []" and "Key nk \<noteq> []"
    and "op \<in> {''insert'', ''update'', ''replace''}"
  shows "eventFromChange \<lparr>ce_OperationType = op, ce_Namespace = Namespace nk, ce_Key = Key nk, ce_FullDocument = c nk\<rparr>
    = Some (case find_entry nk c of
        Some r \<Rightarrow> \<lparr>ev_scope = Scope [], ev_ns = row_ns r, ev_key = row_key r, ev_op = OpUpsert, ev_rev = row_rev r\<rparr>
      | None \<Rightarrow> \<lparr>ev_scope = Scope [], ev_ns = Namespace nk, ev_key = Key nk, ev_op = OpDelete, ev_rev = 0\<rparr>)"
proof -
  have o: "doc_ok nk d" using assms(1,2) by (simp add: coll_ok_def)
  have f: "find_entry nk c = (if notDeleted d then Some (doc_row d) else None)"
    using fetch_ok [OF assms(1), of nk] assms(2) by (simp add: mg_fetch_def)
  have a: "afterImage (Some d) = (doc_rev d, \<not> notDeleted d)"
    using o by (auto simp: afterImage_def doc_rev_def doc_ok_def notDeleted_def)
  have r: "row_ns (doc_row d) = Namespace nk" "row_key (doc_row d) = Key nk"
    using doc_row_fields(1) [OF o] by (auto simp: row_nk_def)
  show ?thesis using assms(2-5) a doc_row_fields(2) [OF o] r by (auto simp: eventFromChange_def f)
qed

subsection \<open>Listing\<close>

text \<open>\<open>List\<close> is every row \<open>Get\<close> finds, once, in the order of the keys.\<close>

lemma pg_list_is_get:
  assumes "table_ok t"
  shows "map row_nk (pg_select_all t) = sorted_list_of_set {nk. pg_select nk t \<noteq> None}"
    and "set (pg_select_all t) = {r. pg_select (row_nk r) t = Some r}"
proof -
  have nk: "row_nk r = nk" if "pt_rows t nk = Some r" for nk r using assms that by (simp add: table_ok_def)
  have dom: "set (sorted_list_of_set (dom (pt_rows t))) = dom (pt_rows t)" using assms by (simp add: table_ok_def)
  show "map row_nk (pg_select_all t) = sorted_list_of_set {nk. pg_select nk t \<noteq> None}"
    unfolding pg_select_all_def pg_select_def map_map dom_def [symmetric]
    by (rule map_idI) (use nk dom in auto)
  show "set (pg_select_all t) = {r. pg_select (row_nk r) t = Some r}"
    using nk dom by (force simp: pg_select_all_def pg_select_def)
qed

lemma map_filter_keys:
  assumes "\<And>nk r. f nk = Some r \<Longrightarrow> row_nk r = nk"
  shows "map row_nk (List.map_filter f ks) = filter (\<lambda>nk. f nk \<noteq> None) ks"
  using assms by (induction ks) (auto simp: List.map_filter_simps split: option.splits)

lemma set_map_filter: "set (List.map_filter f ks) = {r. \<exists>k \<in> set ks. f k = Some r}"
  by (induction ks) (auto simp: List.map_filter_simps split: option.splits)

lemma mg_list_is_get:
  assumes "coll_ok c"
  shows "map row_nk (find_entries c) = sorted_list_of_set {nk. find_entry nk c \<noteq> None}"
    and "set (find_entries c) = {r. find_entry (row_nk r) c = Some r}"
proof -
  have nk: "row_nk r = nk" if "find_entry nk c = Some r" for nk r
    using that fetch_ok [OF assms, of nk] doc_row_fields(1) assms
    by (auto simp: mg_fetch_def coll_ok_def split: option.splits if_splits)
  have fin: "finite (dom c)" using assms by (simp add: coll_ok_def)
  have keys: "map row_nk (List.map_filter (\<lambda>nk. find_entry nk c) (sorted_list_of_set (dom c)))
      = filter (\<lambda>nk. find_entry nk c \<noteq> None) (sorted_list_of_set (dom c))"
    by (rule map_filter_keys) (rule nk)
  have sub: "{nk. find_entry nk c \<noteq> None} \<subseteq> dom c" by (auto simp: find_entry_def split: option.splits)
  have eq: "filter (\<lambda>nk. find_entry nk c \<noteq> None) (sorted_list_of_set (dom c))
      = sorted_list_of_set {nk. find_entry nk c \<noteq> None}"
  proof (rule sorted_distinct_set_unique)
    show "sorted (filter (\<lambda>nk. find_entry nk c \<noteq> None) (sorted_list_of_set (dom c)))"
      by (rule sorted_wrt_filter) simp
    show "set (filter (\<lambda>nk. find_entry nk c \<noteq> None) (sorted_list_of_set (dom c)))
        = set (sorted_list_of_set {nk. find_entry nk c \<noteq> None})"
      using fin sub finite_subset [OF sub fin] by (simp only: set_filter set_sorted_list_of_set) blast
  qed simp_all
  have srt: "sorted (map row_nk (List.map_filter (\<lambda>nk. find_entry nk c) (sorted_list_of_set (dom c))))"
    unfolding keys eq by simp
  have e: "find_entries c = List.map_filter (\<lambda>nk. find_entry nk c) (sorted_list_of_set (dom c))"
    unfolding find_entries_def by (rule sort_key_id_if_sorted [OF srt])
  show "map row_nk (find_entries c) = sorted_list_of_set {nk. find_entry nk c \<noteq> None}"
    unfolding e keys eq ..
  have "set (find_entries c) = {r. \<exists>nk \<in> dom c. find_entry nk c = Some r}"
    unfolding e using fin by (auto simp: set_map_filter)
  also have "\<dots> = {r. find_entry (row_nk r) c = Some r}"
  proof (intro set_eqI iffI)
    fix r
    assume "r \<in> {r. \<exists>nk \<in> dom c. find_entry nk c = Some r}"
    then obtain k where "find_entry k c = Some r" by blast
    with nk [OF this] show "r \<in> {r. find_entry (row_nk r) c = Some r}" by simp
  next
    fix r
    assume a: "r \<in> {r. find_entry (row_nk r) c = Some r}"
    with sub have "row_nk r \<in> dom c" by auto
    with a show "r \<in> {r. \<exists>nk \<in> dom c. find_entry nk c = Some r}" by blast
  qed
  finally show "set (find_entries c) = {r. find_entry (row_nk r) c = Some r}" .
qed

subsection \<open>A history\<close>

text \<open>A key is written, deleted and written again with the value it had, the server's clock having gone back.\<close>

definition plain_sql :: sql_env where
  "plain_sql = \<lparr>se_jsonb = Some, se_value = (\<lambda>v. v), se_time = (\<lambda>t. t)\<rparr>"

definition fee_row :: row where
  "fee_row = \<lparr>row_ns = ''billing'', row_key = ''fee'', row_value = ''1'', row_rev = 0, row_at = 5000000, row_by = ''ops''\<rparr>"

definition first_writes :: "db_write list" where
  "first_writes = [Put (7000000, 9000000) fee_row]"

definition later_writes :: "db_write list" where
  "later_writes = [Put (8000000, 3000000) fee_row, Remove (8000000, 4000000) (row_nk fee_row) ''ops'']"

lemmas history_defs = first_writes_def later_writes_def plain_sql_def fee_row_def

lemma history_accepted: "pg_rows.accepted plain_sql later_writes" "pg_rows.accepted plain_sql first_writes"
  by (simp_all add: pg_rows.accepted_def history_defs pg_accepts_def)

lemmas pg_eval = pg_after_writes_def pg_put_def pg_del_def pg_remove_def pg_upsert_def bump_revision_def nextval_def
  notify_upsert_def notify_delete_def pg_fetch_def pg_select_def stamped_def fresh_table_def row_nk_def

lemmas mg_eval = mg_after_writes_def mg_put_def mg_del_def upsertReturningRevision_def upsertPipeline_def tombstone_def
  tombstonePipeline_def bumpRevisionExpr_def mg_fetch_def find_entry_def notDeleted_def stamped_def row_nk_def decode_doc_def
  str_field_def int_field_def date_field_def bool_field_def toEntry_def millis_def of_millis_def

lemma history_reads:
  "pg_fetch (pg_after_writes plain_sql first_writes) (row_nk fee_row) = Some (fee_row\<lparr>row_rev := 2\<rparr>)"
  "pg_fetch (pg_after_writes plain_sql (later_writes @ first_writes)) (row_nk fee_row) = Some (fee_row\<lparr>row_rev := 3\<rparr>)"
  "mg_fetch (mg_after_writes first_writes) (row_nk fee_row) = Some (fee_row\<lparr>row_rev := 9\<rparr>)"
  "mg_fetch (mg_after_writes (later_writes @ first_writes)) (row_nk fee_row) = Some (fee_row\<lparr>row_rev := 11\<rparr>)"
  by (simp add: pg_eval history_defs) (simp add: pg_eval history_defs, simp add: mg_eval history_defs,
      simp add: mg_eval history_defs)

text \<open>The properties at that history.\<close>

theorem revisions_identify_values_witness:
  "(let r = the (pg_fetch (pg_after_writes plain_sql first_writes) (row_nk fee_row));
        r' = the (pg_fetch (pg_after_writes plain_sql (later_writes @ first_writes)) (row_nk fee_row))
    in row_rev r < row_rev r' \<or> row_rev r' = row_rev r \<and> se_same plain_sql (row_value r) (row_value r'))
   \<and> (let r = the (mg_fetch (mg_after_writes first_writes) (row_nk fee_row));
          r' = the (mg_fetch (mg_after_writes (later_writes @ first_writes)) (row_nk fee_row))
      in row_rev r < row_rev r' \<or> row_rev r' = row_rev r \<and> row_value r = row_value r')"
  using revisions_identify_values [OF history_accepted, of "row_nk fee_row" "fee_row\<lparr>row_rev := 2\<rparr>" "fee_row\<lparr>row_rev := 3\<rparr>"]
    revisions_identify_values [OF history_accepted, of "row_nk fee_row" "fee_row\<lparr>row_rev := 9\<rparr>" "fee_row\<lparr>row_rev := 11\<rparr>"]
  by (simp add: history_reads Let_def)

theorem backends_agree_witness:
  "map_option (\<lambda>r. (row_nk r, row_value r, row_by r)) (pg_fetch (pg_after_writes plain_sql first_writes) (row_nk fee_row))
    = Some (row_nk fee_row, ''1'', ''ops'')"
  using backends_agree [OF history_accepted(2), of "row_nk fee_row"]
  by (simp add: history_reads(3)) (simp add: history_defs pg_canon_def row_nk_def)

theorem pg_set_announced_witness:
  "\<exists>x p. pt_notices (fst (pg_Set plain_sql False (Inr (Plain 0)) None (7, 7) fee_row (\<lambda>_. fresh_table)) x) = [p]
    \<and> parseNotifyPayload (Some p) = Some \<lparr>ev_scope = Scope [], ev_ns = ''billing'', ev_key = ''fee'', ev_op = OpUpsert,
        ev_rev = 2\<rparr>"
proof -
  let ?w = "pg_Set plain_sql False (Inr (Plain 0)) None (7, 7) fee_row (\<lambda>_. fresh_table)"
  have "snd ?w = Inr 2" by (simp add: pg_Set_def pg_eval history_defs)
  then have "?w = (fst ?w, Inr 2)" by (simp add: prod_eq_iff)
  from pg_set_announced [OF this] show ?thesis
    by (auto simp: fresh_table_def pg_select_def) (auto simp: fee_row_def)
qed

theorem mg_change_announced_witness:
  "eventFromChange \<lparr>ce_OperationType = ''update'', ce_Namespace = ''billing'', ce_Key = ''fee'',
      ce_FullDocument = mg_after_writes (tl later_writes @ first_writes) (row_nk fee_row)\<rparr>
    = Some \<lparr>ev_scope = Scope [], ev_ns = ''billing'', ev_key = ''fee'', ev_op = OpDelete, ev_rev = 0\<rparr>"
proof -
  let ?c = "mg_after_writes (tl later_writes @ first_writes)"
  have ok: "coll_ok ?c"
    using mg_rows.history_ok [OF fresh_ok(2), of "tl later_writes @ first_writes"] by (simp add: mg_after_writes_def)
  have none: "find_entry (row_nk fee_row) ?c = None" by (simp add: mg_eval history_defs)
  have "?c (row_nk fee_row) \<noteq> None" by (simp add: mg_eval history_defs)
  then obtain d where "?c (row_nk fee_row) = Some d" by blast
  from mg_change_announced [OF ok this, of "''update''"] none show ?thesis by (simp add: fee_row_def row_nk_def)
qed

end
