(* ===== verification/Mongo_Poll.thy ===== *)
theory Mongo_Poll
  imports Mongo_Docs "HOL-Library.Word"
begin

text \<open>
  The polling changefeed of a MongoDB backend (\<^verbatim>\<open>internal/mongodb/mongodb_changestream.go\<close>: \<open>pollOnce\<close>,
  \<open>snapshotKeys\<close>; \<^verbatim>\<open>mongodb_events.go\<close>: \<open>hashValue\<close>, \<open>boundaryDedupHit\<close>). A round trip
  reads the collection twice, once for the documents from the watermark on and once for the live keys;
  what each query reads, or the error it ends with, is an argument. Times of documents are milliseconds.
\<close>

unbundle bit_operations_syntax

subsection \<open>State\<close>

text \<open>FNV-64a, as \<^verbatim>\<open>hash/fnv\<close> computes it.\<close>

definition hashValue :: "string \<Rightarrow> 64 word" where
  "hashValue v = foldl (\<lambda>h c. (h XOR of_nat (of_char c)) * 1099511628211) 14695981039346656037 v"

record pollState =
  po_watermark :: int
  po_known :: "nskey set"
  po_seen :: "nskey \<Rightarrow> 64 word option"
  po_first :: bool

definition newPollState :: "time \<Rightarrow> pollState" where
  "newPollState now = \<lparr>po_watermark = millis now, po_known = {}, po_seen = Map.empty, po_first = True\<rparr>"

definition boundaryDedupHit :: "(nskey \<Rightarrow> 64 word option) \<Rightarrow> nskey \<Rightarrow> bool \<Rightarrow> 64 word \<Rightarrow> bool" where
  "boundaryDedupHit seen nk atBoundary h \<longleftrightarrow>
     atBoundary \<and> (case seen nk of None \<Rightarrow> False | Some h' \<Rightarrow> h' = h)"

subsection \<open>One round trip\<close>

definition ed_nk :: "entryDoc \<Rightarrow> nskey" where
  "ed_nk ed = NSKey (ed_Namespace ed) (ed_Key ed)"

definition ed_ms :: "entryDoc \<Rightarrow> int" where
  "ed_ms ed = millis (ed_UpdatedAt ed)"

definition poll_event :: "entryDoc \<Rightarrow> event" where
  "poll_event ed = \<lparr>ev_scope = Scope [], ev_ns = ed_Namespace ed, ev_key = ed_Key ed,
     ev_op = (if ed_Deleted ed then OpDelete else OpUpsert), ev_rev = (if ed_Deleted ed then 0 else ed_Revision ed)\<rparr>"

text \<open>One document of the cursor: the state so far, the keys announced from their tombstone, the events.\<close>

type_synonym round = "pollState \<times> nskey set \<times> event list"

definition poll_doc :: "pollState \<Rightarrow> entryDoc \<Rightarrow> round \<Rightarrow> round" where
  "poll_doc st ed r =
     (let (nxt, tombs, evs) = r;
          nk = ed_nk ed; h = hashValue (ed_Value ed); at_ms = ed_ms ed;
          tombs' = (if ed_Deleted ed then insert nk tombs else tombs)
      in if boundaryDedupHit (po_seen st) nk (at_ms = po_watermark st) h
         then (nxt\<lparr>po_seen := (po_seen nxt)(nk \<mapsto> h)\<rparr>, tombs', evs)
         else ((if po_watermark nxt < at_ms then nxt\<lparr>po_watermark := at_ms, po_seen := [nk \<mapsto> h]\<rparr>
                else if at_ms = po_watermark nxt then nxt\<lparr>po_seen := (po_seen nxt)(nk \<mapsto> h)\<rparr>
                else nxt),
               tombs', evs @ [poll_event ed]))"

definition poll_docs :: "pollState \<Rightarrow> entryDoc option list \<Rightarrow> round" where
  "poll_docs st docs =
     fold (\<lambda>x r. case x of Some ed \<Rightarrow> poll_doc st ed r | None \<Rightarrow> r) docs
       (\<lparr>po_watermark = po_watermark st, po_known = po_known st, po_seen = Map.empty, po_first = False\<rparr>, {}, [])"

definition delete_event :: "nskey \<Rightarrow> event" where
  "delete_event nk = \<lparr>ev_scope = Scope [], ev_ns = Namespace nk, ev_key = Key nk, ev_op = OpDelete, ev_rev = 0\<rparr>"

text \<open>
  The incremental query fails, or yields documents (\<open>None\<close> is one that does not decode) and then ends or
  breaks; the snapshot of the live keys fails, or answers them. The answer is the next state, the events
  handed to \<open>emit\<close>, and the error of the round trip. The map of known keys is walked in some order.
\<close>

definition poll_lost :: "pollState \<Rightarrow> nskey set \<Rightarrow> nskey set \<Rightarrow> nskey list" where
  "poll_lost st current tombs =
     (if po_first st then [] else sorted_list_of_set (po_known st - current - tombs))"

definition pollOnce ::
  "pollState \<Rightarrow> err + (entryDoc option list \<times> err option) \<Rightarrow> err + nskey set \<Rightarrow> pollState \<times> event list \<times> err option"
where
  "pollOnce st found snapshot =
     (case found of
        Inl er \<Rightarrow> (st, [], Some er)
      | Inr (docs, broken) \<Rightarrow>
          let (nxt, tombs, evs) = poll_docs st docs in
          (case broken of
             Some er \<Rightarrow> (st, evs, Some er)
           | None \<Rightarrow>
               (case snapshot of
                  Inl er \<Rightarrow> (nxt, evs, None)
                | Inr current \<Rightarrow>
                    (nxt\<lparr>po_known := current\<rparr>, evs @ map delete_event (poll_lost st current tombs), None))))"

subsection \<open>The two queries\<close>

text \<open>A \<open>$gte\<close> on a date matches dates only; the sort is by the fields.\<close>

definition matches_since :: "int \<Rightarrow> doc \<Rightarrow> bool" where
  "matches_since wm d \<longleftrightarrow> (case d fieldUpdatedAt of Some (BDate k) \<Rightarrow> wm \<le> k | _ \<Rightarrow> False)"

definition doc_date :: "doc \<Rightarrow> int" where
  "doc_date d = (case d fieldUpdatedAt of Some (BDate k) \<Rightarrow> k | _ \<Rightarrow> 0)"

definition poll_find :: "int \<Rightarrow> collection \<Rightarrow> entryDoc option list" where
  "poll_find wm c =
     map (\<lambda>nk. decode_doc (the (c nk)))
       (sort_key (\<lambda>nk. doc_date (the (c nk)))
         (sorted_list_of_set {nk \<in> dom c. matches_since wm (the (c nk))}))"

definition snapshotKeys :: "collection \<Rightarrow> nskey set" where
  "snapshotKeys c =
     {NSKey ns k | ns k. ns \<noteq> [] \<and> k \<noteq> [] \<and> (\<exists>nk d. c nk = Some d \<and> notDeleted d
        \<and> str_field fieldNamespace d = Some ns \<and> str_field fieldKey d = Some k)}"

text \<open>A round trip during which nothing is written: both queries read one state of the collection.\<close>

definition poll_round :: "collection \<Rightarrow> pollState \<Rightarrow> pollState \<times> event list \<times> err option" where
  "poll_round c st = pollOnce st (Inr (poll_find (po_watermark st) c, None)) (Inr (snapshotKeys c))"

end
