(* ===== verification/Mongo_Poll_Theorems.thy ===== *)
theory Mongo_Poll_Theorems
  imports Mongo_Poll Mongo_Docs_Theorems
begin

text \<open>
  What polling announces. A subscriber re-reads the key of every event, as the engine does; its copy is
  compared with the collection by the hash the poller itself compares values by.
\<close>

subsection \<open>One cursor\<close>

definition poll_hit :: "pollState \<Rightarrow> entryDoc \<Rightarrow> bool" where
  "poll_hit st ed \<longleftrightarrow> boundaryDedupHit (po_seen st) (ed_nk ed) (ed_ms ed = po_watermark st) (hashValue (ed_Value ed))"

lemma poll_docs_nil [simp]:
  "poll_docs st [] =
     (\<lparr>po_watermark = po_watermark st, po_known = po_known st, po_seen = Map.empty, po_first = False\<rparr>, {}, [])"
  by (simp add: poll_docs_def)

lemma poll_docs_snoc [simp]: "poll_docs st (xs @ [Some ed]) = poll_doc st ed (poll_docs st xs)"
  by (simp add: poll_docs_def)

lemma poll_cursor:
  assumes "distinct (map ed_nk eds)" and "\<And>ed. ed \<in> set eds \<Longrightarrow> po_watermark st \<le> ed_ms ed"
  shows "\<exists>nxt. poll_docs st (map Some eds)
       = (nxt, {ed_nk ed | ed. ed \<in> set eds \<and> ed_Deleted ed}, map poll_event (filter (\<lambda>ed. \<not> poll_hit st ed) eds))
    \<and> po_known nxt = po_known st \<and> \<not> po_first nxt \<and> po_watermark st \<le> po_watermark nxt
    \<and> (\<forall>ed \<in> set eds. ed_ms ed \<le> po_watermark nxt)
    \<and> (\<forall>nk h. po_seen nxt nk = Some h \<longrightarrow> (\<exists>ed \<in> set eds. ed_nk ed = nk \<and> hashValue (ed_Value ed) = h))
    \<and> (\<forall>ed \<in> set eds. ed_ms ed = po_watermark nxt \<longrightarrow> po_seen nxt (ed_nk ed) = Some (hashValue (ed_Value ed)))"
  using assms
proof (induction eds rule: rev_induct)
    case Nil
    then show ?case by simp
  next
    case (snoc ed eds)
    from snoc.prems(1) have d: "distinct (map ed_nk eds)" and ni: "ed_nk ed \<notin> ed_nk ` set eds" by simp_all
    have new: "ed_nk x \<noteq> ed_nk ed" if "x \<in> set eds" for x using ni that by (metis imageI)
    from snoc.prems(2) have ms: "\<And>x. x \<in> set eds \<Longrightarrow> po_watermark st \<le> ed_ms x" "po_watermark st \<le> ed_ms ed" by auto
    from snoc.IH [OF d ms(1)] obtain n where n: "poll_docs st (map Some eds)
       = (n, {ed_nk ed | ed. ed \<in> set eds \<and> ed_Deleted ed}, map poll_event (filter (\<lambda>ed. \<not> poll_hit st ed) eds))"
      and f: "po_known n = po_known st" "\<not> po_first n" "po_watermark st \<le> po_watermark n"
      and le: "\<And>x. x \<in> set eds \<Longrightarrow> ed_ms x \<le> po_watermark n"
      and seen: "\<And>nk h. po_seen n nk = Some h \<Longrightarrow> \<exists>ed \<in> set eds. ed_nk ed = nk \<and> hashValue (ed_Value ed) = h"
      and at_wm: "\<And>x. x \<in> set eds \<Longrightarrow> ed_ms x = po_watermark n \<Longrightarrow> po_seen n (ed_nk x) = Some (hashValue (ed_Value x))"
      by blast
    have tombs: "{ed_nk x | x. x \<in> set (eds @ [ed]) \<and> ed_Deleted x}
        = (if ed_Deleted ed then insert (ed_nk ed) {ed_nk x | x. x \<in> set eds \<and> ed_Deleted x}
           else {ed_nk x | x. x \<in> set eds \<and> ed_Deleted x})" by auto
    let ?h = "hashValue (ed_Value ed)"
    define n' where "n' = (if poll_hit st ed then n\<lparr>po_seen := (po_seen n)(ed_nk ed \<mapsto> ?h)\<rparr>
      else if po_watermark n < ed_ms ed then n\<lparr>po_watermark := ed_ms ed, po_seen := [ed_nk ed \<mapsto> ?h]\<rparr>
      else if ed_ms ed = po_watermark n then n\<lparr>po_seen := (po_seen n)(ed_nk ed \<mapsto> ?h)\<rparr> else n)"
    have r: "poll_docs st (map Some (eds @ [ed]))
       = (n', {ed_nk x | x. x \<in> set (eds @ [ed]) \<and> ed_Deleted x},
          map poll_event (filter (\<lambda>ed. \<not> poll_hit st ed) (eds @ [ed])))"
      unfolding map_append list.map poll_docs_snoc n tombs
      by (simp add: poll_doc_def Let_def n'_def poll_hit_def)
    have hit: "ed_ms ed = po_watermark st" if "poll_hit st ed"
      using that by (simp add: poll_hit_def boundaryDedupHit_def)
    have w': "po_watermark n' = (if \<not> poll_hit st ed \<and> po_watermark n < ed_ms ed then ed_ms ed else po_watermark n)"
      by (simp add: n'_def)
    have s': "po_seen n' nk = (if \<not> poll_hit st ed \<and> po_watermark n < ed_ms ed then [ed_nk ed \<mapsto> ?h] nk
        else if poll_hit st ed \<or> ed_ms ed = po_watermark n then ((po_seen n)(ed_nk ed \<mapsto> ?h)) nk else po_seen n nk)" for nk
      by (simp add: n'_def)
    have le': "ed_ms x \<le> po_watermark n'" if "x \<in> set (eds @ [ed])" for x
    proof (cases "x = ed")
      case True
      then show ?thesis using hit f(3) by (auto simp: w')
    next
      case False
      with that have "x \<in> set eds" by simp
      from le [OF this] show ?thesis by (auto simp: w')
    qed
    have seen': "\<exists>x \<in> set (eds @ [ed]). ed_nk x = nk \<and> hashValue (ed_Value x) = h" if "po_seen n' nk = Some h" for nk h
      using that seen [of nk h] by (auto simp: s' split: if_splits)
    have at': "po_seen n' (ed_nk x) = Some (hashValue (ed_Value x))"
      if "x \<in> set (eds @ [ed])" and "ed_ms x = po_watermark n'" for x
    proof (cases "x \<in> set eds")
      case True
      with that(2) le [OF True] have "ed_ms x = po_watermark n" "\<not> (\<not> poll_hit st ed \<and> po_watermark n < ed_ms ed)"
        by (auto simp: w' split: if_splits)
      with at_wm [OF True] new [OF True] show ?thesis by (simp add: s')
    next
      case False
      with that(1) have "x = ed" by simp
      with that(2) show ?thesis by (auto simp: s' w' split: if_splits)
    qed
    show ?case
      using r f le' seen' at' by (intro exI [of _ n']) (auto simp: n'_def w')
qed

subsection \<open>What the queries read of well-formed documents\<close>

definition held :: "row option \<Rightarrow> string" where
  "held x = (case x of None \<Rightarrow> [] | Some r \<Rightarrow> row_value r)"

lemma decoded:
  assumes "doc_ok nk d"
  obtains ed where "decode_doc d = Some ed" and "ed_nk ed = nk" and "ed_ms ed = doc_date d"
    and "ed_Deleted ed \<longleftrightarrow> \<not> notDeleted d" and "ed_Revision ed = doc_rev d"
    and "ed_Value ed = (if notDeleted d then row_value (doc_row d) else [])"
proof -
  from assms obtain k a where f: "d fieldNamespace = Some (BStr (Namespace nk))" "d fieldKey = Some (BStr (Key nk))"
    "d fieldRevision = Some (BInt (doc_rev d))" "d fieldUpdatedAt = Some (BDate k)" "d fieldUpdatedBy = Some (BStr a)"
    and v: "d fieldDeleted = None \<and> (\<exists>v. d fieldValue = Some (BStr v))
      \<or> d fieldDeleted = Some (BBool True) \<and> d fieldValue = None"
    unfolding doc_ok_def by blast
  define v0 where "v0 = (case d fieldValue of Some (BStr v) \<Rightarrow> v | _ \<Rightarrow> [])"
  define ed where "ed = \<lparr>ed_Namespace = Namespace nk, ed_Key = Key nk, ed_Value = v0, ed_Revision = doc_rev d,
    ed_UpdatedAt = of_millis k, ed_UpdatedBy = a, ed_Deleted = (\<not> notDeleted d)\<rparr>"
  have dec: "decode_doc d = Some ed"
    using v by (auto simp: decode_doc_def str_field_def int_field_def date_field_def bool_field_def f ed_def v0_def
        notDeleted_def)
  have "doc_row d = toEntry ed" by (simp add: doc_row_def dec)
  then have rv: "row_value (doc_row d) = v0" by (simp add: toEntry_def ed_def)
  have "v0 = [] \<or> notDeleted d" using v by (auto simp: v0_def notDeleted_def)
  with rv have val: "ed_Value ed = (if notDeleted d then row_value (doc_row d) else [])" by (auto simp: ed_def)
  show ?thesis
  proof (rule that [of ed])
    show "ed_nk ed = nk" by (simp add: ed_def ed_nk_def)
    show "ed_ms ed = doc_date d" by (simp add: ed_def ed_ms_def doc_date_def f millis_def of_millis_def)
  qed (use dec val in \<open>simp_all add: ed_def\<close>)
qed

lemma decoded_held:
  assumes "coll_ok c" and "c nk = Some d" and "decode_doc d = Some ed"
  shows "ed_Value ed = held (find_entry nk c)"
proof -
  have o: "doc_ok nk d" using assms(1,2) by (simp add: coll_ok_def)
  obtain e where "decode_doc d = Some e" "ed_Value e = (if notDeleted d then row_value (doc_row d) else [])"
    by (rule decoded [OF o])
  with assms(3) have "ed_Value ed = (if notDeleted d then row_value (doc_row d) else [])" by simp
  with fetch_ok [OF assms(1), of nk] assms(2) show ?thesis by (simp add: mg_fetch_def held_def)
qed

definition since :: "int \<Rightarrow> collection \<Rightarrow> nskey set" where
  "since wm c = {nk \<in> dom c. matches_since wm (the (c nk))}"

lemma matches_ok: "doc_ok nk d \<Longrightarrow> matches_since wm d \<longleftrightarrow> wm \<le> doc_date d"
  by (auto simp: doc_ok_def matches_since_def doc_date_def)

lemma found_docs:
  assumes ok: "coll_ok c"
  shows "\<exists>eds. poll_find wm c = map Some eds \<and> distinct (map ed_nk eds)
    \<and> (\<forall>ed \<in> set eds. \<exists>d. c (ed_nk ed) = Some d \<and> decode_doc d = Some ed \<and> wm \<le> doc_date d \<and> ed_ms ed = doc_date d)
    \<and> (\<forall>nk d. c nk = Some d \<longrightarrow> wm \<le> doc_date d \<longrightarrow> (\<exists>ed \<in> set eds. ed_nk ed = nk \<and> decode_doc d = Some ed))"
proof -
  let ?ks = "sort_key (\<lambda>nk. doc_date (the (c nk))) (sorted_list_of_set (since wm c))"
  let ?ed = "\<lambda>nk. the (decode_doc (the (c nk)))"
  have fin: "finite (since wm c)" using ok by (auto simp: since_def coll_ok_def)
  have ks: "set ?ks = since wm c" "distinct ?ks" using fin by simp_all
  have dec: "\<exists>d. c nk = Some d \<and> decode_doc d = Some (?ed nk) \<and> ed_nk (?ed nk) = nk \<and> ed_ms (?ed nk) = doc_date d
      \<and> wm \<le> doc_date d" if "nk \<in> since wm c" for nk
  proof -
    from that obtain d where d: "c nk = Some d" "matches_since wm d" by (auto simp: since_def)
    then have o: "doc_ok nk d" using ok by (simp add: coll_ok_def)
    from decoded [OF o] obtain ed where "decode_doc d = Some ed" "ed_nk ed = nk" "ed_ms ed = doc_date d" by blast
    with d matches_ok [OF o] show ?thesis by simp
  qed
  have 1: "poll_find wm c = map Some (map ?ed ?ks)"
    unfolding poll_find_def since_def [symmetric] map_map
  proof (rule map_cong [OF refl])
    fix nk
    assume "nk \<in> set ?ks"
    with ks(1) dec [of nk] show "decode_doc (the (c nk)) = (Some \<circ> ?ed) nk" by auto
  qed
  have nks: "map ed_nk (map ?ed ?ks) = ?ks"
    unfolding map_map by (rule map_idI) (use ks dec in fastforce)
  have 2: "distinct (map ed_nk (map ?ed ?ks))" unfolding nks by (rule ks(2))
  have 3: "\<exists>d. c (ed_nk ed) = Some d \<and> decode_doc d = Some ed \<and> wm \<le> doc_date d \<and> ed_ms ed = doc_date d"
    if e: "ed \<in> set (map ?ed ?ks)" for ed
  proof -
    from e ks(1) obtain k where k: "k \<in> since wm c" "ed = ?ed k" unfolding set_map by blast
    from dec [OF k(1)] obtain d where "c k = Some d" "decode_doc d = Some (?ed k)" "ed_nk (?ed k) = k"
      "ed_ms (?ed k) = doc_date d" "wm \<le> doc_date d" by blast
    then show ?thesis unfolding k(2) by simp
  qed
  have 4: "\<exists>ed \<in> set (map ?ed ?ks). ed_nk ed = nk \<and> decode_doc d = Some ed" if "c nk = Some d" "wm \<le> doc_date d" for nk d
  proof -
    have "doc_ok nk d" using ok that(1) by (simp add: coll_ok_def)
    with that have "nk \<in> since wm c" using matches_ok by (auto simp: since_def)
    from dec [OF this] obtain d' where e: "c nk = Some d'" "decode_doc d' = Some (?ed nk)" "ed_nk (?ed nk) = nk" by blast
    have dd: "d' = d" by (rule option.inject [THEN iffD1], rule trans [OF sym [OF e(1)] that(1)])
    have m: "?ed nk \<in> set (map ?ed ?ks)" unfolding set_map ks(1) by (rule imageI) fact
    show ?thesis by (rule bexI [OF _ m], rule conjI, rule e(3), rule e(2) [unfolded dd])
  qed
  show ?thesis
    by (rule exI [of _ "map ?ed ?ks"], intro conjI ballI allI impI, rule 1, rule 2, rule 3, assumption, rule 4)
qed

lemma snapshot_ok:
  assumes "coll_ok c"
  shows "nk \<in> snapshotKeys c \<longleftrightarrow> Namespace nk \<noteq> [] \<and> Key nk \<noteq> [] \<and> (\<exists>d. c nk = Some d \<and> notDeleted d)"
proof -
  have n: "str_field fieldNamespace d = Some (Namespace k)" "str_field fieldKey d = Some (Key k)" if "c k = Some d" for k d
  proof -
    have "doc_ok k d" using assms that by (simp add: coll_ok_def)
    then have "d fieldNamespace = Some (BStr (Namespace k))" "d fieldKey = Some (BStr (Key k))"
      by (simp_all add: doc_ok_def)
    then show "str_field fieldNamespace d = Some (Namespace k)" "str_field fieldKey d = Some (Key k)"
      by (simp_all add: str_field_def)
  qed
  show ?thesis
  proof
    assume "nk \<in> snapshotKeys c"
    then obtain ns k j d where a: "nk = NSKey ns k" "ns \<noteq> []" "k \<noteq> []" "c j = Some d" "notDeleted d"
      "str_field fieldNamespace d = Some ns" "str_field fieldKey d = Some k" unfolding snapshotKeys_def by blast
    with n [OF a(4)] have "j = nk" by (cases j) simp
    with a show "Namespace nk \<noteq> [] \<and> Key nk \<noteq> [] \<and> (\<exists>d. c nk = Some d \<and> notDeleted d)" by auto
  next
    assume "Namespace nk \<noteq> [] \<and> Key nk \<noteq> [] \<and> (\<exists>d. c nk = Some d \<and> notDeleted d)"
    then obtain d where "c nk = Some d" "notDeleted d" "Namespace nk \<noteq> []" "Key nk \<noteq> []" by blast
    with n [of nk d] have "NSKey (Namespace nk) (Key nk) \<in> snapshotKeys c" unfolding snapshotKeys_def by blast
    then show "nk \<in> snapshotKeys c" by simp
  qed
qed

subsection \<open>One round trip\<close>

definition announces :: "event list \<Rightarrow> nskey \<Rightarrow> bool" where
  "announces evs nk \<longleftrightarrow> (\<exists>ev \<in> set evs. ev_ns ev = Namespace nk \<and> ev_key ev = Key nk)"

text \<open>What the poller can tell of a key's state: the hash of its value, the empty one for a key without a row.\<close>

definition digest :: "row option \<Rightarrow> 64 word" where
  "digest x = hashValue (held x)"

text \<open>A key the last snapshot saw and that is gone has a tombstone the next cursor reads.\<close>

definition known_ok :: "collection \<Rightarrow> pollState \<Rightarrow> bool" where
  "known_ok c st \<longleftrightarrow> (\<forall>nk \<in> po_known st. Namespace nk \<noteq> [] \<and> Key nk \<noteq> []
     \<and> (\<exists>d. c nk = Some d \<and> (notDeleted d \<or> po_watermark st \<le> doc_date d)))"

lemma announces_docs:
  "announces (map poll_event (filter P eds)) nk \<longleftrightarrow> (\<exists>ed \<in> set eds. ed_nk ed = nk \<and> P ed)"
  by (cases nk) (auto simp: announces_def poll_event_def ed_nk_def)

lemma announces_nothing: "(\<forall>nk. \<not> announces evs nk) \<longleftrightarrow> evs = []"
proof
  assume a: "\<forall>nk. \<not> announces evs nk"
  show "evs = []"
  proof (cases evs)
    case (Cons ev es)
    then have "announces evs (NSKey (ev_ns ev) (ev_key ev))" by (simp add: announces_def)
    with a show ?thesis by blast
  qed
qed (simp add: announces_def)

text \<open>What the next round trip will not announce.\<close>

definition quiet :: "collection \<Rightarrow> pollState \<Rightarrow> nskey \<Rightarrow> bool" where
  "quiet c st nk \<longleftrightarrow> (case c nk of None \<Rightarrow> True
     | Some d \<Rightarrow> doc_date d < po_watermark st
         \<or> doc_date d = po_watermark st \<and> po_seen st nk = Some (digest (find_entry nk c)))"

lemma quiet_same [simp]:
  "quiet c (st\<lparr>po_known := K\<rparr>) nk = quiet c st nk" "quiet c (st\<lparr>po_first := b\<rparr>) nk = quiet c st nk"
  by (cases "c nk"; simp add: quiet_def)+

lemma round_facts:
  assumes ok: "coll_ok c" and r: "poll_round c st = (st', evs, er)"
  shows "er = None" and "po_known st' = snapshotKeys c" and "po_watermark st \<le> po_watermark st'" and "quiet c st' nk"
    and "\<exists>T. (\<forall>nk. announces evs nk \<longleftrightarrow> \<not> quiet c st nk \<or> nk \<in> set (poll_lost st (snapshotKeys c) T))
          \<and> (\<forall>nk d. c nk = Some d \<longrightarrow> \<not> notDeleted d \<longrightarrow> po_watermark st \<le> doc_date d \<longrightarrow> nk \<in> T)"
proof -
  from found_docs [OF ok, where wm = "po_watermark st"]
  obtain eds where eds: "poll_find (po_watermark st) c = map Some eds" "distinct (map ed_nk eds)"
    and mem: "\<And>ed. ed \<in> set eds \<Longrightarrow> \<exists>d. c (ed_nk ed) = Some d \<and> decode_doc d = Some ed
        \<and> po_watermark st \<le> doc_date d \<and> ed_ms ed = doc_date d"
    and all: "\<And>nk d. c nk = Some d \<Longrightarrow> po_watermark st \<le> doc_date d \<Longrightarrow> \<exists>ed \<in> set eds. ed_nk ed = nk \<and> decode_doc d = Some ed"
    by meson
  have ms: "\<And>ed. ed \<in> set eds \<Longrightarrow> po_watermark st \<le> ed_ms ed" using mem by fastforce
  let ?T = "{ed_nk ed | ed. ed \<in> set eds \<and> ed_Deleted ed}"
  let ?evs = "map poll_event (filter (\<lambda>ed. \<not> poll_hit st ed) eds)"
  from poll_cursor [OF eds(2) ms] obtain n where n: "poll_docs st (map Some eds) = (n, ?T, ?evs)"
    and w: "po_watermark st \<le> po_watermark n"
    and le: "\<And>ed. ed \<in> set eds \<Longrightarrow> ed_ms ed \<le> po_watermark n"
    and at_wm: "\<And>ed. ed \<in> set eds \<Longrightarrow> ed_ms ed = po_watermark n \<Longrightarrow> po_seen n (ed_nk ed) = Some (hashValue (ed_Value ed))"
    by blast
  have e: "st' = n\<lparr>po_known := snapshotKeys c\<rparr>" "er = None"
    "evs = ?evs @ map delete_event (poll_lost st (snapshotKeys c) ?T)"
    using r by (simp_all add: poll_round_def pollOnce_def eds(1) n)
  show "er = None" "po_known st' = snapshotKeys c" "po_watermark st \<le> po_watermark st'" using e w by simp_all
  have read: "ed_ms ed = doc_date d \<and> hashValue (ed_Value ed) = digest (find_entry nk c) \<and> decode_doc d = Some ed"
    if m: "ed \<in> set eds" "ed_nk ed = nk" "c nk = Some d" for ed nk d
  proof -
    from mem [OF m(1)] obtain d' where d': "c nk = Some d'" "decode_doc d' = Some ed" "ed_ms ed = doc_date d'"
      unfolding m(2) by blast
    from d'(1) m(3) have "d' = d" by simp
    with d' decoded_held [OF ok d'(1,2)] show ?thesis by (simp add: digest_def)
  qed
  show "quiet c st' nk"
  proof (cases "c nk")
    case (Some d)
    show ?thesis
    proof (cases "po_watermark st \<le> doc_date d")
      case True
      from all [OF Some True] obtain ed where ed: "ed \<in> set eds" "ed_nk ed = nk" by blast
      note rd = read [OF ed Some]
      from le [OF ed(1)] at_wm [OF ed(1)] ed(2) rd
      have "doc_date d \<le> po_watermark n" "doc_date d = po_watermark n \<longrightarrow> po_seen n nk = Some (digest (find_entry nk c))"
        by simp_all
      with Some e(1) show ?thesis by (cases "doc_date d = po_watermark n") (simp_all add: quiet_def)
    next
      case False
      with Some e(1) w show ?thesis by (simp add: quiet_def)
    qed
  qed (simp add: quiet_def)
  have told: "announces ?evs nk \<longleftrightarrow> \<not> quiet c st nk" for nk
  proof
    assume "announces ?evs nk"
    then obtain ed where ed: "ed \<in> set eds" "ed_nk ed = nk" "\<not> poll_hit st ed" by (auto simp: announces_docs)
    from mem [OF ed(1)] obtain d where d: "c nk = Some d" "po_watermark st \<le> doc_date d" unfolding ed(2) by blast
    from read [OF ed(1,2) d(1)] ed(2,3) d show "\<not> quiet c st nk"
      by (auto simp: quiet_def poll_hit_def boundaryDedupHit_def)
  next
    assume q: "\<not> quiet c st nk"
    then obtain d where d: "c nk = Some d" "po_watermark st \<le> doc_date d" by (auto simp: quiet_def split: option.splits)
    from all [OF d] obtain ed where ed: "ed \<in> set eds" "ed_nk ed = nk" by blast
    from read [OF ed d(1)] ed(2) q d have "\<not> poll_hit st ed"
      by (auto simp: quiet_def poll_hit_def boundaryDedupHit_def split: option.splits)
    with ed show "announces ?evs nk" by (auto simp: announces_docs)
  qed
  have "announces evs nk \<longleftrightarrow> \<not> quiet c st nk \<or> nk \<in> set (poll_lost st (snapshotKeys c) ?T)" for nk
  proof -
    have "announces evs nk \<longleftrightarrow> announces ?evs nk \<or> announces (map delete_event (poll_lost st (snapshotKeys c) ?T)) nk"
      unfolding e(3) announces_def set_append by blast
    also have "announces (map delete_event ks) nk \<longleftrightarrow> nk \<in> set ks" for ks
      by (cases nk) (force simp: announces_def delete_event_def)
    finally show ?thesis using told by simp
  qed
  moreover have "nk \<in> ?T" if d: "c nk = Some d" "\<not> notDeleted d" "po_watermark st \<le> doc_date d" for nk d
  proof -
    from all [OF d(1,3)] obtain ed where ed: "ed \<in> set eds" "ed_nk ed = nk" "decode_doc d = Some ed" by blast
    have "doc_ok nk d" using ok d(1) by (simp add: coll_ok_def)
    then obtain ed' where "decode_doc d = Some ed'" "ed_Deleted ed' \<longleftrightarrow> \<not> notDeleted d" by (rule decoded)
    with ed d(2) show ?thesis by auto
  qed
  ultimately show "\<exists>T. (\<forall>nk. announces evs nk \<longleftrightarrow> \<not> quiet c st nk \<or> nk \<in> set (poll_lost st (snapshotKeys c) T))
      \<and> (\<forall>nk d. c nk = Some d \<longrightarrow> \<not> notDeleted d \<longrightarrow> po_watermark st \<le> doc_date d \<longrightarrow> nk \<in> T)"
    by blast
qed

lemma poll_lost_member: "nk \<in> set (poll_lost st current T) \<Longrightarrow> nk \<in> po_known st \<and> nk \<notin> current \<and> nk \<notin> T"
  by (cases "finite (po_known st - current - T)") (auto simp: poll_lost_def split: if_splits)

text \<open>The first query alone: whatever it reads and is not quiet, it announces.\<close>

lemma cursor_facts:
  assumes ok: "coll_ok c" and d: "poll_docs st (poll_find (po_watermark st) c) = (n, T, evs)"
  shows "quiet c n nk" and "announces evs nk \<longleftrightarrow> \<not> quiet c st nk"
proof -
  let ?st = "st\<lparr>po_first := True\<rparr>"
  have eq: "poll_doc ?st = poll_doc st" by (simp add: poll_doc_def fun_eq_iff)
  have "poll_docs ?st xs = poll_docs st xs" for xs unfolding poll_docs_def eq by simp
  with d have d': "poll_docs ?st (poll_find (po_watermark ?st) c) = (n, T, evs)" by simp
  then have r: "poll_round c ?st = (n\<lparr>po_known := snapshotKeys c\<rparr>, evs, None)"
    by (simp add: poll_round_def pollOnce_def poll_lost_def)
  show "quiet c n nk" using round_facts(4) [OF ok r, of nk] by simp
  from round_facts(5) [OF ok r] show "announces evs nk \<longleftrightarrow> \<not> quiet c st nk" by (auto simp: poll_lost_def)
qed

text \<open>A live key that is quiet is not announced, whatever the last snapshot knew.\<close>

lemma quiet_live:
  assumes "coll_ok c" and "poll_round c st = (st', evs, er)" and "quiet c st nk"
    and "Namespace nk \<noteq> []" and "Key nk \<noteq> []" and "c nk = Some d" and "notDeleted d"
  shows "\<not> announces evs nk"
  using round_facts(5) [OF assms(1,2)] poll_lost_member snapshot_ok [OF assms(1)] assms(3-7) by blast

lemma round_quiet:
  assumes ok: "coll_ok c" and known: "known_ok c st" and r: "poll_round c st = (st', evs, er)"
  shows "announces evs nk \<longleftrightarrow> \<not> quiet c st nk" and "known_ok c st'"
proof -
  note f = round_facts [OF ok r]
  from f(5) obtain T where T: "\<And>nk. announces evs nk \<longleftrightarrow> \<not> quiet c st nk \<or> nk \<in> set (poll_lost st (snapshotKeys c) T)"
    and dead: "\<And>nk d. c nk = Some d \<Longrightarrow> \<not> notDeleted d \<Longrightarrow> po_watermark st \<le> doc_date d \<Longrightarrow> nk \<in> T" by blast
  have "nk \<notin> set (poll_lost st (snapshotKeys c) T)"
    using poll_lost_member [of nk st "snapshotKeys c" T] known dead snapshot_ok [OF ok, of nk] unfolding known_ok_def by blast
  with T show "announces evs nk \<longleftrightarrow> \<not> quiet c st nk" by simp
  show "known_ok c st'" using f(2) snapshot_ok [OF ok] by (auto simp: known_ok_def)
qed

subsection \<open>Polling and a subscriber\<close>

text \<open>
  A write of the value \<open>v\<close>, stamped \<open>ms\<close>, that leaves a trace: it is stamped after the watermark; or at it,
  unless the poller has already seen this value of the key at this millisecond and the key moved in between.
\<close>

definition traced :: "collection \<Rightarrow> pollState \<Rightarrow> nskey \<Rightarrow> string \<Rightarrow> int \<Rightarrow> bool" where
  "traced c st nk v ms \<longleftrightarrow>
     po_watermark st < ms
     \<or> po_watermark st = ms \<and> (po_seen st nk = Some (hashValue v)
         \<longrightarrow> quiet c st nk \<and> digest (find_entry nk c) = hashValue v)"

text \<open>
  The collection, the poller, the copy a subscriber holds and the keys it has yet to read again. A round trip
  is two queries, and other writers may come in between: \<open>mid\<close> is what the poller carries from one to the
  other, the state the round started with and the keys announced from their tombstone. The snapshot may fail;
  a round trip whose first query fails or breaks may have announced a part. The first round trip announces
  nothing and the resync after it owes every key; a key is read at any later time.
\<close>

type_synonym between = "(pollState \<times> nskey set) option"

inductive poll_run :: "collection \<Rightarrow> pollState \<Rightarrow> between \<Rightarrow> (nskey \<Rightarrow> row option) \<Rightarrow> nskey set \<Rightarrow> bool" where
  starts: "coll_ok c \<Longrightarrow> st = newPollState now \<Longrightarrow> poll_docs st (poll_find (po_watermark st) c) = (n, T, evs) \<Longrightarrow>
     poll_run c n (Some (st, T)) Map.empty UNIV"
| writes: "poll_run c st mid copy owed \<Longrightarrow> row_ns e \<noteq> [] \<Longrightarrow> row_key e \<noteq> [] \<Longrightarrow>
     traced c st (row_nk e) (row_value e) (millis (row_at (stamped now e))) \<Longrightarrow>
     poll_run (fst (mg_put now e c)) st mid copy owed"
| removes: "poll_run c st mid copy owed \<Longrightarrow> traced c st nk [] (millis (fst now)) \<Longrightarrow>
     poll_run (mg_del now nk actor c) st mid copy owed"
| cursor: "poll_run c st None copy owed \<Longrightarrow> poll_docs st (poll_find (po_watermark st) c) = (n, T, evs) \<Longrightarrow>
     poll_run c n (Some (st, T)) copy (owed \<union> {nk. announces evs nk})"
| snapshot: "poll_run c st (Some (st0, T)) copy owed \<Longrightarrow>
     poll_run c (st\<lparr>po_known := snapshotKeys c\<rparr>) None copy (owed \<union> set (poll_lost st0 (snapshotKeys c) T))"
| snapshot_fails: "poll_run c st (Some (st0, T)) copy owed \<Longrightarrow> poll_run c st None copy owed"
| fails: "poll_run c st None copy owed \<Longrightarrow> pollOnce st found answer = (st', evs, Some er) \<Longrightarrow>
     poll_run c st' None copy (owed \<union> {nk. announces evs nk})"
| resyncs: "poll_run c st mid copy owed \<Longrightarrow> poll_run c st mid copy UNIV"
| reads: "poll_run c st mid copy owed \<Longrightarrow> poll_run c st mid (copy(nk := find_entry nk c)) (owed - {nk})"

text \<open>The two queries are the code's one function: \<open>pollOnce\<close> on what the first read of one state of the
  collection and the second of another, or on a snapshot that failed.\<close>

lemma pollOnce_two_queries:
  assumes "poll_docs st (poll_find (po_watermark st) c) = (n, T, evs)"
  shows "pollOnce st (Inr (poll_find (po_watermark st) c, None)) (Inr (snapshotKeys c'))
      = (n\<lparr>po_known := snapshotKeys c'\<rparr>, evs @ map delete_event (poll_lost st (snapshotKeys c') T), None)"
    and "pollOnce st (Inr (poll_find (po_watermark st) c, None)) (Inl er) = (n, evs, None)"
  using assms by (simp_all add: pollOnce_def)

definition poll_ok :: "collection \<Rightarrow> pollState \<Rightarrow> (nskey \<Rightarrow> row option) \<Rightarrow> nskey set \<Rightarrow> bool" where
  "poll_ok c st copy owed \<longleftrightarrow> coll_ok c
     \<and> (\<forall>nk. quiet c st nk \<longrightarrow> nk \<in> owed \<or> digest (copy nk) = digest (find_entry nk c))"

lemma write_keeps:
  assumes w: "poll_ok c st copy owed" and ok: "coll_ok (c(nk \<mapsto> d))" and t: "traced c st nk v (doc_date d)"
    and dig: "digest (find_entry nk (c(nk \<mapsto> d))) = hashValue v"
  shows "poll_ok (c(nk \<mapsto> d)) st copy owed"
proof -
  have wm: "po_watermark st \<le> doc_date d" using t by (auto simp: traced_def)
  have other: "find_entry k (c(nk \<mapsto> d)) = find_entry k c" if "k \<noteq> nk" for k
    using that by (simp add: find_entry_def)
  have "k \<in> owed \<or> digest (copy k) = digest (find_entry k (c(nk \<mapsto> d)))" if q: "quiet (c(nk \<mapsto> d)) st k" for k
  proof (cases "k = nk")
    case True
    with q wm dig have "doc_date d = po_watermark st" "po_seen st nk = Some (hashValue v)"
      by (auto simp: quiet_def)
    with t have "quiet c st nk" "digest (find_entry nk c) = hashValue v" by (auto simp: traced_def)
    with w dig True show ?thesis unfolding poll_ok_def by metis
  next
    case False
    with q have "quiet c st k" by (cases "c k") (simp_all add: quiet_def other [OF False])
    with w show ?thesis by (simp add: poll_ok_def other [OF False])
  qed
  with ok show ?thesis by (simp add: poll_ok_def)
qed

lemma doc_date_written [simp]:
  "doc_date (upserted ms e d) = millis (row_at e)" "doc_date (tombstoned now actor d) = millis (fst now)"
  by (simp_all add: doc_date_def upserted_def tombstoned_def)

lemma put_digest:
  assumes "coll_ok c"
  shows "digest (find_entry (row_nk e) (fst (mg_put now e c))) = hashValue (row_value e)"
  using mg_rows.fetch_put [OF assms, where e = e and now = now and nk = "row_nk e"] by (simp add: mg_fetch_def digest_def held_def Let_def)

lemma poll_run_ok: "poll_run c st mid copy owed \<Longrightarrow> poll_ok c st copy owed"
proof (induction rule: poll_run.induct)
  case (starts c st now n T evs)
  then show ?case by (simp add: poll_ok_def)
next
  case (writes c st mid copy owed e now)
  from writes.IH have ok: "coll_ok c" by (simp add: poll_ok_def)
  show ?case
    unfolding mg_put_eq [OF ok]
  proof (rule write_keeps [OF writes.IH])
    show "coll_ok (c(row_nk e \<mapsto> upserted (millis (snd now)) (stamped now e) (before (row_nk e) c)))"
      using mg_rows.put_ok [OF ok] unfolding mg_put_eq [OF ok] by simp
    show "traced c st (row_nk e) (row_value e) (doc_date (upserted (millis (snd now)) (stamped now e) (before (row_nk e) c)))"
      using writes.hyps by simp
    show "digest (find_entry (row_nk e) (c(row_nk e \<mapsto> upserted (millis (snd now)) (stamped now e) (before (row_nk e) c))))
        = hashValue (row_value e)"
      using put_digest [OF ok] unfolding mg_put_eq [OF ok] .
  qed
next
  case (removes c st mid copy owed nk now actor)
  from removes.IH have ok: "coll_ok c" by (simp add: poll_ok_def)
  show ?case
  proof (cases "\<exists>d. c nk = Some d \<and> notDeleted d")
    case True
    then obtain d where d: "c nk = Some d" "notDeleted d" by blast
    then have e: "mg_del now nk actor c = c(nk \<mapsto> tombstoned now actor d)" by (simp add: mg_del_eq [OF ok])
    show ?thesis
      unfolding e
    proof (rule write_keeps [OF removes.IH])
      show "coll_ok (c(nk \<mapsto> tombstoned now actor d))" using mg_rows.remove_ok [OF ok] unfolding e [symmetric] .
      show "traced c st nk [] (doc_date (tombstoned now actor d))" using removes.hyps by simp
      show "digest (find_entry nk (c(nk \<mapsto> tombstoned now actor d))) = hashValue []"
        by (simp add: digest_def held_def find_entry_def)
    qed
  next
    case False
    then have "mg_del now nk actor c = c" by (auto simp: mg_del_eq [OF ok] split: option.splits)
    with removes.IH show ?thesis by simp
  qed
next
  case (cursor c st copy owed n T evs)
  then have ok: "coll_ok c" by (simp add: poll_ok_def)
  from cursor.IH cursor_facts(2) [OF ok cursor.hyps(2)] show ?case by (auto simp: poll_ok_def)
next
  case (snapshot c st st0 T copy owed)
  then show ?case by (auto simp: poll_ok_def)
next
  case (fails c st copy owed found answer st' evs er)
  from fails.hyps have "st' = st"
    by (auto simp: pollOnce_def Let_def split: sum.splits option.splits prod.splits)
  with fails.IH show ?case by (auto simp: poll_ok_def)
next
  case (reads c st mid copy owed nk)
  then show ?case by (auto simp: poll_ok_def)
qed (auto simp: poll_ok_def)

text \<open>After a round trip over one state of the collection, everything is quiet and known.\<close>

lemma second_round_silent:
  assumes "coll_ok c" and "poll_round c st = (st', evs, er)"
  obtains st'' where "poll_round c st' = (st'', [], None)"
proof -
  obtain st'' evs' er' where r: "poll_round c st' = (st'', evs', er')" by (cases "poll_round c st'") auto
  have known: "known_ok c st'"
    using round_facts(2) [OF assms] snapshot_ok [OF assms(1)] by (auto simp: known_ok_def)
  have "\<not> announces evs' nk" for nk
    using round_quiet(1) [OF assms(1) known r] round_facts(4) [OF assms] by simp
  then have "evs' = []" using announces_nothing by blast
  with r round_facts(1) [OF assms(1) r] that show ?thesis by simp
qed

subsection \<open>The properties\<close>

text \<open>C31. A poll catches a subscriber up. In any run of writes and of the store's own deletes that leave a trace
  (stamped after the poller's watermark, or at it and not back to the digest the poller saw there), of round
  trips with other writers between their two queries, of failed queries of either kind, of resyncs and reads,
  a round trip nothing is written during succeeds; each key whose value in the collection has another digest
  (the hash the poller itself compares by) than the subscriber's copy is announced by it or was already owed a
  read; and a round trip after it, with no write between, announces nothing.\<close>

theorem poll_catches_up:
  assumes "poll_run c st None copy owed"
  shows "\<exists>st' evs. poll_round c st = (st', evs, None)
    \<and> (\<forall>nk. digest (copy nk) \<noteq> digest (find_entry nk c) \<longrightarrow> nk \<in> owed \<or> announces evs nk)
    \<and> (\<exists>st''. poll_round c st' = (st'', [], None))"
proof -
  from poll_run_ok [OF assms] have ok: "coll_ok c"
    and settled: "\<And>nk. quiet c st nk \<Longrightarrow> nk \<in> owed \<or> digest (copy nk) = digest (find_entry nk c)"
    by (simp_all add: poll_ok_def)
  obtain st' evs er where r: "poll_round c st = (st', evs, er)" by (cases "poll_round c st") auto
  obtain st'' where "poll_round c st' = (st'', [], None)" by (rule second_round_silent [OF ok r])
  with r round_facts(1,5) [OF ok r] settled show ?thesis by auto
qed

definition poll_row :: row where
  "poll_row = \<lparr>row_ns = ''ns'', row_key = ''k'', row_value = ''1'', row_rev = 0, row_at = 5000000, row_by = ''me''\<rparr>"

definition poll_start :: pollState where
  "poll_start = \<lparr>po_watermark = 3, po_known = {}, po_seen = Map.empty, po_first = False\<rparr>"

lemma empty_coll: "coll_ok Map.empty"
  by (simp add: coll_ok_def)

lemma poll_row_hash: "hashValue ''1'' \<noteq> hashValue []"
  by (simp add: hashValue_def)

lemma poll_catches_up_witness:
  "\<exists>st' evs. poll_round (fst (mg_put (9000000, 9000000) poll_row Map.empty)) poll_start = (st', evs, None)
     \<and> announces evs (row_nk poll_row)"
proof -
  let ?k = "row_nk poll_row"
  let ?copy = "Map.empty(?k := find_entry ?k Map.empty) :: nskey \<Rightarrow> row option"
  have docs: "poll_docs (newPollState 3000000) (poll_find (po_watermark (newPollState 3000000)) Map.empty)
      = (poll_start, {}, [])"
    by (simp add: poll_find_def newPollState_def millis_def poll_start_def poll_docs_def)
  have "poll_run Map.empty poll_start (Some (newPollState 3000000, {})) Map.empty UNIV"
    by (rule poll_run.starts [OF empty_coll refl docs])
  from poll_run.reads [OF poll_run.snapshot_fails [OF this], of ?k]
  have "poll_run Map.empty poll_start None ?copy (UNIV - {?k})" .
  then have "poll_run (fst (mg_put (9000000, 9000000) poll_row Map.empty)) poll_start None ?copy (UNIV - {?k})"
    by (rule poll_run.writes)
      (simp_all add: poll_row_def traced_def poll_start_def millis_def stamped_def)
  from poll_catches_up [OF this] put_digest [OF empty_coll, of poll_row "(9000000, 9000000)"] poll_row_hash
  show ?thesis by (fastforce simp: find_entry_def digest_def held_def poll_row_def)
qed

text \<open>The round trips of a stretch of time, over what the collection is at each, and all they announce.\<close>

fun poll_rounds :: "collection list \<Rightarrow> pollState \<Rightarrow> event list" where
  "poll_rounds [] st = []"
| "poll_rounds (c # cs) st = (case poll_round c st of (st', evs, er) \<Rightarrow> evs @ poll_rounds cs st')"

lemma quiet_for_ever:
  assumes "quiet c0 st nk" and "c0 nk = Some d" and "\<And>c. c \<in> set cs \<Longrightarrow> coll_ok c \<and> c nk = Some d"
    and "notDeleted d" and "Namespace nk \<noteq> []" and "Key nk \<noteq> []"
  shows "\<not> announces (poll_rounds cs st) nk"
  using assms(1-3)
proof (induction cs arbitrary: st c0)
  case Nil
  show ?case by (simp add: announces_def)
next
  case (Cons c cs)
  obtain st' evs er where r: "poll_round c st = (st', evs, er)" by (cases "poll_round c st") auto
  from Cons.prems(3) [of c] have c: "coll_ok c" "c nk = Some d" by simp_all
  have "find_entry nk c = find_entry nk c0" using c(2) Cons.prems(2) by (simp add: find_entry_def)
  with Cons.prems(1,2) c(2) have "quiet c st nk" by (simp add: quiet_def)
  from quiet_live [OF c(1) r this assms(5,6) c(2) assms(4)] have "\<not> announces evs nk" .
  moreover from Cons.IH [OF round_facts(4) [OF c(1) r] c(2)] Cons.prems(3) have "\<not> announces (poll_rounds cs st') nk" by simp
  ultimately show ?case by (auto simp: r announces_def)
qed

text \<open>C32. What the poller does not tell. A write that leaves no trace, stamped by its writer before the watermark
  another writer's stamp has already moved, or at it with the value the poller saw there before the key moved
  away and back, is what every \<open>Get\<close> answers from then on; and no later round trip announces it, however often
  the collection is polled while the document stays.\<close>

theorem untraced_write_is_lost:
  assumes "coll_ok c" and "row_ns e \<noteq> []" and "row_key e \<noteq> []"
    and "\<not> traced c st (row_nk e) (row_value e) (millis (row_at (stamped now e)))"
    and "\<forall>x \<in> set cs. coll_ok x \<and> x (row_nk e) = fst (mg_put now e c) (row_nk e)"
  shows "map_option row_value (mg_fetch (fst (mg_put now e c)) (row_nk e)) = Some (row_value e)
    \<and> \<not> announces (poll_rounds cs st) (row_nk e)"
proof -
  let ?c = "fst (mg_put now e c)" and ?d = "upserted (millis (snd now)) (stamped now e) (before (row_nk e) c)"
  have d: "?c (row_nk e) = Some ?d" by (simp add: mg_put_eq [OF assms(1)])
  have "quiet ?c st (row_nk e)"
    using assms(4) put_digest [OF assms(1), of e now] by (auto simp: quiet_def d traced_def)
  from quiet_for_ever [OF this d, of cs] assms(2,3,5) d
  have "\<not> announces (poll_rounds cs st) (row_nk e)" by (auto simp: row_nk_def)
  with mg_rows.fetch_put [OF assms(1), where e = e and now = now and nk = "row_nk e"]
  show ?thesis by (simp add: Let_def)
qed

definition late_row :: row where
  "late_row = poll_row\<lparr>row_at := 1000000\<rparr>"

lemma untraced_write_is_lost_witness:
  "(let c = fst (mg_put (9000000, 9000000) late_row Map.empty) in
     map_option row_value (mg_fetch c (row_nk late_row)) = Some ''1''
     \<and> \<not> announces (poll_rounds [c, c] poll_start) (row_nk late_row))"
proof -
  let ?c = "fst (mg_put (9000000, 9000000) late_row Map.empty)"
  have "coll_ok ?c" by (rule mg_rows.put_ok [OF empty_coll]) simp
  with untraced_write_is_lost [OF empty_coll, of late_row poll_start "(9000000, 9000000)" "[?c, ?c]"]
  show ?thesis
    by (simp add: late_row_def poll_row_def traced_def poll_start_def millis_def stamped_def)
qed

end
