(* ===== verification/Mongo_Feed.thy ===== *)
theory Mongo_Feed
  imports Mongo_Docs Pg_Feed
begin

text \<open>
  One MongoDB changefeed and its subscribers (\<^verbatim>\<open>internal/mongodb/mongodb_changestream.go\<close>,
  \<^verbatim>\<open>mongodb_events.go\<close>). The feed is the record of \<open>Pg_Feed\<close>, whose reader the change stream's is a twin of;
  the polling reader is not. A round trip's events and whether it fails are choices of the environment here,
  and what they are is the subject of \<open>Mongo_Poll\<close>.
\<close>

subsection \<open>Edges\<close>

definition markConnectedLocked :: "feed \<Rightarrow> feed" where
  "markConnectedLocked f = f\<lparr>fd_connected := True, fd_disconnected := False\<rparr>"

definition mg_beginDisconnect :: "feed \<Rightarrow> feed \<times> bool" where
  "mg_beginDisconnect f =
     (if fd_closing f \<or> fd_disconnected f then (f, False)
      else (f\<lparr>fd_connected := False, fd_disconnected := True\<rparr>, True))"

definition mg_beginResync :: "feed \<Rightarrow> feed \<times> bool" where
  "mg_beginResync f = (if fd_closing f then (f, False) else (markConnectedLocked f, True))"

text \<open>The polling loop's own edge: a recovery is announced only out of an outage.\<close>

definition beginResyncAfterOutage :: "feed \<Rightarrow> feed \<times> bool" where
  "beginResyncAfterOutage f =
     (if fd_closing f \<or> \<not> fd_disconnected f then (f, False) else (markConnectedLocked f, True))"

definition mg_joiningOpLocked :: "feed \<Rightarrow> string" where
  "mg_joiningOpLocked f =
     (if fd_connected f then OpResync else if fd_disconnected f then OpDisconnect else [])"

text \<open>The one hold of \<open>Subscribe\<close> on the feed, a subscription's teardown, and the signal of the feed's own.\<close>

definition mg_join :: "feed \<Rightarrow> feed \<times> nat \<times> string" where
  "mg_join f =
     (let f' = f\<lparr>fd_nextID := fd_nextID f + 1\<rparr>; i = fd_nextID f'; f'' = f'\<lparr>fd_subs := fd_subs f' @ [i]\<rparr>
      in (f'', i, mg_joiningOpLocked f''))"

definition mg_leave :: "nat \<Rightarrow> feed \<Rightarrow> feed" where
  "mg_leave i f = f\<lparr>fd_subs := filter (\<lambda>j. j \<noteq> i) (fd_subs f)\<rparr>"

definition mg_signalFeed :: "bool \<Rightarrow> feed \<Rightarrow> feed \<times> teardown_wait" where
  "mg_signalFeed skipSelfWait f =
     (if fd_closing f then (f, Nothing_To_Wait)
      else let self = skipSelfWait \<and> 0 < fd_dispatching f in
        (f\<lparr>fd_closing := True\<rparr>,
         if self then Self_Teardown else if fd_reader f then Wait_Reader else Nothing_To_Wait))"

subsection \<open>Readers\<close>

text \<open>
  Where the reader goroutine goes next: not launched; at the top of \<open>runFeed\<close>; draining a cursor; past a lost
  one; reopening; at the top of \<open>pollForever\<close>; waiting for a tick; handing out what is left of a round trip,
  with whether it fails and whether the emitter has run; returned. It is there, or on its way from a fan-out.
\<close>

datatype place =
    M_Idle
  | M_Top
  | M_Consuming
  | M_Cleaning
  | M_Reopening
  | M_PollTop
  | M_PollWait
  | M_Emitting "event list" bool bool
  | M_Returned

datatype mpc = At_Place place | Fan event "nat list" place

record mg_feed_world =
  mf_feed :: feed
  mf_pc :: mpc
  mf_joining :: "nat \<Rightarrow> string option"
  mf_log :: "(nat \<times> event) list"

definition new_mg_feed_world :: "scope \<Rightarrow> mg_feed_world" where
  "new_mg_feed_world sco =
     \<lparr>mf_feed = newFeed sco, mf_pc = At_Place M_Idle, mf_joining = Map.empty, mf_log = []\<rparr>"

text \<open>Taking the snapshot a marker or an event is fanned out to, and what is done after it.\<close>

definition fan :: "feed \<Rightarrow> event \<Rightarrow> nat list \<Rightarrow> place \<Rightarrow> mg_feed_world \<Rightarrow> mg_feed_world" where
  "fan f ev order p w = w\<lparr>mf_feed := beginDispatch f, mf_pc := Fan ev order p\<rparr>"

definition go :: "place \<Rightarrow> mg_feed_world \<Rightarrow> mg_feed_world" where
  "go p w = w\<lparr>mf_pc := At_Place p\<rparr>"

text \<open>Callers of the store, and the deliveries of either reader.\<close>

inductive mg_shared_step :: "mg_feed_world \<Rightarrow> mg_feed_world \<Rightarrow> bool" where
  joins: "mg_join (mf_feed w) = (f, i, op) \<Longrightarrow>
     mg_shared_step w (w\<lparr>mf_feed := f, mf_joining := (mf_joining w)(i := if op = [] then None else Some op)\<rparr>)"
| told: "mf_joining w i = Some op \<Longrightarrow>
     mg_shared_step w (w\<lparr>mf_joining := (mf_joining w)(i := None),
       mf_log := mf_log w @ [(i, marker (mf_feed w) op)]\<rparr>)"
| leaves: "mg_shared_step w (w\<lparr>mf_feed := mg_leave i (mf_feed w)\<rparr>)"
| signals: "mg_signalFeed skip (mf_feed w) = (f, r) \<Longrightarrow> mg_shared_step w (w\<lparr>mf_feed := f\<rparr>)"
| delivers: "mf_pc w = Fan ev (i # is) p \<Longrightarrow> mf_joining w i = None \<Longrightarrow>
     mg_shared_step w (w\<lparr>mf_pc := Fan ev is p, mf_log := mf_log w @ [(i, ev)]\<rparr>)"
| fanned: "mf_pc w = Fan ev [] p \<Longrightarrow>
     mg_shared_step w (w\<lparr>mf_feed := endDispatch (mf_feed w), mf_pc := At_Place p\<rparr>)"

text \<open>\<open>runFeed\<close>: announce, drain the cursor, announce its loss, close it, and reopen or return.\<close>

inductive stream_step :: "mg_feed_world \<Rightarrow> mg_feed_world \<Rightarrow> bool" where
  launches: "mf_pc w = At_Place M_Idle \<Longrightarrow>
     stream_step w (w\<lparr>mf_feed := (mf_feed w)\<lparr>fd_reader := True\<rparr>, mf_pc := At_Place M_Top\<rparr>)"
| resyncs: "mf_pc w = At_Place M_Top \<Longrightarrow> mg_beginResync (mf_feed w) = (f, True) \<Longrightarrow> snapshotLocked f order \<Longrightarrow>
     stream_step w (fan f (marker f OpResync) order M_Consuming w)"
| resync_refused: "mf_pc w = At_Place M_Top \<Longrightarrow> mg_beginResync (mf_feed w) = (f, False) \<Longrightarrow>
     stream_step w (go M_Consuming w)"
| changed: "mf_pc w = At_Place M_Consuming \<Longrightarrow> eventFromChange ce = Some ev \<Longrightarrow> snapshotLocked (mf_feed w) order \<Longrightarrow>
     stream_step w (fan (mf_feed w) (stamp_scope (mf_feed w) ev) order M_Consuming w)"
| skipped: "mf_pc w = At_Place M_Consuming \<Longrightarrow> stream_step w w"
| loses: "mf_pc w = At_Place M_Consuming \<Longrightarrow> mg_beginDisconnect (mf_feed w) = (f, True) \<Longrightarrow> snapshotLocked f order \<Longrightarrow>
     stream_step w (fan f (marker f OpDisconnect) order M_Cleaning w)"
| lost_quietly: "mf_pc w = At_Place M_Consuming \<Longrightarrow> mg_beginDisconnect (mf_feed w) = (f, False) \<Longrightarrow>
     stream_step w (go M_Cleaning w)"
| cleaned: "mf_pc w = At_Place M_Cleaning \<Longrightarrow>
     stream_step w (go (if fd_closing (mf_feed w) then M_Returned else M_Reopening) w)"
| reopened: "mf_pc w = At_Place M_Reopening \<Longrightarrow> stream_step w (go M_Top w)"
| gives_up: "mf_pc w = At_Place M_Reopening \<Longrightarrow> stream_step w (go M_Returned w)"

text \<open>
  \<open>pollForever\<close>: announce once, then at every tick a round trip, whose events go through an emitter that
  announces a recovery before the first; what it ends with is announced after the last.
\<close>

definition key_event :: "event \<Rightarrow> bool" where
  "key_event ev \<longleftrightarrow> ev_op ev = OpUpsert \<or> ev_op ev = OpDelete"

inductive poll_step :: "mg_feed_world \<Rightarrow> mg_feed_world \<Rightarrow> bool" where
  launches: "mf_pc w = At_Place M_Idle \<Longrightarrow>
     poll_step w (w\<lparr>mf_feed := (mf_feed w)\<lparr>fd_reader := True\<rparr>, mf_pc := At_Place M_PollTop\<rparr>)"
| resyncs: "mf_pc w = At_Place M_PollTop \<Longrightarrow> mg_beginResync (mf_feed w) = (f, True) \<Longrightarrow> snapshotLocked f order \<Longrightarrow>
     poll_step w (fan f (marker f OpResync) order M_PollWait w)"
| resync_refused: "mf_pc w = At_Place M_PollTop \<Longrightarrow> mg_beginResync (mf_feed w) = (f, False) \<Longrightarrow>
     poll_step w (go M_PollWait w)"
| ticks: "mf_pc w = At_Place M_PollWait \<Longrightarrow> \<forall>ev \<in> set evs. key_event ev \<Longrightarrow>
     poll_step w (go (M_Emitting evs failed False) w)"
| stopped: "mf_pc w = At_Place M_PollWait \<Longrightarrow> fd_closing (mf_feed w) \<Longrightarrow> poll_step w (go M_Returned w)"
| recovers: "mf_pc w = At_Place (M_Emitting (ev # evs) failed False) \<Longrightarrow>
     beginResyncAfterOutage (mf_feed w) = (f, True) \<Longrightarrow> snapshotLocked f order \<Longrightarrow>
     poll_step w (fan f (marker f OpResync) order (M_Emitting (ev # evs) failed True) w)"
| no_recovery: "mf_pc w = At_Place (M_Emitting (ev # evs) failed False) \<Longrightarrow>
     beginResyncAfterOutage (mf_feed w) = (f, False) \<Longrightarrow>
     poll_step w (go (M_Emitting (ev # evs) failed True) w)"
| emits: "mf_pc w = At_Place (M_Emitting (ev # evs) failed True) \<Longrightarrow> snapshotLocked (mf_feed w) order \<Longrightarrow>
     poll_step w (fan (mf_feed w) (stamp_scope (mf_feed w) ev) order (M_Emitting evs failed True) w)"
| round_fails: "mf_pc w = At_Place (M_Emitting [] True told) \<Longrightarrow> mg_beginDisconnect (mf_feed w) = (f, True) \<Longrightarrow>
     snapshotLocked f order \<Longrightarrow> poll_step w (fan f (marker f OpDisconnect) order M_PollWait w)"
| fails_again: "mf_pc w = At_Place (M_Emitting [] True told) \<Longrightarrow> mg_beginDisconnect (mf_feed w) = (f, False) \<Longrightarrow>
     poll_step w (go M_PollWait w)"
| round_done: "mf_pc w = At_Place (M_Emitting [] False told) \<Longrightarrow>
     beginResyncAfterOutage (mf_feed w) = (f, True) \<Longrightarrow> snapshotLocked f order \<Longrightarrow>
     poll_step w (fan f (marker f OpResync) order M_PollWait w)"
| quiet_round: "mf_pc w = At_Place (M_Emitting [] False told) \<Longrightarrow> beginResyncAfterOutage (mf_feed w) = (f, False) \<Longrightarrow>
     poll_step w (go M_PollWait w)"

text \<open>A feed is a change stream's or a poller's for life.\<close>

definition mg_feed_step :: "bool \<Rightarrow> mg_feed_world \<Rightarrow> mg_feed_world \<Rightarrow> bool" where
  "mg_feed_step polling w w' \<longleftrightarrow> mg_shared_step w w' \<or> (if polling then poll_step w w' else stream_step w w')"

definition mg_feed_runs :: "bool \<Rightarrow> scope \<Rightarrow> mg_feed_world \<Rightarrow> bool" where
  "mg_feed_runs polling sco w \<longleftrightarrow> (mg_feed_step polling)\<^sup>*\<^sup>* (new_mg_feed_world sco) w"

subsection \<open>The backoff\<close>

text \<open>\<open>grow\<close> and \<open>jitter\<close> are lib-commons' exponential backoff and its draw below a ceiling.\<close>

definition reconnectBaseDelay :: int where "reconnectBaseDelay = 500000000"
definition reconnectMaxDelay :: int where "reconnectMaxDelay = 30000000000"

definition reconnectDelay :: "(int \<Rightarrow> nat \<Rightarrow> int) \<Rightarrow> (int \<Rightarrow> int) \<Rightarrow> nat \<Rightarrow> int" where
  "reconnectDelay grow jitter attempt = jitter (min (grow reconnectBaseDelay attempt) reconnectMaxDelay)"

definition streamWasUseful :: "bool \<Rightarrow> int \<Rightarrow> bool" where
  "streamWasUseful consumed lifetime \<longleftrightarrow> consumed \<or> reconnectMaxDelay \<le> lifetime"

end
