(* ===== verification/Mongo_Feed_Theorems.thy ===== *)
theory Mongo_Feed_Theorems
  imports Mongo_Feed Pg_Feed_Theorems
begin

text \<open>
  Both MongoDB readers, while no teardown has begun, narrate as the Postgres reader does: each of their steps
  is none or some of its steps, up to which key an event names. What subscribers hear of a Postgres feed they
  hear of these.
\<close>

subsection \<open>The two files share their text\<close>

lemma mg_edges [simp]:
  "mg_beginDisconnect = beginDisconnect" "mg_beginResync = beginResync" "mg_joiningOpLocked = joiningOpLocked"
  "mg_join = join_feed" "mg_leave = leave_feed"
  by (auto simp: fun_eq_iff mg_beginDisconnect_def beginDisconnect_def mg_beginResync_def beginResync_def
      markConnectedLocked_def mg_joiningOpLocked_def joiningOpLocked_def mg_join_def join_feed_def mg_leave_def
      leave_feed_def Let_def)

lemma mg_signal [simp]: "mg_signalFeed = signalFeed"
  by (auto simp: fun_eq_iff mg_signalFeed_def signalFeed_def Let_def)

subsection \<open>Simulation\<close>

definition place_pc :: "feed \<Rightarrow> place \<Rightarrow> pc" where
  "place_pc f p =
     (case p of
        M_Idle \<Rightarrow> Idle | M_Top \<Rightarrow> Top | M_PollTop \<Rightarrow> Top | M_Consuming \<Rightarrow> Consuming | M_Cleaning \<Rightarrow> Cleaning
      | M_Reopening \<Rightarrow> Reconnecting | M_Returned \<Rightarrow> Returned
      | M_PollWait \<Rightarrow> if fd_disconnected f then Cleaning else Consuming
      | M_Emitting evs failed told \<Rightarrow> if fd_disconnected f \<and> \<not> told then Cleaning else Consuming)"

definition place_ok :: "feed \<Rightarrow> place \<Rightarrow> bool" where
  "place_ok f p \<longleftrightarrow> (case p of
      M_Emitting evs failed told \<Rightarrow> (told \<longrightarrow> \<not> fd_disconnected f) \<and> (\<forall>ev \<in> set evs. key_event ev) | _ \<Rightarrow> True)"

definition pc_rel :: "feed \<Rightarrow> mpc \<Rightarrow> pc \<Rightarrow> bool" where
  "pc_rel f m p \<longleftrightarrow>
     (case m of
        At_Place q \<Rightarrow> p = place_pc f q \<and> place_ok f q
      | Fan ev is q \<Rightarrow> place_ok f q
          \<and> (\<exists>ev'. p = Fanning ev' is \<and> ev_op ev' = ev_op ev \<and> after_fan ev' = place_pc f q))"

definition log_ops :: "(nat \<times> event) list \<Rightarrow> (nat \<times> string) list" where
  "log_ops l = map (\<lambda>(i, ev). (i, ev_op ev)) l"

definition twins :: "mg_feed_world \<Rightarrow> feed_world \<Rightarrow> bool" where
  "twins w v \<longleftrightarrow> fw_feed v = mf_feed w \<and> fw_joining v = mf_joining w \<and> log_ops (fw_log v) = log_ops (mf_log w)
     \<and> pc_rel (mf_feed w) (mf_pc w) (fw_pc v)"

lemma log_ops_append [simp]: "log_ops (l @ l') = log_ops l @ log_ops l'"
  by (simp add: log_ops_def)

lemma pc_rel_same:
  "pc_rel f m p \<Longrightarrow> fd_disconnected f' = fd_disconnected f \<Longrightarrow> pc_rel f' m p"
  by (auto simp: pc_rel_def place_pc_def place_ok_def split: mpc.splits place.splits)

lemma disconnected_same [simp]:
  "fd_disconnected (beginDispatch f) = fd_disconnected f" "fd_disconnected (endDispatch f) = fd_disconnected f"
  "fd_disconnected (leave_feed i f) = fd_disconnected f"
  "join_feed f = (f', i, op) \<Longrightarrow> fd_disconnected f' = fd_disconnected f"
  by (auto simp: beginDispatch_def endDispatch_def leave_feed_def join_feed_def Let_def)

lemma shared_simulated:
  assumes "mg_shared_step w w'" and "twins w v" and "\<not> fd_closing (mf_feed w')"
  shows "\<exists>v'. feed_step\<^sup>*\<^sup>* v v' \<and> twins w' v'"
  using assms
proof (induction rule: mg_shared_step.induct)
  case (joins w f i op)
  then have "feed_step v (v\<lparr>fw_feed := f, fw_joining := (fw_joining v)(i := if op = [] then None else Some op)\<rparr>)"
    by (intro feed_step.joins) (simp add: twins_def)
  moreover have "twins (w\<lparr>mf_feed := f, mf_joining := (mf_joining w)(i := if op = [] then None else Some op)\<rparr>)
      (v\<lparr>fw_feed := f, fw_joining := (fw_joining v)(i := if op = [] then None else Some op)\<rparr>)"
    using joins by (auto simp: twins_def intro: pc_rel_same)
  ultimately show ?case by blast
next
  case (told w i op)
  then have "feed_step v (v\<lparr>fw_joining := (fw_joining v)(i := None), fw_log := fw_log v @ [(i, marker (fw_feed v) op)]\<rparr>)"
    by (intro feed_step.told) (simp add: twins_def)
  moreover have "twins (w\<lparr>mf_joining := (mf_joining w)(i := None), mf_log := mf_log w @ [(i, marker (mf_feed w) op)]\<rparr>)
      (v\<lparr>fw_joining := (fw_joining v)(i := None), fw_log := fw_log v @ [(i, marker (fw_feed v) op)]\<rparr>)"
    using told by (auto simp: twins_def)
  ultimately show ?case by blast
next
  case (leaves w i)
  then have "twins (w\<lparr>mf_feed := mg_leave i (mf_feed w)\<rparr>) (v\<lparr>fw_feed := leave_feed i (fw_feed v)\<rparr>)"
    by (auto simp: twins_def intro: pc_rel_same)
  with feed_step.leaves show ?case by blast
next
  case (signals skip w f r)
  then have "f = mf_feed w" by (auto simp: signalFeed_def split: if_splits)
  with signals show ?case by (intro exI [of _ v]) simp
next
  case (delivers w ev i "is" p)
  then obtain ev' where ev': "fw_pc v = Fanning ev' (i # is)" "ev_op ev' = ev_op ev" "after_fan ev' = place_pc (mf_feed w) p"
    "place_ok (mf_feed w) p" by (auto simp: twins_def pc_rel_def)
  then have "feed_step v (v\<lparr>fw_pc := Fanning ev' is, fw_log := fw_log v @ [(i, ev')]\<rparr>)"
    using delivers by (intro feed_step.delivers) (simp_all add: twins_def)
  moreover have "twins (w\<lparr>mf_pc := Fan ev is p, mf_log := mf_log w @ [(i, ev)]\<rparr>)
      (v\<lparr>fw_pc := Fanning ev' is, fw_log := fw_log v @ [(i, ev')]\<rparr>)"
    using delivers ev' by (auto simp: twins_def pc_rel_def log_ops_def)
  ultimately show ?case by blast
next
  case (fanned w ev p)
  then obtain ev' where ev': "fw_pc v = Fanning ev' []" "after_fan ev' = place_pc (mf_feed w) p" "place_ok (mf_feed w) p"
    by (auto simp: twins_def pc_rel_def)
  from feed_step.fanned [OF ev'(1)]
  have "feed_step v (v\<lparr>fw_feed := endDispatch (fw_feed v), fw_pc := place_pc (mf_feed w) p\<rparr>)" by (simp add: ev'(2))
  moreover have "twins (w\<lparr>mf_feed := endDispatch (mf_feed w), mf_pc := At_Place p\<rparr>)
      (v\<lparr>fw_feed := endDispatch (fw_feed v), fw_pc := place_pc (mf_feed w) p\<rparr>)"
    using fanned ev' pc_rel_same [of "mf_feed w" "At_Place p" "place_pc (mf_feed w) p" "endDispatch (mf_feed w)"]
    by (simp add: twins_def pc_rel_def)
  ultimately show ?case by blast
qed

text \<open>A fan-out both sides begin, of events with one operation.\<close>

lemma fans_simulated:
  assumes "twins w v" and "ev_op ev' = ev_op ev" and "after_fan ev' = place_pc f p" and "place_ok f p"
  shows "twins (fan f ev order p w) (v\<lparr>fw_feed := beginDispatch f, fw_pc := Fanning ev' order\<rparr>)"
proof -
  have "pc_rel f (Fan ev order p) (Fanning ev' order)" using assms(2-4) by (simp add: pc_rel_def)
  from pc_rel_same [OF this, of "beginDispatch f"] assms(1) show ?thesis by (simp add: twins_def fan_def)
qed

lemma goes_simulated:
  assumes "twins w v" and "place_ok (mf_feed w) p"
  shows "twins (go p w) (v\<lparr>fw_pc := place_pc (mf_feed w) p\<rparr>)"
  using assms by (simp add: twins_def go_def pc_rel_def)

lemma a_payload:
  assumes "key_event ev"
  obtains p ev' where "parseNotifyPayload p = Some ev'" and "ev_op ev' = ev_op ev"
  using assms that [of "Some \<lparr>np_namespace = ''n'', np_key = ''k'', np_op = ev_op ev, np_rev = ev_rev ev\<rparr>"]
  by (auto simp: parseNotifyPayload_def key_event_def)

lemma event_simulated:
  assumes "twins w v" and "fw_pc v = Consuming" and "key_event ev" and "snapshotLocked (mf_feed w) order"
    and "place_pc (mf_feed w) p = Consuming" and "place_ok (mf_feed w) p"
  shows "\<exists>v'. feed_step v v' \<and> twins (fan (mf_feed w) (stamp_scope (mf_feed w) ev) order p w) v'"
proof -
  from assms(3) obtain q ev' where q: "parseNotifyPayload q = Some ev'" "ev_op ev' = ev_op ev" by (rule a_payload)
  have f: "fw_feed v = mf_feed w" using assms(1) by (simp add: twins_def)
  have n: "ev_op ev \<noteq> OpDisconnect" using assms(3) ops_distinct(4,6) by (auto simp: key_event_def op_defs)
  from feed_step.notified [OF assms(2) q(1)] assms(4)
  have "feed_step v (v\<lparr>fw_feed := beginDispatch (mf_feed w), fw_pc := Fanning (stamp_scope (mf_feed w) ev') order\<rparr>)"
    by (simp add: f)
  moreover have "twins (fan (mf_feed w) (stamp_scope (mf_feed w) ev) order p w)
      (v\<lparr>fw_feed := beginDispatch (mf_feed w), fw_pc := Fanning (stamp_scope (mf_feed w) ev') order\<rparr>)"
    by (rule fans_simulated [OF assms(1) _ _ assms(6)]) (simp_all add: stamp_scope_def q(2) after_fan_def n assms(5))
  ultimately show ?thesis by blast
qed

lemma after_marker [simp]:
  "after_fan (marker f OpResync) = Consuming" "after_fan (marker f OpDisconnect) = Cleaning"
  by (simp_all add: after_fan_def marker_def)

lemma resync_simulated:
  assumes "twins w v" and "fw_pc v = Top" and "beginResync (mf_feed w) = (f, True)" and "snapshotLocked f order"
    and "place_pc f p = Consuming" and "place_ok f p"
  shows "\<exists>v'. feed_step v v' \<and> twins (fan f (marker f OpResync) order p w) v'"
proof -
  have "feed_step v (v\<lparr>fw_feed := beginDispatch f, fw_pc := Fanning (marker f OpResync) order\<rparr>)"
    using assms(1-4) by (intro feed_step.resyncs) (simp_all add: twins_def)
  moreover have "twins (fan f (marker f OpResync) order p w)
      (v\<lparr>fw_feed := beginDispatch f, fw_pc := Fanning (marker f OpResync) order\<rparr>)"
    by (rule fans_simulated [OF assms(1)]) (simp_all add: assms(5,6))
  ultimately show ?thesis by blast
qed

lemma loss_simulated:
  assumes "twins w v" and "fw_pc v = Consuming" and "beginDisconnect (mf_feed w) = (f, True)" and "snapshotLocked f order"
    and "place_pc f p = Cleaning" and "place_ok f p"
  shows "\<exists>v'. feed_step v v' \<and> twins (fan f (marker f OpDisconnect) order p w) v'"
proof -
  have "feed_step v (v\<lparr>fw_feed := beginDispatch f, fw_pc := Fanning (marker f OpDisconnect) order\<rparr>)"
    using assms(1-4) by (intro feed_step.loses) (simp_all add: twins_def)
  moreover have "twins (fan f (marker f OpDisconnect) order p w)
      (v\<lparr>fw_feed := beginDispatch f, fw_pc := Fanning (marker f OpDisconnect) order\<rparr>)"
    by (rule fans_simulated [OF assms(1)]) (simp_all add: assms(5,6))
  ultimately show ?thesis by blast
qed

lemma at_place:
  assumes "twins w v" and "mf_pc w = At_Place p"
  shows "fw_pc v = place_pc (mf_feed w) p" and "place_ok (mf_feed w) p" and "fw_feed v = mf_feed w"
  using assms by (auto simp: twins_def pc_rel_def)

lemma change_is_key_event: "eventFromChange ce = Some ev \<Longrightarrow> key_event ev"
  by (auto simp: eventFromChange_def key_event_def Let_def split: if_splits prod.splits)

lemma stream_simulated:
  assumes "stream_step w w'" and "twins w v" and "\<not> fd_closing (mf_feed w')"
  shows "\<exists>v'. feed_step\<^sup>*\<^sup>* v v' \<and> twins w' v'"
  using assms
proof (induction rule: stream_step.induct)
  case (launches w)
  note a = at_place [OF launches(2,1)]
  have "feed_step v (v\<lparr>fw_feed := (fw_feed v)\<lparr>fd_reader := True\<rparr>, fw_pc := Top\<rparr>)"
    using a by (intro feed_step.launches) (simp add: place_pc_def)
  moreover have "twins (w\<lparr>mf_feed := (mf_feed w)\<lparr>fd_reader := True\<rparr>, mf_pc := At_Place M_Top\<rparr>)
      (v\<lparr>fw_feed := (fw_feed v)\<lparr>fd_reader := True\<rparr>, fw_pc := Top\<rparr>)"
    using launches(2) by (simp add: twins_def pc_rel_def place_pc_def place_ok_def)
  ultimately show ?case by blast
next
  case (resyncs w f order)
  note a = at_place [OF resyncs(4,1)]
  from resync_simulated [OF resyncs(4) _ _ resyncs(3), of M_Consuming] a resyncs(2) show ?case
    by (auto simp: place_pc_def place_ok_def)
next
  case (resync_refused w f)
  then show ?case by (auto simp: go_def beginResync_def split: if_splits)
next
  case (changed w ce ev order)
  note a = at_place [OF changed(4,1)]
  from event_simulated [OF changed(4) _ change_is_key_event [OF changed(2)] changed(3), of M_Consuming] a
  show ?case by (auto simp: place_pc_def place_ok_def)
next
  case (skipped w)
  then show ?case by blast
next
  case (loses w f order)
  note a = at_place [OF loses(4,1)]
  from loss_simulated [OF loses(4) _ _ loses(3), of M_Cleaning] a loses(2) show ?case
    by (auto simp: place_pc_def place_ok_def)
next
  case (lost_quietly w f)
  note a = at_place [OF lost_quietly(3,1)]
  have "feed_step v (v\<lparr>fw_pc := place_pc (mf_feed w) M_Cleaning\<rparr>)"
    using a lost_quietly(2) feed_step.lost_quietly [of v f] by (simp add: place_pc_def)
  with goes_simulated [OF lost_quietly(3), of M_Cleaning] show ?case by (auto simp: place_ok_def)
next
  case (cleaned w)
  note a = at_place [OF cleaned(2,1)]
  let ?p = "if fd_closing (mf_feed w) then M_Returned else M_Reopening"
  have "feed_step v (v\<lparr>fw_pc := place_pc (mf_feed w) ?p\<rparr>)"
    using a feed_step.cleaned [of v] by (cases "fd_closing (mf_feed w)") (simp_all add: place_pc_def)
  with goes_simulated [OF cleaned(2), of ?p] show ?case by (auto simp: place_ok_def)
next
  case (reopened w)
  note a = at_place [OF reopened(2,1)]
  have "feed_step v (v\<lparr>fw_pc := place_pc (mf_feed w) M_Top\<rparr>)"
    using a feed_step.reconnected [of v] by (simp add: place_pc_def)
  with goes_simulated [OF reopened(2), of M_Top] show ?case by (auto simp: place_ok_def)
next
  case (gives_up w)
  note a = at_place [OF gives_up(2,1)]
  have "feed_step v (v\<lparr>fw_pc := place_pc (mf_feed w) M_Returned\<rparr>)"
    using a feed_step.gives_up [of v] by (simp add: place_pc_def)
  with goes_simulated [OF gives_up(2), of M_Returned] show ?case by (auto simp: place_ok_def)
qed

text \<open>A poller in an outage is where the other reader cleans up; recovering, it takes the way through a reconnect.\<close>

lemma back_to_top:
  assumes "fw_pc v = Cleaning" and "\<not> fd_closing (fw_feed v)"
  shows "feed_step\<^sup>*\<^sup>* v (v\<lparr>fw_pc := Top\<rparr>)"
proof -
  have "feed_step v (v\<lparr>fw_pc := Reconnecting\<rparr>)" using feed_step.cleaned [OF assms(1)] assms(2) by simp
  moreover have "feed_step (v\<lparr>fw_pc := Reconnecting\<rparr>) (v\<lparr>fw_pc := Top\<rparr>)"
    using feed_step.reconnected [of "v\<lparr>fw_pc := Reconnecting\<rparr>"] by simp
  ultimately show ?thesis by (meson converse_rtranclp_into_rtranclp rtranclp.rtrancl_refl)
qed

lemma recovery_simulated:
  assumes t: "twins w v" and pc: "fw_pc v = (if fd_disconnected (mf_feed w) then Cleaning else Consuming)"
    and r: "beginResyncAfterOutage (mf_feed w) = (f, True)" and s: "snapshotLocked f order"
    and p: "place_pc f p = Consuming" "place_ok f p"
  shows "\<exists>v'. feed_step\<^sup>*\<^sup>* v v' \<and> twins (fan f (marker f OpResync) order p w) v'"
proof -
  from r have c: "\<not> fd_closing (mf_feed w)" and d: "fd_disconnected (mf_feed w)" and b: "beginResync (mf_feed w) = (f, True)"
    by (auto simp: beginResyncAfterOutage_def beginResync_def markConnectedLocked_def split: if_splits)
  from t c have "\<not> fd_closing (fw_feed v)" by (simp add: twins_def)
  with pc d back_to_top have up: "feed_step\<^sup>*\<^sup>* v (v\<lparr>fw_pc := Top\<rparr>)" by simp
  have f: "fw_feed v = mf_feed w" using t by (simp add: twins_def)
  have "feed_step (v\<lparr>fw_pc := Top\<rparr>) (v\<lparr>fw_feed := beginDispatch f, fw_pc := Fanning (marker f OpResync) order\<rparr>)"
    using feed_step.resyncs [of "v\<lparr>fw_pc := Top\<rparr>" f order] b s f by simp
  with up have "feed_step\<^sup>*\<^sup>* v (v\<lparr>fw_feed := beginDispatch f, fw_pc := Fanning (marker f OpResync) order\<rparr>)" by simp
  moreover have "twins (fan f (marker f OpResync) order p w)
      (v\<lparr>fw_feed := beginDispatch f, fw_pc := Fanning (marker f OpResync) order\<rparr>)"
    by (rule fans_simulated [OF t]) (simp_all add: p)
  ultimately show ?thesis by blast
qed

lemma stays_simulated:
  assumes "twins w v" and "fw_pc v = place_pc (mf_feed w) p" and "place_ok (mf_feed w) p"
  shows "\<exists>v'. feed_step\<^sup>*\<^sup>* v v' \<and> twins (go p w) v'"
proof -
  have "twins (go p w) v" using assms by (simp add: twins_def go_def pc_rel_def)
  then show ?thesis by blast
qed

lemma poll_simulated:
  assumes "poll_step w w'" and "twins w v" and "\<not> fd_closing (mf_feed w')"
  shows "\<exists>v'. feed_step\<^sup>*\<^sup>* v v' \<and> twins w' v'"
  using assms
proof (induction rule: poll_step.induct)
  case (launches w)
  note a = at_place [OF launches(2,1)]
  have "feed_step v (v\<lparr>fw_feed := (fw_feed v)\<lparr>fd_reader := True\<rparr>, fw_pc := Top\<rparr>)"
    using a by (intro feed_step.launches) (simp add: place_pc_def)
  moreover have "twins (w\<lparr>mf_feed := (mf_feed w)\<lparr>fd_reader := True\<rparr>, mf_pc := At_Place M_PollTop\<rparr>)
      (v\<lparr>fw_feed := (fw_feed v)\<lparr>fd_reader := True\<rparr>, fw_pc := Top\<rparr>)"
    using launches(2) by (simp add: twins_def pc_rel_def place_pc_def place_ok_def)
  ultimately show ?case by blast
next
  case (resyncs w f order)
  note a = at_place [OF resyncs(4,1)]
  from resyncs(2) have "\<not> fd_disconnected f" by (auto simp: beginResync_def split: if_splits)
  with resync_simulated [OF resyncs(4) _ _ resyncs(3), of M_PollWait] a resyncs(2) show ?case
    by (auto simp: place_pc_def place_ok_def)
next
  case (resync_refused w f)
  then show ?case by (auto simp: go_def beginResync_def split: if_splits)
next
  case (ticks w evs failed)
  note a = at_place [OF ticks(3,1)]
  from stays_simulated [OF ticks(3), of "M_Emitting evs failed False"] a ticks(2) show ?case
    by (simp add: place_pc_def place_ok_def)
next
  case (stopped w)
  then show ?case by (simp add: go_def)
next
  case (recovers w ev evs failed f order)
  note a = at_place [OF recovers(4,1)]
  from recovers(2) have "\<not> fd_disconnected f"
    by (auto simp: beginResyncAfterOutage_def markConnectedLocked_def split: if_splits)
  with recovery_simulated [OF recovers(4) _ recovers(2,3), of "M_Emitting (ev # evs) failed True"] a show ?case
    by (simp add: place_pc_def place_ok_def)
next
  case (no_recovery w ev evs failed f)
  note a = at_place [OF no_recovery(3,1)]
  from no_recovery(2,4) have "\<not> fd_disconnected (mf_feed w)"
    by (auto simp: beginResyncAfterOutage_def go_def split: if_splits)
  with stays_simulated [OF no_recovery(3), of "M_Emitting (ev # evs) failed True"] a show ?case
    by (simp add: place_pc_def place_ok_def)
next
  case (emits w ev evs failed order)
  note a = at_place [OF emits(3,1)]
  from a(2) have "key_event ev" "place_ok (mf_feed w) (M_Emitting evs failed True)" by (simp_all add: place_ok_def)
  with event_simulated [OF emits(3) _ _ emits(2), of ev "M_Emitting evs failed True"] a show ?case
    by (auto simp: place_pc_def)
next
  case (round_fails w told f order)
  note a = at_place [OF round_fails(4,1)]
  from round_fails(2) have "\<not> fd_disconnected (mf_feed w)" "fd_disconnected f"
    by (auto simp: beginDisconnect_def split: if_splits)
  with loss_simulated [OF round_fails(4) _ _ round_fails(3), of M_PollWait] a round_fails(2) show ?case
    by (auto simp: place_pc_def place_ok_def)
next
  case (fails_again w told f)
  note a = at_place [OF fails_again(3,1)]
  from fails_again(2,4) have "fd_disconnected (mf_feed w)" by (auto simp: beginDisconnect_def go_def split: if_splits)
  with stays_simulated [OF fails_again(3), of M_PollWait] a show ?case by (simp add: place_pc_def place_ok_def)
next
  case (round_done w told f order)
  note a = at_place [OF round_done(4,1)]
  from round_done(2) have "\<not> fd_disconnected f" "fd_disconnected (mf_feed w)"
    by (auto simp: beginResyncAfterOutage_def markConnectedLocked_def split: if_splits)
  with recovery_simulated [OF round_done(4) _ round_done(2,3), of M_PollWait] a show ?case
    by (simp add: place_pc_def place_ok_def)
next
  case (quiet_round w told f)
  note a = at_place [OF quiet_round(3,1)]
  from quiet_round(2,4) have "\<not> fd_disconnected (mf_feed w)"
    by (auto simp: beginResyncAfterOutage_def go_def split: if_splits)
  with stays_simulated [OF quiet_round(3), of M_PollWait] a show ?case by (simp add: place_pc_def place_ok_def)
qed

lemma mg_step_closing: "mg_feed_step polling w w' \<Longrightarrow> fd_closing (mf_feed w) \<Longrightarrow> fd_closing (mf_feed w')"
proof -
  assume a: "mg_feed_step polling w w'" and c: "fd_closing (mf_feed w)"
  then consider "mg_shared_step w w'" | "poll_step w w'" | "stream_step w w'"
    by (auto simp: mg_feed_step_def split: if_splits)
  then show ?thesis
    using c
    by cases
      (auto elim!: mg_shared_step.cases poll_step.cases stream_step.cases
        simp: join_feed_def leave_feed_def signalFeed_def beginResync_def beginDisconnect_def beginDispatch_def
          endDispatch_def beginResyncAfterOutage_def fan_def go_def Let_def)
qed

lemma mg_runs_simulated:
  assumes "mg_feed_runs polling sco w" and "\<not> fd_closing (mf_feed w)"
  shows "\<exists>v. feed_runs sco v \<and> twins w v"
  using assms unfolding mg_feed_runs_def feed_runs_def
proof (induction rule: rtranclp_induct)
  case base
  have "twins (new_mg_feed_world sco) (new_feed_world sco)"
    by (simp add: twins_def new_mg_feed_world_def new_feed_world_def pc_rel_def place_pc_def place_ok_def)
  then show ?case by blast
next
  case (step w w')
  from step.prems mg_step_closing [OF step.hyps(2)] have "\<not> fd_closing (mf_feed w)" by blast
  from step.IH [OF this] obtain v where v: "feed_step\<^sup>*\<^sup>* (new_feed_world sco) v" "twins w v" by blast
  from step.hyps(2) consider "mg_shared_step w w'" | "poll_step w w'" | "stream_step w w'"
    by (auto simp: mg_feed_step_def split: if_splits)
  then obtain v' where "feed_step\<^sup>*\<^sup>* v v'" "twins w' v'"
    using v(2) step.prems shared_simulated poll_simulated stream_simulated by cases blast+
  with v(1) show ?case by (meson rtranclp_trans)
qed

subsection \<open>What a subscriber hears\<close>

definition mg_heard :: "mg_feed_world \<Rightarrow> nat \<Rightarrow> string list" where
  "mg_heard w i = map (ev_op \<circ> snd) (filter (\<lambda>x. fst x = i) (mf_log w))"

lemma heard_log_ops: "map (ev_op \<circ> snd) (filter (\<lambda>x. fst x = i) l) = map snd (filter (\<lambda>x. fst x = i) (log_ops l))"
  by (induction l) (auto simp: log_ops_def)

lemma twins_hear: "twins w v \<Longrightarrow> heard_by v i = mg_heard w i"
  unfolding heard_by_def mg_heard_def heard_log_ops by (simp add: twins_def)

text \<open>C33. A MongoDB feed tells its subscribers the same story as a Postgres one, whether a change stream reads it or
  a poller: until the feed is torn down every subscriber hears a marker before any key event, never one marker
  twice in a row, and key events only between a resync and the next disconnect; a subscriber nobody still owes
  a call was last told what the feed announced, so a poller's recovery is told before the first event read
  after an outage.\<close>

theorem mongo_subscribers_hear:
  assumes "mg_feed_runs polling sco w" and "\<not> fd_closing (mf_feed w)"
  shows "protocol None (mg_heard w i)
    \<and> (i \<in> set (fd_subs (mf_feed w)) \<and> mf_joining w i = None \<and> (\<exists>p. mf_pc w = At_Place p)
        \<longrightarrow> view None (mg_heard w i) = announced (mf_feed w))"
proof -
  from mg_runs_simulated [OF assms] obtain v where v: "feed_runs sco v" "twins w v" by blast
  then have f: "fw_feed v = mf_feed w" "fw_joining v = mf_joining w" "heard_by v i = mg_heard w i"
    by (simp_all add: twins_def twins_hear)
  have ok: "feed_ok v" by (rule feed_runs_ok [OF v(1)]) (simp add: f assms(2))
  then have "protocol None (heard_by v i)" by (auto simp: feed_ok_def whole_def)
  then have "protocol None (mg_heard w i)" by (simp add: f)
  moreover have "view None (mg_heard w i) = announced (mf_feed w)"
    if i: "i \<in> set (fd_subs (mf_feed w))" "mf_joining w i = None" "mf_pc w = At_Place p" for p
  proof -
    have "fw_pc v \<noteq> Fanning ev is" for ev "is"
      using v(2) i(3) by (auto simp: twins_def pc_rel_def place_pc_def split: place.splits if_splits)
    then have "coming_to v i = []" using i(2) by (simp add: coming_to_def f split: pc.splits)
    moreover have "view None (whole v i) = announced (fw_feed v)" using ok i(1) by (simp add: feed_ok_def f)
    ultimately show ?thesis by (simp add: whole_def f)
  qed
  ultimately show ?thesis by blast
qed

text \<open>A polled feed with one subscriber loses the server, and the round trip that finds it again reads a write.\<close>

definition poll_at :: "bool \<Rightarrow> place \<Rightarrow> event list \<Rightarrow> mg_feed_world" where
  "poll_at up p told =
     \<lparr>mf_feed = \<lparr>fd_scope = Scope ''acme'', fd_subs = [1], fd_nextID = 1, fd_connected = up,
        fd_disconnected = (\<not> up), fd_closing = False, fd_dispatching = 0, fd_reader = True\<rparr>,
      mf_pc = At_Place p, mf_joining = Map.empty, mf_log = map (\<lambda>ev. (1, ev)) told\<rparr>"

lemma delivered:
  assumes "mf_pc w = Fan ev [i] p" and "mf_joining w i = None"
  shows "(mg_feed_step polling)\<^sup>*\<^sup>* w
    (w\<lparr>mf_log := mf_log w @ [(i, ev)], mf_feed := endDispatch (mf_feed w), mf_pc := At_Place p\<rparr>)"
proof -
  let ?w = "w\<lparr>mf_pc := Fan ev [] p, mf_log := mf_log w @ [(i, ev)]\<rparr>"
  have "mg_feed_step polling w ?w" using mg_shared_step.delivers [OF assms] by (simp add: mg_feed_step_def)
  moreover have "mg_feed_step polling ?w
      (?w\<lparr>mf_feed := endDispatch (mf_feed ?w), mf_pc := At_Place p\<rparr>)"
    using mg_shared_step.fanned [of ?w ev p] by (simp add: mg_feed_step_def)
  ultimately show ?thesis by simp
qed

lemma poll_told:
  assumes "poll_step (poll_at up p told) (fan f ev [1] q (poll_at up p told))"
    and "f = mf_feed (poll_at up' q [])"
  shows "(mg_feed_step True)\<^sup>*\<^sup>* (poll_at up p told) (poll_at up' q (told @ [ev]))"
proof -
  let ?w = "fan f ev [1] q (poll_at up p told)"
  have "mg_feed_step True (poll_at up p told) ?w" using assms(1) by (simp add: mg_feed_step_def)
  moreover have "(mg_feed_step True)\<^sup>*\<^sup>* ?w (poll_at up' q (told @ [ev]))"
    using delivered [of ?w ev 1 q True] by (simp add: fan_def poll_at_def assms(2) beginDispatch_def endDispatch_def)
  ultimately show ?thesis by (rule converse_rtranclp_into_rtranclp)
qed

definition tells :: "string \<Rightarrow> event" where
  "tells op = \<lparr>ev_scope = Scope ''acme'', ev_ns = [], ev_key = [], ev_op = op, ev_rev = 0\<rparr>"

definition acme_write :: event where
  "acme_write = \<lparr>ev_scope = Scope [], ev_ns = ''app'', ev_key = ''limit'', ev_op = OpUpsert, ev_rev = 4\<rparr>"

definition acme_poll_log :: "event list" where
  "acme_poll_log = [tells OpResync, tells OpDisconnect, tells OpResync, acme_write\<lparr>ev_scope := Scope ''acme''\<rparr>]"

lemma acme_polls:
  "mg_feed_runs True (Scope ''acme'') (poll_at True (M_Emitting [] False True) acme_poll_log)"
proof -
  let ?step = "mg_feed_step True"
  let ?w0 = "new_mg_feed_world (Scope ''acme'')"
  let ?w1 = "(poll_at False M_Idle [])\<lparr>mf_feed := (mf_feed (poll_at False M_Idle []))\<lparr>fd_disconnected := False, fd_reader := False\<rparr>\<rparr>"
  let ?w2 = "(poll_at False M_PollTop [])\<lparr>mf_feed := (mf_feed (poll_at False M_Idle []))\<lparr>fd_disconnected := False\<rparr>\<rparr>"
  let ?w3 = "fan (mf_feed (poll_at True M_Idle [])) (tells OpResync) [1] M_PollWait ?w2"
  have s1: "?step ?w0 ?w1"
    using mg_shared_step.joins [of ?w0]
    by (simp add: mg_feed_step_def new_mg_feed_world_def newFeed_def join_feed_def joiningOpLocked_def poll_at_def fun_upd_idem)
  have s2: "?step ?w1 ?w2"
    using poll_step.launches [of ?w1] by (simp add: mg_feed_step_def poll_at_def)
  have s3: "?step ?w2 ?w3"
    using poll_step.resyncs [of ?w2 "mf_feed (poll_at True M_Idle [])" "[1]"]
    by (simp add: mg_feed_step_def poll_at_def beginResync_def snapshotLocked_def marker_def tells_def)
  have s4: "?step\<^sup>*\<^sup>* ?w3 (poll_at True M_PollWait [tells OpResync])"
    using delivered [of ?w3 "tells OpResync" 1 M_PollWait True]
    by (simp add: fan_def poll_at_def beginDispatch_def endDispatch_def)
  have t: "?step (poll_at up M_PollWait l) (poll_at up (M_Emitting evs failed False) l)"
    if "\<forall>ev \<in> set evs. key_event ev" for up l evs failed
    using poll_step.ticks [of "poll_at up M_PollWait l", OF _ that] by (simp add: mg_feed_step_def go_def poll_at_def)
  have s5: "?step\<^sup>*\<^sup>* (poll_at True (M_Emitting [] True False) l) (poll_at False M_PollWait (l @ [tells OpDisconnect]))" for l
    using poll_step.round_fails [of "poll_at True (M_Emitting [] True False) l" False _ "[1]"]
    by (intro poll_told) (simp_all add: poll_at_def beginDisconnect_def snapshotLocked_def marker_def tells_def fan_def)
  have s6: "?step\<^sup>*\<^sup>* (poll_at False (M_Emitting [acme_write] False False) l)
      (poll_at True (M_Emitting [acme_write] False True) (l @ [tells OpResync]))" for l
    using poll_step.recovers [of "poll_at False (M_Emitting [acme_write] False False) l" acme_write "[]" False _ "[1]"]
    by (intro poll_told) (simp_all add: poll_at_def beginResyncAfterOutage_def markConnectedLocked_def snapshotLocked_def
        marker_def tells_def fan_def)
  have s7: "?step\<^sup>*\<^sup>* (poll_at True (M_Emitting [acme_write] False True) l)
      (poll_at True (M_Emitting [] False True) (l @ [acme_write\<lparr>ev_scope := Scope ''acme''\<rparr>]))" for l
    using poll_step.emits [of "poll_at True (M_Emitting [acme_write] False True) l" acme_write "[]" False "[1]"]
    by (intro poll_told) (simp_all add: poll_at_def snapshotLocked_def stamp_scope_def fan_def)
  have k: "\<forall>ev \<in> set []. key_event ev" "\<forall>ev \<in> set [acme_write]. key_event ev"
    by (simp_all add: key_event_def acme_write_def)
  have up: "?step\<^sup>*\<^sup>* ?w0 (poll_at True M_PollWait [tells OpResync])"
    using s1 s2 s3 s4 by (meson converse_rtranclp_into_rtranclp)
  also have "?step\<^sup>*\<^sup>* \<dots> (poll_at False M_PollWait ([tells OpResync] @ [tells OpDisconnect]))"
    using t [OF k(1), of True "[tells OpResync]" True] s5 [of "[tells OpResync]"] by (rule converse_rtranclp_into_rtranclp)
  finally have down: "?step\<^sup>*\<^sup>* ?w0 (poll_at False M_PollWait ([tells OpResync] @ [tells OpDisconnect]))" .
  have "?step\<^sup>*\<^sup>* (poll_at False M_PollWait l) (poll_at True (M_Emitting [] False True)
      ((l @ [tells OpResync]) @ [acme_write\<lparr>ev_scope := Scope ''acme''\<rparr>]))" for l
    using converse_rtranclp_into_rtranclp [of ?step, OF t [OF k(2), of False l False] s6 [of l]] s7 [of "l @ [tells OpResync]"]
    by (rule rtranclp_trans)
  from rtranclp_trans [OF down this] show ?thesis
    by (simp add: mg_feed_runs_def acme_poll_log_def)
qed

theorem mongo_subscribers_hear_witness:
  "mg_heard (poll_at True (M_Emitting [] False True) acme_poll_log) 1 = [OpResync, OpDisconnect, OpResync, OpUpsert]
   \<and> protocol None [OpResync, OpDisconnect, OpResync, OpUpsert]"
proof -
  have h: "mg_heard (poll_at True (M_Emitting [] False True) acme_poll_log) 1
      = [OpResync, OpDisconnect, OpResync, OpUpsert]"
    by (simp add: mg_heard_def poll_at_def acme_poll_log_def tells_def acme_write_def)
  from mongo_subscribers_hear [OF acme_polls, of 1] h show ?thesis by (simp add: poll_at_def)
qed

text \<open>
  Not past the signal of a teardown: a poller that Close signals in the middle of an outage, while the round
  trip that would end it is reading, announces no recovery and hands its key events out all the same.
\<close>

lemma closing_poller_tells_keys:
  assumes "mf_pc w = At_Place (M_Emitting (ev # evs) failed False)" and "fd_closing (mf_feed w)"
    and "snapshotLocked (mf_feed w) order"
  shows "(mg_feed_step True)\<^sup>*\<^sup>* w
    (fan (mf_feed w) (stamp_scope (mf_feed w) ev) order (M_Emitting evs failed True) w)"
proof -
  let ?w = "go (M_Emitting (ev # evs) failed True) w"
  have "mg_feed_step True w ?w"
    using poll_step.no_recovery [OF assms(1)] assms(2) by (simp add: mg_feed_step_def beginResyncAfterOutage_def)
  moreover have "mg_feed_step True ?w
      (fan (mf_feed ?w) (stamp_scope (mf_feed ?w) ev) order (M_Emitting evs failed True) ?w)"
    using poll_step.emits [of ?w ev evs failed order] assms(3) by (simp add: mg_feed_step_def go_def)
  moreover have "fan (mf_feed ?w) (stamp_scope (mf_feed ?w) ev) order (M_Emitting evs failed True) ?w
      = fan (mf_feed w) (stamp_scope (mf_feed w) ev) order (M_Emitting evs failed True) w"
    by (simp add: fan_def go_def)
  ultimately show ?thesis by (metis converse_rtranclp_into_rtranclp rtranclp.rtrancl_refl)
qed

end
