(* ===== verification/Mongo_Store.thy ===== *)
theory Mongo_Store
  imports Pg_Store
begin

text \<open>
  The life of the MongoDB store's changefeeds (\<^verbatim>\<open>internal/mongodb/mongodb_changestream.go\<close>): the map of feeds,
  the collection each one claims, and the creators that resolve, claim and open outside the map's mutex. One
  definition per hold of \<open>feedsMu\<close>; what the connector, the server and the caller's context answer is an
  argument. The outcomes of the calls are the datatypes of \<open>Pg_Store\<close>.
\<close>

subsection \<open>Which collection a feed watches\<close>

record collIdentity =
  ci_server :: string
  ci_db :: string
  ci_coll :: string

definition unidentified :: collIdentity where
  "unidentified = \<lparr>ci_server = [], ci_db = [], ci_coll = []\<rparr>"

text \<open>A reply of \<open>hello\<close>: the set's name, its members and the process id, empty when it has none; \<open>join\<close> puts
  a comma between.\<close>

fun join_commas :: "string list \<Rightarrow> string" where
  "join_commas [] = []"
| "join_commas [h] = h"
| "join_commas (h # hs) = h @ '','' @ join_commas hs"

definition serverKey :: "string \<Rightarrow> string list \<Rightarrow> string \<Rightarrow> string" where
  "serverKey setName hosts processID =
     (if setName \<noteq> [] then ''rs:'' @ setName @ ''/'' @ join_commas (sort hosts)
      else if processID \<noteq> [] then ''proc:'' @ processID else [])"

text \<open>The probe of a collection handle, \<open>None\<close> when it is nil: its database, its name and what \<open>hello\<close> answers.\<close>

definition collIdentityOf ::
  "(string \<times> string) option \<Rightarrow> (string \<times> string list \<times> string) option \<Rightarrow> collIdentity" where
  "collIdentityOf coll reply =
     (case coll of None \<Rightarrow> unidentified
      | Some (db, name) \<Rightarrow>
          (case reply of None \<Rightarrow> unidentified
           | Some (setName, hosts, processID) \<Rightarrow>
               (let k = serverKey setName hosts processID in
                if k = [] then unidentified else \<lparr>ci_server = k, ci_db = db, ci_coll = name\<rparr>)))"

subsection \<open>State\<close>

text \<open>The handle a feed reads through is the number of the collection behind it, \<open>None\<close> when it is nil.\<close>

record mfeed =
  mx_tenant :: string
  mx_coll :: "nat option"
  mx_collID :: collIdentity
  mx_err :: "err option"
  mx_readyClosed :: bool
  mx_refs :: int
  mx_reader :: bool
  mx_signalled :: bool

definition new_mfeed :: "string \<Rightarrow> nat option \<Rightarrow> mfeed" where
  "new_mfeed tenant coll = \<lparr>mx_tenant = tenant, mx_coll = coll, mx_collID = unidentified, mx_err = None,
     mx_readyClosed = False, mx_refs = 0, mx_reader = False, mx_signalled = False\<rparr>"

text \<open>\<open>ms_coll\<close> is the constructor's own collection.\<close>

record mgstore =
  ms_coll :: "nat option"
  ms_feeds :: "string \<Rightarrow> nat option"
  ms_feed :: "nat \<Rightarrow> mfeed"
  ms_next :: nat
  ms_closing :: bool

definition new_mgstore :: "nat option \<Rightarrow> mgstore" where
  "new_mgstore coll = \<lparr>ms_coll = coll, ms_feeds = Map.empty, ms_feed = (\<lambda>_. new_mfeed [] None), ms_next = 0,
     ms_closing = False\<rparr>"

definition mg_upd :: "nat \<Rightarrow> (mfeed \<Rightarrow> mfeed) \<Rightarrow> mgstore \<Rightarrow> mgstore" where
  "mg_upd f g s = s\<lparr>ms_feed := modify (ms_feed s) f g\<rparr>"

definition mg_reserve :: "mfeed \<Rightarrow> mgstore \<Rightarrow> mgstore \<times> nat" where
  "mg_reserve x s =
     (let f = ms_next s
      in (s\<lparr>ms_feeds := (ms_feeds s)(mx_tenant x \<mapsto> f), ms_feed := (ms_feed s)(f := x), ms_next := f + 1\<rparr>, f))"

subsection \<open>Admission\<close>

definition mg_admission :: "bool \<Rightarrow> bool \<Rightarrow> bool \<Rightarrow> string \<Rightarrow> bool \<Rightarrow> admission" where
  "mg_admission multiTenant hasConnector shut tenant nil_fn =
     (if shut then Admit_Refused (Sentinel Store_ErrClosed)
      else if tenant = [] then
        (if multiTenant then Admit_Refused (Sentinel ErrNotSupportedInMultiTenant)
         else if nil_fn then Admit_Nothing else Admit_Feed)
      else if \<not> hasConnector then Admit_Refused (Sentinel ErrTenantConnectorMissing)
      else if nil_fn then Admit_Nothing else Admit_Feed)"

text \<open>\<open>Start\<close> before \<open>startListener\<close>: \<open>schema\<close> is what the bootstrap of the collection answers.\<close>

definition mg_Start :: "bool \<Rightarrow> bool \<Rightarrow> err option \<Rightarrow> admission" where
  "mg_Start multiTenant shut schema =
     (if shut then Admit_Refused (Sentinel Store_ErrClosed)
      else if multiTenant then Admit_Nothing
      else case schema of Some er \<Rightarrow> Admit_Refused er | None \<Rightarrow> Admit_Feed)"

subsection \<open>Acquiring\<close>

definition mg_zeroFeedSlotLocked :: "mgstore \<Rightarrow> mgstore \<times> (err + nat)" where
  "mg_zeroFeedSlotLocked s =
     (if ms_closing s then (s, Inl (Sentinel Store_ErrClosed))
      else case ms_feeds s [] of
        Some f \<Rightarrow> (s, Inr f)
      | None \<Rightarrow> let (s', f) = mg_reserve (new_mfeed [] (ms_coll s)) s in (s', Inr f))"

definition mg_zeroFeedLocked :: "mgstore \<Rightarrow> mgstore \<times> (err + nat)" where
  "mg_zeroFeedLocked s =
     (case mg_zeroFeedSlotLocked s of
        (s', Inl er) \<Rightarrow> (s', Inl er)
      | (s', Inr f) \<Rightarrow> (case mx_err (ms_feed s' f) of Some er \<Rightarrow> (s', Inl er) | None \<Rightarrow> (s', Inr f)))"

definition mg_zeroFeedForStart :: "mgstore \<Rightarrow> mgstore \<times> (err + nat)" where
  "mg_zeroFeedForStart s =
     (case mg_zeroFeedSlotLocked s of
        (s', Inl er) \<Rightarrow> (s', Inl er)
      | (s', Inr f) \<Rightarrow> (mg_upd f (\<lambda>x. x\<lparr>mx_err := None\<rparr>) s', Inr f))"

definition mg_hold :: "nat \<Rightarrow> mgstore \<Rightarrow> mgstore" where
  "mg_hold f s = mg_upd f (\<lambda>x. x\<lparr>mx_refs := mx_refs x + 1\<rparr>) s"

definition mg_acquireFeed :: "string \<Rightarrow> mgstore \<Rightarrow> mgstore \<times> acquired" where
  "mg_acquireFeed tenant s =
     (if ms_closing s then (s, Refused (Sentinel Store_ErrClosed))
      else if tenant = [] then
        (case mg_zeroFeedLocked s of
           (s', Inl er) \<Rightarrow> (s', Refused er)
         | (s', Inr f) \<Rightarrow> (mg_hold f s', Attached f))
      else case ms_feeds s tenant of
        Some f \<Rightarrow> (mg_hold f s, Joined f)
      | None \<Rightarrow>
          let (s', f) = mg_reserve ((new_mfeed tenant None)\<lparr>mx_refs := 1\<rparr>) s in (s', Creating f))"

definition mg_awaitFeed :: "nat \<Rightarrow> mgstore \<Rightarrow> awaited" where
  "mg_awaitFeed f s =
     (if \<not> mx_readyClosed (ms_feed s f) then Await_Open
      else case mx_err (ms_feed s f) of Some er \<Rightarrow> Await_Failed er | None \<Rightarrow> Await_Ready)"

definition mg_startListener :: "mgstore \<Rightarrow> mgstore \<times> starting" where
  "mg_startListener s =
     (case mg_zeroFeedForStart s of
        (s', Inl er) \<Rightarrow> (s', Start_Refused er)
      | (s', Inr f) \<Rightarrow> (s', if mx_reader (ms_feed s' f) then Start_Running else Start_Opens f))"

subsection \<open>Claiming\<close>

text \<open>A feed no other tracked feed matches keeps the identity the probe answered; no answer changes nothing.\<close>

definition claimed :: "nat \<Rightarrow> collIdentity \<Rightarrow> mgstore \<Rightarrow> bool" where
  "claimed f ci s \<longleftrightarrow> (\<exists>t g. ms_feeds s t = Some g \<and> g \<noteq> f \<and> mx_collID (ms_feed s g) = ci)"

definition claimFeedIdentity :: "nat \<Rightarrow> collIdentity \<Rightarrow> mgstore \<Rightarrow> mgstore \<times> err option" where
  "claimFeedIdentity f ci s =
     (if ci = unidentified then (s, None)
      else if claimed f ci s then (s, Some ErrSharedDatabaseUnsupported)
      else (mg_upd f (\<lambda>x. x\<lparr>mx_collID := ci\<rparr>) s, None))"

text \<open>
  A creator: the connector's answer (a nil handle is \<open>None\<close>) and the claim; then the bootstrap of the schema and
  the first stream or round trip, with the error that retracts it.
\<close>

definition createFeed_claim ::
  "err + nat option \<Rightarrow> (nat \<Rightarrow> collIdentity) \<Rightarrow> nat \<Rightarrow> mgstore \<Rightarrow> mgstore \<times> (err + nat)" where
  "createFeed_claim resolved probe f s =
     (case resolved of
        Inl er \<Rightarrow> (s, Inl er)
      | Inr None \<Rightarrow> (s, Inl (Sentinel ErrTenantConnectorMissing))
      | Inr (Some h) \<Rightarrow>
          (case claimFeedIdentity f (probe h) s of (s', Some er) \<Rightarrow> (s', Inl er) | (s', None) \<Rightarrow> (s', Inr h)))"

definition createFeed_open :: "err option \<Rightarrow> err option \<Rightarrow> nat \<Rightarrow> nat \<Rightarrow> mgstore \<Rightarrow> mgstore \<times> err option" where
  "createFeed_open schema opened h f s =
     (case schema of
        Some er \<Rightarrow> (s, Some er)
      | None \<Rightarrow> (mg_upd f (\<lambda>x. x\<lparr>mx_coll := Some h\<rparr>) s, opened))"

text \<open>Before a reopen and after a failed round trip; the answer \<open>None\<close> lets the reader go on.\<close>

definition errIdentityProbeFailed :: err where
  "errIdentityProbeFailed = Sentinel (Foreign ''identity probe failed'')"

definition refreshFeedColl ::
  "bool \<Rightarrow> err + nat option \<Rightarrow> (nat \<Rightarrow> collIdentity) \<Rightarrow> nat \<Rightarrow> mgstore \<Rightarrow> mgstore \<times> err option" where
  "refreshFeedColl hasConnector resolved probe f s =
     (if mx_tenant (ms_feed s f) = [] \<or> \<not> hasConnector then (s, None)
      else case resolved of
        Inl er \<Rightarrow> (s, Some er)
      | Inr None \<Rightarrow> (s, Some (Sentinel ErrTenantConnectorMissing))
      | Inr (Some h) \<Rightarrow>
          if probe h = unidentified then (s, Some errIdentityProbeFailed)
          else (case claimFeedIdentity f (probe h) s of
             (s', Some er) \<Rightarrow> (s', Some er)
           | (s', None) \<Rightarrow> (mg_upd f (\<lambda>x. x\<lparr>mx_coll := Some h\<rparr>) s', None)))"

subsection \<open>Publishing, failing, releasing and stopping\<close>

definition mg_closeReadyLocked :: "nat \<Rightarrow> mgstore \<Rightarrow> mgstore" where
  "mg_closeReadyLocked f s =
     mg_upd f (\<lambda>x. if mx_tenant x = [] \<or> mx_readyClosed x then x else x\<lparr>mx_readyClosed := True\<rparr>) s"

definition mg_failLocked :: "nat \<Rightarrow> err \<Rightarrow> mgstore \<Rightarrow> mgstore \<times> err" where
  "mg_failLocked f er s =
     (let s1 = mg_upd f (\<lambda>x. if mx_err x = None then x\<lparr>mx_err := Some er\<rparr> else x) s;
          cause = the (mx_err (ms_feed s1 f));
          tenant = mx_tenant (ms_feed s1 f)
      in if tenant = [] then (s1, cause)
         else (if ms_feeds s1 tenant = Some f then s1\<lparr>ms_feeds := (ms_feeds s1)(tenant := None)\<rparr> else s1, cause))"

definition mg_retractFeed :: "nat \<Rightarrow> err \<Rightarrow> mgstore \<Rightarrow> mgstore \<times> err" where
  "mg_retractFeed f er s = (let (s1, cause) = mg_failLocked f er s in (mg_closeReadyLocked f s1, cause))"

text \<open>The error says the stream the creator opened is thrown away.\<close>

definition mg_publishFeed :: "nat \<Rightarrow> mgstore \<Rightarrow> mgstore \<times> err option" where
  "mg_publishFeed f s =
     (if ms_closing s
      then let (s1, cause) = mg_failLocked f (Sentinel Store_ErrClosed) s in (mg_closeReadyLocked f s1, Some cause)
      else (mg_closeReadyLocked f (mg_upd f (\<lambda>x. x\<lparr>mx_reader := True\<rparr>) s), None))"

text \<open>The flag says the caller goes on to \<open>stopFeed\<close>.\<close>

definition mg_releaseFeed :: "nat \<Rightarrow> mgstore \<Rightarrow> mgstore \<times> bool" where
  "mg_releaseFeed f s =
     (let s1 = mg_upd f (\<lambda>x. x\<lparr>mx_refs := mx_refs x - 1\<rparr>) s; x = ms_feed s1 f in
      if mx_tenant x = [] \<or> 0 < mx_refs x \<or> ms_feeds s1 (mx_tenant x) \<noteq> Some f then (s1, False)
      else (s1\<lparr>ms_feeds := (ms_feeds s1)(mx_tenant x := None)\<rparr>, True))"

definition mg_signal :: "nat \<Rightarrow> mgstore \<Rightarrow> mgstore" where
  "mg_signal f s = mg_upd f (\<lambda>x. x\<lparr>mx_signalled := True\<rparr>) s"

text \<open>The hold of \<open>stopFeeds\<close>: a slot whose creator is still opening is failed, the others are left to signal.\<close>

definition mg_tracked :: "mgstore \<Rightarrow> nat \<Rightarrow> bool" where
  "mg_tracked s f \<longleftrightarrow> (\<exists>t. ms_feeds s t = Some f)"

definition still_opening :: "mfeed \<Rightarrow> bool" where
  "still_opening x \<longleftrightarrow> mx_tenant x \<noteq> [] \<and> \<not> mx_readyClosed x"

definition mg_stopFeeds :: "mgstore \<Rightarrow> mgstore \<times> (nat \<Rightarrow> bool)" where
  "mg_stopFeeds s =
     (s\<lparr>ms_closing := True, ms_feeds := Map.empty,
        ms_feed := (\<lambda>f. let x = ms_feed s f in
          if mg_tracked s f \<and> still_opening x
          then (if mx_err x = None then x\<lparr>mx_err := Some (Sentinel Store_ErrClosed)\<rparr> else x)\<lparr>mx_readyClosed := True\<rparr>
          else x)\<rparr>,
      \<lambda>f. mg_tracked s f \<and> \<not> still_opening (ms_feed s f))"

subsection \<open>The store under concurrency\<close>

text \<open>
  A creator resolves, has claimed a collection it has yet to open, or holds an open stream it has yet to publish.
  Start is the creator of the zero feed, which claims and opens the constructor's collection.
\<close>

datatype mcreator = Resolving | Claimed nat | Claimed_Own | Opened

record mg_world =
  mw_store :: mgstore
  mw_creator :: "nat \<Rightarrow> mcreator option"
  mw_holders :: "nat multiset"
  mw_waiters :: "nat multiset"
  mw_stops :: "nat set"

definition new_mg_world :: "nat option \<Rightarrow> mg_world" where
  "new_mg_world coll = \<lparr>mw_store = new_mgstore coll, mw_creator = Map.empty, mw_holders = {#}, mw_waiters = {#},
     mw_stops = {}\<rparr>"

inductive mg_step :: "mg_world \<Rightarrow> mg_world \<Rightarrow> bool" where
  refused: "mg_acquireFeed tenant (mw_store w) = (s, Refused er) \<Longrightarrow> mg_step w (w\<lparr>mw_store := s\<rparr>)"
| attached: "mg_acquireFeed tenant (mw_store w) = (s, Attached f) \<Longrightarrow>
     mg_step w (w\<lparr>mw_store := s, mw_holders := add_mset f (mw_holders w)\<rparr>)"
| joined: "mg_acquireFeed tenant (mw_store w) = (s, Joined f) \<Longrightarrow>
     mg_step w (w\<lparr>mw_store := s, mw_waiters := add_mset f (mw_waiters w)\<rparr>)"
| creating: "mg_acquireFeed tenant (mw_store w) = (s, Creating f) \<Longrightarrow>
     mg_step w (w\<lparr>mw_store := s, mw_creator := (mw_creator w)(f \<mapsto> Resolving)\<rparr>)"
| woken: "f \<in># mw_waiters w \<Longrightarrow> mg_awaitFeed f (mw_store w) = Await_Ready \<Longrightarrow>
     mg_step w (w\<lparr>mw_waiters := mw_waiters w - {#f#}, mw_holders := add_mset f (mw_holders w)\<rparr>)"
| gives_up: "f \<in># mw_waiters w \<Longrightarrow> mg_releaseFeed f (mw_store w) = (s, stop) \<Longrightarrow>
     mg_step w (w\<lparr>mw_store := s, mw_waiters := mw_waiters w - {#f#},
       mw_stops := (if stop then insert f (mw_stops w) else mw_stops w)\<rparr>)"
| claims: "mw_creator w f = Some Resolving \<Longrightarrow> mx_tenant (ms_feed (mw_store w) f) \<noteq> [] \<Longrightarrow>
     createFeed_claim resolved probe f (mw_store w) = (s, Inr h) \<Longrightarrow>
     mg_step w (w\<lparr>mw_store := s, mw_creator := (mw_creator w)(f \<mapsto> Claimed h)\<rparr>)"
| claim_fails: "mw_creator w f = Some Resolving \<Longrightarrow> mx_tenant (ms_feed (mw_store w) f) \<noteq> [] \<Longrightarrow>
     createFeed_claim resolved probe f (mw_store w) = (s, Inl er) \<Longrightarrow> mg_retractFeed f er s = (s', cause) \<Longrightarrow>
     mg_step w (w\<lparr>mw_store := s', mw_creator := (mw_creator w)(f := None)\<rparr>)"
| opens: "mw_creator w f = Some (Claimed h) \<Longrightarrow> createFeed_open schema opened h f (mw_store w) = (s, None) \<Longrightarrow>
     mg_step w (w\<lparr>mw_store := s, mw_creator := (mw_creator w)(f \<mapsto> Opened)\<rparr>)"
| open_fails: "mw_creator w f = Some (Claimed h) \<Longrightarrow>
     createFeed_open schema opened h f (mw_store w) = (s, Some er) \<Longrightarrow> mg_retractFeed f er s = (s', cause) \<Longrightarrow>
     mg_step w (w\<lparr>mw_store := s', mw_creator := (mw_creator w)(f := None)\<rparr>)"
| start_claims: "mw_creator w f = Some Resolving \<Longrightarrow> mx_tenant (ms_feed (mw_store w) f) = [] \<Longrightarrow>
     claimFeedIdentity f (own_probe (ms_coll (mw_store w))) (mw_store w) = (s, None) \<Longrightarrow>
     mg_step w (w\<lparr>mw_store := s, mw_creator := (mw_creator w)(f \<mapsto> Claimed_Own)\<rparr>)"
| start_claim_fails: "mw_creator w f = Some Resolving \<Longrightarrow> mx_tenant (ms_feed (mw_store w) f) = [] \<Longrightarrow>
     claimFeedIdentity f (own_probe (ms_coll (mw_store w))) (mw_store w) = (s, Some er) \<Longrightarrow>
     mg_retractFeed f er s = (s', cause) \<Longrightarrow>
     mg_step w (w\<lparr>mw_store := s', mw_creator := (mw_creator w)(f := None)\<rparr>)"
| start_opens: "mw_creator w f = Some Claimed_Own \<Longrightarrow>
     mg_step w (w\<lparr>mw_creator := (mw_creator w)(f \<mapsto> Opened)\<rparr>)"
| start_open_fails: "mw_creator w f = Some Claimed_Own \<Longrightarrow> mg_retractFeed f er (mw_store w) = (s', cause) \<Longrightarrow>
     mg_step w (w\<lparr>mw_store := s', mw_creator := (mw_creator w)(f := None)\<rparr>)"
| publishes: "mw_creator w f = Some Opened \<Longrightarrow> mg_publishFeed f (mw_store w) = (s, None) \<Longrightarrow>
     mg_step w (w\<lparr>mw_store := s, mw_creator := (mw_creator w)(f := None),
       mw_holders := (if mx_tenant (ms_feed s f) = [] then mw_holders w else add_mset f (mw_holders w))\<rparr>)"
| publish_fails: "mw_creator w f = Some Opened \<Longrightarrow> mg_publishFeed f (mw_store w) = (s, Some cause) \<Longrightarrow>
     mg_step w (w\<lparr>mw_store := s, mw_creator := (mw_creator w)(f := None)\<rparr>)"
| start_refused: "mg_startListener (mw_store w) = (s, Start_Refused er) \<Longrightarrow> mg_step w (w\<lparr>mw_store := s\<rparr>)"
| start_running: "mg_startListener (mw_store w) = (s, Start_Running) \<Longrightarrow> mg_step w (w\<lparr>mw_store := s\<rparr>)"
| starts: "mg_startListener (mw_store w) = (s, Start_Opens f) \<Longrightarrow> mw_creator w f = None \<Longrightarrow>
     mg_step w (w\<lparr>mw_store := s, mw_creator := (mw_creator w)(f \<mapsto> Resolving)\<rparr>)"
| refreshes: "mx_reader (ms_feed (mw_store w) f) \<Longrightarrow>
     refreshFeedColl hasConnector resolved probe f (mw_store w) = (s, er_opt) \<Longrightarrow> mg_step w (w\<lparr>mw_store := s\<rparr>)"
| releases: "f \<in># mw_holders w \<Longrightarrow> mg_releaseFeed f (mw_store w) = (s, stop) \<Longrightarrow>
     mg_step w (w\<lparr>mw_store := s, mw_holders := mw_holders w - {#f#},
       mw_stops := (if stop then insert f (mw_stops w) else mw_stops w)\<rparr>)"
| stops: "f \<in> mw_stops w \<Longrightarrow>
     mg_step w (w\<lparr>mw_store := mg_signal f (mw_store w), mw_stops := mw_stops w - {f}\<rparr>)"
| closes: "\<not> ms_closing (mw_store w) \<Longrightarrow> mg_stopFeeds (mw_store w) = (s, left) \<Longrightarrow>
     mg_step w (w\<lparr>mw_store := s, mw_stops := mw_stops w \<union> {f. left f}\<rparr>)"

definition mg_runs :: "nat option \<Rightarrow> mg_world \<Rightarrow> bool" where
  "mg_runs coll w \<longleftrightarrow> mg_step\<^sup>*\<^sup>* (new_mg_world coll) w"

end
