(* ===== verification/Mongo_Store_Theorems.thy ===== *)
theory Mongo_Store_Theorems
  imports Mongo_Store Pg_Store_Theorems
begin

text \<open>
  The feeds of a MongoDB store live as those of a Postgres store that never compares databases: every step of
  the one is at most one step of the other, with the claims forgotten. What the claims add is proved here.
\<close>

subsection \<open>Forgetting the collections\<close>

definition abs_feed :: "mfeed \<Rightarrow> pfeed" where
  "abs_feed x = \<lparr>pf_tenant = mx_tenant x, pf_dbKey = [], pf_err = mx_err x, pf_readyClosed = mx_readyClosed x,
     pf_refs = mx_refs x, pf_reader = mx_reader x, pf_signalled = mx_signalled x\<rparr>"

definition abs_store :: "mgstore \<Rightarrow> pgstore" where
  "abs_store s = \<lparr>pg_feeds = ms_feeds s, pg_feed = (\<lambda>f. abs_feed (ms_feed s f)), pg_next = ms_next s,
     pg_closing = ms_closing s\<rparr>"

definition abs_creator :: "mcreator \<Rightarrow> creator" where
  "abs_creator c = (case c of Opened \<Rightarrow> Connected [] | _ \<Rightarrow> Dialling)"

definition abs_world :: "mg_world \<Rightarrow> pg_world" where
  "abs_world w = \<lparr>pw_store = abs_store (mw_store w), pw_creator = (\<lambda>f. map_option abs_creator (mw_creator w f)),
     pw_holders = mw_holders w, pw_waiters = mw_waiters w, pw_stops = mw_stops w\<rparr>"

lemma abs_feed_fields [simp]:
  "pf_tenant (abs_feed x) = mx_tenant x" "pf_dbKey (abs_feed x) = []" "pf_err (abs_feed x) = mx_err x"
  "pf_readyClosed (abs_feed x) = mx_readyClosed x" "pf_refs (abs_feed x) = mx_refs x"
  "pf_reader (abs_feed x) = mx_reader x" "pf_signalled (abs_feed x) = mx_signalled x"
  by (simp_all add: abs_feed_def)

lemma abs_store_fields [simp]:
  "pg_feeds (abs_store s) = ms_feeds s" "pg_feed (abs_store s) f = abs_feed (ms_feed s f)"
  "pg_next (abs_store s) = ms_next s" "pg_closing (abs_store s) = ms_closing s"
  by (simp_all add: abs_store_def)

lemma abs_world_fields [simp]:
  "pw_store (abs_world w) = abs_store (mw_store w)"
  "pw_creator (abs_world w) f = map_option abs_creator (mw_creator w f)"
  "pw_holders (abs_world w) = mw_holders w" "pw_waiters (abs_world w) = mw_waiters w"
  "pw_stops (abs_world w) = mw_stops w"
  by (simp_all add: abs_world_def)

lemma mg_upd_simps [simp]:
  "ms_feeds (mg_upd f g s) = ms_feeds s" "ms_next (mg_upd f g s) = ms_next s" "ms_closing (mg_upd f g s) = ms_closing s"
  "ms_coll (mg_upd f g s) = ms_coll s"
  "ms_feed (mg_upd f g s) h = (if h = f then g (ms_feed s f) else ms_feed s h)"
  by (simp_all add: mg_upd_def modify_def)

lemma pgstore_eqI:
  fixes s t :: pgstore
  assumes "pg_feeds s = pg_feeds t" and "\<And>f. pg_feed s f = pg_feed t f" and "pg_next s = pg_next t"
    and "pg_closing s = pg_closing t"
  shows "s = t"
  using assms by (cases s, cases t) auto

lemma pfeed_eqI:
  fixes x y :: pfeed
  assumes "pf_tenant x = pf_tenant y" and "pf_dbKey x = pf_dbKey y" and "pf_err x = pf_err y"
    and "pf_readyClosed x = pf_readyClosed y" and "pf_refs x = pf_refs y" and "pf_reader x = pf_reader y"
    and "pf_signalled x = pf_signalled y"
  shows "x = y"
  using assms by (cases x, cases y) auto

text \<open>A change that only moves the claims, and one the other store makes too.\<close>

lemma abs_upd_same: "abs_feed (g (ms_feed s f)) = abs_feed (ms_feed s f) \<Longrightarrow> abs_store (mg_upd f g s) = abs_store s"
  by (rule pgstore_eqI) auto

lemma abs_upd:
  "abs_feed (g (ms_feed s f)) = g' (abs_feed (ms_feed s f)) \<Longrightarrow> abs_store (mg_upd f g s) = upd_feed f g' (abs_store s)"
  by (rule pgstore_eqI) auto

lemma abs_new: "abs_feed (new_mfeed t c) = new_pfeed t"
  by (simp add: abs_feed_def new_mfeed_def new_pfeed_def)

lemma abs_reserve:
  "mg_reserve x s = (s', f) \<Longrightarrow> reserve (abs_feed x) (abs_store s) = (abs_store s', f)"
  by (auto simp: mg_reserve_def reserve_def Let_def intro!: pgstore_eqI)

lemma abs_hold: "abs_store (mg_hold f s) = hold_feed f (abs_store s)"
  unfolding mg_hold_def hold_feed_def by (rule abs_upd) (simp add: abs_feed_def)

subsection \<open>The operations agree\<close>

lemma abs_zero_slot:
  "zeroFeedSlotLocked (abs_store s) = map_prod abs_store id (mg_zeroFeedSlotLocked s)"
  using abs_reserve [of "new_mfeed [] (ms_coll s)" s]
  by (auto simp: zeroFeedSlotLocked_def mg_zeroFeedSlotLocked_def abs_new split: option.splits prod.splits)

lemma abs_zero_locked: "zeroFeedLocked (abs_store s) = map_prod abs_store id (mg_zeroFeedLocked s)"
  by (auto simp: zeroFeedLocked_def mg_zeroFeedLocked_def abs_zero_slot split: prod.splits sum.splits option.splits)

lemma abs_zero_start: "zeroFeedForStart (abs_store s) = map_prod abs_store id (mg_zeroFeedForStart s)"
proof -
  have "abs_store (mg_upd f (\<lambda>x. x\<lparr>mx_err := None\<rparr>) x) = upd_feed f (\<lambda>x. x\<lparr>pf_err := None\<rparr>) (abs_store x)" for f x
    by (rule abs_upd) (simp add: abs_feed_def)
  then show ?thesis
    by (auto simp: zeroFeedForStart_def mg_zeroFeedForStart_def abs_zero_slot split: prod.splits sum.splits)
qed

lemma abs_start: "startListener (abs_store s) = map_prod abs_store id (mg_startListener s)"
  by (auto simp: startListener_def mg_startListener_def abs_zero_start split: prod.splits sum.splits)

lemma abs_acquire: "acquireFeed t (abs_store s) = map_prod abs_store id (mg_acquireFeed t s)"
proof -
  have n: "abs_feed ((new_mfeed t None)\<lparr>mx_refs := 1\<rparr>) = (new_pfeed t)\<lparr>pf_refs := 1\<rparr>"
    by (simp add: abs_feed_def new_mfeed_def new_pfeed_def)
  show ?thesis
    using abs_reserve [of "(new_mfeed t None)\<lparr>mx_refs := 1\<rparr>" s]
    by (auto simp: acquireFeed_def mg_acquireFeed_def abs_zero_locked abs_hold n
        split: prod.splits sum.splits option.splits)
qed

lemma abs_await: "awaitFeed f (abs_store s) = mg_awaitFeed f s"
  by (simp add: awaitFeed_def mg_awaitFeed_def)

lemma abs_closeReady: "abs_store (mg_closeReadyLocked f s) = closeReadyLocked f (abs_store s)"
  unfolding mg_closeReadyLocked_def closeReadyLocked_def
  by (rule abs_upd) (auto simp: abs_feed_def)

lemma abs_fail: "failLocked f er (abs_store s) = map_prod abs_store id (mg_failLocked f er s)"
proof -
  have u: "abs_store (mg_upd f (\<lambda>x. if mx_err x = None then x\<lparr>mx_err := Some er\<rparr> else x) s)
    = upd_feed f (\<lambda>x. x\<lparr>pf_err := Some (case mx_err (ms_feed s f) of Some er' \<Rightarrow> er' | None \<Rightarrow> er)\<rparr>) (abs_store s)"
    by (rule abs_upd) (auto simp: abs_feed_def)
  have "abs_store (x\<lparr>ms_feeds := m\<rparr>) = (abs_store x)\<lparr>pg_feeds := m\<rparr>" for x m
    by (simp add: abs_store_def)
  then show ?thesis
    by (auto simp: failLocked_def mg_failLocked_def Let_def u split: option.splits)
qed

lemma abs_retract: "retractFeed f er (abs_store s) = map_prod abs_store id (mg_retractFeed f er s)"
  by (auto simp: retractFeed_def mg_retractFeed_def abs_fail abs_closeReady split: prod.splits)

lemma abs_publish: "publishFeed f [] (abs_store s) = map_prod abs_store id (mg_publishFeed f s)"
proof -
  have "abs_store (mg_upd f (\<lambda>x. x\<lparr>mx_reader := True\<rparr>) s)
      = upd_feed f (\<lambda>x. x\<lparr>pf_dbKey := [], pf_reader := True\<rparr>) (abs_store s)"
    by (rule abs_upd) (simp add: abs_feed_def)
  then show ?thesis
    by (auto simp: publishFeed_def mg_publishFeed_def sharedDatabase_def abs_fail abs_closeReady Let_def
        split: prod.splits)
qed

lemma abs_release: "releaseFeed f (abs_store s) = map_prod abs_store id (mg_releaseFeed f s)"
proof -
  have u: "abs_store (mg_upd f (\<lambda>x. x\<lparr>mx_refs := mx_refs x - 1\<rparr>) s)
      = upd_feed f (\<lambda>x. x\<lparr>pf_refs := pf_refs x - 1\<rparr>) (abs_store s)"
    by (rule abs_upd) (simp add: abs_feed_def)
  have "abs_store (x\<lparr>ms_feeds := m\<rparr>) = (abs_store x)\<lparr>pg_feeds := m\<rparr>" for x m
    by (simp add: abs_store_def)
  then show ?thesis by (auto simp: releaseFeed_def mg_releaseFeed_def Let_def u)
qed

lemma abs_signal: "abs_store (mg_signal f s) = signal_pfeed f (abs_store s)"
  unfolding mg_signal_def signal_pfeed_def by (rule abs_upd) (simp add: abs_feed_def)

lemma abs_stop: "stopFeeds (abs_store s) = map_prod abs_store id (mg_stopFeeds s)"
proof -
  have t: "tracked (abs_store s) = mg_tracked s" by (auto simp: fun_eq_iff tracked_def mg_tracked_def)
  have c: "connecting (abs_feed x) = still_opening x" for x by (simp add: connecting_def still_opening_def)
  show ?thesis
    by (auto simp: stopFeeds_def mg_stopFeeds_def t c Let_def fun_eq_iff intro!: pgstore_eqI pfeed_eqI
        split: option.splits)
qed

subsection \<open>The claims\<close>

lemma claim_effect:
  assumes "claimFeedIdentity f ci s = (s', r)"
  shows "abs_store s' = abs_store s" and "ms_feeds s' = ms_feeds s" and "ms_next s' = ms_next s"
    and "s' = s \<or> r = None \<and> \<not> claimed f ci s \<and> s' = mg_upd f (\<lambda>x. x\<lparr>mx_collID := ci\<rparr>) s"
  using assms
  by (auto simp: claimFeedIdentity_def abs_feed_def intro!: abs_upd_same split: if_splits)

lemma abs_create_claim: "createFeed_claim a p f s = (s', r) \<Longrightarrow> abs_store s' = abs_store s"
  by (auto simp: createFeed_claim_def dest: claim_effect(1) split: sum.splits option.splits prod.splits)

lemma abs_create_open: "createFeed_open a p h f s = (s', r) \<Longrightarrow> abs_store s' = abs_store s"
  by (auto simp: createFeed_open_def abs_feed_def intro!: abs_upd_same split: option.splits)

lemma abs_refresh: "refreshFeedColl b a p f s = (s', r) \<Longrightarrow> abs_store s' = abs_store s"
proof -
  have "abs_store (mg_upd f (\<lambda>x. x\<lparr>mx_coll := Some h\<rparr>) s'') = abs_store s''" for h s''
    by (rule abs_upd_same) (simp add: abs_feed_def)
  then show "refreshFeedColl b a p f s = (s', r) \<Longrightarrow> abs_store s' = abs_store s"
    by (auto simp: refreshFeedColl_def dest: claim_effect(1) split: sum.splits option.splits prod.splits if_splits)
qed

subsection \<open>The simulation\<close>

lemma abs_updates:
  "abs_world (w\<lparr>mw_store := s\<rparr>) = (abs_world w)\<lparr>pw_store := abs_store s\<rparr>"
  "abs_world (w\<lparr>mw_creator := m\<rparr>) = (abs_world w)\<lparr>pw_creator := map_option abs_creator \<circ> m\<rparr>"
  "abs_world (w\<lparr>mw_holders := h\<rparr>) = (abs_world w)\<lparr>pw_holders := h\<rparr>"
  "abs_world (w\<lparr>mw_waiters := h\<rparr>) = (abs_world w)\<lparr>pw_waiters := h\<rparr>"
  "abs_world (w\<lparr>mw_stops := st\<rparr>) = (abs_world w)\<lparr>pw_stops := st\<rparr>"
  by (simp_all add: abs_world_def comp_def)

lemma abs_creators:
  "map_option abs_creator \<circ> m(f := c) = (map_option abs_creator \<circ> m)(f := map_option abs_creator c)"
  "pw_creator (abs_world w) = map_option abs_creator \<circ> mw_creator w"
  by (auto simp: fun_eq_iff)

lemma unchanged [simp]:
  "(abs_world w)\<lparr>pw_store := s, pw_waiters := m, pw_stops := mw_stops w\<rparr> = (abs_world w)\<lparr>pw_store := s, pw_waiters := m\<rparr>"
  "(abs_world w)\<lparr>pw_store := s, pw_holders := m, pw_stops := mw_stops w\<rparr> = (abs_world w)\<lparr>pw_store := s, pw_holders := m\<rparr>"
  "(abs_world w)\<lparr>pw_store := s, pw_creator := c, pw_holders := mw_holders w\<rparr> = (abs_world w)\<lparr>pw_store := s, pw_creator := c\<rparr>"
  "(abs_world w)\<lparr>pw_creator := map_option abs_creator \<circ> mw_creator w\<rparr> = abs_world w"
  by (simp_all add: abs_world_def comp_def)

lemma abs_creator_simps [simp]:
  "abs_creator Resolving = Dialling" "abs_creator (Claimed h) = Dialling" "abs_creator Claimed_Own = Dialling"
  "abs_creator Opened = Connected []"
  by (simp_all add: abs_creator_def)

lemma dialling_again:
  assumes "mw_creator w f = Some c" and "abs_creator c = Dialling" and "abs_creator c' = Dialling"
  shows "(map_option abs_creator \<circ> mw_creator w)(f \<mapsto> abs_creator c') = map_option abs_creator \<circ> mw_creator w"
  using assms by (auto simp: fun_eq_iff)

lemma same_world:
  assumes "abs_store s = abs_store (mw_store w)"
  shows "(abs_world w)\<lparr>pw_store := abs_store s\<rparr> = abs_world w"
  using assms by (simp add: abs_world_def)

lemma retraction_simulated:
  assumes "mw_creator w f = Some c" and "abs_creator c = Dialling" and "abs_store s = abs_store (mw_store w)"
    and "mg_retractFeed f er s = (s', cause)"
  shows "pg_step (abs_world w) (abs_world (w\<lparr>mw_store := s', mw_creator := (mw_creator w)(f := None)\<rparr>))"
proof -
  have "retractFeed f er (pw_store (abs_world w)) = (abs_store s', cause)"
    using abs_retract [of f er s] assms(3,4) by simp
  from pg_step.dial_fails [OF _ this] assms(1,2) show ?thesis by (simp add: abs_updates abs_creators)
qed

lemma mg_step_simulated:
  assumes "mg_step w w'"
  shows "pg_step\<^sup>*\<^sup>* (abs_world w) (abs_world w')"
  using assms
proof (cases rule: mg_step.cases)
  case (refused t s er)
  with pg_step.refused [of t "abs_world w" "abs_store s" er] show ?thesis by (simp add: abs_acquire abs_updates r_into_rtranclp)
next
  case (attached t s f)
  with pg_step.attached [of t "abs_world w" "abs_store s" f] show ?thesis
    by (simp add: abs_acquire abs_updates r_into_rtranclp)
next
  case (joined t s f)
  with pg_step.joined [of t "abs_world w" "abs_store s" f] show ?thesis
    by (simp add: abs_acquire abs_updates r_into_rtranclp)
next
  case (creating t s f)
  with pg_step.creating [of t "abs_world w" "abs_store s" f] show ?thesis
    by (simp add: abs_acquire abs_updates abs_creators r_into_rtranclp)
next
  case (woken f)
  with pg_step.woken [of f "abs_world w"] show ?thesis by (simp add: abs_await abs_updates r_into_rtranclp)
next
  case (gives_up f s stop)
  with pg_step.gives_up [of f "abs_world w" "abs_store s" stop] show ?thesis
    by (cases stop) (simp_all add: abs_release abs_updates r_into_rtranclp)
next
  case (claims f a p s h)
  from abs_create_claim [OF claims(4)] dialling_again [OF claims(2), of "Claimed h"] show ?thesis
    by (simp add: claims(1) abs_updates abs_creators same_world)
next
  case (claim_fails f a p s er s' cause)
  from retraction_simulated [OF claim_fails(2) _ abs_create_claim [OF claim_fails(4)] claim_fails(5)]
  show ?thesis by (simp add: claim_fails(1) r_into_rtranclp)
next
  case (opens f h a p s)
  have "pg_step (abs_world w) ((abs_world w)\<lparr>pw_creator := (pw_creator (abs_world w))(f \<mapsto> Connected [])\<rparr>)"
    by (rule pg_step.dials) (simp add: opens(2))
  with abs_create_open [OF opens(3)] show ?thesis
    by (simp add: opens(1) abs_updates abs_creators same_world r_into_rtranclp)
next
  case (open_fails f h a p s er s' cause)
  from retraction_simulated [OF open_fails(2) _ abs_create_open [OF open_fails(3)] open_fails(4)]
  show ?thesis by (simp add: open_fails(1) r_into_rtranclp)
next
  case (start_claims f p s)
  from claim_effect(1) [OF start_claims(4)] dialling_again [OF start_claims(2), of Claimed_Own] show ?thesis
    by (simp add: start_claims(1) abs_updates abs_creators same_world)
next
  case (start_claim_fails f p s er s' cause)
  from retraction_simulated [OF start_claim_fails(2) _ claim_effect(1) [OF start_claim_fails(4)] start_claim_fails(5)]
  show ?thesis by (simp add: start_claim_fails(1) r_into_rtranclp)
next
  case (start_opens f)
  have "pg_step (abs_world w) ((abs_world w)\<lparr>pw_creator := (pw_creator (abs_world w))(f \<mapsto> Connected [])\<rparr>)"
    by (rule pg_step.dials) (simp add: start_opens(2))
  then show ?thesis by (simp add: start_opens(1) abs_updates abs_creators r_into_rtranclp)
next
  case (start_open_fails f er s' cause)
  from retraction_simulated [OF start_open_fails(2) _ refl start_open_fails(3)]
  show ?thesis by (simp add: start_open_fails(1) r_into_rtranclp)
next
  case (publishes f s)
  with pg_step.publishes [of "abs_world w" f "[]" "abs_store s"] show ?thesis
    by (cases "mx_tenant (ms_feed s f) = []") (simp_all add: abs_publish abs_updates abs_creators r_into_rtranclp)
next
  case (publish_fails f s cause)
  with pg_step.publish_fails [of "abs_world w" f "[]" "abs_store s" cause] show ?thesis
    by (simp add: abs_publish abs_updates abs_creators r_into_rtranclp)
next
  case (start_refused s er)
  with pg_step.start_refused [of "abs_world w" "abs_store s" er] show ?thesis
    by (simp add: abs_start abs_updates r_into_rtranclp)
next
  case (start_running s)
  with pg_step.start_running [of "abs_world w" "abs_store s"] show ?thesis
    by (simp add: abs_start abs_updates r_into_rtranclp)
next
  case (starts s f)
  with pg_step.starts [of "abs_world w" "abs_store s" f] show ?thesis
    by (simp add: abs_start abs_updates abs_creators r_into_rtranclp)
next
  case (refreshes f b a p s r)
  from abs_refresh [OF refreshes(3)] show ?thesis by (simp add: refreshes(1) abs_updates same_world)
next
  case (releases f s stop)
  with pg_step.releases [of f "abs_world w" "abs_store s" stop] show ?thesis
    by (cases stop) (simp_all add: abs_release abs_updates r_into_rtranclp)
next
  case (stops f)
  with pg_step.stops [of f "abs_world w"] show ?thesis by (simp add: abs_signal abs_updates r_into_rtranclp)
next
  case (closes s left)
  with pg_step.closes [of "abs_world w" "abs_store s" left] show ?thesis
    by (simp add: abs_stop abs_updates r_into_rtranclp)
qed

lemma mg_runs_abs: "mg_runs coll w \<Longrightarrow> pg_runs (abs_world w)"
proof -
  assume "mg_runs coll w"
  then have "mg_step\<^sup>*\<^sup>* (new_mg_world coll) w" by (simp add: mg_runs_def)
  then have "pg_step\<^sup>*\<^sup>* (abs_world (new_mg_world coll)) (abs_world w)"
    by (induction rule: rtranclp_induct) (auto dest: mg_step_simulated)
  moreover have "abs_world (new_mg_world coll) = new_pg_world"
    by (simp add: abs_world_def abs_store_def new_mg_world_def new_pg_world_def new_mgstore_def new_pgstore_def abs_new)
  ultimately show ?thesis by (simp add: pg_runs_def)
qed

subsection \<open>One claim per collection\<close>

definition claims_ok :: "mgstore \<Rightarrow> bool" where
  "claims_ok s \<longleftrightarrow> (\<forall>t u f g. ms_feeds s t = Some f \<longrightarrow> ms_feeds s u = Some g \<longrightarrow> f \<noteq> g \<longrightarrow>
     mx_collID (ms_feed s f) \<noteq> unidentified \<longrightarrow> mx_collID (ms_feed s f) \<noteq> mx_collID (ms_feed s g))"

text \<open>What a step that claims nothing may do: forget tracked feeds, or track new ones that claim nothing.\<close>

definition claims_less :: "mgstore \<Rightarrow> mgstore \<Rightarrow> bool" where
  "claims_less s s' \<longleftrightarrow> (\<forall>t g. ms_feeds s' t = Some g \<longrightarrow> mx_collID (ms_feed s' g) = unidentified
     \<or> (\<exists>u. ms_feeds s u = Some g) \<and> mx_collID (ms_feed s' g) = mx_collID (ms_feed s g))"

lemma claims_kept: "claims_less s s' \<Longrightarrow> claims_ok s \<Longrightarrow> claims_ok s'"
  unfolding claims_less_def claims_ok_def by metis

lemma claims_less_refl [simp]: "claims_less s s"
  by (auto simp: claims_less_def)

lemma claims_less_trans: "claims_less s s' \<Longrightarrow> claims_less s' s'' \<Longrightarrow> claims_less s s''"
  unfolding claims_less_def by metis

lemma claims_less_upd [intro]: "(\<And>x. mx_collID (g x) = mx_collID x) \<Longrightarrow> claims_less s (mg_upd f g s)"
  by (auto simp: claims_less_def)

lemma claims_less_reserve: "mg_reserve x s = (s', f) \<Longrightarrow> mx_collID x = unidentified \<Longrightarrow> claims_less s s'"
  by (auto simp: claims_less_def mg_reserve_def Let_def split: if_splits)

lemma claims_less_forget [intro]: "claims_less s (s\<lparr>ms_feeds := (ms_feeds s)(t := None)\<rparr>)"
  by (auto simp: claims_less_def split: if_splits)

lemma claims_less_slot: "mg_zeroFeedSlotLocked s = (s', r) \<Longrightarrow> claims_less s s'"
  using claims_less_reserve [of "new_mfeed [] (ms_coll s)" s]
  by (auto simp: mg_zeroFeedSlotLocked_def new_mfeed_def split: if_splits option.splits prod.splits)

lemma claims_less_start: "mg_startListener s = (s', r) \<Longrightarrow> claims_less s s'"
proof -
  have u: "claims_less x (mg_upd f (\<lambda>y. y\<lparr>mx_err := None\<rparr>) x)" for f x by (rule claims_less_upd) simp
  assume "mg_startListener s = (s', r)"
  then obtain z r' where "mg_zeroFeedSlotLocked s = (z, r')" "s' = z \<or> (\<exists>f. s' = mg_upd f (\<lambda>y. y\<lparr>mx_err := None\<rparr>) z)"
    by (auto simp: mg_startListener_def mg_zeroFeedForStart_def split: prod.splits sum.splits)
  with claims_less_slot [of s z r'] u claims_less_trans show ?thesis by blast
qed

lemma claims_less_acquire: "mg_acquireFeed t s = (s', r) \<Longrightarrow> claims_less s s'"
proof -
  have u: "claims_less x (mg_hold f x)" for f x unfolding mg_hold_def by (rule claims_less_upd) simp
  have n: "mx_collID ((new_mfeed t None)\<lparr>mx_refs := 1\<rparr>) = unidentified" by (simp add: new_mfeed_def)
  assume a: "mg_acquireFeed t s = (s', r)"
  consider "s' = s" | z r' where "mg_zeroFeedSlotLocked s = (z, r')" "s' = z \<or> (\<exists>f. s' = mg_hold f z)"
    | f where "s' = mg_hold f s" | f where "mg_reserve ((new_mfeed t None)\<lparr>mx_refs := 1\<rparr>) s = (s', f)"
    using a
    by (auto simp: mg_acquireFeed_def mg_zeroFeedLocked_def split: if_splits prod.splits sum.splits option.splits)
  then show ?thesis
  proof cases
    case 2
    with claims_less_slot [OF 2(1)] u claims_less_trans show ?thesis by blast
  qed (use u claims_less_reserve [OF _ n] in auto)
qed

lemma claims_less_fail: "mg_failLocked f er s = (s', c) \<Longrightarrow> claims_less s s'"
proof -
  have u: "claims_less s (mg_upd f (\<lambda>x. if mx_err x = None then x\<lparr>mx_err := Some er\<rparr> else x) s)"
    by (rule claims_less_upd) simp
  assume "mg_failLocked f er s = (s', c)"
  then show ?thesis using u claims_less_trans [OF u claims_less_forget] by (auto simp: mg_failLocked_def Let_def split: if_splits)
qed

lemma claims_less_ready: "claims_less s (mg_closeReadyLocked f s)"
  unfolding mg_closeReadyLocked_def by (rule claims_less_upd) simp

lemma claims_less_retract: "mg_retractFeed f er s = (s', c) \<Longrightarrow> claims_less s s'"
  using claims_less_fail claims_less_ready claims_less_trans by (fastforce simp: mg_retractFeed_def split: prod.splits)

lemma claims_less_publish: "mg_publishFeed f s = (s', r) \<Longrightarrow> claims_less s s'"
proof -
  have u: "claims_less s (mg_upd f (\<lambda>x. x\<lparr>mx_reader := True\<rparr>) s)" by (rule claims_less_upd) simp
  assume "mg_publishFeed f s = (s', r)"
  then show ?thesis
    using claims_less_trans [OF u claims_less_ready] claims_less_trans [OF claims_less_fail claims_less_ready]
    by (auto simp: mg_publishFeed_def split: if_splits prod.splits)
qed

lemma claims_less_release: "mg_releaseFeed f s = (s', r) \<Longrightarrow> claims_less s s'"
proof -
  have u: "claims_less s (mg_upd f (\<lambda>x. x\<lparr>mx_refs := mx_refs x - 1\<rparr>) s)" by (rule claims_less_upd) simp
  assume "mg_releaseFeed f s = (s', r)"
  then show ?thesis using u claims_less_trans [OF u claims_less_forget] by (auto simp: mg_releaseFeed_def Let_def split: if_splits)
qed

text \<open>A claim keeps the claims apart: nobody tracked has what it takes.\<close>

lemma claims_claim:
  assumes "claimFeedIdentity f ci s = (s', r)" and "claims_ok s"
  shows "claims_ok s'"
  using claim_effect(4) [OF assms(1)]
proof
  assume c: "r = None \<and> \<not> claimed f ci s \<and> s' = mg_upd f (\<lambda>x. x\<lparr>mx_collID := ci\<rparr>) s"
  show ?thesis
    unfolding claims_ok_def
  proof (intro allI impI)
    fix t u a b
    assume a: "ms_feeds s' t = Some a" and b: "ms_feeds s' u = Some b" and ab: "a \<noteq> b"
      and ne: "mx_collID (ms_feed s' a) \<noteq> unidentified"
    from a b c have ab': "ms_feeds s t = Some a" "ms_feeds s u = Some b" by simp_all
    have new: "mx_collID (ms_feed s g) \<noteq> ci" if "ms_feeds s v = Some g" "g \<noteq> f" for v g
      using c that by (auto simp: claimed_def)
    consider "a = f" | "b = f" "a \<noteq> f" | "a \<noteq> f" "b \<noteq> f" by blast
    then show "mx_collID (ms_feed s' a) \<noteq> mx_collID (ms_feed s' b)"
    proof cases
      case 1
      then show ?thesis using new [OF ab'(2)] ab c by auto
    next
      case 2
      then show ?thesis using new [OF ab'(1)] c by auto
    next
      case 3
      then show ?thesis using assms(2) ab' ab ne c unfolding claims_ok_def by auto
    qed
  qed
qed (use assms(2) in simp)

lemma claims_create:
  "createFeed_claim a p f s = (s', r) \<Longrightarrow> claims_ok s \<Longrightarrow> claims_ok s'"
  by (auto simp: createFeed_claim_def dest: claims_claim split: sum.splits option.splits prod.splits)

lemma claims_open: "createFeed_open a o' h f s = (s', r) \<Longrightarrow> claims_less s s'"
  by (auto simp: createFeed_open_def split: option.splits)

lemma claims_refresh:
  assumes "refreshFeedColl b a p f s = (s', r)" and "claims_ok s"
  shows "claims_ok s'"
proof -
  have u: "claims_less x (mg_upd f (\<lambda>y. y\<lparr>mx_coll := Some h\<rparr>) x)" for x h by (rule claims_less_upd) simp
  from assms(1) consider "s' = s" | h r' where "claimFeedIdentity f (p h) s = (s', r')"
    | h r' z where "claimFeedIdentity f (p h) s = (z, r')" "s' = mg_upd f (\<lambda>y. y\<lparr>mx_coll := Some h\<rparr>) z"
    by (auto simp: refreshFeedColl_def split: if_splits sum.splits option.splits prod.splits)
  then show ?thesis
    using assms(2) claims_claim claims_kept [OF u] by cases blast+
qed

lemma mg_step_claims:
  assumes "mg_step w w'" and ok: "claims_ok (mw_store w)"
  shows "claims_ok (mw_store w')"
  using assms(1)
proof (cases rule: mg_step.cases)
  case (claim_fails f a p s er s' cause)
  with claims_create [OF claim_fails(4) ok] claims_kept [OF claims_less_retract [OF claim_fails(5)]] show ?thesis by simp
next
  case (open_fails f h a p s er s' cause)
  with claims_kept [OF claims_open [OF open_fails(3)] ok] claims_kept [OF claims_less_retract [OF open_fails(4)]]
  show ?thesis by simp
next
  case (start_claim_fails f p s er s' cause)
  with claims_claim [OF start_claim_fails(4) ok] claims_kept [OF claims_less_retract [OF start_claim_fails(5)]]
  show ?thesis by simp
next
  case (stops f)
  have "claims_less (mw_store w) (mg_signal f (mw_store w))" unfolding mg_signal_def by (rule claims_less_upd) simp
  with stops(1) ok claims_kept show ?thesis by simp
next
  case (closes s left)
  then have "ms_feeds s = Map.empty" by (auto simp: mg_stopFeeds_def)
  then show ?thesis by (simp add: closes(1) claims_ok_def)
qed (auto intro: ok claims_kept [OF claims_less_acquire ok] claims_kept [OF claims_less_release ok]
    claims_kept [OF claims_less_retract ok] claims_kept [OF claims_less_publish ok]
    claims_kept [OF claims_less_start ok] claims_kept [OF claims_open ok] claims_create [OF _ ok]
    claims_claim [OF _ ok] claims_refresh [OF _ ok])

lemma mg_runs_claims: "mg_runs coll w \<Longrightarrow> claims_ok (mw_store w)"
proof -
  assume "mg_runs coll w"
  then have "mg_step\<^sup>*\<^sup>* (new_mg_world coll) w" by (simp add: mg_runs_def)
  then show ?thesis
  proof (induction rule: rtranclp_induct)
    case base
    show ?case by (simp add: claims_ok_def new_mg_world_def new_mgstore_def)
  next
    case (step w w')
    then show ?case by (blast intro: mg_step_claims)
  qed
qed

subsection \<open>Two tenants\<close>

text \<open>A tenant is subscribed to from the first hold to the last, over a collection nobody has claimed.\<close>

definition up_feed :: "string \<Rightarrow> nat \<Rightarrow> collIdentity \<Rightarrow> mfeed" where
  "up_feed t h ci = \<lparr>mx_tenant = t, mx_coll = Some h, mx_collID = ci, mx_err = None, mx_readyClosed = True,
     mx_refs = 1, mx_reader = True, mx_signalled = False\<rparr>"

definition subscribed :: "string \<Rightarrow> nat \<Rightarrow> collIdentity \<Rightarrow> mg_world \<Rightarrow> mg_world" where
  "subscribed t h ci w =
     (let s = mw_store w; f = ms_next s in
      w\<lparr>mw_store := s\<lparr>ms_feeds := (ms_feeds s)(t \<mapsto> f), ms_feed := (ms_feed s)(f := up_feed t h ci), ms_next := f + 1\<rparr>,
        mw_holders := add_mset f (mw_holders w)\<rparr>)"

lemma subscribes:
  assumes t: "t \<noteq> []" and s: "\<not> ms_closing (mw_store w)" "ms_feeds (mw_store w) t = None"
    and c: "mw_creator w (ms_next (mw_store w)) = None"
    and free: "ci = unidentified \<or> (\<forall>u g. ms_feeds (mw_store w) u = Some g \<longrightarrow>
      g \<noteq> ms_next (mw_store w) \<longrightarrow> mx_collID (ms_feed (mw_store w) g) \<noteq> ci)"
  shows "mg_step\<^sup>*\<^sup>* w (subscribed t h ci w)"
proof -
  let ?s = "mw_store w" and ?f = "ms_next (mw_store w)"
  define x0 where "x0 = (new_mfeed t None)\<lparr>mx_refs := 1\<rparr>"
  define put_x where "put_x = (\<lambda>x. ?s\<lparr>ms_feeds := (ms_feeds ?s)(t \<mapsto> ?f), ms_feed := (ms_feed ?s)(?f := x), ms_next := ?f + 1\<rparr>)"
  define w1 where "w1 = w\<lparr>mw_store := put_x x0, mw_creator := (mw_creator w)(?f \<mapsto> Resolving)\<rparr>"
  define w2 where "w2 = w\<lparr>mw_store := put_x (x0\<lparr>mx_collID := ci\<rparr>), mw_creator := (mw_creator w)(?f \<mapsto> Claimed h)\<rparr>"
  define w3 where "w3 = w\<lparr>mw_store := put_x (x0\<lparr>mx_collID := ci, mx_coll := Some h\<rparr>), mw_creator := (mw_creator w)(?f \<mapsto> Opened)\<rparr>"
  have upd: "mg_upd ?f g (put_x x) = put_x (g x)" for g x by (simp add: put_x_def mg_upd_def modify_def)
  have feed: "ms_feed (put_x x) ?f = x" for x by (simp add: put_x_def)
  have x0: "mx_tenant x0 = t" "mx_collID x0 = unidentified" "x0\<lparr>mx_collID := unidentified\<rparr> = x0"
    by (simp_all add: x0_def new_mfeed_def)
  have 1: "mg_step w w1"
    unfolding w1_def
    by (rule mg_step.creating [where tenant = t])
      (use t s in \<open>simp add: mg_acquireFeed_def mg_reserve_def x0_def [symmetric] x0 put_x_def Let_def\<close>)
  have "\<not> claimed ?f ci (put_x x0) \<or> ci = unidentified" using free by (auto simp: claimed_def put_x_def split: if_splits)
  then have cl: "claimFeedIdentity ?f ci (put_x x0) = (put_x (x0\<lparr>mx_collID := ci\<rparr>), None)"
    by (auto simp: claimFeedIdentity_def upd x0(3))
  have 2: "mg_step w1 w2"
  proof (rule back_subst [of "mg_step w1", OF mg_step.claims])
    show "mw_creator w1 ?f = Some Resolving" by (simp add: w1_def)
    show "mx_tenant (ms_feed (mw_store w1) ?f) \<noteq> []" using t by (simp add: w1_def feed x0)
    show "createFeed_claim (Inr (Some h)) (\<lambda>_. ci) ?f (mw_store w1) = (put_x (x0\<lparr>mx_collID := ci\<rparr>), Inr h)"
      by (simp add: w1_def createFeed_claim_def cl)
  qed (simp add: w1_def w2_def)
  have 3: "mg_step w2 w3"
  proof (rule back_subst [of "mg_step w2", OF mg_step.opens])
    show "mw_creator w2 ?f = Some (Claimed h)" by (simp add: w2_def)
    show "createFeed_open None None h ?f (mw_store w2) = (put_x (x0\<lparr>mx_collID := ci, mx_coll := Some h\<rparr>), None)"
      by (simp add: w2_def createFeed_open_def upd)
  qed (simp add: w2_def w3_def)
  have 4: "mg_step w3 (subscribed t h ci w)"
  proof (rule back_subst [of "mg_step w3", OF mg_step.publishes])
    show "mw_creator w3 ?f = Some Opened" by (simp add: w3_def)
    show "mg_publishFeed ?f (mw_store w3) = (put_x (up_feed t h ci), None)"
      using s(1) t by (simp add: w3_def mg_publishFeed_def mg_closeReadyLocked_def upd)
        (simp add: put_x_def x0_def new_mfeed_def up_feed_def)
    show "w3\<lparr>mw_store := put_x (up_feed t h ci), mw_creator := (mw_creator w3)(?f := None),
        mw_holders := (if mx_tenant (ms_feed (put_x (up_feed t h ci)) ?f) = [] then mw_holders w3
          else add_mset ?f (mw_holders w3))\<rparr> = subscribed t h ci w"
      using c t by (simp add: w3_def feed subscribed_def Let_def put_x_def up_feed_def fun_upd_idem)
  qed
  from 1 2 3 4 show ?thesis by (meson converse_rtranclp_into_rtranclp rtranclp.rtrancl_refl)
qed

definition on_server :: "string \<Rightarrow> collIdentity" where
  "on_server db = \<lparr>ci_server = ''rs:prod'', ci_db = db, ci_coll = ''systemplane_entries''\<rparr>"

text \<open>\<open>two_tenants\<close> share a collection or not, and are told apart by the probe or not.\<close>

definition two_tenants :: "nat \<Rightarrow> collIdentity \<Rightarrow> nat \<Rightarrow> collIdentity \<Rightarrow> mg_world" where
  "two_tenants ha ia hb ib = subscribed ''b'' hb ib (subscribed ''a'' ha ia (new_mg_world None))"

lemma two_tenants_run:
  assumes "ib = unidentified \<or> ia \<noteq> ib"
  shows "mg_runs None (two_tenants ha ia hb ib)"
proof -
  let ?w = "subscribed ''a'' ha ia (new_mg_world None)"
  have "mg_step\<^sup>*\<^sup>* (new_mg_world None) ?w"
    by (rule subscribes) (simp_all add: new_mg_world_def new_mgstore_def)
  moreover have "mg_step\<^sup>*\<^sup>* ?w (two_tenants ha ia hb ib)"
    unfolding two_tenants_def
    by (rule subscribes) (use assms in \<open>auto simp: subscribed_def new_mg_world_def new_mgstore_def up_feed_def Let_def
        split: if_splits\<close>)
  ultimately show ?thesis by (simp add: mg_runs_def)
qed

lemma two_tenants_fields:
  "ms_feed (mw_store (two_tenants ha ia hb ib)) = (\<lambda>_. new_mfeed [] None)(0 := up_feed ''a'' ha ia, 1 := up_feed ''b'' hb ib)"
  "ms_feeds (mw_store (two_tenants ha ia hb ib)) = [''a'' \<mapsto> 0, ''b'' \<mapsto> 1]"
  "mw_stops (two_tenants ha ia hb ib) = {}" "mw_holders (two_tenants ha ia hb ib) = {#1, 0#}"
  "mw_waiters (two_tenants ha ia hb ib) = {#}" "\<not> ms_closing (mw_store (two_tenants ha ia hb ib))"
  by (simp_all add: two_tenants_def subscribed_def new_mg_world_def new_mgstore_def Let_def)

subsection \<open>The properties\<close>

text \<open>C34. The changefeeds of a MongoDB store refine those of a Postgres store. Every run of subscribing, claiming,
  opening, reopening, releasing and closing is, with the claimed collections forgotten, a run of the other's
  steps. So a tenant's feed that a subscription holds, in a store that is open, is the one tracked, has an
  unsignalled reader and a reference count that is exact; once no stop is pending, a feed with an unsignalled
  reader is the tracked one of its tenant and, unless it is the single-tenant feed, somebody holds or awaits
  it; and a waiter whose feed has no creator left finds its channel closed on a cause or a running reader.\<close>

theorem mongo_feeds_refine:
  assumes "mg_runs coll w"
  shows "pg_runs (abs_world w)
    \<and> (\<forall>f. f \<in># mw_holders w \<and> \<not> ms_closing (mw_store w) \<and> mx_tenant (ms_feed (mw_store w) f) \<noteq> []
        \<longrightarrow> ms_feeds (mw_store w) (mx_tenant (ms_feed (mw_store w) f)) = Some f \<and> mx_reader (ms_feed (mw_store w) f)
          \<and> \<not> mx_signalled (ms_feed (mw_store w) f)
          \<and> mx_refs (ms_feed (mw_store w) f) = int (count (mw_holders w) f) + int (count (mw_waiters w) f))
    \<and> (\<forall>f. mw_stops w = {} \<and> mx_reader (ms_feed (mw_store w) f) \<and> \<not> mx_signalled (ms_feed (mw_store w) f)
        \<longrightarrow> ms_feeds (mw_store w) (mx_tenant (ms_feed (mw_store w) f)) = Some f
          \<and> (mx_tenant (ms_feed (mw_store w) f) = [] \<or> f \<in># mw_holders w \<or> f \<in># mw_waiters w))
    \<and> (\<forall>f. f \<in># mw_waiters w \<and> mw_creator w f = None
        \<longrightarrow> mx_readyClosed (ms_feed (mw_store w) f)
          \<and> (mx_err (ms_feed (mw_store w) f) \<noteq> None \<or> mx_reader (ms_feed (mw_store w) f)))"
proof -
  from mg_runs_abs [OF assms] have r: "pg_runs (abs_world w)" .
  note sl = run_slot [OF r]
  have 1: "ms_feeds (mw_store w) (mx_tenant (ms_feed (mw_store w) f)) = Some f \<and> mx_reader (ms_feed (mw_store w) f)
      \<and> \<not> mx_signalled (ms_feed (mw_store w) f)
      \<and> mx_refs (ms_feed (mw_store w) f) = int (count (mw_holders w) f) + int (count (mw_waiters w) f)"
    if "f \<in># mw_holders w" "\<not> ms_closing (mw_store w)" "mx_tenant (ms_feed (mw_store w) f) \<noteq> []" for f
    using sl [of f] that by (auto simp: slot_def in_map_def split: if_splits)
  have 2: "ms_feeds (mw_store w) (mx_tenant (ms_feed (mw_store w) f)) = Some f
      \<and> (mx_tenant (ms_feed (mw_store w) f) = [] \<or> f \<in># mw_holders w \<or> f \<in># mw_waiters w)"
    if "mw_stops w = {}" "mx_reader (ms_feed (mw_store w) f)" "\<not> mx_signalled (ms_feed (mw_store w) f)" for f
    using sl [of f] that
    by (auto simp: slot_def in_map_def split: if_splits simp flip: count_greater_zero_iff)
  have 3: "mx_readyClosed (ms_feed (mw_store w) f)
      \<and> (mx_err (ms_feed (mw_store w) f) \<noteq> None \<or> mx_reader (ms_feed (mw_store w) f))"
    if "f \<in># mw_waiters w" "mw_creator w f = None" for f
    using sl [of f] that by (auto simp: slot_def)
  from r 1 2 3 show ?thesis by blast
qed

theorem mongo_feeds_refine_witness:
  "pg_runs (abs_world (two_tenants 7 (on_server ''x'') 8 (on_server ''y'')))
   \<and> mx_refs (ms_feed (mw_store (two_tenants 7 (on_server ''x'') 8 (on_server ''y''))) 0) = 1"
proof -
  have "mg_runs None (two_tenants 7 (on_server ''x'') 8 (on_server ''y''))"
    by (rule two_tenants_run) (simp add: on_server_def)
  from mongo_feeds_refine [OF this] show ?thesis by (simp add: two_tenants_fields up_feed_def)
qed

text \<open>No two scopes of a MongoDB store claim one identified collection: two feeds with readers nobody has
  signalled, once no stop is pending, are of different tenants, and if the server of one of them said who it is
  their claims differ, through every reopen and re-claim. A feed whose server did not say watches its
  collection under no claim, so another may watch it too.\<close>

theorem one_feed_per_collection:
  assumes "mg_runs coll w" and "mw_stops w = {}" and "f \<noteq> g"
    and "mx_reader (ms_feed (mw_store w) f)" and "\<not> mx_signalled (ms_feed (mw_store w) f)"
    and "mx_reader (ms_feed (mw_store w) g)" and "\<not> mx_signalled (ms_feed (mw_store w) g)"
  shows "mx_tenant (ms_feed (mw_store w) f) \<noteq> mx_tenant (ms_feed (mw_store w) g)
    \<and> (mx_collID (ms_feed (mw_store w) f) = unidentified
       \<or> mx_collID (ms_feed (mw_store w) f) \<noteq> mx_collID (ms_feed (mw_store w) g))"
proof -
  note sl = run_slot [OF mg_runs_abs [OF assms(1)]]
  have f: "ms_feeds (mw_store w) (mx_tenant (ms_feed (mw_store w) f)) = Some f"
    and g: "ms_feeds (mw_store w) (mx_tenant (ms_feed (mw_store w) g)) = Some g"
    using sl [of f] sl [of g] assms(2-) by (auto simp: slot_def in_map_def)
  with mg_runs_claims [OF assms(1)] assms(3) show ?thesis unfolding claims_ok_def by (metis option.inject)
qed

theorem one_feed_per_collection_witness:
  "mx_collID (ms_feed (mw_store (two_tenants 7 (on_server ''x'') 8 (on_server ''y''))) 0) = on_server ''x''
   \<and> on_server ''x'' \<noteq> on_server ''y''"
proof -
  have "mg_runs None (two_tenants 7 (on_server ''x'') 8 (on_server ''y''))"
    by (rule two_tenants_run) (simp add: on_server_def)
  from one_feed_per_collection [OF this, of 0 1] show ?thesis
    by (simp add: two_tenants_fields up_feed_def) (simp add: on_server_def unidentified_def)
qed

text \<open>C35. A probe that goes unanswered lets two scopes onto one collection. Two tenants the connector routes to the
  same collection are both served, each by a running tracked reader over it in an open store, when \<open>hello\<close> does
  not say who the server is and the streams open all the same.\<close>

theorem unidentified_feeds_share:
  "mg_runs None (two_tenants 7 unidentified 7 unidentified)
   \<and> mx_coll (ms_feed (mw_store (two_tenants 7 unidentified 7 unidentified)) 0) = Some 7
   \<and> mx_coll (ms_feed (mw_store (two_tenants 7 unidentified 7 unidentified)) 1) = Some 7
   \<and> mx_reader (ms_feed (mw_store (two_tenants 7 unidentified 7 unidentified)) 0)
   \<and> mx_reader (ms_feed (mw_store (two_tenants 7 unidentified 7 unidentified)) 1)
   \<and> ms_feeds (mw_store (two_tenants 7 unidentified 7 unidentified)) = [''a'' \<mapsto> 0, ''b'' \<mapsto> 1]
   \<and> \<not> ms_closing (mw_store (two_tenants 7 unidentified 7 unidentified))"
  using two_tenants_run [of unidentified unidentified 7 7] by (simp add: two_tenants_fields up_feed_def)

end
