(* ===== verification/Admin.thy ===== *)
theory Admin
  imports Client_Ops
begin

text \<open>
  The admin routes (\<^verbatim>\<open>admin/admin.go\<close>, \<^verbatim>\<open>admin_responses.go\<close>). Fiber is outside: a request is what the
  handlers ask of it (its context, its path parameters, empty when the route has none of that name, and its
  bound body), and an answer is what they write or return. The consumer's authorizer and actor extractor
  return or panic.
\<close>

subsection \<open>Path segments\<close>

text \<open>\<^verbatim>\<open>net/url\<close>'s \<open>PathEscape\<close> and \<open>PathUnescape\<close>, byte by byte.\<close>

definition segment_plain :: "char \<Rightarrow> bool" where
  "segment_plain ch =
     (let d = of_char ch :: nat in
      48 \<le> d \<and> d \<le> 57 \<or> 65 \<le> d \<and> d \<le> 90 \<or> 97 \<le> d \<and> d \<le> 122 \<or> ch \<in> set ''-_.~$&+=:@'')"

definition upperhex :: "nat \<Rightarrow> char" where
  "upperhex n = (if n < 10 then char_of (48 + n) else char_of (55 + n))"

definition unhex :: "char \<Rightarrow> nat option" where
  "unhex ch =
     (let d = of_char ch :: nat in
      if 48 \<le> d \<and> d \<le> 57 then Some (d - 48)
      else if 97 \<le> d \<and> d \<le> 102 then Some (d - 87)
      else if 65 \<le> d \<and> d \<le> 70 then Some (d - 55)
      else None)"

definition percent :: char where "percent = CHR ''%''"

fun PathEscape :: "string \<Rightarrow> string" where
  "PathEscape [] = []"
| "PathEscape (ch # s) =
     (if segment_plain ch then ch # PathEscape s
      else percent # upperhex (of_char ch div 16) # upperhex (of_char ch mod 16) # PathEscape s)"

fun PathUnescape :: "string \<Rightarrow> string option" where
  "PathUnescape [] = Some []"
| "PathUnescape (ch # s) =
     (if ch \<noteq> percent then map_option (Cons ch) (PathUnescape s)
      else case s of
        a # b # rest \<Rightarrow>
          (case (unhex a, unhex b) of
             (Some i, Some j) \<Rightarrow> map_option (Cons (char_of (16 * i + j))) (PathUnescape rest)
           | _ \<Rightarrow> None)
      | _ \<Rightarrow> None)"

definition normalizePathPrefix :: "string \<Rightarrow> string" where
  "normalizePathPrefix pre =
     rev (dropWhile (\<lambda>ch. ch = CHR ''/'') (rev (if take 1 pre = ''/'' then pre else ''/'' @ pre)))"

definition catalogPathPrefix :: "string \<Rightarrow> string" where
  "catalogPathPrefix pre = pre @ ''/-/catalog''"

definition catalogDetailPath :: "string \<Rightarrow> string \<Rightarrow> string \<Rightarrow> string" where
  "catalogDetailPath pre ns key = catalogPathPrefix pre @ ''/'' @ PathEscape ns @ ''/'' @ PathEscape key"

definition valuePath :: "string \<Rightarrow> string \<Rightarrow> string \<Rightarrow> string" where
  "valuePath pre ns key = pre @ ''/'' @ PathEscape ns @ ''/'' @ PathEscape key"

subsection \<open>Requests, options and answers\<close>

text \<open>\<open>rq_body\<close>: what binding the body gives: an error, no value field, or the field's raw bytes.\<close>

record request =
  rq_ctx :: "ctx option"
  rq_namespace :: string
  rq_key :: string
  rq_wild :: string
  rq_body :: "bytes option option"

datatype 'a called = Returned 'a | Panicked

record mountConfig =
  mt_pathPrefix :: string
  mt_authorizer :: "request \<Rightarrow> string \<Rightarrow> err option called"
  mt_actorExtractor :: "request \<Rightarrow> string called"
  mt_returnErrors :: bool

definition defaultMountConfig :: mountConfig where
  "defaultMountConfig = \<lparr>mt_pathPrefix = ''/system'',
     mt_authorizer = (\<lambda>_ _. Returned (Some (Sentinel (Foreign ''no authorizer configured'')))),
     mt_actorExtractor = (\<lambda>_. Returned []), mt_returnErrors = False\<rparr>"

datatype mount_option =
    WithPathPrefix string
  | WithAuthorizer "(request \<Rightarrow> string \<Rightarrow> err option called) option"
  | WithActorExtractor "(request \<Rightarrow> string called) option"
  | WithReturnedErrors

fun mount_option_on :: "mount_option \<Rightarrow> mountConfig \<Rightarrow> mountConfig" where
  "mount_option_on (WithPathPrefix p) cfg = (if p \<noteq> [] then cfg\<lparr>mt_pathPrefix := p\<rparr> else cfg)"
| "mount_option_on (WithAuthorizer None) cfg = cfg"
| "mount_option_on (WithAuthorizer (Some fn)) cfg = cfg\<lparr>mt_authorizer := fn\<rparr>"
| "mount_option_on (WithActorExtractor None) cfg = cfg"
| "mount_option_on (WithActorExtractor (Some fn)) cfg = cfg\<lparr>mt_actorExtractor := fn\<rparr>"
| "mount_option_on WithReturnedErrors cfg = cfg\<lparr>mt_returnErrors := True\<rparr>"

definition mount_config :: "mount_option option list \<Rightarrow> mountConfig" where
  "mount_config opts =
     fold (\<lambda>o' cfg. case o' of None \<Rightarrow> cfg | Some x \<Rightarrow> mount_option_on x cfg) opts defaultMountConfig"

record entryResponse =
  er_key :: string
  er_value :: json
  er_description :: string
  er_rev :: int
  er_at :: "time option"
  er_by :: string
  er_stale :: bool

datatype answer =
    Wrote_Error nat string string
  | Returned_Refusal nat string string
  | Wrote_List string "entryResponse list"
  | Wrote_Entry string entryResponse
  | No_Content

definition respondError :: "mountConfig \<Rightarrow> nat \<Rightarrow> string \<Rightarrow> string \<Rightarrow> answer" where
  "respondError cfg status title message =
     (if \<not> mt_returnErrors cfg then Wrote_Error status title message else Returned_Refusal status title message)"

definition mapSentinelErr :: "mountConfig \<Rightarrow> err \<Rightarrow> answer" where
  "mapSentinelErr cfg er =
     (if err_is er ErrUnknownKey then respondError cfg 400 ''unknown_key'' ''key is not registered''
      else if err_is er ErrValidation then respondError cfg 400 ''validation_error'' ''value rejected by validator''
      else if err_is er ErrTenantConnectionMissing
      then respondError cfg 400 ''tenant_connection_missing'' ''tenant database missing from request context''
      else if err_is er ErrNilContext then respondError cfg 400 ''nil_context'' ''request context is nil''
      else if err_is er ErrNotStarted \<or> err_is er Client_ErrClosed
      then respondError cfg 503 ''service_unavailable'' ''configuration service is not available''
      else if err_is er ErrNotSupportedInMultiTenant
      then respondError cfg 400 ''not_supported'' ''operation is not supported in multi-tenant mode''
      else respondError cfg 500 ''internal_error'' ''request failed'')"

definition nilIfZeroTime :: "time \<Rightarrow> time option" where
  "nilIfZeroTime t = (if t = zero_time then None else Some t)"

subsection \<open>Guards\<close>

definition maxNamespaceLen :: nat where "maxNamespaceLen = 256"
definition maxKeyLen :: nat where "maxKeyLen = 512"

text \<open>\<open>None\<close> lets the next handler run.\<close>

definition validateNamespaceParam :: "mountConfig \<Rightarrow> request \<Rightarrow> answer option" where
  "validateNamespaceParam cfg rq =
     (if maxNamespaceLen < length (rq_namespace rq)
      then Some (respondError cfg 400 ''validation_error'' ''namespace exceeds maximum length of 256'') else None)"

definition validateParamLengths :: "mountConfig \<Rightarrow> string \<Rightarrow> string \<Rightarrow> answer option" where
  "validateParamLengths cfg ns key =
     (if maxNamespaceLen < length ns
      then Some (respondError cfg 400 ''validation_error'' ''namespace exceeds maximum length of 256'')
      else if maxKeyLen < length key
      then Some (respondError cfg 400 ''validation_error'' ''key exceeds maximum length of 512'') else None)"

definition validatePathParams :: "mountConfig \<Rightarrow> request \<Rightarrow> answer option" where
  "validatePathParams cfg rq = validateParamLengths cfg (rq_namespace rq) (rq_key rq)"

definition validateWildcardPathParams :: "mountConfig \<Rightarrow> request \<Rightarrow> answer option" where
  "validateWildcardPathParams cfg rq = validateParamLengths cfg (rq_namespace rq) (rq_wild rq)"

definition callAuthorizer :: "mountConfig \<Rightarrow> string \<Rightarrow> request \<Rightarrow> err option" where
  "callAuthorizer cfg action rq =
     (case mt_authorizer cfg rq action of
        Returned r \<Rightarrow> r | Panicked \<Rightarrow> Some (Sentinel (Foreign ''authorizer panicked'')))"

definition authorize :: "mountConfig \<Rightarrow> string \<Rightarrow> request \<Rightarrow> answer option" where
  "authorize cfg action rq =
     (case callAuthorizer cfg action rq of
        Some er \<Rightarrow> Some (respondError cfg 403 ''forbidden'' ''forbidden'') | None \<Rightarrow> None)"

definition extractActor :: "mountConfig \<Rightarrow> request \<Rightarrow> err + string" where
  "extractActor cfg rq =
     (case mt_actorExtractor cfg rq of
        Returned a \<Rightarrow> Inr a | Panicked \<Rightarrow> Inl (Sentinel (Foreign ''actor extractor panicked'')))"

subsection \<open>Handlers\<close>

definition routeKeyParam :: "request \<Rightarrow> string" where
  "routeKeyParam rq = (if rq_key rq \<noteq> [] then rq_key rq else rq_wild rq)"

definition pathParamCandidates :: "string \<Rightarrow> string list" where
  "pathParamCandidates raw =
     (case PathUnescape raw of None \<Rightarrow> [raw] | Some d \<Rightarrow> if d = raw then [raw] else [raw, d])"

definition registeredPathParams :: "client \<Rightarrow> request \<Rightarrow> string \<times> string" where
  "registeredPathParams c rq =
     (case find (\<lambda>(ns, key). IsRegistered ns key c)
        (List.product (pathParamCandidates (rq_namespace rq)) (pathParamCandidates (routeKeyParam rq))) of
        Some p \<Rightarrow> p | None \<Rightarrow> (rq_namespace rq, routeKeyParam rq))"

definition entry_response :: "string \<Rightarrow> string \<Rightarrow> Entry \<Rightarrow> entryResponse" where
  "entry_response key description e =
     \<lparr>er_key = key, er_value = pe_value e, er_description = description, er_rev = pe_rev e,
       er_at = nilIfZeroTime (pe_at e), er_by = pe_by e, er_stale = pe_stale e\<rparr>"

definition handleGetOne :: "mountConfig \<Rightarrow> time \<Rightarrow> read_answer \<Rightarrow> request \<Rightarrow> client \<Rightarrow> client \<times> bool \<times> answer" where
  "handleGetOne cfg now ans rq c =
     (let (ns, key) = registeredPathParams c rq in
      case getEntry now (rq_ctx rq) ns key ans c of
        (c', started, e, ok, Some er) \<Rightarrow> (c', started, mapSentinelErr cfg er)
      | (c', started, e, False, None) \<Rightarrow> (c', started, respondError cfg 404 ''not_found'' ''key not found'')
      | (c', started, e, True, None) \<Rightarrow>
          (c', started, Wrote_Entry ns (entry_response key (KeyDescription ns key c') e)))"

text \<open>
  A listing reads the keys \<open>List\<close> names one by one; \<open>meanwhile\<close> is what the rest of the process does before each
  read and \<open>ans\<close> what the store answers it.
\<close>

fun list_entries ::
  "mountConfig \<Rightarrow> time \<Rightarrow> ctx option \<Rightarrow> string \<Rightarrow> (string \<Rightarrow> client \<Rightarrow> client) \<Rightarrow> (string \<Rightarrow> read_answer) \<Rightarrow>
     ListEntry list \<Rightarrow> client \<Rightarrow> client \<times> (answer + entryResponse list)"
where
  "list_entries cfg now x ns meanwhile ans [] c = (c, Inr [])"
| "list_entries cfg now x ns meanwhile ans (e # es) c =
     (case getEntry now x ns (le_key e) (ans (le_key e)) (meanwhile (le_key e) c) of
        (c', _, _, _, Some er) \<Rightarrow> (c', Inl (mapSentinelErr cfg er))
      | (c', _, ent, ok, None) \<Rightarrow>
          (case list_entries cfg now x ns meanwhile ans es c' of
             (c'', Inl a) \<Rightarrow> (c'', Inl a)
           | (c'', Inr rs) \<Rightarrow>
               (c'', Inr (if ok then entry_response (le_key e) (le_description e) ent # rs else rs))))"

definition handleList ::
  "mountConfig \<Rightarrow> time \<Rightarrow> err + row list \<Rightarrow> (string \<Rightarrow> client \<Rightarrow> client) \<Rightarrow> (string \<Rightarrow> read_answer) \<Rightarrow> request \<Rightarrow>
     client \<Rightarrow> client \<times> answer"
where
  "handleList cfg now listed meanwhile ans rq c =
     (case client_List now (rq_ctx rq) (rq_namespace rq) listed c of
        (c', _, Inl er) \<Rightarrow> (c', mapSentinelErr cfg er)
      | (c', _, Inr entries) \<Rightarrow>
          (case list_entries cfg now (rq_ctx rq) (rq_namespace rq) meanwhile ans entries c' of
             (c'', Inl a) \<Rightarrow> (c'', a)
           | (c'', Inr rs) \<Rightarrow> (c'', Wrote_List (rq_namespace rq) rs)))"

definition decodePutValue :: "(bytes \<Rightarrow> json option) \<Rightarrow> request \<Rightarrow> string + json" where
  "decodePutValue um rq =
     (case rq_body rq of
        None \<Rightarrow> Inl ''invalid request body''
      | Some None \<Rightarrow> Inl ''missing value field''
      | Some (Some raw) \<Rightarrow> (case um raw of None \<Rightarrow> Inl ''invalid value'' | Some v \<Rightarrow> Inr v))"

text \<open>\<open>marshal\<close> is \<open>json.Marshal\<close> as \<open>Set\<close> calls it; \<open>during\<close> and \<open>ans\<close> are those of \<open>Set\<close>. The flag says the
  store was called.\<close>

definition handlePut ::
  "mountConfig \<Rightarrow> (json \<Rightarrow> err + bytes) \<Rightarrow> time \<Rightarrow> (client \<Rightarrow> client) \<Rightarrow> set_answer \<Rightarrow> request \<Rightarrow> client \<Rightarrow>
     client \<times> bool \<times> answer"
where
  "handlePut cfg marshal now during ans rq c =
     (let (ns, key) = registeredPathParams c rq in
      case decodePutValue (e_unmarshal (cl_engine c)) rq of
        Inl msg \<Rightarrow> (c, False, respondError cfg 400 ''bad_request'' msg)
      | Inr v \<Rightarrow>
          (case extractActor cfg rq of
             Inl er \<Rightarrow> (c, False, mapSentinelErr cfg er)
           | Inr actor \<Rightarrow>
               (case client_Set (rq_ctx rq) ns key (marshal v) actor now during ans c of
                  (c', called, Some er) \<Rightarrow> (c', called, mapSentinelErr cfg er)
                | (c', called, None) \<Rightarrow> (c', called, No_Content))))"

definition handleDelete ::
  "mountConfig \<Rightarrow> (client \<Rightarrow> client) \<Rightarrow> (string \<Rightarrow> delete_answer) \<Rightarrow> request \<Rightarrow> client \<Rightarrow> client \<times> bool \<times> answer"
where
  "handleDelete cfg during ans rq c =
     (let (ns, key) = registeredPathParams c rq in
      case extractActor cfg rq of
        Inl er \<Rightarrow> (c, False, mapSentinelErr cfg er)
      | Inr actor \<Rightarrow>
          (case client_Delete (rq_ctx rq) ns key during (ans actor) c of
             (c', called, Some er) \<Rightarrow> (c', called, mapSentinelErr cfg er)
           | (c', called, None) \<Rightarrow> (c', called, No_Content)))"

subsection \<open>Routes\<close>

text \<open>A route runs its guards in order; \<open>wild\<close> says it is the one that ends in a star.\<close>

definition guarded ::
  "mountConfig \<Rightarrow> bool \<Rightarrow> string \<Rightarrow> (request \<Rightarrow> client \<Rightarrow> client \<times> bool \<times> answer) \<Rightarrow> request \<Rightarrow> client \<Rightarrow>
     client \<times> bool \<times> answer"
where
  "guarded cfg wild action handler rq c =
     (case (if wild then validateWildcardPathParams cfg rq else validatePathParams cfg rq) of
        Some a \<Rightarrow> (c, False, a)
      | None \<Rightarrow>
          (case authorize cfg action rq of
             Some a \<Rightarrow> (c, False, a)
           | None \<Rightarrow> handler rq c))"

definition get_route ::
  "mountConfig \<Rightarrow> bool \<Rightarrow> time \<Rightarrow> read_answer \<Rightarrow> request \<Rightarrow> client \<Rightarrow> client \<times> bool \<times> answer" where
  "get_route cfg wild now ans = guarded cfg wild ''read'' (handleGetOne cfg now ans)"

definition put_route ::
  "mountConfig \<Rightarrow> bool \<Rightarrow> (json \<Rightarrow> err + bytes) \<Rightarrow> time \<Rightarrow> (client \<Rightarrow> client) \<Rightarrow> set_answer \<Rightarrow> request \<Rightarrow> client \<Rightarrow>
     client \<times> bool \<times> answer" where
  "put_route cfg wild marshal now during ans = guarded cfg wild ''write'' (handlePut cfg marshal now during ans)"

definition delete_route ::
  "mountConfig \<Rightarrow> bool \<Rightarrow> (client \<Rightarrow> client) \<Rightarrow> (string \<Rightarrow> delete_answer) \<Rightarrow> request \<Rightarrow> client \<Rightarrow> client \<times> bool \<times> answer"
where
  "delete_route cfg wild during ans = guarded cfg wild ''write'' (handleDelete cfg during ans)"

definition list_route ::
  "mountConfig \<Rightarrow> time \<Rightarrow> err + row list \<Rightarrow> (string \<Rightarrow> client \<Rightarrow> client) \<Rightarrow> (string \<Rightarrow> read_answer) \<Rightarrow> request \<Rightarrow>
     client \<Rightarrow> client \<times> answer"
where
  "list_route cfg now listed meanwhile ans rq c =
     (case validateNamespaceParam cfg rq of
        Some a \<Rightarrow> (c, a)
      | None \<Rightarrow>
          (case authorize cfg ''read'' rq of
             Some a \<Rightarrow> (c, a) | None \<Rightarrow> handleList cfg now listed meanwhile ans rq c))"

end
