(* ===== verification/Admin_Theorems.thy ===== *)
theory Admin_Theorems
  imports Admin Client_Theorems
begin

text \<open>
  What an operator of the admin routes relies on: paths the catalog advertises, writes only by allowed
  and named callers, and a write answered with success that the next read of the same path serves.
\<close>

subsection \<open>Path segments\<close>

lemma of_char_less: "(of_char ch :: nat) < 256"
  by (rule nat_of_char_less_256)

lemma of_upperhex: "n < 16 \<Longrightarrow> of_char (upperhex n) = (if n < 10 then 48 + n else 55 + n)"
  by (simp add: upperhex_def)

lemma unhex_upperhex [simp]: "n < 16 \<Longrightarrow> unhex (upperhex n) = Some n"
  by (simp add: unhex_def of_upperhex)

lemma upperhex_no_slash: "n < 16 \<Longrightarrow> upperhex n \<noteq> CHR ''/''"
  using of_upperhex [of n] by (auto split: if_splits)

lemma percent_not_plain: "segment_plain ch \<Longrightarrow> ch \<noteq> percent"
  by (auto simp: segment_plain_def percent_def)

lemma hex_digits:
  "of_char ch div 16 < (16::nat)" "of_char ch mod 16 < (16::nat)"
  "char_of (16 * (of_char ch div 16) + of_char ch mod (16::nat)) = ch"
  using of_char_less [of ch] by (simp_all add: less_mult_imp_div_less)

text \<open>Decoding undoes the escape, and an escape is one path segment.\<close>

lemma PathUnescape_PathEscape [simp]: "PathUnescape (PathEscape s) = Some s"
proof (induction s)
  case (Cons ch s)
  then show ?case using percent_not_plain [of ch] by (simp add: hex_digits)
qed simp

lemma PathEscape_no_slash: "CHR ''/'' \<notin> set (PathEscape s)"
proof (induction s)
  case (Cons ch s)
  have "segment_plain ch \<Longrightarrow> ch \<noteq> CHR ''/''" by (auto simp: segment_plain_def)
  with Cons upperhex_no_slash [OF hex_digits(1), of ch] upperhex_no_slash [OF hex_digits(2), of ch]
  show ?case by (auto simp: percent_def)
qed simp

lemma PathEscape_Nil [simp]: "PathEscape s = [] \<longleftrightarrow> s = []"
  by (cases s) simp_all

lemma pathParamCandidates_escape: "set (pathParamCandidates (PathEscape s)) = {PathEscape s, s}"
  using PathUnescape_PathEscape [of s] by (simp add: pathParamCandidates_def insert_commute del: PathUnescape_PathEscape)

lemma find_only:
  assumes "p \<in> set ps" and "P p" and "\<And>q. q \<in> set ps \<Longrightarrow> P q \<Longrightarrow> q = p"
  shows "find P ps = Some p"
proof (cases "find P ps")
  case None
  with assms(1,2) show ?thesis by (auto simp: find_None_iff)
next
  case (Some q)
  then have "q \<in> set ps" "P q" by (auto simp: find_Some_iff)
  with Some assms(3) show ?thesis by simp
qed

text \<open>The parameters of a path decide the key, whatever else the request carries.\<close>

definition same_path :: "request \<Rightarrow> request \<Rightarrow> bool" where
  "same_path rq rq' \<longleftrightarrow>
     rq_namespace rq' = rq_namespace rq \<and> rq_key rq' = rq_key rq \<and> rq_wild rq' = rq_wild rq"

lemma registeredPathParams_cong:
  assumes "same_path rq rq'" and "cl_registry c' = cl_registry c" and "cl_closed c' = cl_closed c"
  shows "registeredPathParams c' rq' = registeredPathParams c rq"
proof -
  have reg: "IsRegistered = (\<lambda>ns key c. \<not> cl_closed c \<and> fmlookup (cl_registry c) (NSKey ns key) \<noteq> None)"
    by (simp add: IsRegistered_def fun_eq_iff)
  show ?thesis
    using assms by (simp only: registeredPathParams_def same_path_def routeKeyParam_def reg)
qed

text \<open>A request whose path parameters are the escaped segments the catalog advertises for a
  registered key reaches that key, as long as no other registered key is spelled like the escape of its
  namespace or key; and an escaped segment never holds a slash, so the path has the two segments it was built of.\<close>

lemma advertised_path_resolves:
  assumes "IsRegistered ns key c" and "key \<noteq> []"
    and "rq_namespace rq = PathEscape ns" and "rq_key rq = PathEscape key"
    and "\<And>ns' key'. ns' = ns \<or> ns' = PathEscape ns \<Longrightarrow> key' = key \<or> key' = PathEscape key \<Longrightarrow>
      IsRegistered ns' key' c \<Longrightarrow> ns' = ns \<and> key' = key"
  shows "registeredPathParams c rq = (ns, key)
    \<and> valuePath p ns key = p @ ''/'' @ rq_namespace rq @ ''/'' @ rq_key rq
    \<and> CHR ''/'' \<notin> set (rq_namespace rq) \<and> CHR ''/'' \<notin> set (rq_key rq)"
proof -
  have "find (\<lambda>(ns, key). IsRegistered ns key c)
      (List.product (pathParamCandidates (PathEscape ns)) (pathParamCandidates (PathEscape key))) = Some (ns, key)"
    by (rule find_only) (use assms(1,5) in \<open>auto simp: pathParamCandidates_escape\<close>)
  then show ?thesis
    using assms(2-4) by (simp add: registeredPathParams_def routeKeyParam_def valuePath_def PathEscape_no_slash)
qed

text \<open>A request of the sample client's key, and routes that let everyone in under the actor ``op''.\<close>

definition sample_request :: "string \<Rightarrow> string \<Rightarrow> request" where
  "sample_request ns key = \<lparr>rq_ctx = Some acme, rq_namespace = ns, rq_key = key, rq_wild = [],
     rq_body = Some (Some ''6'')\<rparr>"

definition open_config :: mountConfig where
  "open_config = mount_config [Some (WithAuthorizer (Some (\<lambda>_ _. Returned None))),
     Some (WithActorExtractor (Some (\<lambda>_. Returned ''op'')))]"

lemma open_config_simps [simp]:
  "mt_authorizer open_config = (\<lambda>_ _. Returned None)"
  "mt_actorExtractor open_config = (\<lambda>_. Returned ''op'')"
  by (simp_all add: open_config_def mount_config_def)

lemma sample_params:
  "registeredPathParams (sample_client m) (sample_request ''app'' ''limit'') = (''app'', ''limit'')"
proof -
  have "pathParamCandidates ''app'' = [''app'']" "pathParamCandidates ''limit'' = [''limit'']" by code_simp+
  then show ?thesis
    by (simp add: registeredPathParams_def sample_request_def routeKeyParam_def IsRegistered_def)
qed

lemma advertised_path_resolves_witness:
  "registeredPathParams (sample_client False) (sample_request ''app'' ''limit'') = (''app'', ''limit'')"
proof -
  have plain: "PathEscape ''app'' = ''app''" "PathEscape ''limit'' = ''limit''" by code_simp+
  then show ?thesis
    using advertised_path_resolves [of "''app''" "''limit''" "sample_client False"
        "sample_request ''app'' ''limit''" "''/system''"]
    by (simp add: IsRegistered_def sample_request_def)
qed

subsection \<open>Writes\<close>

lemma callAuthorizer_None [simp]:
  "callAuthorizer cfg action rq = None \<longleftrightarrow> mt_authorizer cfg rq action = Returned None"
  by (auto simp: callAuthorizer_def split: called.splits)

lemma respondError_not_done [simp]:
  "respondError cfg st ti ms \<noteq> No_Content" "mapSentinelErr cfg er \<noteq> No_Content"
  by (simp_all add: mapSentinelErr_def respondError_def)

definition within_limits :: "bool \<Rightarrow> request \<Rightarrow> bool" where
  "within_limits wild rq \<longleftrightarrow> length (rq_namespace rq) \<le> 256 \<and> length (if wild then rq_wild rq else rq_key rq) \<le> 512"

lemma guarded_cases:
  "guarded cfg wild action handler rq c =
     (if \<not> within_limits wild rq then (c, False, respondError cfg 400 ''validation_error''
        (if 256 < length (rq_namespace rq) then ''namespace exceeds maximum length of 256''
         else ''key exceeds maximum length of 512''))
      else if mt_authorizer cfg rq action = Returned None then handler rq c
      else (c, False, respondError cfg 403 ''forbidden'' ''forbidden''))"
  by (auto simp: guarded_def within_limits_def validateWildcardPathParams_def validatePathParams_def
      validateParamLengths_def maxNamespaceLen_def maxKeyLen_def authorize_def callAuthorizer_def
      split: called.splits option.splits)

lemma guarded_passed:
  assumes "guarded cfg wild action handler rq c = (c', called, a)" and "called \<or> a = No_Content"
  shows "within_limits wild rq \<and> mt_authorizer cfg rq action = Returned None \<and> handler rq c = (c', called, a)"
  using assms by (auto simp: guarded_cases split: if_splits)





lemma sample_put:
  obtains c' where "put_route open_config False (\<lambda>_. Inr ''6'') 7 (\<lambda>c. c) (Stored 4) (sample_request ''app'' ''limit'')
      (sample_client False) = (c', True, No_Content)"
    and "decodePutValue sample_decoder (sample_request ''app'' ''limit'') = Inr (JStr ''6'')" and "\<not> cl_closed c'"
proof -
  let ?rq = "sample_request ''app'' ''limit''"
  from sample_Set obtain c' where c': "client_Set (Some acme) ''app'' ''limit'' (Inr ''6'') ''op'' 7
      (\<lambda>c. c) (Stored 4) (sample_client False) = (c', True, None)" "\<not> cl_closed c'" by blast
  have body: "decodePutValue sample_decoder ?rq = Inr (JStr ''6'')"
    by (simp add: decodePutValue_def sample_request_def sample_decoder_def)
  have "put_route open_config False (\<lambda>_. Inr ''6'') 7 (\<lambda>c. c) (Stored 4) ?rq (sample_client False)
      = (c', True, No_Content)"
    using c'(1) sample_params [of False] body
    by (simp add: put_route_def guarded_cases handlePut_def extractActor_def within_limits_def sample_request_def)
  from that [OF this body c'(2)] show thesis .
qed


text \<open>C36. What an operator writes is what the operator reads. When a PUT is answered 204 after the store
  took the row at revision \<open>n\<close>, a later GET of the same path by the same caller, let in by the
  authorizer, answers the key's entry: the value of the body at revision \<open>n\<close>, or a newer revision; for a
  value whose JSON bytes decode to it again, on a client still open and set up as before.\<close>

theorem admin_put_then_get:
  assumes "put_route cfg wild marshal now during (Stored n) rq c = (c', called, No_Content)"
    and "decodePutValue (e_unmarshal (cl_engine c)) rq = Inr v"
    and "marshal v = Inr raw" and "e_unmarshal (cl_engine c) raw = Some v"
    and "same_setup c (during c)" and "serving (cl_engine (during c))" and "\<not> cl_closed c'"
    and "row_value r = raw" and "row_rev r = n"
    and "same_path rq rq'" and "rq_ctx rq' = rq_ctx rq" and "mt_authorizer cfg rq' ''read'' = Returned None"
  shows "\<exists>d started ent. get_route cfg wild later (Row_Found r) rq' c' =
      (d, started, Wrote_Entry (fst (registeredPathParams c rq)) ent)
    \<and> er_key ent = snd (registeredPathParams c rq)
    \<and> (er_rev ent = n \<and> er_value ent = v \<or> n < er_rev ent)"
proof -
  obtain ns key where nk: "registeredPathParams c rq = (ns, key)" by (cases "registeredPathParams c rq") blast
  from assms(1) have put: "within_limits wild rq" "handlePut cfg marshal now during (Stored n) rq c = (c', called, No_Content)"
    by (auto simp: put_route_def dest: guarded_passed)
  then obtain actor where act: "extractActor cfg rq = Inr actor"
    and set: "client_Set (rq_ctx rq) ns key (Inr raw) actor now during (Stored n) c = (c', called, None)"
    using assms(2,3) nk
    by (auto simp: handlePut_def respondError_def split: sum.splits prod.splits option.splits)
  obtain x where x: "rq_ctx rq = Some x" using set by (cases "rq_ctx rq") (auto simp: client_Set_def set_row_def split: if_splits)
  have open_c: "\<not> cl_closed c" using set by (auto simp: client_Set_def set_row_def)
  have reg: "cl_registry c' = cl_registry c"
    using set assms(5) by (auto simp: client_Set_def Let_def same_setup_def split: sum.splits prod.splits)
  have params: "registeredPathParams c' rq' = (ns, key)"
    using registeredPathParams_cong [OF assms(10) reg] open_c assms(7) nk by simp
  from Set_read_back [OF set [unfolded x] assms(5-7,4,8,9)]
  obtain d started ent where get: "getEntry later (Some x) ns key (Row_Found r) c' = (d, started, ent, True, None)"
    and ent: "pe_rev ent = n \<and> pe_value ent = v \<or> n < pe_rev ent"
    by (metis prod.collapse)
  have "within_limits wild rq'" using put(1) assms(10) by (cases wild) (simp_all add: within_limits_def same_path_def)
  then have "get_route cfg wild later (Row_Found r) rq' c' =
      (d, started, Wrote_Entry ns (entry_response key (KeyDescription ns key d) ent))"
    using assms(11,12) x params get by (simp add: get_route_def guarded_cases handleGetOne_def)
  with ent nk show ?thesis by (simp add: entry_response_def)
qed

theorem admin_put_then_get_witness:
  "\<exists>c' d started ent. put_route open_config False (\<lambda>_. Inr ''6'') 7 (\<lambda>c. c) (Stored 4)
       (sample_request ''app'' ''limit'') (sample_client False) = (c', True, No_Content)
    \<and> get_route open_config False 9 (Row_Found (sample_row ''6'' 4)) (sample_request ''app'' ''limit'') c'
        = (d, started, Wrote_Entry ''app'' ent)
    \<and> er_key ent = ''limit'' \<and> (er_rev ent = 4 \<and> er_value ent = JStr ''6'' \<or> 4 < er_rev ent)"
proof -
  let ?rq = "sample_request ''app'' ''limit''"
  obtain c' where put: "put_route open_config False (\<lambda>_. Inr ''6'') 7 (\<lambda>c. c) (Stored 4) ?rq (sample_client False)
      = (c', True, No_Content)" and rest: "decodePutValue sample_decoder ?rq = Inr (JStr ''6'')" "\<not> cl_closed c'"
    by (rule sample_put)
  from admin_put_then_get [OF put, of "JStr ''6''" "''6''" "sample_row ''6'' 4" ?rq 9] put rest sample_params [of False]
  show ?thesis by (simp add: same_path_def sample_decoder_def)
qed

subsection \<open>A path that names another key\<close>

definition text_registration :: registration where
  "text_registration = \<lparr>rg_cloneSafe = None, rg_description = [], rg_validator = None,
     rg_writeValidator = None, rg_catalogSafe = None, rg_marshaled = Inr ''on''\<rparr>"

definition spaced_client :: client where
  "spaced_client = fst (Register ''app'' ''a%20b'' text_registration
     (fst (Register ''app'' ''a b'' text_registration (newClient True False False sample_decoder True))))"

definition unstarted :: "client \<Rightarrow> bool" where
  "unstarted c \<longleftrightarrow> \<not> cl_closed c \<and> \<not> cl_started c \<and> \<not> cl_frozen c \<and> e_unmarshal (cl_engine c) = sample_decoder"

lemma text_registers:
  assumes "unstarted c" and "key \<noteq> []" and "fmlookup (cl_registry c) (NSKey ''app'' key) = None"
  shows "unstarted (fst (Register ''app'' key text_registration c))
    \<and> fmlookup (cl_registry (fst (Register ''app'' key text_registration c))) nk \<noteq> None
        = (nk = NSKey ''app'' key \<or> fmlookup (cl_registry c) nk \<noteq> None)"
  using assms by (simp add: unstarted_def Register_def text_registration_def isReservedCatalogKey_def
      canonicalValue_def sample_decoder_def runValidator_def Let_def)

lemma spaced_client_registry:
  "unstarted spaced_client
    \<and> (fmlookup (cl_registry spaced_client) nk \<noteq> None) = (nk = NSKey ''app'' ''a%20b'' \<or> nk = NSKey ''app'' ''a b'')"
proof -
  let ?c = "newClient True False False sample_decoder True"
  let ?c' = "fst (Register ''app'' ''a b'' text_registration ?c)"
  have "unstarted ?c" by (simp add: unstarted_def newClient_def new_engine_def)
  note one = text_registers [OF this, of "''a b''"]
  have empty: "fmlookup (cl_registry ?c) k = None" for k by (simp add: newClient_def)
  with one [of "NSKey ''app'' ''a%20b''"] have "fmlookup (cl_registry ?c') (NSKey ''app'' ''a%20b'') = None" by simp
  with text_registers [of ?c' "''a%20b''" nk] one [of nk] empty show ?thesis
    by (simp add: spaced_client_def)
qed

lemma spaced_client_registered:
  "IsRegistered ns key spaced_client \<longleftrightarrow> ns = ''app'' \<and> (key = ''a b'' \<or> key = ''a%20b'')"
  using spaced_client_registry [of "NSKey ns key"] by (auto simp: IsRegistered_def unstarted_def)

text \<open>C38. The path the catalog advertises for a key can reach another. Both keys register, yet a request for
  the advertised path of ``a b'' resolves to the key spelled ``a%20b'': a parameter is tried as it came before
  it is decoded. The other key's own path still reaches it, so no advertised path reaches ``a b''.\<close>

theorem advertised_path_reaches_other_key:
  "IsRegistered ''app'' ''a b'' spaced_client \<and> IsRegistered ''app'' ''a%20b'' spaced_client
    \<and> valuePath ''/system'' ''app'' ''a b'' = ''/system/app/a%20b''
    \<and> registeredPathParams spaced_client (sample_request ''app'' ''a%20b'') = (''app'', ''a%20b'')
    \<and> valuePath ''/system'' ''app'' ''a%20b'' = ''/system/app/a%2520b''
    \<and> registeredPathParams spaced_client (sample_request ''app'' ''a%2520b'') = (''app'', ''a%20b'')"
proof (intro conjI)
  have cand: "pathParamCandidates ''app'' = [''app'']" "pathParamCandidates ''a%20b'' = [''a%20b'', ''a b'']"
    "pathParamCandidates ''a%2520b'' = [''a%2520b'', ''a%20b'']" by code_simp+
  show "IsRegistered ''app'' ''a b'' spaced_client" "IsRegistered ''app'' ''a%20b'' spaced_client"
    by (simp_all add: spaced_client_registered)
  show "valuePath ''/system'' ''app'' ''a b'' = ''/system/app/a%20b''" by code_simp
  show "valuePath ''/system'' ''app'' ''a%20b'' = ''/system/app/a%2520b''" by code_simp
  show "registeredPathParams spaced_client (sample_request ''app'' ''a%20b'') = (''app'', ''a%20b'')"
    "registeredPathParams spaced_client (sample_request ''app'' ''a%2520b'') = (''app'', ''a%20b'')"
    by (simp_all add: registeredPathParams_def sample_request_def routeKeyParam_def cand spaced_client_registered)
qed

end
