(* ===== verification/Catalog.thy ===== *)
theory Catalog
  imports Clone Admin
begin

text \<open>
  The catalog of registered keys (\<^verbatim>\<open>internal/client/catalog.go\<close>), the key options that fill it
  (\<^verbatim>\<open>options.go\<close>), the whole of Register with them (\<^verbatim>\<open>register.go\<close>) and the admin routes that show it
  (\<^verbatim>\<open>admin.go\<close>). What a caller registers is a Go value over the heap of \<^verbatim>\<open>Clone\<close>; an \<open>any\<close> is a value
  of interface kind. The client's registry keeps what its operations read of a key, and this theory the
  two fields only the catalog reads. Copies and walks that need more fuel, or never end, are \<open>None\<close>.
\<close>

subsection \<open>Metadata\<close>

record CatalogExample =
  ex_name :: string
  ex_value :: gv

record CatalogKeyMetadata =
  cm_kind :: string
  cm_runtimeClass :: string
  cm_schema :: gv
  cm_rules :: "string list"
  cm_examples :: "CatalogExample list"

definition nil_schema :: gv where "nil_schema = GNil KMap json_object"

definition no_metadata :: CatalogKeyMetadata where
  "no_metadata = \<lparr>cm_kind = [], cm_runtimeClass = [], cm_schema = nil_schema, cm_rules = [], cm_examples = []\<rparr>"

definition cloneCatalogSchema :: "nat \<Rightarrow> gheap \<Rightarrow> gv \<Rightarrow> (gheap \<times> gv) option" where
  "cloneCatalogSchema n h schema =
     (if kind_of schema \<noteq> KMap \<or> schema = nil_schema then Some (h, nil_schema)
      else case Clone n h (GIface any_type schema) of
        None \<Rightarrow> None
      | Some (h', GIface _ w) \<Rightarrow> Some (h', if typ_of w = json_object then w else nil_schema)
      | Some (h', _) \<Rightarrow> Some (h', nil_schema))"

fun cloneCatalogExamples :: "nat \<Rightarrow> gheap \<Rightarrow> CatalogExample list \<Rightarrow> (gheap \<times> CatalogExample list) option" where
  "cloneCatalogExamples n h [] = Some (h, [])"
| "cloneCatalogExamples n h (ex # exs) =
     (case Clone n h (ex_value ex) of
        None \<Rightarrow> None
      | Some (h', w) \<Rightarrow>
          map_option (map_prod id (Cons (ex\<lparr>ex_value := w\<rparr>))) (cloneCatalogExamples n h' exs))"

definition cloneCatalogMetadata :: "nat \<Rightarrow> gheap \<Rightarrow> CatalogKeyMetadata \<Rightarrow> (gheap \<times> CatalogKeyMetadata) option" where
  "cloneCatalogMetadata n h meta =
     (case cloneCatalogSchema n h (cm_schema meta) of
        None \<Rightarrow> None
      | Some (h', s) \<Rightarrow>
          (case cloneCatalogExamples n h' (cm_examples meta) of
             None \<Rightarrow> None
           | Some (h'', exs) \<Rightarrow> Some (h'', meta\<lparr>cm_schema := s, cm_examples := exs\<rparr>)))"

datatype metadata_refusal = Schema_Refused clone_error | Example_Refused nat clone_error

fun refused_example :: "gheap \<Rightarrow> nat \<Rightarrow> CatalogExample list \<Rightarrow> metadata_refusal option" where
  "refused_example h i [] = None"
| "refused_example h i (ex # exs) =
     (case ValidateCloneSafe h (ex_value ex) of
        Some er \<Rightarrow> Some (Example_Refused i er) | None \<Rightarrow> refused_example h (Suc i) exs)"

definition validateCatalogCloneSafe :: "gheap \<Rightarrow> CatalogKeyMetadata \<Rightarrow> metadata_refusal option" where
  "validateCatalogCloneSafe h meta =
     (case ValidateCloneSafe h (GIface any_type (cm_schema meta)) of
        Some er \<Rightarrow> Some (Schema_Refused er) | None \<Rightarrow> refused_example h 0 (cm_examples meta))"

subsection \<open>Kinds\<close>

text \<open>What \<open>reflect\<close> says of a scalar type, a parameter of what follows.\<close>

datatype basic = Bool_Kind | Int_Kind | Uint_Kind | Float_Kind | String_Kind | Other_Kind

definition durationType :: string where "durationType = ''time.Duration''"

text \<open>
  The loop through interfaces and pointers: \<open>Some None\<close> when it meets a nil one, otherwise the value under
  them. A cell that holds no value is behind no pointer of a well-formed heap.
\<close>

partial_function (option) settle :: "gheap \<Rightarrow> gv \<Rightarrow> gv option option" where
  "settle h v =
     (case v of
        GIface _ w \<Rightarrow> settle h w
      | GPtr _ a \<Rightarrow> (case deref h a of None \<Rightarrow> None | Some w \<Rightarrow> settle h w)
      | GNil k _ \<Rightarrow> Some (if k = KInterface \<or> k = KPointer then None else Some v)
      | _ \<Rightarrow> Some (Some v))"

definition kind_name :: "(string \<Rightarrow> basic) \<Rightarrow> gv \<Rightarrow> string" where
  "kind_name basic v =
     (case kind_of v of
        KScalar \<Rightarrow> (case basic (typ_of v) of
            String_Kind \<Rightarrow> ''string'' | Bool_Kind \<Rightarrow> ''boolean'' | Int_Kind \<Rightarrow> ''integer''
          | Uint_Kind \<Rightarrow> ''integer'' | Float_Kind \<Rightarrow> ''number'' | Other_Kind \<Rightarrow> ''unknown'')
      | KMap \<Rightarrow> ''object'' | KStruct \<Rightarrow> ''object''
      | KSlice \<Rightarrow> ''array'' | KArray \<Rightarrow> ''array''
      | _ \<Rightarrow> ''unknown'')"

definition inferCatalogKind :: "(string \<Rightarrow> basic) \<Rightarrow> gheap \<Rightarrow> gv \<Rightarrow> string option" where
  "inferCatalogKind basic h v =
     (case v of
        GIface _ w \<Rightarrow>
          (if typ_of w = durationType then Some ''duration''
           else map_option (case_option ''unknown'' (kind_name basic)) (settle h w))
      | _ \<Rightarrow> Some ''unknown'')"

subsection \<open>Key options\<close>

record key_options =
  ko_description :: string
  ko_validator :: "validator option"
  ko_writeValidator :: "validator option"
  ko_catalog :: CatalogKeyMetadata

definition no_options :: key_options where
  "no_options = \<lparr>ko_description = [], ko_validator = None, ko_writeValidator = None, ko_catalog = no_metadata\<rparr>"

datatype key_option =
    WithDescription string
  | WithValidator "(json \<Rightarrow> vres) option"
  | WithContextValidator "validator option"
  | WithWriteValidator "(json \<Rightarrow> vres) option"
  | WithCatalogMetadata CatalogKeyMetadata

fun key_option_on :: "nat \<Rightarrow> key_option \<Rightarrow> gheap \<times> key_options \<Rightarrow> (gheap \<times> key_options) option" where
  "key_option_on n (WithDescription s) (h, ko) = Some (h, ko\<lparr>ko_description := s\<rparr>)"
| "key_option_on n (WithValidator None) (h, ko) = Some (h, ko)"
| "key_option_on n (WithValidator (Some fn)) (h, ko) = Some (h, ko\<lparr>ko_validator := Some (\<lambda>_. fn)\<rparr>)"
| "key_option_on n (WithContextValidator None) (h, ko) = Some (h, ko)"
| "key_option_on n (WithContextValidator (Some fn)) (h, ko) = Some (h, ko\<lparr>ko_validator := Some fn\<rparr>)"
| "key_option_on n (WithWriteValidator None) (h, ko) = Some (h, ko)"
| "key_option_on n (WithWriteValidator (Some fn)) (h, ko) = Some (h, ko\<lparr>ko_writeValidator := Some (\<lambda>_. fn)\<rparr>)"
| "key_option_on n (WithCatalogMetadata meta) (h, ko) =
     map_option (map_prod id (\<lambda>m. ko\<lparr>ko_catalog := m\<rparr>)) (cloneCatalogMetadata n h meta)"

fun applyKeyOptions :: "nat \<Rightarrow> key_option option list \<Rightarrow> gheap \<times> key_options \<Rightarrow> (gheap \<times> key_options) option" where
  "applyKeyOptions n [] s = Some s"
| "applyKeyOptions n (None # opts) s = applyKeyOptions n opts s"
| "applyKeyOptions n (Some opt # opts) s =
     (case key_option_on n opt s of None \<Rightarrow> None | Some s' \<Rightarrow> applyKeyOptions n opts s')"

subsection \<open>Registration with its catalog\<close>

record catalog_part =
  cp_default :: gv
  cp_metadata :: CatalogKeyMetadata

record catalogued =
  ct_client :: client
  ct_parts :: "nskey \<Rightarrow> catalog_part option"
  ct_service :: string
  ct_heap :: gheap

definition not_cloneable :: err where
  "not_cloneable = Sentinel (Foreign ''not safely cloneable'')"

text \<open>The checks of Register before it looks at the value.\<close>

definition refused_early :: "string \<Rightarrow> string \<Rightarrow> client \<Rightarrow> bool" where
  "refused_early ns key c \<longleftrightarrow>
     cl_closed c \<or> cl_started c \<or> cl_frozen c \<or> ns = [] \<or> key = [] \<or> isReservedCatalogKey ns key"

definition registration_with :: "clone_error option \<Rightarrow> gheap \<Rightarrow> key_options \<Rightarrow> err + bytes \<Rightarrow> registration" where
  "registration_with unsafe h ko marshaled =
     \<lparr>rg_cloneSafe = map_option (\<lambda>_. not_cloneable) unsafe,
      rg_description = ko_description ko, rg_validator = ko_validator ko,
      rg_writeValidator = ko_writeValidator ko,
      rg_catalogSafe = map_option (\<lambda>_. not_cloneable) (validateCatalogCloneSafe h (ko_catalog ko)),
      rg_marshaled = marshaled\<rparr>"

text \<open>\<open>marshal\<close> is \<open>json.Marshal\<close> on the heap; \<open>n\<close> is the fuel of every copy.\<close>

definition Register_value ::
  "nat \<Rightarrow> (gheap \<Rightarrow> gv \<Rightarrow> err + bytes) \<Rightarrow> string \<Rightarrow> string \<Rightarrow> gv \<Rightarrow> key_option option list \<Rightarrow> catalogued \<Rightarrow>
     (catalogued \<times> err option) option"
where
  "Register_value n marshal ns key v opts k =
     (let c = ct_client k; h = ct_heap k in
      if refused_early ns key c \<or> ValidateCloneSafe h v \<noteq> None
      then Some (k, snd (Register ns key (registration_with (ValidateCloneSafe h v) h no_options (Inl not_cloneable)) c))
      else case Clone n h v of
        None \<Rightarrow> None
      | Some (h1, w) \<Rightarrow>
          (case applyKeyOptions n opts (h1, no_options) of
             None \<Rightarrow> None
           | Some (h2, ko) \<Rightarrow>
               let (c', r) = Register ns key (registration_with None h2 ko (marshal h2 w)) c in
               Some (k\<lparr>ct_client := c', ct_heap := h2,
                  ct_parts := (if r = None then (ct_parts k)(NSKey ns key \<mapsto> \<lparr>cp_default = w, cp_metadata = ko_catalog ko\<rparr>)
                               else ct_parts k)\<rparr>, r)))"

subsection \<open>The catalog\<close>

record CatalogKeySummary =
  cs_namespace :: string
  cs_key :: string
  cs_kind :: string
  cs_tenantScoped :: bool
  cs_runtimeClass :: string
  cs_hasValidator :: bool
  cs_description :: string
  cs_detailURL :: string

record CatalogKeyDetail =
  cd_summary :: CatalogKeySummary
  cd_defaultValue :: gv
  cd_metadata :: CatalogKeyMetadata

record catalog_snapshot =
  ca_version :: string
  ca_service :: string
  ca_namespaces :: "string list"
  ca_keys :: "CatalogKeySummary list"

definition CatalogVersion :: string where "CatalogVersion = ''systemplane.catalog.v1''"

definition emptyCatalog :: catalog_snapshot where
  "emptyCatalog = \<lparr>ca_version = CatalogVersion, ca_service = [], ca_namespaces = [], ca_keys = []\<rparr>"

definition CatalogService :: "catalogued \<Rightarrow> string" where
  "CatalogService k = (if cl_closed (ct_client k) then [] else ct_service k)"

definition catalogItems :: "catalogued \<Rightarrow> (nskey \<times> client_keydef \<times> catalog_part) list" where
  "catalogItems k =
     map (\<lambda>nk. (nk, the (fmlookup (cl_registry (ct_client k)) nk), the (ct_parts k nk)))
       (sorted_list_of_fset (fmdom (cl_registry (ct_client k))))"

definition catalogKind :: "(string \<Rightarrow> basic) \<Rightarrow> gheap \<Rightarrow> catalog_part \<Rightarrow> string option" where
  "catalogKind basic h p =
     (if cm_kind (cp_metadata p) \<noteq> [] then Some (cm_kind (cp_metadata p))
      else inferCatalogKind basic h (cp_default p))"

definition catalogSummary ::
  "(string \<Rightarrow> basic) \<Rightarrow> catalogued \<Rightarrow> nskey \<Rightarrow> client_keydef \<Rightarrow> catalog_part \<Rightarrow> CatalogKeySummary option"
where
  "catalogSummary basic k nk d p =
     map_option (\<lambda>kind. \<lparr>cs_namespace = Namespace nk, cs_key = Key nk, cs_kind = kind,
         cs_tenantScoped = cl_multiTenant (ct_client k), cs_runtimeClass = cm_runtimeClass (cp_metadata p),
         cs_hasValidator = (cd_validator d \<noteq> None), cs_description = cd_description d, cs_detailURL = []\<rparr>)
       (catalogKind basic (ct_heap k) p)"

text \<open>The namespaces in the order the keys first name them.\<close>

fun new_namespaces :: "string list \<Rightarrow> string list \<Rightarrow> string list" where
  "new_namespaces seen [] = []"
| "new_namespaces seen (ns # nss) =
     (if ns \<in> set seen then new_namespaces seen nss else ns # new_namespaces (ns # seen) nss)"

definition client_Catalog :: "(string \<Rightarrow> basic) \<Rightarrow> catalogued \<Rightarrow> catalog_snapshot option" where
  "client_Catalog basic k =
     (if cl_closed (ct_client k) then Some emptyCatalog
      else map_option (\<lambda>keys. \<lparr>ca_version = CatalogVersion, ca_service = ct_service k,
             ca_namespaces = sort (new_namespaces [] (map (Namespace \<circ> fst) (catalogItems k))), ca_keys = keys\<rparr>)
           (those (map (\<lambda>(nk, d, p). catalogSummary basic k nk d p) (catalogItems k))))"

text \<open>A detail is made of copies, which take fuel and grow the heap.\<close>

definition catalogDetail ::
  "nat \<Rightarrow> (string \<Rightarrow> basic) \<Rightarrow> catalogued \<Rightarrow> nskey \<Rightarrow> client_keydef \<Rightarrow> catalog_part \<Rightarrow>
     (gheap \<times> CatalogKeyDetail) option"
where
  "catalogDetail n basic k nk d p =
     (case cloneCatalogMetadata n (ct_heap k) (cp_metadata p) of
        None \<Rightarrow> None
      | Some (h, meta) \<Rightarrow>
          (case (catalogSummary basic k nk d p, Clone n h (cp_default p)) of
             (Some s, Some (h', w)) \<Rightarrow> Some (h', \<lparr>cd_summary = s, cd_defaultValue = w, cd_metadata = meta\<rparr>)
           | _ \<Rightarrow> None))"

definition CatalogKey ::
  "nat \<Rightarrow> (string \<Rightarrow> basic) \<Rightarrow> string \<Rightarrow> string \<Rightarrow> catalogued \<Rightarrow> (catalogued \<times> CatalogKeyDetail option) option"
where
  "CatalogKey n basic ns key k =
     (if cl_closed (ct_client k) then Some (k, None)
      else case fmlookup (cl_registry (ct_client k)) (NSKey ns key) of
        None \<Rightarrow> Some (k, None)
      | Some d \<Rightarrow>
          map_option (\<lambda>(h, det). (k\<lparr>ct_heap := h\<rparr>, Some det))
            (catalogDetail n basic k (NSKey ns key) d (the (ct_parts k (NSKey ns key)))))"

subsection \<open>The catalog routes\<close>

definition with_url :: "string \<Rightarrow> CatalogKeySummary \<Rightarrow> CatalogKeySummary" where
  "with_url pre s = s\<lparr>cs_detailURL := catalogDetailPath pre (cs_namespace s) (cs_key s)\<rparr>"

definition handleCatalogList :: "(string \<Rightarrow> basic) \<Rightarrow> string \<Rightarrow> catalogued \<Rightarrow> catalog_snapshot option" where
  "handleCatalogList basic pre k =
     map_option (\<lambda>cat. cat\<lparr>ca_keys := map (with_url pre) (ca_keys cat)\<rparr>) (client_Catalog basic k)"

text \<open>The candidates in order, until one names a registered key.\<close>

fun catalogDetailFrom ::
  "nat \<Rightarrow> (string \<Rightarrow> basic) \<Rightarrow> (string \<times> string) list \<Rightarrow> catalogued \<Rightarrow>
     (catalogued \<times> (CatalogKeyDetail \<times> string \<times> string) option) option"
where
  "catalogDetailFrom n basic [] k = Some (k, None)"
| "catalogDetailFrom n basic ((ns, key) # cands) k =
     (case CatalogKey n basic ns key k of
        None \<Rightarrow> None
      | Some (k', Some det) \<Rightarrow> Some (k', Some (det, ns, key))
      | Some (k', None) \<Rightarrow> catalogDetailFrom n basic cands k')"

definition catalogDetailFromParams ::
  "nat \<Rightarrow> (string \<Rightarrow> basic) \<Rightarrow> request \<Rightarrow> catalogued \<Rightarrow> (catalogued \<times> (CatalogKeyDetail \<times> string \<times> string) option) option"
where
  "catalogDetailFromParams n basic rq k =
     catalogDetailFrom n basic
       (List.product (pathParamCandidates (rq_namespace rq)) (pathParamCandidates (routeKeyParam rq))) k"

record catalogDetailResponse =
  dr_version :: string
  dr_service :: string
  dr_detail :: CatalogKeyDetail
  dr_method :: string
  dr_path :: string

definition handleCatalogDetail ::
  "nat \<Rightarrow> (string \<Rightarrow> basic) \<Rightarrow> mountConfig \<Rightarrow> string \<Rightarrow> request \<Rightarrow> catalogued \<Rightarrow>
     (catalogued \<times> (answer + catalogDetailResponse)) option"
where
  "handleCatalogDetail n basic cfg pre rq k =
     (case catalogDetailFromParams n basic rq k of
        None \<Rightarrow> None
      | Some (k', None) \<Rightarrow>
          Some (k', Inl (respondError cfg 404 ''not_found'' ''systemplane catalog entry not found''))
      | Some (k', Some (det, ns, key)) \<Rightarrow>
          Some (k', Inr \<lparr>dr_version = CatalogVersion, dr_service = CatalogService k',
            dr_detail = det\<lparr>cd_summary := (cd_summary det)\<lparr>cs_detailURL := catalogDetailPath pre ns key\<rparr>\<rparr>,
            dr_method = ''PUT'', dr_path = valuePath pre ns key\<rparr>))"

end
