(* ===== verification/Catalog_Theorems.thy ===== *)
theory Catalog_Theorems
  imports Catalog Clone_Theorems Client_Theorems
begin

text \<open>
  The catalog describes the registry: what Register accepts is listed, sorted, under the kind of the value
  its caller passed, and a detail agrees with its line of the list. Metadata that holds itself is copied
  before it is checked, so the check never runs.
\<close>

subsection \<open>Kinds end\<close>

lemmas settle_code = settle.simps

lemma settle_iface [simp]: "settle h (GIface ty w) = settle h w"
  by (subst settle_code) simp


lemma settle_leaf [simp]:
  "settle h (GScalar ty x) = Some (Some (GScalar ty x))" "settle h (GOpaque kd ty a) = Some (Some (GOpaque kd ty a))"
  "settle h (GSlice ty a n) = Some (Some (GSlice ty a n))" "settle h (GMap ty a) = Some (Some (GMap ty a))"
  "settle h (GArray ty vs) = Some (Some (GArray ty vs))" "settle h (GStruct ty fs) = Some (Some (GStruct ty fs))"
  "settle h (GNil kd ty) = Some (if kd = KInterface \<or> kd = KPointer then None else Some (GNil kd ty))"
  by (subst settle_code; simp)+



definition same_kind :: "gv option \<Rightarrow> gv option \<Rightarrow> bool" where
  "same_kind s s' \<longleftrightarrow> rel_option (\<lambda>x y. kind_of x = kind_of y \<and> typ_of x = typ_of y) s s'"


lemma same_kind_refl [simp]: "same_kind s s"
  by (cases s) (simp_all add: same_kind_def)





subsection \<open>Copies only add cells\<close>








subsection \<open>The catalog is the registry\<close>

definition catalog_ok :: "catalogued \<Rightarrow> bool" where
  "catalog_ok k \<longleftrightarrow> (\<forall>nk. ct_parts k nk \<noteq> None \<longleftrightarrow> fmlookup (cl_registry (ct_client k)) nk \<noteq> None)
     \<and> (\<forall>nk p. ct_parts k nk = Some p \<longrightarrow> (\<exists>s. settle (ct_heap k) (cp_default p) = Some s))"

lemma set_new_namespaces: "set (new_namespaces seen nss) = set nss - set seen"
  by (induction seen nss rule: new_namespaces.induct) auto

lemma distinct_new_namespaces: "distinct (new_namespaces seen nss)"
  by (induction seen nss rule: new_namespaces.induct) (auto simp: set_new_namespaces)

lemma those_map: "(\<And>x. x \<in> set xs \<Longrightarrow> f x = Some (g x)) \<Longrightarrow> those (map f xs) = Some (map g xs)"
  by (induction xs) auto

definition summary_of :: "(string \<Rightarrow> basic) \<Rightarrow> catalogued \<Rightarrow> nskey \<Rightarrow> CatalogKeySummary" where
  "summary_of basic k nk =
     the (catalogSummary basic k nk (the (fmlookup (cl_registry (ct_client k)) nk)) (the (ct_parts k nk)))"

lemma summary_some:
  assumes "catalog_ok k" and "fmlookup (cl_registry (ct_client k)) nk = Some d"
  shows "\<exists>p. ct_parts k nk = Some p \<and> catalogSummary basic k nk d p = Some (summary_of basic k nk)"
proof -
  obtain p s where p: "ct_parts k nk = Some p" "settle (ct_heap k) (cp_default p) = Some s"
    using assms unfolding catalog_ok_def by (metis option.exhaust option.distinct(1))
  then have "\<exists>kind. catalogKind basic (ct_heap k) p = Some kind"
    by (cases "cp_default p") (auto simp: catalogKind_def inferCatalogKind_def)
  with p assms(2) show ?thesis by (auto simp: summary_of_def catalogSummary_def)
qed

lemma summary_names: "catalogSummary basic k nk d p = Some sm \<Longrightarrow> cs_namespace sm = Namespace nk \<and> cs_key sm = Key nk"
  by (auto simp: catalogSummary_def)

lemma in_registry: "nk \<in> set (sorted_list_of_fset (fmdom reg)) \<longleftrightarrow> fmlookup reg nk \<noteq> None"
  by (auto simp: sorted_list_of_fset.rep_eq fmlookup_dom_iff)

text \<open>The catalog of an open client is its registry. It always answers, with one line per registered key,
  sorted by namespace and then by key, and each namespace once, sorted; and a request for one key's detail
  that answers finds exactly the registered keys, with the summary the list shows and a copy of the default.\<close>

theorem catalog_is_the_registry:
  assumes "catalog_ok k" and "\<not> cl_closed (ct_client k)"
  shows "\<exists>cat. client_Catalog basic k = Some cat
    \<and> map (\<lambda>s. NSKey (cs_namespace s) (cs_key s)) (ca_keys cat) = sorted_list_of_fset (fmdom (cl_registry (ct_client k)))
    \<and> ca_namespaces cat = sorted_list_of_set (Namespace ` fset (fmdom (cl_registry (ct_client k))))
    \<and> (\<forall>k' det. CatalogKey n basic ns key k = Some (k', det) \<longrightarrow>
         (case det of
            None \<Rightarrow> \<not> IsRegistered ns key (ct_client k)
          | Some d \<Rightarrow> IsRegistered ns key (ct_client k) \<and> cd_summary d \<in> set (ca_keys cat)
              \<and> cs_namespace (cd_summary d) = ns \<and> cs_key (cd_summary d) = key
              \<and> (\<exists>p h. ct_parts k (NSKey ns key) = Some p
                   \<and> Clone n h (cp_default p) = Some (ct_heap k', cd_defaultValue d))))"
proof -
  let ?reg = "cl_registry (ct_client k)" and ?ks = "sorted_list_of_fset (fmdom (cl_registry (ct_client k)))"
  have keys: "those (map (\<lambda>(nk, d, p). catalogSummary basic k nk d p) (catalogItems k)) = Some (map (summary_of basic k) ?ks)"
    unfolding catalogItems_def map_map
    by (rule those_map) (use summary_some [OF assms(1)] in \<open>fastforce simp: in_registry\<close>)
  have names: "map (Namespace \<circ> fst) (catalogItems k) = map Namespace ?ks"
    by (simp add: catalogItems_def)
  have sorted: "sort (new_namespaces [] (map Namespace ?ks)) = sorted_list_of_set (Namespace ` fset (fmdom ?reg))"
    using sorted_list_of_set_sort_remdups [of "new_namespaces [] (map Namespace ?ks)"]
    by (simp add: set_new_namespaces distinct_new_namespaces distinct_remdups_id sorted_list_of_fset.rep_eq)
  have named: "NSKey (cs_namespace (summary_of basic k nk)) (cs_key (summary_of basic k nk)) = nk"
    if nk: "fmlookup ?reg nk = Some d" for nk d
    using summary_some [OF assms(1) nk, of basic]
    by (cases nk) (auto dest: summary_names)
  let ?cat = "\<lparr>ca_version = CatalogVersion, ca_service = ct_service k,
     ca_namespaces = sorted_list_of_set (Namespace ` fset (fmdom ?reg)), ca_keys = map (summary_of basic k) ?ks\<rparr>"
  have lines: "map (\<lambda>s. NSKey (cs_namespace s) (cs_key s)) (map (summary_of basic k) ?ks) = ?ks"
    unfolding map_map by (rule map_idI) (auto simp: fmlookup_dom_iff dest: named)
  have cat: "client_Catalog basic k = Some ?cat"
    using assms(2) by (simp add: client_Catalog_def keys names sorted)
  have detail: "case det of
            None \<Rightarrow> \<not> IsRegistered ns key (ct_client k)
          | Some d \<Rightarrow> IsRegistered ns key (ct_client k) \<and> cd_summary d \<in> set (map (summary_of basic k) ?ks)
              \<and> cs_namespace (cd_summary d) = ns \<and> cs_key (cd_summary d) = key
              \<and> (\<exists>p h. ct_parts k (NSKey ns key) = Some p
                   \<and> Clone n h (cp_default p) = Some (ct_heap k', cd_defaultValue d))"
    if det: "CatalogKey n basic ns key k = Some (k', det)" for k' det
  proof (cases "fmlookup ?reg (NSKey ns key)")
    case None
    with det assms(2) show ?thesis by (simp add: CatalogKey_def IsRegistered_def)
  next
    case (Some d)
    obtain p where p: "ct_parts k (NSKey ns key) = Some p"
      "catalogSummary basic k (NSKey ns key) d p = Some (summary_of basic k (NSKey ns key))"
      using summary_some [OF assms(1) Some] by blast
    then have "summary_of basic k (NSKey ns key) \<in> set (map (summary_of basic k) ?ks)"
      using Some by (auto simp: fmlookup_dom_iff intro!: imageI)
    moreover obtain h m h' w where "Clone n h (cp_default p) = Some (h', w)" "k' = k\<lparr>ct_heap := h'\<rparr>"
      "det = Some \<lparr>cd_summary = summary_of basic k (NSKey ns key), cd_defaultValue = w, cd_metadata = m\<rparr>"
      using det Some p assms(2) by (auto simp: CatalogKey_def catalogDetail_def split: option.splits)
    moreover have "IsRegistered ns key (ct_client k)" using Some assms(2) by (simp add: IsRegistered_def)
    ultimately show ?thesis using p(1) named [OF Some] by auto
  qed
  show ?thesis
    by (rule exI [of _ ?cat]) (simp only: catalog_snapshot.simps cat lines HOL.simp_thms, blast intro: detail)
qed

text \<open>The empty catalogue of a new client, and one with a key registered through the options.\<close>

definition new_catalogued :: "string \<Rightarrow> catalogued" where
  "new_catalogued service = \<lparr>ct_client = newClient True False False sample_decoder True, ct_parts = Map.empty,
     ct_service = service, ct_heap = []\<rparr>"

lemma new_catalogued_ok: "catalog_ok (new_catalogued service)"
  by (simp add: catalog_ok_def new_catalogued_def newClient_def)

theorem catalog_is_the_registry_witness:
  "\<exists>cat. client_Catalog (\<lambda>_. Int_Kind) (new_catalogued ''ledger'') = Some cat \<and> ca_keys cat = [] \<and> ca_namespaces cat = []"
proof -
  have "\<not> cl_closed (ct_client (new_catalogued ''ledger''))" by (simp add: new_catalogued_def newClient_def)
  from catalog_is_the_registry [OF new_catalogued_ok this, of "\<lambda>_. Int_Kind" 1 "''app''" "''limit''"]
  show ?thesis by (auto simp: new_catalogued_def newClient_def sorted_list_of_fset.rep_eq)
qed








definition five :: gv where "five = GIface any_type (GScalar ''int'' ''5'')"


lemma five_accepted: "ValidateCloneSafe h five = None" "Clone 3 h five = Some (h, five)"
  by (simp_all add: five_def ValidateCloneSafe_def numeral_3_eq_3)


subsection \<open>Metadata that holds itself\<close>

definition loop_heap :: gheap where
  "loop_heap = [Entries [(GScalar ''string'' ''self'', GIface any_type (GMap json_object 0))]]"

definition loop_meta :: CatalogKeyMetadata where
  "loop_meta = no_metadata\<lparr>cm_schema := GMap json_object 0\<rparr>"

lemma loop_never_ends: "Clone n loop_heap (GIface any_type (GMap json_object 0)) = None"
proof (induction n rule: less_induct)
  case (less n)
  have e: "entries loop_heap 0 = [(GScalar ''string'' ''self'', GIface any_type (GMap json_object 0))]"
    by (simp add: loop_heap_def entries_def)
  show ?case
  proof (cases n)
    case (Suc m)
    have "clone_each m loop_heap [GIface any_type (GMap json_object 0)] = None"
      using less [of "m - 1"] Suc by (cases m) auto
    with Suc e show ?thesis by (simp add: Let_def)
  qed simp
qed

text \<open>C40. Catalog metadata is copied before it is checked. A schema that holds itself is what the check exists
  to refuse, and it would; but the option that attaches it clones it first, and that copy ends with no
  amount of fuel, so Register of a harmless default with it never answers. The same map as the default is refused.\<close>

theorem cyclic_metadata_never_refused:
  "validateCatalogCloneSafe loop_heap loop_meta = Some (Schema_Refused (Cyclic [PMapValue]))
   \<and> Register_value n marshal ''app'' ''limit'' five [Some (WithCatalogMetadata loop_meta)]
       (new_catalogued ''ledger'' \<lparr>ct_heap := loop_heap\<rparr>) = None
   \<and> (\<exists>er. Register_value n marshal ''app'' ''limit'' (GIface any_type (GMap json_object 0)) []
          (new_catalogued ''ledger'' \<lparr>ct_heap := loop_heap\<rparr>)
        = Some (new_catalogued ''ledger'' \<lparr>ct_heap := loop_heap\<rparr>, Some er) \<and> err_is er ErrValidation)"
proof (intro conjI)
  have e: "entries loop_heap 0 = [(GScalar ''string'' ''self'', GIface any_type (GMap json_object 0))]"
    by (simp add: loop_heap_def entries_def)
  then have cyc: "ValidateCloneSafe loop_heap (GIface any_type (GMap json_object 0)) = Some (Cyclic [PMapValue])"
    by (simp add: ValidateCloneSafe_def mutableCloneKind_def)
  then show "validateCatalogCloneSafe loop_heap loop_meta = Some (Schema_Refused (Cyclic [PMapValue]))"
    by (simp add: validateCatalogCloneSafe_def loop_meta_def no_metadata_def)
  have "Clone n loop_heap five = None \<or> Clone n loop_heap five = Some (loop_heap, five)"
    by (cases n) (simp_all add: five_def)
  then show "Register_value n marshal ''app'' ''limit'' five [Some (WithCatalogMetadata loop_meta)]
       (new_catalogued ''ledger'' \<lparr>ct_heap := loop_heap\<rparr>) = None"
    using five_accepted(1) [of loop_heap]
    by (auto simp: Register_value_def Let_def refused_early_def new_catalogued_def newClient_def isReservedCatalogKey_def
        no_options_def cloneCatalogMetadata_def cloneCatalogSchema_def loop_meta_def no_metadata_def nil_schema_def loop_never_ends)
  show "\<exists>er. Register_value n marshal ''app'' ''limit'' (GIface any_type (GMap json_object 0)) []
          (new_catalogued ''ledger'' \<lparr>ct_heap := loop_heap\<rparr>)
        = Some (new_catalogued ''ledger'' \<lparr>ct_heap := loop_heap\<rparr>, Some er) \<and> err_is er ErrValidation"
    by (simp add: Register_value_def cyc Let_def Register_def new_catalogued_def newClient_def isReservedCatalogKey_def
        registration_with_def validation_def)
qed

end
