(* ===== verification/Spec2Isabelle.thy ===== *)
theory Spec2Isabelle
  imports Engine_Theorems World_Theorems Activation_Theorems Client_Theorems Typed_Reads Debounce Coordinator_Theorems Clone_Theorems Typed_Groups_Int Pg_Feed_Theorems Pg_Store_Theorems Backend_Theorems Mongo_Poll_Theorems Mongo_Feed_Theorems Mongo_Store_Theorems Admin_Theorems Catalog_Theorems
begin

text \<open>
  A model of \<^verbatim>\<open>lib-systemplane\<close> (Go): runtime configuration kept in PostgreSQL or MongoDB, cached in
  process, refreshed by a changefeed, and handed to subscribers with the revision the store gave it.

  \<^bold>\<open>The program.\<close> A caller registers keys with a default and a validator, starts the client
  (\<^verbatim>\<open>internal/client\<close>) and then reads, writes and subscribes. Behind the client one engine
  (\<^verbatim>\<open>internal/engine\<close>) keeps a cache per scope: the single-tenant scope, or one per tenant. A scope is
  brought up by subscribing to its changefeed and reconciling it against one listing of the store.
  After that, feed events (debounced by \<^verbatim>\<open>internal/debounce\<close>) trigger re-reads, resyncs trigger
  reconciles, local writes publish their own result, and every publication passes one fence on
  revisions before it reaches the cache and the delivery workers of the subscribers. Scopes of tenants
  come and go through a slot that one goroutine at a time holds. Typed groups (\<^verbatim>\<open>api_group.go\<close>,
  \<^verbatim>\<open>internal/group\<close>) decode one key's document to a Go type and hand it to appliers in order. The
  store is an interface (\<^verbatim>\<open>internal/store\<close>) with two implementations, \<^verbatim>\<open>internal/postgres\<close> (a table
  with triggers, and \<open>LISTEN\<close>) and \<^verbatim>\<open>internal/mongodb\<close> (documents with tombstones, and a change
  stream or polling).

  \<^bold>\<open>Theories, in the order they build on each other.\<close>

  \<^item> \<^verbatim>\<open>Prelude\<close>, \<^verbatim>\<open>Decimals\<close>: generic facts, the collections \<open>frame\<close> and \<open>pres\<close>, decimal digits.
  \<^item> \<^verbatim>\<open>Store_Types\<close>: \<^verbatim>\<open>internal/store/store.go\<close> and the types all layers share: scopes, rows, events,
    keys, errors as trees searched by \<open>err_is\<close>, decoded values, contexts, the registry port.
  \<^item> \<^verbatim>\<open>Mailbox\<close>: the single-slot mailbox as a locale, interpreted on the delivery workers and on the
    pending reconcile.
  \<^item> \<^verbatim>\<open>Engine_State\<close>, \<^verbatim>\<open>Scope_State\<close>: \<^verbatim>\<open>engine/scope.go\<close> and the \<open>Engine\<close> struct. Scope states and
    workers are cells of explicit stores, because the code compares them by pointer.
  \<^item> \<^verbatim>\<open>Dispatch\<close>, \<^verbatim>\<open>Publish\<close>, \<^verbatim>\<open>Ingest\<close>, \<^verbatim>\<open>Reconcile\<close>, \<^verbatim>\<open>Feed\<close>, \<^verbatim>\<open>Engine_Ops\<close>: the files of the same name
    in \<^verbatim>\<open>internal/engine\<close> and \<^verbatim>\<open>engine.go\<close>; one definition per operation or critical section, composed as the
    code composes them. \<^verbatim>\<open>Sample\<close> is the engine the witnesses use.
  \<^item> \<^verbatim>\<open>Engine_Theorems\<close>: the sequential contracts: the fence, reading one's writes, the reconcile
    against the order-free specification \<open>converge\<close>, and what each refusal leaves behind.
  \<^item> \<^verbatim>\<open>Engine_Moves\<close>, \<^verbatim>\<open>Engine_Steps\<close>, \<^verbatim>\<open>Engine_Worlds\<close>, \<^verbatim>\<open>Sample_World\<close>, \<^verbatim>\<open>World_Theorems\<close>: the engine
    under concurrency. A world is the engine and what each of its goroutines is in the middle of, a
    step is one critical section of one goroutine, and the properties hold in every reachable world.
    Three steps are coarser than the code's locks: a publication's checks of the closed flag and of the
    scope's stop are one step with its commit, and \<open>dropScope\<close> and \<open>Close\<close> (up to its wait) are one each.
  \<^item> \<^verbatim>\<open>Activation\<close>, \<^verbatim>\<open>Activation_Theorems\<close>: \<^verbatim>\<open>engine/activate.go\<close>: the scope verbs and the holders of
    the slots, a refinement of the world model (Start's own bring-up is a step of the world model only).
  \<^item> \<^verbatim>\<open>Client_Registry\<close>, \<^verbatim>\<open>Client_Ops\<close>, \<^verbatim>\<open>Client_Theorems\<close>, \<^verbatim>\<open>Typed_Reads\<close>: \<^verbatim>\<open>internal/client\<close>: the
    registry, every method that reads, writes or changes the client, and the numeric getters.
  \<^item> \<^verbatim>\<open>Debounce\<close>: \<^verbatim>\<open>internal/debounce\<close>, timers and their goroutines included.
  \<^item> \<^verbatim>\<open>Coordinator\<close>, \<^verbatim>\<open>Coordinator_Runs\<close>, \<^verbatim>\<open>Coordinator_Theorems\<close>: \<^verbatim>\<open>internal/group/coordinator.go\<close>.
  \<^item> \<^verbatim>\<open>Clone\<close>, \<^verbatim>\<open>Clone_Theorems\<close>: \<^verbatim>\<open>engine/clone.go\<close> on Go values over a heap of cells.
  \<^item> \<^verbatim>\<open>Typed_Groups\<close>, \<^verbatim>\<open>Typed_Groups_Int\<close>: \<^verbatim>\<open>api_group.go\<close> and \<^verbatim>\<open>group/codec.go\<close>, over any encoding of a
    type and then at \<open>int64\<close>.
  \<^item> \<^verbatim>\<open>Pg_Feed\<close>, \<^verbatim>\<open>Pg_Feed_Theorems\<close>: one changefeed of \<^verbatim>\<open>postgres_listen.go\<close> with its reader and its
    subscribers.
  \<^item> \<^verbatim>\<open>Pg_Store\<close>, \<^verbatim>\<open>Pg_Store_Theorems\<close>: the feeds of a store, their creators, holders and waiters.
  \<^item> \<^verbatim>\<open>Backend\<close>: the contract of a backend's rows as a locale (the last write wins; a revision stands
    for one value). \<^verbatim>\<open>Pg_Table\<close> and \<^verbatim>\<open>Pg_Table_Theorems\<close> interpret it on the table and the triggers of
    \<^verbatim>\<open>ddl/schema.sql\<close> with \<^verbatim>\<open>postgres.go\<close>, \<^verbatim>\<open>Mongo_Docs\<close> and \<^verbatim>\<open>Mongo_Docs_Theorems\<close> on the update
    pipelines of \<^verbatim>\<open>mongodb_crud.go\<close> with \<^verbatim>\<open>mongodb.go\<close>. \<^verbatim>\<open>Backend_Theorems\<close> sets the two side by side.
  \<^item> \<^verbatim>\<open>Mongo_Poll\<close>, \<^verbatim>\<open>Mongo_Poll_Theorems\<close>: one poll round trip of \<^verbatim>\<open>mongodb_changestream.go\<close>, and what a
    subscriber that re-reads announced keys learns of the collection, and what it does not.
  \<^item> \<^verbatim>\<open>Mongo_Feed\<close>, \<^verbatim>\<open>Mongo_Feed_Theorems\<close>: one MongoDB changefeed with its two readers, the change stream's and
    the poller's, simulated by the Postgres reader of \<^verbatim>\<open>Pg_Feed\<close>.
  \<^item> \<^verbatim>\<open>Mongo_Store\<close>, \<^verbatim>\<open>Mongo_Store_Theorems\<close>: the feeds of a MongoDB store and the collections they claim,
    refining \<^verbatim>\<open>Pg_Store\<close>.
  \<^item> \<^verbatim>\<open>Admin\<close>, \<^verbatim>\<open>Admin_Theorems\<close>: \<^verbatim>\<open>admin/admin.go\<close>, \<^verbatim>\<open>admin_responses.go\<close>: the guards and handlers of the
    value routes over the client. Fiber is outside: a request is what the handlers ask of it.
  \<^item> \<^verbatim>\<open>Catalog\<close>, \<^verbatim>\<open>Catalog_Theorems\<close>: \<^verbatim>\<open>internal/client/catalog.go\<close>, the key options of \<^verbatim>\<open>options.go\<close>, Register
    with them, and the catalog routes, over the heap of \<^verbatim>\<open>Clone\<close>.

  \<^bold>\<open>Conventions.\<close> A Go string is a list of bytes. A mutex is no field: what it makes atomic is one
  definition, and concurrency is an inductive step relation over those definitions. Errors are values
  (\<open>Inl\<close>, or \<open>Some\<close> where nil is \<open>None\<close>); a panic that the code recovers is the value it becomes.
  Revisions and times are \<open>int\<close>, because the code compares and copies them; sequence numbers and
  counters that only count up by one are \<open>nat\<close>, out of reach of their \<open>uint64\<close> bound. Where width
  matters the model keeps it: \<open>GetInt\<close> converts to \<open>64 word\<close>, typed groups of \<open>int64\<close> round at 53
  bits. Decoded values are not aliased, except in \<^verbatim>\<open>Clone\<close> and \<^verbatim>\<open>Catalog\<close>. What a
  consumer's callback, validator, decoder or applier does is an argument, and so is what a database, a
  driver or the tenant manager answers; \<open>during\<close> stands for whatever else the process does while a
  call is outside every lock.

  \<^bold>\<open>Fuel.\<close> Go's recursion in \<open>Clone\<close> may not end, so \<open>Clone\<close> and \<open>cloneReflectValue\<close> take fuel and
  \<open>clone_ends\<close> shows that enough fuel gives an answer on every value the validator accepts; what copies
  through them (key options, Register, catalog details) passes the fuel on, and \<open>cyclic_metadata_never_refused\<close>
  shows a registration no fuel is enough for. The catalog's walk through pointers, \<open>settle\<close>, is a
  \<open>partial_function\<close>, and ends on every accepted value (\<open>validated_settles\<close>). Nothing else needs fuel: loops are
  recursions on data, or steps of a relation.

  \<^bold>\<open>Not modelled.\<close> Metrics, spans and log lines (output only). The client options and
  constructors that build third-party handles, the registration of routes on Fiber's router, the logging
  guard \<^verbatim>\<open>internal/safelog\<close>, and the root package, which delegates to
  \<^verbatim>\<open>internal/client\<close>. Timeouts, delays and backoff appear only as the choice of
  which answer arrives. The SQL of the schema's migration, and what a server does with a statement beyond
  the semantics written out in \<^verbatim>\<open>Pg_Table\<close> and
  \<^verbatim>\<open>Mongo_Docs\<close>. The test harness of \<^verbatim>\<open>systemplanetest\<close>,
  examples and tests.
\<close>

end
